(* ===== verification/Prelude.thy ===== *)
theory Prelude
  imports Main "HOL-Library.AList" "HOL-Library.Char_ord" "HOL-Library.List_Lexorder"
    "HOL-Library.Sublist"
begin

text \<open>
  What every component shares: results (a raise is \<open>Inl\<close>), Python dictionaries (association lists
  in insertion order), the string methods the sources call, and decimal numbers. A string is a list
  of code points below 256; the methods are those of Python's \<open>str\<close> on that range.
  The collections below gather the facts that the component theories hand to the simplifier.
\<close>

named_theorems dict_simps \<open>lookup and key-set laws of dictionaries\<close>
named_theorems str_simps \<open>laws of the string methods\<close>
named_theorems inv_intros \<open>operations that keep a component's invariant\<close>

section \<open>Results\<close>

type_synonym ('e, 'a) result = "'e + 'a"

definition bindR :: "('e, 'a) result \<Rightarrow> ('a \<Rightarrow> ('e, 'b) result) \<Rightarrow> ('e, 'b) result" where
  "bindR m f = (case m of Inl e \<Rightarrow> Inl e | Inr x \<Rightarrow> f x)"

lemma bindR_simps [simp]:
  "bindR (Inl e) f = Inl e"
  "bindR (Inr x) f = f x"
  by (simp_all add: bindR_def)

lemma bindR_eq_Inr [simp]: "bindR m f = Inr y \<longleftrightarrow> (\<exists>x. m = Inr x \<and> f x = Inr y)"
  by (cases m) auto

lemma bindR_eq_Inl: "bindR m f = Inl e \<longleftrightarrow> m = Inl e \<or> (\<exists>x. m = Inr x \<and> f x = Inl e)"
  by (cases m) auto

lemma bindR_cong [fundef_cong]:
  "m = m' \<Longrightarrow> (\<And>x. m' = Inr x \<Longrightarrow> f x = f' x) \<Longrightarrow> bindR m f = bindR m' f'"
  by (cases m') auto

text \<open>\<open>guardR c e\<close> is \<open>if c: raise e\<close>.\<close>

definition guardR :: "bool \<Rightarrow> 'e \<Rightarrow> ('e, unit) result" where
  "guardR c e = (if c then Inl e else Inr ())"

lemma guardR_simps [simp]:
  "guardR True e = Inl e"
  "guardR False e = Inr ()"
  "guardR c e = Inr u \<longleftrightarrow> \<not> c"
  by (auto simp: guardR_def)

fun returned :: "('e, 'a) result \<Rightarrow> bool" where
  "returned (Inl e) = False"
| "returned (Inr x) = True"

lemma returnedE [elim]: "returned m \<Longrightarrow> (\<And>x. m = Inr x \<Longrightarrow> P) \<Longrightarrow> P"
  by (cases m) auto

text \<open>A loop that may raise: the first raise ends it.\<close>

fun foldR :: "('a \<Rightarrow> 's \<Rightarrow> ('e, 's) result) \<Rightarrow> 'a list \<Rightarrow> 's \<Rightarrow> ('e, 's) result" where
  "foldR f [] s = Inr s"
| "foldR f (x # xs) s = bindR (f x s) (foldR f xs)"

lemma foldR_keeps:
  assumes "foldR f xs s = Inr s'" and "P s"
    and "\<And>x s s'. x \<in> set xs \<Longrightarrow> P s \<Longrightarrow> f x s = Inr s' \<Longrightarrow> P s'"
  shows "P s'"
  using assms
proof (induction xs arbitrary: s)
  case Nil
  then show ?case by simp
next
  case (Cons x xs)
  from Cons.prems(1) obtain t where t: "f x s = Inr t" "foldR f xs t = Inr s'" by auto
  have "P t" using Cons.prems(2) Cons.prems(3)[of x s t] t(1) by simp
  with Cons.IH[OF t(2)] Cons.prems(3) show ?case by (meson list.set_intros(2))
qed

section \<open>Dictionaries\<close>

text \<open>
  A Python dict keeps insertion order: assigning an existing key keeps its place, a new key goes
  last. \<open>AList.update\<close> does the same, \<open>AList.delete\<close> is \<open>pop\<close>.
\<close>

type_synonym ('k, 'v) dict = "('k \<times> 'v) list"

abbreviation dget :: "('k, 'v) dict \<Rightarrow> 'k \<Rightarrow> 'v option" where
  "dget d k \<equiv> map_of d k"

abbreviation dset :: "'k \<Rightarrow> 'v \<Rightarrow> ('k, 'v) dict \<Rightarrow> ('k, 'v) dict" where
  "dset k v d \<equiv> AList.update k v d"

abbreviation dpop :: "'k \<Rightarrow> ('k, 'v) dict \<Rightarrow> ('k, 'v) dict" where
  "dpop k d \<equiv> AList.delete k d"

abbreviation keys :: "('k, 'v) dict \<Rightarrow> 'k list" where
  "keys d \<equiv> map fst d"

definition setdefault :: "'k \<Rightarrow> 'v \<Rightarrow> ('k, 'v) dict \<Rightarrow> ('k, 'v) dict" where
  "setdefault k v d = (case dget d k of None \<Rightarrow> dset k v d | Some _ \<Rightarrow> d)"

lemma dget_dset [dict_simps, simp]: "dget (dset k v d) j = (if j = k then Some v else dget d j)"
  by (simp add: update_conv')

lemma dget_dpop [dict_simps, simp]: "dget (dpop k d) j = (if j = k then None else dget d j)"
  by (simp add: delete_conv')

lemma keys_dset [dict_simps]: "set (keys (dset k v d)) = insert k (set (keys d))"
  by (auto simp: update_keys)

lemma distinct_dset [dict_simps, simp]: "distinct (keys d) \<Longrightarrow> distinct (keys (dset k v d))"
  by (rule distinct_update)

lemma distinct_dpop [dict_simps, simp]: "distinct (keys d) \<Longrightarrow> distinct (keys (dpop k d))"
  by (rule distinct_delete)

lemma dget_setdefault [dict_simps]:
  "dget (setdefault k v d) j =
     (if j = k then Some (case dget d k of None \<Rightarrow> v | Some w \<Rightarrow> w) else dget d j)"
  by (simp add: setdefault_def split: option.split)

lemma distinct_setdefault [dict_simps]:
  "distinct (keys d) \<Longrightarrow> distinct (keys (setdefault k v d))"
  by (simp add: setdefault_def split: option.split)

lemma dget_Some_key: "dget d k = Some v \<Longrightarrow> k \<in> set (keys d)"
  by (auto dest: map_of_SomeD simp: image_iff intro!: bexI)

lemma keys_dset_same: "dget d k = Some w \<Longrightarrow> keys (dset k v d) = keys d"
  using dget_Some_key[of d k w] by (simp add: update_keys)

lemma dget_eq_Some_iff: "distinct (keys d) \<Longrightarrow> dget d k = Some v \<longleftrightarrow> (k, v) \<in> set d"
  by (simp add: map_of_eq_Some_iff)

lemma dset_mem: "x \<in> set (dset k v xs) \<Longrightarrow> x \<in> set xs \<or> x = (k, v)"
  by (induction xs) (auto split: if_splits)

lemma dget_filter_distinct:
  "distinct (keys u) \<Longrightarrow> dget (filter (\<lambda>(p, h). P h) u) q
     = (case dget u q of None \<Rightarrow> None | Some h \<Rightarrow> if P h then Some h else None)"
proof (induction u)
  case (Cons x u)
  obtain p h where x: "x = (p, h)" by force
  have "dget u p = None" using Cons.prems x by (simp add: map_of_eq_None_iff)
  with Cons x show ?case by (auto split: option.splits)
qed simp

section \<open>Strings\<close>

definition is_space :: "char \<Rightarrow> bool" where
  "is_space c = (of_char c \<in> {9, 10, 11, 12, 13, 28, 29, 30, 31, 32, 133, 160 :: nat})"

definition lstrip :: "string \<Rightarrow> string" where
  "lstrip s = dropWhile is_space s"

definition strip :: "string \<Rightarrow> string" where
  "strip s = rev (dropWhile is_space (rev (dropWhile is_space s)))"

definition rstrip_chars :: "char set \<Rightarrow> string \<Rightarrow> string" where
  "rstrip_chars cs s = rev (dropWhile (\<lambda>c. c \<in> cs) (rev s))"

definition strip_chars :: "char set \<Rightarrow> string \<Rightarrow> string" where
  "strip_chars cs s = rstrip_chars cs (dropWhile (\<lambda>c. c \<in> cs) s)"

definition lower_char :: "char \<Rightarrow> char" where
  "lower_char c = (let n = of_char c :: nat in
     if (65 \<le> n \<and> n \<le> 90) \<or> (192 \<le> n \<and> n \<le> 222 \<and> n \<noteq> 215) then char_of (n + 32) else c)"

definition lower :: "string \<Rightarrow> string" where
  "lower s = map lower_char s"

text \<open>\<open>str.isdigit\<close> accepts the superscripts two, three and one, which \<open>int\<close> then refuses.\<close>

definition is_digit :: "char \<Rightarrow> bool" where
  "is_digit c = (48 \<le> (of_char c :: nat) \<and> (of_char c :: nat) \<le> 57)"

definition isdigit :: "string \<Rightarrow> bool" where
  "isdigit s = (s \<noteq> [] \<and> (\<forall>c \<in> set s. is_digit c \<or> of_char c \<in> {178, 179, 185 :: nat}))"

definition ascii_digits :: "string \<Rightarrow> bool" where
  "ascii_digits s = (s \<noteq> [] \<and> (\<forall>c \<in> set s. is_digit c))"

definition digit_val :: "char \<Rightarrow> nat" where
  "digit_val c = of_char c - 48"

definition nat_of_digits :: "string \<Rightarrow> nat" where
  "nat_of_digits s = foldl (\<lambda>n c. n * 10 + digit_val c) 0 s"

text \<open>\<open>int\<close> on a string for which \<open>isdigit\<close> holds; \<open>None\<close> is its \<open>ValueError\<close>.\<close>

definition int_of_digits :: "string \<Rightarrow> nat option" where
  "int_of_digits s = (if ascii_digits s then Some (nat_of_digits s) else None)"

fun nat_str :: "nat \<Rightarrow> string" where
  "nat_str n = (if n < 10 then [char_of (48 + n)] else nat_str (n div 10) @ [char_of (48 + n mod 10)])"

declare nat_str.simps [simp del]

definition int_str :: "int \<Rightarrow> string" where
  "int_str i = (if i < 0 then CHR ''-'' # nat_str (nat (- i)) else nat_str (nat i))"

fun split_on :: "char \<Rightarrow> string \<Rightarrow> string list" where
  "split_on c [] = [[]]"
| "split_on c (x # xs) =
     (if x = c then [] # split_on c xs
      else (case split_on c xs of [] \<Rightarrow> [[x]] | w # ws \<Rightarrow> (x # w) # ws))"

fun join :: "string \<Rightarrow> string list \<Rightarrow> string" where
  "join sep [] = []"
| "join sep [w] = w"
| "join sep (w # v # ws) = w @ sep @ join sep (v # ws)"

definition str_partition :: "char \<Rightarrow> string \<Rightarrow> string \<times> bool \<times> string" where
  "str_partition c s = (case dropWhile (\<lambda>x. x \<noteq> c) s of
     [] \<Rightarrow> (s, False, []) | _ # r \<Rightarrow> (takeWhile (\<lambda>x. x \<noteq> c) s, True, r))"

definition rpartition :: "char \<Rightarrow> string \<Rightarrow> string \<times> bool \<times> string" where
  "rpartition c s = (case str_partition c (rev s) of
     (b, True, a) \<Rightarrow> (rev a, True, rev b) | (b, False, _) \<Rightarrow> ([], False, s))"

definition startswith :: "string \<Rightarrow> string \<Rightarrow> bool" where
  "startswith s p = (take (length p) s = p)"

definition endswith :: "string \<Rightarrow> string \<Rightarrow> bool" where
  "endswith s p = (length p \<le> length s \<and> drop (length s - length p) s = p)"

subsection \<open>Laws of the string methods\<close>

lemma split_on_nonempty [simp]: "split_on c s \<noteq> []"
  by (induction s) (auto split: list.split)

lemma split_on_no_sep [str_simps]: "c \<notin> set s \<Longrightarrow> split_on c s = [s]"
  by (induction s) auto

lemma split_on_append [str_simps]: "split_on c (s @ c # t) = split_on c s @ split_on c t"
proof (induction s)
  case Nil
  show ?case by simp
next
  case (Cons x s)
  then show ?case by (cases "split_on c s") auto
qed

lemma split_on_parts: "w \<in> set (split_on c s) \<Longrightarrow> c \<notin> set w"
  by (induction s arbitrary: w) (auto split: list.splits if_splits)

lemma join_Cons: "ws \<noteq> [] \<Longrightarrow> join sep (w # ws) = w @ sep @ join sep ws"
  by (cases ws) simp_all

lemma join_split_on [str_simps]: "join [c] (split_on c s) = s"
proof (induction s)
  case Nil
  show ?case by simp
next
  case (Cons x s)
  show ?case
  proof (cases "x = c")
    case True
    then show ?thesis using Cons by (simp add: join_Cons)
  next
    case False
    then show ?thesis using Cons
      by (cases "split_on c s"; cases "tl (split_on c s)") auto
  qed
qed

lemma split_on_inj: "split_on c s = split_on c t \<longleftrightarrow> s = t"
  by (metis join_split_on)

lemma split_on_join [str_simps]:
  "ws \<noteq> [] \<Longrightarrow> \<forall>w \<in> set ws. c \<notin> set w \<Longrightarrow> split_on c (join [c] ws) = ws"
proof (induction ws rule: induct_list012)
  case (3 w v ws)
  have "split_on c (join [c] (w # v # ws)) = split_on c (w @ c # join [c] (v # ws))" by simp
  also have "\<dots> = split_on c w @ split_on c (join [c] (v # ws))" by (rule split_on_append)
  finally show ?case using 3 by (simp add: split_on_no_sep)
qed (simp_all add: split_on_no_sep)

lemma endswith_iff: "endswith s p \<longleftrightarrow> (\<exists>q. s = q @ p)"
  by (auto simp: endswith_def) (metis append_take_drop_id)

lemma startswith_iff: "startswith s p \<longleftrightarrow> (\<exists>q. s = p @ q)"
  unfolding startswith_def by (metis append_eq_conv_conj append_take_drop_id)

lemma str_partition_found [str_simps]:
  "c \<notin> set a \<Longrightarrow> str_partition c (a @ c # b) = (a, True, b)"
proof -
  assume a: "c \<notin> set a"
  then have "dropWhile (\<lambda>x. x \<noteq> c) (a @ c # b) = c # b"
    and "takeWhile (\<lambda>x. x \<noteq> c) (a @ c # b) = a"
    by (auto simp: dropWhile_append takeWhile_append)
  then show ?thesis by (simp add: str_partition_def)
qed

lemma str_partition_none [str_simps]: "c \<notin> set s \<Longrightarrow> str_partition c s = (s, False, [])"
proof -
  assume "c \<notin> set s"
  then have "dropWhile (\<lambda>x. x \<noteq> c) s = []" by (auto simp: dropWhile_eq_Nil_conv)
  then show ?thesis unfolding str_partition_def by (simp only: list.case)
qed

text \<open>Decimal numbers: printing and reading back.\<close>

lemma of_char_char_of_digit: "n < 10 \<Longrightarrow> of_char (char_of (48 + n) :: char) = (48 + n :: nat)"
  by simp

lemma digits_nat_str [str_simps]: "ascii_digits (nat_str n)"
proof (induction n rule: nat_str.induct)
  case (1 n)
  then show ?case
    by (subst nat_str.simps) (auto simp: ascii_digits_def is_digit_def)
qed

lemma nat_of_digits_append: "nat_of_digits (s @ [c]) = nat_of_digits s * 10 + digit_val c"
  by (simp add: nat_of_digits_def)

lemma nat_of_digits_nat_str [str_simps]: "nat_of_digits (nat_str n) = n"
proof (induction n rule: nat_str.induct)
  case (1 n)
  show ?case
  proof (cases "n < 10")
    case True
    then show ?thesis by (subst nat_str.simps) (simp add: nat_of_digits_def digit_val_def)
  next
    case False
    have "nat_of_digits (nat_str n) = nat_of_digits (nat_str (n div 10) @ [char_of (48 + n mod 10)])"
      using False by (subst nat_str.simps) simp
    also have "\<dots> = n div 10 * 10 + n mod 10"
      using "1.IH" [OF False] by (simp add: nat_of_digits_append digit_val_def)
    finally show ?thesis by simp
  qed
qed

lemma int_of_digits_nat_str [str_simps, simp]: "int_of_digits (nat_str n) = Some n"
  by (simp add: int_of_digits_def str_simps)

lemma nat_str_inj [simp]: "nat_str m = nat_str n \<longleftrightarrow> m = n"
  by (metis nat_of_digits_nat_str)

lemma ascii_digits_isdigit: "ascii_digits s \<Longrightarrow> isdigit s"
  by (auto simp: ascii_digits_def isdigit_def)

lemma ascii_digits_not_in:
  "ascii_digits s \<Longrightarrow> \<not> is_digit c \<Longrightarrow> c \<notin> set s"
  by (auto simp: ascii_digits_def)

lemma foldR_append: "foldR f (xs @ ys) s = bindR (foldR f xs s) (foldR f ys)"
proof (induction xs arbitrary: s)
  case (Cons x xs)
  then show ?case by (cases "f x s") simp_all
qed simp

lemma find_Some_split: "find P xs = Some x \<Longrightarrow> \<exists>as cs. xs = as @ x # cs \<and> P x \<and> (\<forall>y \<in> set as. \<not> P y)"
proof (induction xs)
  case (Cons a xs)
  show ?case
  proof (cases "P a")
    case True
    with Cons.prems show ?thesis by (intro exI[of _ "[]"] exI[of _ xs]) auto
  next
    case False
    with Cons obtain as cs where "xs = as @ x # cs" "P x" "\<forall>y \<in> set as. \<not> P y" by auto
    with False show ?thesis by (intro exI[of _ "a # as"] exI[of _ cs]) auto
  qed
qed simp

lemma strip_id: "s \<noteq> [] \<Longrightarrow> \<not> is_space (hd s) \<Longrightarrow> \<not> is_space (last s) \<Longrightarrow> strip s = s"
proof -
  assume a: "s \<noteq> []" "\<not> is_space (hd s)" "\<not> is_space (last s)"
  then have "dropWhile is_space s = s" by (cases s) auto
  moreover have "dropWhile is_space (rev s) = rev s" using a by (cases "rev s") (auto simp: hd_rev[symmetric])
  ultimately show ?thesis by (simp add: strip_def)
qed

lemma digit_plain: "is_digit c \<Longrightarrow> lower_char c = c \<and> c \<noteq> CHR ''.'' \<and> \<not> is_space c"
  by (auto simp: is_digit_def lower_char_def is_space_def Let_def)

lemma nat_str_nonempty [simp]: "nat_str n \<noteq> []"
  using digits_nat_str[of n] by (auto simp: ascii_digits_def)

section \<open>Reading integers\<close>

text \<open>\<open>int\<close> on a string: blanks around, a sign, digits with single underscores between them.\<close>

definition digits_int :: "string \<Rightarrow> nat option" where
  "digits_int s = (let parts = split_on (CHR ''_'') s in
     if list_all ascii_digits parts then Some (nat_of_digits (concat parts)) else None)"

definition py_int :: "string \<Rightarrow> int option" where
  "py_int s = (case strip s of
     [] \<Rightarrow> None
   | c # r \<Rightarrow> if c = CHR ''-'' then map_option (\<lambda>n. - int n) (digits_int r)
       else if c = CHR ''+'' then map_option int (digits_int r)
       else map_option int (digits_int (c # r)))"

lemma nat_str_digit: "c \<in> set (nat_str n) \<Longrightarrow> is_digit c"
  using digits_nat_str[of n] by (auto simp: ascii_digits_def)

lemma digits_int_nat_str: "digits_int (nat_str n) = Some n"
proof -
  have "CHR ''_'' \<notin> set (nat_str n)" using nat_str_digit by (fastforce simp: is_digit_def)
  then show ?thesis by (simp add: digits_int_def split_on_no_sep digits_nat_str nat_of_digits_nat_str)
qed

lemma digit_edges: "\<not> is_space (hd (nat_str n))" "\<not> is_space (last (nat_str n))"
  using nat_str_digit digit_plain by (meson hd_in_set last_in_set nat_str_nonempty)+

lemma py_int_int_str [simp]: "py_int (int_str i) = Some i"
proof (cases "i < 0")
  case True
  have "strip (int_str i) = int_str i"
    by (rule strip_id) (use True digit_edges in \<open>auto simp: int_str_def is_space_def\<close>)
  with True show ?thesis by (simp add: py_int_def int_str_def digits_int_nat_str)
next
  case False
  obtain c r where cr: "nat_str (nat i) = c # r" by (cases "nat_str (nat i)") auto
  then have "is_digit c" using nat_str_digit[of c "nat i"] by simp
  then have "c \<noteq> CHR ''-''" "c \<noteq> CHR ''+''" by (auto simp: is_digit_def)
  moreover have "strip (int_str i) = c # r"
    using strip_id[of "nat_str (nat i)"] digit_edges[of "nat i"] False cr by (simp add: int_str_def)
  ultimately show ?thesis using digits_int_nat_str[of "nat i"] False cr by (simp add: py_int_def)
qed

lemma int_str_chars: "c \<in> set (int_str i) \<Longrightarrow> is_digit c \<or> c = CHR ''-''"
  using nat_str_digit by (auto simp: int_str_def split: if_splits)

lemma int_str_no_dot: "CHR ''.'' \<notin> set (int_str i)" "CHR '':'' \<notin> set (int_str i)"
  using int_str_chars[of _ i] by (auto dest: int_str_chars simp: is_digit_def)

end
