(* ===== verification/IpAddr.thy ===== *)
theory IpAddr
  imports Prelude
begin

text \<open>
  Python's \<open>ipaddress\<close> as the sources use it: \<open>ip_address\<close>, \<open>ip_network\<close> (strict or not), \<open>str\<close> of
  both, membership of an address in a network and \<open>subnet_of\<close>. An address is its family, its value
  and, for IPv6, its optional zone id; a network adds the prefix length. The lemmas relate the masks
  of the implementation to address ranges and give the containment laws the routing rules rest on.
\<close>

unbundle bit_operations_syntax

section \<open>Addresses and networks\<close>

datatype family = V4 | V6

fun bits :: "family \<Rightarrow> nat" where
  "bits V4 = 32"
| "bits V6 = 128"

record ip_addr =
  ia_fam :: family
  ia_val :: nat
  ia_scope :: "string option"

record ip_net =
  in_fam :: family
  in_plen :: nat
  in_addr :: nat
  in_scope :: "string option"

definition netmask :: "family \<Rightarrow> nat \<Rightarrow> nat" where
  "netmask f p = push_bit (bits f - p) (mask p)"

definition hostmask :: "family \<Rightarrow> nat \<Rightarrow> nat" where
  "hostmask f p = mask (bits f - p)"

definition broadcast :: "ip_net \<Rightarrow> nat" where
  "broadcast n = in_addr n OR hostmask (in_fam n) (in_plen n)"

text \<open>\<open>ip in net\<close>: same version and the masked address is the network's.\<close>

definition ip_in_net :: "ip_addr \<Rightarrow> ip_net \<Rightarrow> bool" where
  "ip_in_net a n = (ia_fam a = in_fam n \<and>
     ia_val a AND netmask (in_fam n) (in_plen n) = in_addr n)"

text \<open>
  \<open>a.subnet_of(b)\<close> for networks of one version. The network addresses are compared as address
  objects, which are equal only when their zone ids agree; broadcast addresses carry none.
\<close>

definition addr_le :: "nat \<times> string option \<Rightarrow> nat \<times> string option \<Rightarrow> bool" where
  "addr_le x y = (fst x < fst y \<or> x = y)"

definition subnet_of :: "ip_net \<Rightarrow> ip_net \<Rightarrow> bool" where
  "subnet_of a b = (addr_le (in_addr b, in_scope b) (in_addr a, in_scope a) \<and>
     broadcast a \<le> broadcast b)"

definition net_ok :: "ip_net \<Rightarrow> bool" where
  "net_ok n = (in_plen n \<le> bits (in_fam n) \<and> in_addr n < 2 ^ bits (in_fam n) \<and>
     in_addr n AND netmask (in_fam n) (in_plen n) = in_addr n)"

definition addr_ok :: "ip_addr \<Rightarrow> bool" where
  "addr_ok a = (ia_val a < 2 ^ bits (ia_fam a))"

section \<open>Reading\<close>

text \<open>One decimal octet: digits only, at most three, no leading zero, at most 255.\<close>

definition parse_octet :: "string \<Rightarrow> nat option" where
  "parse_octet s =
     (if \<not> ascii_digits s then None
      else if length s > 3 then None
      else if s \<noteq> ''0'' \<and> hd s = CHR ''0'' then None
      else if nat_of_digits s > 255 then None
      else Some (nat_of_digits s))"

definition v4_int :: "string \<Rightarrow> nat option" where
  "v4_int s = (case map parse_octet (split_on CHR ''.'' s) of
     [Some a, Some b, Some c, Some d] \<Rightarrow> Some (((a * 256 + b) * 256 + c) * 256 + d)
   | _ \<Rightarrow> None)"

definition hex_val :: "char \<Rightarrow> nat option" where
  "hex_val c = (let n = of_char c :: nat in
     if 48 \<le> n \<and> n \<le> 57 then Some (n - 48)
     else if 97 \<le> n \<and> n \<le> 102 then Some (n - 87)
     else if 65 \<le> n \<and> n \<le> 70 then Some (n - 55) else None)"

text \<open>An empty part has no hexadecimal value (\<open>int('', 16)\<close> raises).\<close>

definition parse_hextet :: "string \<Rightarrow> nat option" where
  "parse_hextet s =
     (if s = [] \<or> length s > 4 \<or> (\<exists>c \<in> set s. hex_val c = None) then None
      else Some (foldl (\<lambda>n c. n * 16 + (case hex_val c of Some v \<Rightarrow> v | None \<Rightarrow> 0)) 0 s))"

fun hextets_int :: "nat \<Rightarrow> string list \<Rightarrow> nat option" where
  "hextets_int acc [] = Some acc"
| "hextets_int acc (p # ps) =
     (case parse_hextet p of None \<Rightarrow> None | Some v \<Rightarrow> hextets_int (acc * 65536 + v) ps)"

definition hex_digit :: "nat \<Rightarrow> char" where
  "hex_digit n = char_of (if n < 10 then 48 + n else 87 + n)"

fun hex_str :: "nat \<Rightarrow> string" where
  "hex_str n = (if n < 16 then [hex_digit n] else hex_str (n div 16) @ [hex_digit (n mod 16)])"

declare hex_str.simps [simp del]

text \<open>The parts of an IPv6 text, with a dotted-quad suffix turned into two hextets.\<close>

definition v6_parts :: "string \<Rightarrow> string list option" where
  "v6_parts s = (let ps = split_on CHR '':'' s in
     if length ps < 3 then None
     else if CHR ''.'' \<in> set (last ps) then
       (case v4_int (last ps) of None \<Rightarrow> None
        | Some v \<Rightarrow> Some (butlast ps @ [hex_str (v div 65536), hex_str (v mod 65536)]))
     else Some ps)"

text \<open>The hextets before and after the double colon, with the zero hextets it stands for.\<close>

definition v6_gap :: "string list \<Rightarrow> string list \<Rightarrow> nat option" where
  "v6_gap hi lo = (if length hi + length lo > 7 then None
     else (case hextets_int 0 hi of None \<Rightarrow> None
           | Some v \<Rightarrow> hextets_int (v * 65536 ^ (8 - (length hi + length lo))) lo))"

definition v6_int :: "string \<Rightarrow> nat option" where
  "v6_int s = (case v6_parts s of None \<Rightarrow> None | Some ps \<Rightarrow>
     (let n = length ps; gaps = filter (\<lambda>i. ps ! i = []) [1..<n - 1] in
      if n > 9 then None
      else case gaps of
        [] \<Rightarrow> (if n = 8 \<and> hd ps \<noteq> [] \<and> last ps \<noteq> [] then hextets_int 0 ps else None)
      | [k] \<Rightarrow>
          (let hi = take k ps; lo = drop (k + 1) ps;
               hi' = (if hd ps = [] then tl hi else hi);
               lo' = (if last ps = [] then butlast lo else lo) in
           if hd ps = [] \<and> hi' \<noteq> [] then None
           else if last ps = [] \<and> lo' \<noteq> [] then None
           else v6_gap hi' lo')
      | _ \<Rightarrow> None))"

definition split_scope :: "string \<Rightarrow> (string \<times> string option) option" where
  "split_scope s = (case str_partition CHR ''%'' s of
     (a, False, _) \<Rightarrow> Some (a, None)
   | (a, True, z) \<Rightarrow> (if z = [] \<or> CHR ''%'' \<in> set z then None else Some (a, Some z)))"

definition v4_addr :: "string \<Rightarrow> ip_addr option" where
  "v4_addr s = (if CHR ''/'' \<in> set s then None
     else map_option (\<lambda>v. \<lparr>ia_fam = V4, ia_val = v, ia_scope = None\<rparr>) (v4_int s))"

definition v6_addr :: "string \<Rightarrow> ip_addr option" where
  "v6_addr s = (if CHR ''/'' \<in> set s then None
     else case split_scope s of None \<Rightarrow> None
     | Some (a, z) \<Rightarrow> map_option (\<lambda>v. \<lparr>ia_fam = V6, ia_val = v, ia_scope = z\<rparr>) (v6_int a))"

definition ip_address :: "string \<Rightarrow> ip_addr option" where
  "ip_address s = (case v4_addr s of Some a \<Rightarrow> Some a | None \<Rightarrow> v6_addr s)"

text \<open>
  The part after the slash: a prefix length, or for IPv4 a netmask or a hostmask in dotted form.
  The absent part is the full length.
\<close>

definition prefix_of_string :: "family \<Rightarrow> string \<Rightarrow> nat option" where
  "prefix_of_string f s =
     (if ascii_digits s \<and> nat_of_digits s \<le> bits f then Some (nat_of_digits s) else None)"

definition prefix_of_mask :: "nat \<Rightarrow> nat option" where
  "prefix_of_mask m = (case filter (\<lambda>p. netmask V4 p = m) [0..<33] of [] \<Rightarrow> None | p # _ \<Rightarrow> Some p)"

definition prefix_of_ip_string :: "string \<Rightarrow> nat option" where
  "prefix_of_ip_string s = (case v4_int s of None \<Rightarrow> None
     | Some m \<Rightarrow> (case prefix_of_mask m of Some p \<Rightarrow> Some p
                | None \<Rightarrow> prefix_of_mask (m XOR mask 32)))"

definition make_plen :: "family \<Rightarrow> string option \<Rightarrow> nat option" where
  "make_plen f m = (case m of None \<Rightarrow> Some (bits f)
     | Some s \<Rightarrow> (case prefix_of_string f s of Some p \<Rightarrow> Some p
                | None \<Rightarrow> (if f = V4 then prefix_of_ip_string s else None)))"

text \<open>
  The constructor of one family: \<open>None\<close> when address or mask do not parse, \<open>Some None\<close> when
  \<open>strict\<close> refuses the host bits (that error is not caught by \<open>ip_network\<close>).
\<close>

definition net_of :: "family \<Rightarrow> bool \<Rightarrow> string \<Rightarrow> ip_net option option" where
  "net_of f strict s = (case split_on CHR ''/'' s of
     [] \<Rightarrow> None
   | a # ms \<Rightarrow>
     (if length ms > 1 then None
      else case (if f = V4 then v4_addr a else v6_addr a) of None \<Rightarrow> None
      | Some ad \<Rightarrow>
        (case make_plen f (case ms of [] \<Rightarrow> None | m # _ \<Rightarrow> Some m) of None \<Rightarrow> None
         | Some p \<Rightarrow>
           (let masked = ia_val ad AND netmask f p in
            if masked = ia_val ad
            then Some (Some \<lparr>in_fam = f, in_plen = p, in_addr = ia_val ad, in_scope = ia_scope ad\<rparr>)
            else if strict then Some None
            else Some (Some \<lparr>in_fam = f, in_plen = p, in_addr = masked, in_scope = None\<rparr>)))))"

definition ip_network :: "bool \<Rightarrow> string \<Rightarrow> ip_net option" where
  "ip_network strict s = (case net_of V4 strict s of Some r \<Rightarrow> r
     | None \<Rightarrow> (case net_of V6 strict s of Some r \<Rightarrow> r | None \<Rightarrow> None))"

section \<open>Writing\<close>

definition v4_str :: "nat \<Rightarrow> string" where
  "v4_str n = join ''.'' [nat_str (n div 16777216 mod 256), nat_str (n div 65536 mod 256),
                         nat_str (n div 256 mod 256), nat_str (n mod 256)]"

definition v6_hextets :: "nat \<Rightarrow> string list" where
  "v6_hextets n = map (\<lambda>i. hex_str (n div 65536 ^ (7 - i) mod 65536)) [0..<8]"

text \<open>The longest run of zero hextets: its start and its length (0 when there is none).\<close>

fun best_run :: "nat \<Rightarrow> string list \<Rightarrow> nat \<Rightarrow> nat \<times> nat \<Rightarrow> nat \<times> nat" where
  "best_run i [] len best = best"
| "best_run i (h # hs) len best =
     (if h = ''0'' then
        (let len' = len + 1 in
         best_run (i + 1) hs len' (if len' > snd best then (i + 1 - len', len') else best))
      else best_run (i + 1) hs 0 best)"

definition compress_hextets :: "string list \<Rightarrow> string list" where
  "compress_hextets hs = (case best_run 0 hs 0 (0, 0) of (st, len) \<Rightarrow>
     (if len > 1 then
        (if st = 0 then [[]] else []) @ take st hs @ [[]] @
        drop (st + len) hs @ (if st + len = length hs then [[]] else [])
      else hs))"

definition v6_str :: "nat \<Rightarrow> string" where
  "v6_str n = join '':'' (compress_hextets (v6_hextets n))"

definition addr_str :: "family \<Rightarrow> nat \<Rightarrow> string option \<Rightarrow> string" where
  "addr_str f v z = (case f of V4 \<Rightarrow> v4_str v
     | V6 \<Rightarrow> v6_str v @ (case z of None \<Rightarrow> [] | Some zid \<Rightarrow> CHR ''%'' # zid))"

definition ip_str :: "ip_addr \<Rightarrow> string" where
  "ip_str a = addr_str (ia_fam a) (ia_val a) (ia_scope a)"

definition net_str :: "ip_net \<Rightarrow> string" where
  "net_str n = addr_str (in_fam n) (in_addr n) (in_scope n) @ CHR ''/'' # nat_str (in_plen n)"

section \<open>Masks as address ranges\<close>

lemma and_shifted_mask:
  fixes v :: nat
  assumes "v < 2 ^ (k + p)"
  shows "v AND push_bit k (mask p) = v div 2 ^ k * 2 ^ k"
proof -
  have top: "\<not> bit v n" if "k + p \<le> n" for n
  proof -
    have "take_bit (k + p) v = v" using assms by (simp add: take_bit_nat_eq_self_iff)
    then show ?thesis using that by (metis bit_take_bit_iff not_le)
  qed
  have "v AND push_bit k (mask p) = push_bit k (drop_bit k v)"
  proof (rule bit_eqI)
    fix n
    show "bit (v AND push_bit k (mask p)) n = bit (push_bit k (drop_bit k v)) n"
      using top [of n] by (cases "k + p \<le> n") (auto simp: bit_simps)
  qed
  then show ?thesis by (simp add: push_bit_eq_mult drop_bit_eq_div)
qed

lemma and_netmask:
  assumes "v < 2 ^ bits f" and "p \<le> bits f"
  shows "v AND netmask f p = v div 2 ^ (bits f - p) * 2 ^ (bits f - p)"
  unfolding netmask_def using assms by (intro and_shifted_mask) simp

lemma or_hostmask:
  fixes v :: nat
  assumes "v mod 2 ^ k = 0"
  shows "v OR mask k = v + (2 ^ k - 1)"
proof -
  have "v AND mask k = 0" using assms by (simp flip: take_bit_eq_mask add: take_bit_eq_mod)
  then have "v OR mask k = v + mask k" by (simp add: disjunctive_add_eq_or)
  then show ?thesis by (simp add: mask_eq_exp_minus_1)
qed

text \<open>A well-formed network starts at a multiple of its size and ends one below the next.\<close>

abbreviation net_size :: "ip_net \<Rightarrow> nat" where
  "net_size n \<equiv> 2 ^ (bits (in_fam n) - in_plen n)"

lemma net_ok_aligned:
  assumes "net_ok n"
  shows "in_addr n div net_size n * net_size n = in_addr n" "in_addr n mod net_size n = 0"
proof -
  show *: "in_addr n div net_size n * net_size n = in_addr n"
    using assms and_netmask [of "in_addr n" "in_fam n" "in_plen n"] by (simp add: net_ok_def)
  show "in_addr n mod net_size n = 0" by (metis * mod_mult_self2_is_0)
qed

lemma broadcast_eq: "net_ok n \<Longrightarrow> broadcast n = in_addr n + (net_size n - 1)"
  by (simp add: broadcast_def hostmask_def or_hostmask net_ok_aligned)

lemma div_mult_eq_iff:
  fixes v a k :: nat
  assumes "0 < k" and "a div k * k = a"
  shows "v div k * k = a \<longleftrightarrow> a \<le> v \<and> v < a + k"
proof
  assume h: "v div k * k = a"
  have "v = v div k * k + v mod k" by simp
  with h have "v = a + v mod k" by simp
  moreover have "v mod k < k" using assms(1) by simp
  ultimately show "a \<le> v \<and> v < a + k" by linarith
next
  assume h: "a \<le> v \<and> v < a + k"
  have "v div k = a div k"
  proof (rule div_nat_eqI)
    show "k * (a div k) \<le> v" using h assms(2) by (simp add: mult.commute)
    show "v < k * Suc (a div k)" using h assms(2) by (simp add: mult.commute)
  qed
  then show "v div k * k = a" using assms(2) by simp
qed

lemma ip_in_net_range:
  assumes "net_ok n" and "addr_ok a"
  shows "ip_in_net a n \<longleftrightarrow> ia_fam a = in_fam n \<and> in_addr n \<le> ia_val a \<and> ia_val a \<le> broadcast n"
proof (cases "ia_fam a = in_fam n")
  case True
  let ?k = "net_size n"
  have p: "in_plen n \<le> bits (in_fam n)" using assms(1) by (simp add: net_ok_def)
  have v: "ia_val a < 2 ^ bits (in_fam n)" using assms(2) True by (simp add: addr_ok_def)
  have "ip_in_net a n \<longleftrightarrow> ia_val a div ?k * ?k = in_addr n"
    using True and_netmask [OF v p] by (simp add: ip_in_net_def)
  also have "\<dots> \<longleftrightarrow> in_addr n \<le> ia_val a \<and> ia_val a < in_addr n + ?k"
    by (rule div_mult_eq_iff) (simp_all add: net_ok_aligned [OF assms(1)])
  also have "\<dots> \<longleftrightarrow> in_addr n \<le> ia_val a \<and> ia_val a \<le> broadcast n"
    using broadcast_eq [OF assms(1)] by (auto simp: less_iff_succ_less_eq) (simp_all add: less_eq_iff_succ_less)
  finally show ?thesis using True by simp
qed (simp add: ip_in_net_def)

text \<open>Containment of networks is containment of their address ranges.\<close>

lemma subnet_of_sound:
  assumes "net_ok a" "net_ok b" "in_fam a = in_fam b" "subnet_of a b" "addr_ok x" "ip_in_net x a"
  shows "ip_in_net x b"
  using assms by (auto simp: ip_in_net_range subnet_of_def addr_le_def)

lemma aligned_between:
  fixes a b k m :: nat
  assumes "b \<le> a" "a + (k - 1) \<le> b + (m - 1)" "0 < k" "0 < m"
  shows "a < b + m" "k \<le> m"
  using assms by linarith+

lemma subnet_of_iff:
  assumes "net_ok a" "net_ok b" "in_fam a = in_fam b" "in_scope a = in_scope b"
  shows "subnet_of a b \<longleftrightarrow>
     in_plen b \<le> in_plen a \<and> in_addr a AND netmask (in_fam b) (in_plen b) = in_addr b"
proof -
  let ?k = "net_size a" and ?m = "net_size b"
  have pa: "in_plen a \<le> bits (in_fam b)" and pb: "in_plen b \<le> bits (in_fam b)"
    and va: "in_addr a < 2 ^ bits (in_fam b)"
    using assms by (auto simp: net_ok_def)
  have mask: "in_addr a AND netmask (in_fam b) (in_plen b) = in_addr b \<longleftrightarrow>
      in_addr b \<le> in_addr a \<and> in_addr a < in_addr b + ?m"
    using and_netmask [OF va pb] div_mult_eq_iff [of ?m "in_addr b" "in_addr a"]
      net_ok_aligned(1) [OF assms(2)] by simp
  have sub: "subnet_of a b \<longleftrightarrow> in_addr b \<le> in_addr a \<and> in_addr a + (?k - 1) \<le> in_addr b + (?m - 1)"
    using assms by (auto simp: subnet_of_def addr_le_def broadcast_eq)
  show ?thesis
  proof
    assume "subnet_of a b"
    then have *: "in_addr b \<le> in_addr a" "in_addr a + (?k - 1) \<le> in_addr b + (?m - 1)"
      using sub by auto
    then have "in_addr a < in_addr b + ?m" "?k \<le> ?m"
      using aligned_between [OF *] by auto
    moreover from this(2) have "bits (in_fam b) - in_plen a \<le> bits (in_fam b) - in_plen b"
      using assms(3) by (simp add: power_increasing_iff)
    ultimately show "in_plen b \<le> in_plen a \<and> in_addr a AND netmask (in_fam b) (in_plen b) = in_addr b"
      using mask *(1) pa pb by auto
  next
    assume h: "in_plen b \<le> in_plen a \<and> in_addr a AND netmask (in_fam b) (in_plen b) = in_addr b"
    then have lo: "in_addr b \<le> in_addr a" and hi: "in_addr a < in_addr b + ?m" using mask by auto
    have "?k dvd ?m" using h assms(3) by (intro le_imp_power_dvd) (simp add: diff_le_mono2)
    then obtain q where q: "?m = ?k * q" by (rule dvdE)
    obtain c where c: "in_addr a = c * ?k" using net_ok_aligned(1) [OF assms(1)] by metis
    obtain d where d: "in_addr b = d * ?m" using net_ok_aligned(1) [OF assms(2)] by metis
    have "c * ?k < (d * q + q) * ?k" using hi c d q by (simp add: algebra_simps)
    then have "c + 1 \<le> d * q + q" by simp
    then have "(c + 1) * ?k \<le> (d * q + q) * ?k" by (rule mult_le_mono1)
    then have "in_addr a + ?k \<le> in_addr b + ?m" using c d q by (simp add: algebra_simps)
    moreover have "0 < ?k" "0 < ?m" by simp_all
    ultimately have "in_addr a + (?k - 1) \<le> in_addr b + (?m - 1)" by linarith
    with lo show "subnet_of a b" using sub by simp
  qed
qed

section \<open>What the readers return\<close>

lemma parse_octet_bound: "parse_octet s = Some v \<Longrightarrow> v \<le> 255"
  by (auto simp: parse_octet_def split: if_splits)

lemma v4_int_cases:
  assumes "v4_int s = Some v"
  obtains a b c d where "a \<le> 255" "b \<le> 255" "c \<le> 255" "d \<le> 255"
    "v = ((a * 256 + b) * 256 + c) * 256 + d"
    "map parse_octet (split_on CHR ''.'' s) = [Some a, Some b, Some c, Some d]"
proof -
  from assms obtain a b c d where
    m: "map parse_octet (split_on CHR ''.'' s) = [Some a, Some b, Some c, Some d]"
    and v: "v = ((a * 256 + b) * 256 + c) * 256 + d"
    unfolding v4_int_def by (auto split: list.splits option.splits)
  have "x \<le> 255" if "Some x \<in> set [Some a, Some b, Some c, Some d]" for x
    using that unfolding m [symmetric] by (auto dest!: sym [of "Some x"] parse_octet_bound)
  then show ?thesis using that m v by simp
qed

lemma v4_int_bound: "v4_int s = Some v \<Longrightarrow> v < 2 ^ 32"
  by (erule v4_int_cases) simp

lemma hex_val_bound: "hex_val c = Some v \<Longrightarrow> v < 16"
  by (auto simp: hex_val_def Let_def split: if_splits)

lemma hex_fold_bound:
  "foldl (\<lambda>n c. n * 16 + (case hex_val c of Some v \<Rightarrow> v | None \<Rightarrow> 0)) acc s
     < (acc + 1) * 16 ^ length s"
proof (induction s arbitrary: acc)
  case Nil
  then show ?case by simp
next
  case (Cons c s)
  let ?v = "case hex_val c of Some v \<Rightarrow> v | None \<Rightarrow> 0"
  have "?v < 16" by (auto split: option.split dest: hex_val_bound)
  then have "(acc * 16 + ?v + 1) * 16 ^ length s \<le> ((acc + 1) * 16) * 16 ^ length s"
    by (intro mult_le_mono1) simp
  with Cons.IH [of "acc * 16 + ?v"]
  have "foldl (\<lambda>n c. n * 16 + (case hex_val c of Some v \<Rightarrow> v | None \<Rightarrow> 0)) (acc * 16 + ?v) s
      < ((acc + 1) * 16) * 16 ^ length s" by (rule less_le_trans)
  then show ?case by (simp add: add_mult_distrib mult.assoc)
qed

lemma parse_hextet_bound: "parse_hextet s = Some v \<Longrightarrow> v < 65536"
proof -
  assume "parse_hextet s = Some v"
  then have len: "length s \<le> 4"
    and v: "v = foldl (\<lambda>n c. n * 16 + (case hex_val c of Some v \<Rightarrow> v | None \<Rightarrow> 0)) 0 s"
    by (auto simp: parse_hextet_def split: if_splits)
  have "v < 16 ^ length s" using hex_fold_bound [of 0 s] v by simp
  also have "\<dots> \<le> 16 ^ 4" using len by (intro power_increasing) simp_all
  finally show ?thesis by simp
qed

lemma hextets_int_bound:
  "hextets_int acc ps = Some v \<Longrightarrow> v < (acc + 1) * 65536 ^ length ps"
proof (induction ps arbitrary: acc)
  case Nil
  then show ?case by simp
next
  case (Cons p ps)
  from Cons.prems obtain w where w: "parse_hextet p = Some w" "hextets_int (acc * 65536 + w) ps = Some v"
    by (auto split: option.splits)
  have "v < (acc * 65536 + w + 1) * 65536 ^ length ps" by (rule Cons.IH [OF w(2)])
  also have "\<dots> \<le> (acc + 1) * 65536 * 65536 ^ length ps"
    using parse_hextet_bound [OF w(1)] by (intro mult_le_mono1) simp
  finally show ?case by (simp add: algebra_simps)
qed

lemma v6_gap_bound:
  assumes "v6_gap hi lo = Some v"
  shows "v < 65536 ^ 8"
proof -
  let ?k = "8 - (length hi + length lo)"
  from assms obtain u where hi: "hextets_int 0 hi = Some u" and len: "length hi + length lo \<le> 7"
    and lo: "hextets_int (u * 65536 ^ ?k) lo = Some v"
    by (auto simp: v6_gap_def split: option.splits if_splits)
  have u: "u + 1 \<le> 65536 ^ length hi" using hextets_int_bound [OF hi] by simp
  have one: "(1::nat) \<le> 65536 ^ ?k" by simp
  have "v < (u * 65536 ^ ?k + 1) * 65536 ^ length lo" by (rule hextets_int_bound [OF lo])
  also have "\<dots> \<le> ((u + 1) * 65536 ^ ?k) * 65536 ^ length lo"
    using one by (intro mult_le_mono1) (simp add: algebra_simps)
  also have "\<dots> \<le> (65536 ^ length hi * 65536 ^ ?k) * 65536 ^ length lo"
    using u by (intro mult_le_mono1)
  also have "\<dots> = 65536 ^ (length hi + ?k + length lo)" by (simp add: power_add)
  also have "length hi + ?k + length lo = 8" using len by simp
  finally show ?thesis .
qed

lemma v6_int_bound: "v6_int s = Some v \<Longrightarrow> v < 2 ^ 128"
proof -
  assume "v6_int s = Some v"
  then have "(\<exists>qs. length qs = 8 \<and> hextets_int 0 qs = Some v) \<or> (\<exists>hi lo. v6_gap hi lo = Some v)"
    unfolding v6_int_def Let_def by (auto split: option.splits list.splits if_splits)
  then have "v < 65536 ^ 8"
    using hextets_int_bound [of 0 _ v] v6_gap_bound [of _ _ v] by fastforce
  then show ?thesis by simp
qed

lemma v4_addr_ok: "v4_addr s = Some a \<Longrightarrow> ia_fam a = V4 \<and> addr_ok a \<and> ia_scope a = None"
  by (auto simp: v4_addr_def addr_ok_def split: if_splits dest!: v4_int_bound)

lemma v6_addr_ok: "v6_addr s = Some a \<Longrightarrow> ia_fam a = V6 \<and> addr_ok a"
  by (auto simp: v6_addr_def addr_ok_def split: if_splits option.splits dest!: v6_int_bound)

lemma ip_address_ok: "ip_address s = Some a \<Longrightarrow> addr_ok a"
  by (auto simp: ip_address_def split: option.splits dest: v4_addr_ok v6_addr_ok)

lemma prefix_of_mask_le: "prefix_of_mask m = Some p \<Longrightarrow> p \<le> 32"
proof -
  assume "prefix_of_mask m = Some p"
  then have "p \<in> set (filter (\<lambda>p. netmask V4 p = m) [0..<33])"
    unfolding prefix_of_mask_def by (cases "filter (\<lambda>p. netmask V4 p = m) [0..<33]") auto
  then show ?thesis by simp
qed

lemma make_plen_le: "make_plen f m = Some p \<Longrightarrow> p \<le> bits f"
  by (auto simp: make_plen_def prefix_of_string_def prefix_of_ip_string_def
      split: option.splits if_splits dest: prefix_of_mask_le)

lemma net_of_ok:
  assumes "net_of f strict s = Some (Some n)"
  shows "net_ok n \<and> in_fam n = f"
proof -
  from assms obtain ad ms p where ad: "(if f = V4 then v4_addr (hd (split_on CHR ''/'' s))
      else v6_addr (hd (split_on CHR ''/'' s))) = Some ad"
    and p: "make_plen f ms = Some p"
    and n: "n = \<lparr>in_fam = f, in_plen = p, in_addr = ia_val ad, in_scope = ia_scope ad\<rparr> \<and>
        ia_val ad AND netmask f p = ia_val ad \<or>
      n = \<lparr>in_fam = f, in_plen = p, in_addr = ia_val ad AND netmask f p, in_scope = None\<rparr>"
    unfolding net_of_def Let_def
    by (auto split: list.splits option.splits if_splits)
  have v: "ia_val ad < 2 ^ bits f"
    using ad by (cases f) (auto simp: addr_ok_def dest!: v4_addr_ok v6_addr_ok)
  have le: "p \<le> bits f" by (rule make_plen_le [OF p])
  have m: "(ia_val ad AND netmask f p) AND netmask f p = ia_val ad AND netmask f p"
    by (simp add: ac_simps)
  have "ia_val ad AND netmask f p \<le> ia_val ad"
    using and_netmask [OF v le] by simp
  with v have "ia_val ad AND netmask f p < 2 ^ bits f" by (rule le_less_trans [rotated])
  with n v le m show ?thesis by (auto simp: net_ok_def)
qed

lemma ip_network_ok: "ip_network strict s = Some n \<Longrightarrow> net_ok n"
  by (auto simp: ip_network_def split: option.splits dest: net_of_ok)

text \<open>IPv4 texts round trip: what \<open>str\<close> writes, the constructor reads back.\<close>

lemma hd_nat_str: "0 < n \<Longrightarrow> hd (nat_str n) \<noteq> CHR ''0''"
proof (induction n rule: nat_str.induct)
  case (1 n)
  show ?case
  proof (cases "n < 10")
    case True
    then have "of_char (hd (nat_str n)) = (48 + n :: nat)" by (subst nat_str.simps) simp
    moreover have "of_char CHR ''0'' = (48 :: nat)" by simp
    ultimately show ?thesis using "1.prems" by (metis add_cancel_left_right less_irrefl)
  next
    case False
    then have "hd (nat_str n) = hd (nat_str (n div 10))" by (subst nat_str.simps) simp
    with "1.IH" [OF False] False show ?thesis by simp
  qed
qed

lemma length_nat_str: "n < 10 ^ Suc k \<Longrightarrow> length (nat_str n) \<le> Suc k"
proof (induction k arbitrary: n)
  case 0
  then show ?case by (subst nat_str.simps) simp
next
  case (Suc k)
  then have "length (nat_str (n div 10)) \<le> Suc k"
    by (intro Suc.IH) (simp add: less_mult_imp_div_less)
  then show ?case by (subst nat_str.simps) simp
qed

lemma parse_octet_nat_str: "n \<le> 255 \<Longrightarrow> parse_octet (nat_str n) = Some n"
proof -
  assume n: "n \<le> 255"
  then have "length (nat_str n) \<le> 3" using length_nat_str [of n 2] by simp
  moreover have "nat_str n \<noteq> ''0'' \<Longrightarrow> hd (nat_str n) \<noteq> CHR ''0''"
    using hd_nat_str [of n] by (cases "n = 0") (auto simp: nat_str.simps [of 0])
  ultimately show ?thesis using n by (auto simp: parse_octet_def str_simps)
qed

lemma not_digit_simps [simp]:
  "\<not> is_digit CHR ''.''" "\<not> is_digit CHR ''/''" "\<not> is_digit CHR '':''" "\<not> is_digit CHR ''%''"
  by (simp_all add: is_digit_def)

lemma not_in_nat_str: "\<not> is_digit c \<Longrightarrow> c \<notin> set (nat_str n)"
  using digits_nat_str by (rule ascii_digits_not_in)

lemma split_v4_str:
  "split_on CHR ''.'' (v4_str n) =
     [nat_str (n div 16777216 mod 256), nat_str (n div 65536 mod 256),
      nat_str (n div 256 mod 256), nat_str (n mod 256)]"
  unfolding v4_str_def by (rule split_on_join) (simp_all add: not_in_nat_str)

lemma v4_int_v4_str: "n < 2 ^ 32 \<Longrightarrow> v4_int (v4_str n) = Some n"
proof -
  assume n: "n < 2 ^ 32"
  have oct: "parse_octet (nat_str (m mod 256)) = Some (m mod 256)" for m
    by (rule parse_octet_nat_str) (simp add: less_Suc_eq_le [symmetric])
  have d: "n div 65536 = n div 256 div 256" "n div 16777216 = n div 256 div 256 div 256"
    by (simp_all flip: div_mult2_eq)
  have "n div 256 div 256 div 256 mod 256 = n div 256 div 256 div 256"
    using n by (simp add: d [symmetric] less_mult_imp_div_less)
  then have "((n div 16777216 mod 256 * 256 + n div 65536 mod 256) * 256 + n div 256 mod 256) * 256 + n mod 256 = n"
    unfolding d by (simp only: div_mult_mod_eq)
  then show ?thesis
    by (simp only: v4_int_def split_v4_str list.map oct list.case option.case)
qed

lemma set_join: "set (join sep ws) \<subseteq> set sep \<union> (\<Union>w \<in> set ws. set w)"
  by (induction sep ws rule: join.induct) auto

lemma slash_not_in_v4_str: "CHR ''/'' \<notin> set (v4_str n)"
  unfolding v4_str_def using set_join by (fastforce simp: not_in_nat_str)

lemma ip_network_v4_roundtrip:
  assumes "net_ok n" "in_fam n = V4" "in_scope n = None"
  shows "ip_network strict (net_str n) = Some n"
proof -
  have sp: "split_on CHR ''/'' (net_str n) = [v4_str (in_addr n), nat_str (in_plen n)]"
    by (simp add: net_str_def addr_str_def assms split_on_append split_on_no_sep
        slash_not_in_v4_str not_in_nat_str)
  have "v4_addr (v4_str (in_addr n)) = Some \<lparr>ia_fam = V4, ia_val = in_addr n, ia_scope = None\<rparr>"
    using assms by (simp add: v4_addr_def slash_not_in_v4_str v4_int_v4_str net_ok_def)
  moreover have "make_plen V4 (Some (nat_str (in_plen n))) = Some (in_plen n)"
    using assms by (simp add: make_plen_def prefix_of_string_def str_simps net_ok_def)
  moreover have "\<lparr>in_fam = V4, in_plen = in_plen n, in_addr = in_addr n, in_scope = None\<rparr> = n"
    using assms by (cases n) simp
  ultimately have "net_of V4 strict (net_str n) = Some (Some n)"
    using assms by (simp add: net_of_def sp net_ok_def)
  then show ?thesis by (simp add: ip_network_def)
qed

end
