(* ===== verification/Srs.thy ===== *)
theory Srs
  imports IpAddr "HOL-Library.Word" "HOL-Library.Product_Lexorder"
begin

text \<open>
  \<open>anyhop/srs.py\<close>: the reader of sing-box's binary rule-set files and the offline membership test.
  The stream of bytes is a list that the readers consume; every raise is a value of \<open>srs_error\<close>.
  \<open>zlib.decompress\<close> and Python's regular expressions are arguments (\<open>inflate\<close>, \<open>re_ok\<close>,
  \<open>re_search\<close>). Nested rules are read with fuel; \<open>read_rule_fuel\<close> shows that the length of the
  input is enough. Strings are bytes here, so UTF-8 decoding is the identity on well-formed input.
\<close>

section \<open>Readers\<close>

type_synonym byte = "8 word"
type_synonym bytes = "byte list"

datatype srs_error =
    Truncated | UvarintOverflow | UnknownIpSetVersion | MalformedRange
  | UnsupportedItem nat | UnknownMode nat | UnknownRuleType nat
  | BadMagic | CorruptBody | TrieIndexError | NoFuel

type_synonym 'a reader = "bytes \<Rightarrow> (srs_error, 'a \<times> bytes) result"

definition read_exact :: "nat \<Rightarrow> bytes reader" where
  "read_exact n r = (if length r < n then Inl Truncated else Inr (take n r, drop n r))"

definition read_byte :: "byte reader" where
  "read_byte r = (case r of [] \<Rightarrow> Inl Truncated | b # r' \<Rightarrow> Inr (b, r'))"

fun uvarint_loop :: "nat \<Rightarrow> nat \<Rightarrow> nat reader" where
  "uvarint_loop acc sh [] = Inl Truncated"
| "uvarint_loop acc sh (b # r) =
     (let acc' = acc OR push_bit sh (unat (b AND 127)) in
      if b AND 128 = 0 then Inr (acc', r)
      else if sh + 7 > 63 then Inl UvarintOverflow
      else uvarint_loop acc' (sh + 7) r)"

definition read_uvarint :: "nat reader" where
  "read_uvarint r = uvarint_loop 0 0 r"

fun read_many :: "'a reader \<Rightarrow> nat \<Rightarrow> 'a list reader" where
  "read_many f 0 r = Inr ([], r)"
| "read_many f (Suc n) r =
     bindR (f r) (\<lambda>(x, r1). bindR (read_many f n r1) (\<lambda>(xs, r2). Inr (x # xs, r2)))"

definition read_list :: "'a reader \<Rightarrow> 'a list reader" where
  "read_list f r = bindR (read_uvarint r) (\<lambda>(n, r1). read_many f n r1)"

definition read_block :: "bytes reader" where
  "read_block r = bindR (read_uvarint r) (\<lambda>(n, r1). read_exact n r1)"

definition be_int :: "bytes \<Rightarrow> nat" where
  "be_int bs = foldl (\<lambda>a b. a * 256 + unat b) 0 bs"

definition decode_str :: "bytes \<Rightarrow> string" where
  "decode_str bs = map (\<lambda>b. char_of (unat b)) bs"

definition encode_str :: "string \<Rightarrow> bytes" where
  "encode_str s = map (\<lambda>c. of_nat (of_char c)) s"

definition read_string_list :: "string list reader" where
  "read_string_list = read_list (\<lambda>r. bindR (read_block r) (\<lambda>(bs, r1). Inr (decode_str bs, r1)))"

definition read_uint64_list :: "nat list reader" where
  "read_uint64_list = read_list (\<lambda>r. bindR (read_exact 8 r) (\<lambda>(bs, r1). Inr (be_int bs, r1)))"

section \<open>The succinct trie\<close>

record trie =
  leaves :: "nat list"
  label_bitmap :: "nat list"
  labels :: bytes
  ranks :: "nat list"

fun popcount :: "nat \<Rightarrow> nat" where
  "popcount n = (if n = 0 then 0 else n mod 2 + popcount (n div 2))"

declare popcount.simps [simp del]

fun rank_index :: "nat \<Rightarrow> nat list \<Rightarrow> nat list" where
  "rank_index acc [] = [acc]"
| "rank_index acc (w # ws) = acc # rank_index (acc + popcount w) ws"

definition make_trie :: "nat list \<Rightarrow> nat list \<Rightarrow> bytes \<Rightarrow> trie" where
  "make_trie lv bm lb = \<lparr>leaves = lv, label_bitmap = bm, labels = lb, ranks = rank_index 0 bm\<rparr>"

definition get_bit :: "nat list \<Rightarrow> nat \<Rightarrow> nat" where
  "get_bit ws i = (let w = i div 64 in
     if w \<ge> length ws then 0 else drop_bit (i mod 64) (ws ! w) AND 1)"

definition rank1 :: "trie \<Rightarrow> nat \<Rightarrow> nat" where
  "rank1 t i = (let w = i div 64; b = i mod 64 in
     if w \<ge> length (label_bitmap t) then last (ranks t)
     else ranks t ! w + popcount (label_bitmap t ! w AND mask b))"

text \<open>
  The bit walk of \<open>_select1\<close>. On a word with no bit left the source's loop never returns; that is
  \<open>None\<close>. \<open>bisect_right\<close> on a sorted list is the number of leading entries that are at most \<open>i\<close>.
\<close>

fun select_loop :: "nat \<Rightarrow> nat \<Rightarrow> nat \<Rightarrow> nat option" where
  "select_loop bs remaining pos =
     (if bs = 0 then None
      else if bs mod 2 = 1 \<and> remaining = 0 then Some pos
      else select_loop (bs div 2) (if bs mod 2 = 1 then remaining - 1 else remaining) (pos + 1))"

declare select_loop.simps [simp del]

definition bisect_right :: "'a::linorder list \<Rightarrow> 'a \<Rightarrow> nat" where
  "bisect_right xs x = length (takeWhile (\<lambda>y. y \<le> x) xs)"

definition select1 :: "trie \<Rightarrow> nat \<Rightarrow> (srs_error, nat) result" where
  "select1 t i = (let w = bisect_right (ranks t) i - 1 in
     if w \<ge> length (label_bitmap t) then Inl TrieIndexError
     else (case select_loop (label_bitmap t ! w) (i - ranks t ! w) (w * 64) of
             None \<Rightarrow> Inl NoFuel | Some p \<Rightarrow> Inr p))"

definition prefix_label :: byte where "prefix_label = 13"
definition root_label :: byte where "root_label = 10"
definition dot_byte :: byte where "dot_byte = 46"

text \<open>The scan of one node's edges: it stops with a verdict or at the edge that carries the byte.\<close>

datatype edge = Verdict bool | Edge nat

definition next_node :: "trie \<Rightarrow> nat \<Rightarrow> nat" where
  "next_node t bm = bm + 1 - rank1 t (bm + 1)"

function edge_loop :: "trie \<Rightarrow> byte \<Rightarrow> nat \<Rightarrow> nat \<Rightarrow> (srs_error, edge) result" where
  "edge_loop t cur node bm =
     (if get_bit (label_bitmap t) bm = 1 then Inr (Verdict False)
      else if bm < node \<or> bm - node \<ge> length (labels t) then Inl TrieIndexError
      else let l = labels t ! (bm - node) in
        if l = prefix_label then Inr (Verdict True)
        else if l = root_label \<and> cur = dot_byte \<and> get_bit (leaves t) (next_node t bm) = 1
        then Inr (Verdict True)
        else if l = cur then Inr (Edge bm)
        else edge_loop t cur node (bm + 1))"
  by pat_completeness auto
termination
  by (relation "measure (\<lambda>(t, cur, node, bm). length (labels t) + node - bm)") auto

declare edge_loop.simps [simp del]

function tail_loop :: "trie \<Rightarrow> nat \<Rightarrow> nat \<Rightarrow> (srs_error, bool) result" where
  "tail_loop t node bm =
     (if get_bit (label_bitmap t) bm = 1 then Inr False
      else if bm < node \<or> bm - node \<ge> length (labels t) then Inl TrieIndexError
      else let l = labels t ! (bm - node) in
        if l = prefix_label \<or> l = root_label then Inr True
        else tail_loop t node (bm + 1))"
  by pat_completeness auto
termination
  by (relation "measure (\<lambda>(t, node, bm). length (labels t) + node - bm)") auto

declare tail_loop.simps [simp del]

fun has_from :: "trie \<Rightarrow> bytes \<Rightarrow> nat \<Rightarrow> nat \<Rightarrow> (srs_error, bool) result" where
  "has_from t [] node bm =
     (if get_bit (leaves t) node = 1 then Inr True else tail_loop t node bm)"
| "has_from t (c # cs) node bm =
     bindR (edge_loop t c node bm) (\<lambda>e. case e of
       Verdict v \<Rightarrow> Inr v
     | Edge bm' \<Rightarrow> (let node' = next_node t bm' in
         bindR (select1 t (node' - 1)) (\<lambda>p. has_from t cs node' (p + 1))))"

definition has :: "trie \<Rightarrow> bytes \<Rightarrow> (srs_error, bool) result" where
  "has t key = has_from t key 0 0"

definition match_domain :: "trie \<Rightarrow> string \<Rightarrow> (srs_error, bool) result" where
  "match_domain t d = has t (rev (encode_str d))"

definition read_domain_matcher :: "trie reader" where
  "read_domain_matcher r =
     bindR (read_exact 1 r) (\<lambda>(_, r1).
     bindR (read_uint64_list r1) (\<lambda>(lv, r2).
     bindR (read_uint64_list r2) (\<lambda>(bm, r3).
     bindR (read_block r3) (\<lambda>(lb, r4). Inr (make_trie lv bm lb, r4)))))"

section \<open>IP ranges\<close>

definition read_range :: "(family \<times> nat \<times> nat) reader" where
  "read_range r =
     bindR (read_block r) (\<lambda>(frm, r1).
     bindR (read_block r1) (\<lambda>(to, r2).
       if length frm \<noteq> length to \<or> (length frm \<noteq> 4 \<and> length frm \<noteq> 16) then Inl MalformedRange
       else Inr ((if length frm = 4 then V4 else V6, be_int frm, be_int to), r2)))"

definition ranges_of :: "(family, (nat \<times> nat) list) dict \<Rightarrow> family \<Rightarrow> (nat \<times> nat) list" where
  "ranges_of d f = (case dget d f of None \<Rightarrow> [] | Some l \<Rightarrow> l)"

definition add_range ::
  "family \<times> nat \<times> nat \<Rightarrow> (family, (nat \<times> nat) list) dict \<Rightarrow> (family, (nat \<times> nat) list) dict" where
  "add_range x d = (case x of (f, lo, hi) \<Rightarrow> dset f (ranges_of d f @ [(lo, hi)]) d)"

definition read_ip_ranges :: "(family, (nat \<times> nat) list) dict reader" where
  "read_ip_ranges r =
     bindR (read_byte r) (\<lambda>(v, r1).
       if v \<noteq> 1 then Inl UnknownIpSetVersion else
       bindR (read_exact 8 r1) (\<lambda>(c, r2).
       bindR (read_many read_range (be_int c) r2) (\<lambda>(rs, r3).
         Inr (map (\<lambda>(f, l). (f, sort l)) (fold add_range rs []), r3))))"

definition skip_uint16_list :: "unit reader" where
  "skip_uint16_list r =
     bindR (read_uvarint r) (\<lambda>(n, r1). bindR (read_exact (2 * n) r1) (\<lambda>(_, r2). Inr ((), r2)))"

definition skip_uint8_list :: "unit reader" where
  "skip_uint8_list r =
     bindR (read_uvarint r) (\<lambda>(n, r1). bindR (read_exact n r1) (\<lambda>(_, r2). Inr ((), r2)))"

section \<open>Rules\<close>

record default_rule =
  dr_trie :: "trie option"
  dr_keywords :: "string list"
  dr_regexes :: "string list"
  dr_ranges :: "(family, (nat \<times> nat) list) dict"
  dr_invert :: bool
  dr_unsupported :: "string list"

definition empty_rule :: default_rule where
  "empty_rule = \<lparr>dr_trie = None, dr_keywords = [], dr_regexes = [], dr_ranges = [],
     dr_invert = False, dr_unsupported = []\<rparr>"

datatype srs_rule = Default default_rule | Logical bool "srs_rule list" bool

text \<open>The item table \<open>_ITEM_NAMES\<close>.\<close>

definition item_name :: "nat \<Rightarrow> string" where
  "item_name n = (case map_of
     [(0, ''query_type''), (1, ''network''), (5, ''source_ip_cidr''), (7, ''source_port''),
      (8, ''source_port_range''), (9, ''port''), (10, ''port_range''), (11, ''process_name''),
      (12, ''process_path''), (13, ''package_name''), (14, ''wifi_ssid''), (15, ''wifi_bssid''),
      (17, ''process_path_regex''), (18, ''network_type''), (19, ''network_is_expensive''),
      (20, ''network_is_constrained'')] n of None \<Rightarrow> '''' | Some s \<Rightarrow> s)"

definition mark_unsupported :: "string \<Rightarrow> default_rule \<Rightarrow> default_rule" where
  "mark_unsupported u d = d\<lparr>dr_unsupported := dr_unsupported d @ [u]\<rparr>"

definition add_regex :: "(string \<Rightarrow> bool) \<Rightarrow> string \<Rightarrow> default_rule \<Rightarrow> default_rule" where
  "add_regex re_ok p d =
     (if re_ok p then d\<lparr>dr_regexes := dr_regexes d @ [p]\<rparr>
      else mark_unsupported (''domain_regex:'' @ p) d)"

definition string_items :: "nat list" where
  "string_items = [1, 8, 10, 11, 12, 13, 14, 15, 17]"

definition read_item :: "(string \<Rightarrow> bool) \<Rightarrow> nat \<Rightarrow> default_rule \<Rightarrow> default_rule reader" where
  "read_item re_ok item d r =
     (if item = 2 then bindR (read_domain_matcher r) (\<lambda>(t, r1). Inr (d\<lparr>dr_trie := Some t\<rparr>, r1))
      else if item = 3 then bindR (read_string_list r) (\<lambda>(ks, r1). Inr (d\<lparr>dr_keywords := ks\<rparr>, r1))
      else if item = 4 then bindR (read_string_list r) (\<lambda>(ps, r1). Inr (fold (add_regex re_ok) ps d, r1))
      else if item = 6 then bindR (read_ip_ranges r) (\<lambda>(g, r1). Inr (d\<lparr>dr_ranges := g\<rparr>, r1))
      else if item \<in> set string_items then
        bindR (read_string_list r) (\<lambda>(_, r1). Inr (mark_unsupported (item_name item) d, r1))
      else if item \<in> {0, 7, 9} then
        bindR (skip_uint16_list r) (\<lambda>(_, r1). Inr (mark_unsupported (item_name item) d, r1))
      else if item = 5 then
        bindR (read_ip_ranges r) (\<lambda>(_, r1). Inr (mark_unsupported (item_name item) d, r1))
      else if item = 18 then
        bindR (skip_uint8_list r) (\<lambda>(_, r1). Inr (mark_unsupported (item_name item) d, r1))
      else if item \<in> {19, 20} then Inr (mark_unsupported (item_name item) d, r)
      else Inl (UnsupportedItem item))"

subsection \<open>Readers only consume\<close>

lemma read_exact_length: "read_exact n r = Inr (x, r') \<Longrightarrow> length r = n + length r' \<and> length x = n"
  by (auto simp: read_exact_def split: if_splits)

lemma read_byte_length: "read_byte r = Inr (x, r') \<Longrightarrow> length r = Suc (length r')"
  by (auto simp: read_byte_def split: list.splits)

lemma uvarint_loop_length: "uvarint_loop a s r = Inr (x, r') \<Longrightarrow> length r' < length r"
  by (induction a s r rule: uvarint_loop.induct) (auto simp: Let_def split: if_splits)

lemma read_uvarint_length: "read_uvarint r = Inr (x, r') \<Longrightarrow> length r' < length r"
  unfolding read_uvarint_def by (rule uvarint_loop_length)

lemma read_many_length:
  assumes "read_many f n r = Inr (xs, r')"
    and "\<And>r x r'. f r = Inr (x, r') \<Longrightarrow> length r' \<le> length r"
  shows "length r' \<le> length r"
  using assms(1)
proof (induction n arbitrary: r xs)
  case 0
  then show ?case by simp
next
  case (Suc n)
  from Suc.prems obtain x r1 ys where "f r = Inr (x, r1)" "read_many f n r1 = Inr (ys, r')" by auto
  with Suc.IH[of r1 ys] assms(2)[of r x r1] show ?case by simp
qed

lemma read_list_length:
  assumes "read_list f r = Inr (xs, r')"
    and "\<And>r x r'. f r = Inr (x, r') \<Longrightarrow> length r' \<le> length r"
  shows "length r' < length r"
proof -
  from assms(1) obtain n r1 where "read_uvarint r = Inr (n, r1)" "read_many f n r1 = Inr (xs, r')"
    by (auto simp: read_list_def)
  with read_uvarint_length[of r n r1] read_many_length[of f n r1 xs r'] assms(2) show ?thesis
    by fastforce
qed

lemma read_block_length: "read_block r = Inr (x, r') \<Longrightarrow> length r' < length r"
  by (auto simp: read_block_def dest!: read_uvarint_length read_exact_length)

lemma read_string_list_length: "read_string_list r = Inr (x, r') \<Longrightarrow> length r' < length r"
  unfolding read_string_list_def
  by (erule read_list_length) (auto dest!: read_block_length)

lemma read_uint64_list_length: "read_uint64_list r = Inr (x, r') \<Longrightarrow> length r' < length r"
  unfolding read_uint64_list_def
  by (erule read_list_length) (auto dest!: read_exact_length)

lemma read_domain_matcher_length: "read_domain_matcher r = Inr (x, r') \<Longrightarrow> length r' < length r"
  by (auto simp: read_domain_matcher_def
      dest!: read_exact_length read_uint64_list_length read_block_length)

lemma read_ip_ranges_length:
  assumes "read_ip_ranges r = Inr (x, r')"
  shows "length r' < length r"
proof -
  from assms obtain v r1 c r2 rs where
    "read_byte r = Inr (v, r1)" "read_exact 8 r1 = Inr (c, r2)"
    and m: "read_many read_range (be_int c) r2 = Inr (rs, r')"
    by (auto simp: read_ip_ranges_def split: if_splits)
  moreover have "length r' \<le> length r2"
    by (rule read_many_length[OF m])
      (auto simp: read_range_def dest!: read_block_length split: if_splits)
  ultimately show ?thesis by (auto dest!: read_byte_length read_exact_length)
qed

lemmas reader_lengths = read_exact_length read_byte_length read_uvarint_length read_block_length
  read_string_list_length read_uint64_list_length read_domain_matcher_length read_ip_ranges_length

lemma read_item_length: "read_item re_ok item d r = Inr (d', r') \<Longrightarrow> length r' \<le> length r"
  by (auto simp: read_item_def skip_uint16_list_def skip_uint8_list_def
      dest!: reader_lengths split: if_splits)

subsection \<open>The rule readers\<close>

function read_default :: "(string \<Rightarrow> bool) \<Rightarrow> default_rule \<Rightarrow> default_rule reader" where
  "read_default re_ok d r =
     bindR (read_byte r) (\<lambda>(item, r1).
       if item = 255 then bindR (read_byte r1) (\<lambda>(i, r2). Inr (d\<lparr>dr_invert := i \<noteq> 0\<rparr>, r2))
       else bindR (read_item re_ok (unat item) d r1) (\<lambda>(d', r2). read_default re_ok d' r2))"
  by pat_completeness auto
termination
  by (relation "measure (\<lambda>(re_ok, d, r). length r)")
    (auto dest!: read_byte_length read_item_length)

declare read_default.simps [simp del]

fun read_rule :: "(string \<Rightarrow> bool) \<Rightarrow> nat \<Rightarrow> srs_rule reader" where
  "read_rule re_ok 0 r = Inl NoFuel"
| "read_rule re_ok (Suc n) r =
     bindR (read_byte r) (\<lambda>(t, r1).
       if t = 0 then bindR (read_default re_ok empty_rule r1) (\<lambda>(d, r2). Inr (Default d, r2))
       else if t = 1 then
         bindR (read_byte r1) (\<lambda>(m, r2).
           if m \<noteq> 0 \<and> m \<noteq> 1 then Inl (UnknownMode (unat m)) else
           bindR (read_list (read_rule re_ok n) r2) (\<lambda>(rs, r3).
           bindR (read_byte r3) (\<lambda>(i, r4). Inr (Logical (m = 0) rs (i \<noteq> 0), r4))))
       else Inl (UnknownRuleType (unat t)))"

definition magic :: bytes where "magic = [83, 82, 83]"

definition parse :: "(bytes \<Rightarrow> bytes option) \<Rightarrow> (string \<Rightarrow> bool) \<Rightarrow> bytes
    \<Rightarrow> (srs_error, srs_rule list) result" where
  "parse inflate re_ok raw =
     (if take 3 raw \<noteq> magic \<or> length raw < 5 then Inl BadMagic
      else case inflate (drop 4 raw) of
        None \<Rightarrow> Inl CorruptBody
      | Some body \<Rightarrow>
          bindR (read_list (read_rule re_ok (Suc (length body))) body) (\<lambda>(rs, _). Inr rs))"

section \<open>Membership\<close>

fun anyR :: "('a \<Rightarrow> ('e, bool) result) \<Rightarrow> 'a list \<Rightarrow> ('e, bool) result" where
  "anyR f [] = Inr False"
| "anyR f (x # xs) = bindR (f x) (\<lambda>b. if b then Inr True else anyR f xs)"

fun allR :: "('a \<Rightarrow> ('e, bool) result) \<Rightarrow> 'a list \<Rightarrow> ('e, bool) result" where
  "allR f [] = Inr True"
| "allR f (x # xs) = bindR (f x) (\<lambda>b. if b then allR f xs else Inr False)"

lemma anyR_cong [fundef_cong]:
  "xs = ys \<Longrightarrow> (\<And>x. x \<in> set ys \<Longrightarrow> f x = g x) \<Longrightarrow> anyR f xs = anyR g ys"
  by (induction ys arbitrary: xs) (auto intro!: bindR_cong)

lemma allR_cong [fundef_cong]:
  "xs = ys \<Longrightarrow> (\<And>x. x \<in> set ys \<Longrightarrow> f x = g x) \<Longrightarrow> allR f xs = allR g ys"
  by (induction ys arbitrary: xs) (auto intro!: bindR_cong)

definition contains :: "default_rule \<Rightarrow> ip_addr \<Rightarrow> bool" where
  "contains d ip =
     (let v = ia_val ip; fam = ranges_of (dr_ranges d) (ia_fam ip);
          n = bisect_right fam (v, 2 ^ 128) in
      n > 0 \<and> fst (fam ! (n - 1)) \<le> v \<and> v \<le> snd (fam ! (n - 1)))"

definition match_names :: "(string \<Rightarrow> string \<Rightarrow> bool) \<Rightarrow> default_rule \<Rightarrow> string
    \<Rightarrow> (srs_error, bool) result" where
  "match_names re_search d dm =
     bindR (case dr_trie d of None \<Rightarrow> Inr False | Some t \<Rightarrow> match_domain t dm) (\<lambda>b.
       Inr (b \<or> (\<exists>k \<in> set (dr_keywords d). sublist k dm)
              \<or> (\<exists>p \<in> set (dr_regexes d). re_search p dm)))"

definition default_match :: "(string \<Rightarrow> string \<Rightarrow> bool) \<Rightarrow> default_rule \<Rightarrow> string option
    \<Rightarrow> ip_addr list \<Rightarrow> (srs_error, bool) result" where
  "default_match re_search d dm ips =
     (if dr_unsupported d \<noteq> [] then Inr False
      else if dr_trie d = None \<and> dr_keywords d = [] \<and> dr_regexes d = [] \<and> dr_ranges d = []
      then Inr (\<not> dr_invert d)
      else bindR (if dm = None \<or> dm = Some '''' then Inr False
                  else match_names re_search d (the dm)) (\<lambda>m.
        let m' = (if \<not> m \<and> ips \<noteq> [] \<and> dr_ranges d \<noteq> [] then (\<exists>ip \<in> set ips. contains d ip) else m)
        in Inr (m' \<noteq> dr_invert d)))"

fun rule_match :: "(string \<Rightarrow> string \<Rightarrow> bool) \<Rightarrow> srs_rule \<Rightarrow> string option \<Rightarrow> ip_addr list
    \<Rightarrow> (srs_error, bool) result" where
  "rule_match se (Default d) dm ips = default_match se d dm ips"
| "rule_match se (Logical all rs neg) dm ips =
     bindR (if all then allR (\<lambda>r. rule_match se r dm ips) rs
            else anyR (\<lambda>r. rule_match se r dm ips) rs)
       (\<lambda>m. Inr (m \<noteq> neg))"

fun rule_unsupported :: "srs_rule \<Rightarrow> string list" where
  "rule_unsupported (Default d) = dr_unsupported d"
| "rule_unsupported (Logical _ rs _) = concat (map rule_unsupported rs)"

text \<open>\<open>RuleSet.unsupported\<close> sorts the set of names; \<open>RuleSet.match\<close> is \<open>any\<close> over the rules.\<close>

definition ruleset_unsupported :: "srs_rule list \<Rightarrow> string list" where
  "ruleset_unsupported rs = sort (remdups (concat (map rule_unsupported rs)))"

definition ruleset_match :: "(string \<Rightarrow> string \<Rightarrow> bool) \<Rightarrow> srs_rule list \<Rightarrow> string option
    \<Rightarrow> ip_addr list \<Rightarrow> (srs_error, bool) result" where
  "ruleset_match se rs dm ips = anyR (\<lambda>r. rule_match se r dm ips) rs"

section \<open>Varints\<close>

text \<open>The encoder of the format (Go's \<open>binary.PutUvarint\<close>), the specification of \<open>read_uvarint\<close>.\<close>

function enc_uvarint :: "nat \<Rightarrow> bytes" where
  "enc_uvarint n = (if n < 128 then [of_nat n] else of_nat (n mod 128 + 128) # enc_uvarint (n div 128))"
  by pat_completeness auto
termination by (relation "measure id") auto
declare enc_uvarint.simps [simp del]

lemma nat_and_127: "(n::nat) AND 127 = n mod 128"
proof -
  have "n AND mask 7 = n mod 2 ^ 7" by (simp only: take_bit_eq_mask[symmetric] take_bit_eq_mod)
  then show ?thesis by (simp add: mask_eq_exp_minus_1)
qed

lemma byte_low: "n < 256 \<Longrightarrow> unat ((of_nat n :: byte) AND 127) = n mod 128"
  by (simp add: unsigned_and_eq unat_of_nat nat_and_127)

lemma byte_high: "n < 256 \<Longrightarrow> (of_nat n :: byte) AND 128 = 0 \<longleftrightarrow> n < 128"
proof -
  assume n: "n < 256"
  have "(of_nat n :: byte) AND 128 = 0 \<longleftrightarrow> \<not> bit (of_nat n :: byte) 7"
    using and_exp_eq_0_iff_not_bit[of "of_nat n :: byte" 7] by simp
  also have "\<dots> \<longleftrightarrow> \<not> odd (n div 2 ^ 7)"
    using bit_unsigned_iff[where 'a = nat, of "of_nat n :: byte" 7] n
    by (simp add: unat_of_nat bit_iff_odd[of n])
  also have "\<dots> \<longleftrightarrow> n < 128"
  proof (cases "n < 128")
    case False
    with n have "n div 128 = 1" by (intro div_nat_eqI) auto
    with False show ?thesis by simp
  qed simp
  finally show ?thesis .
qed

lemma or_push_bit_add: "a < 2 ^ s \<Longrightarrow> a OR push_bit s x = a + x * 2 ^ s" for a x s :: nat
proof -
  assume a: "a < 2 ^ s"
  have "take_bit s a = a" using a by (simp add: take_bit_nat_eq_self)
  then have "\<And>k. bit a k \<Longrightarrow> k < s" by (metis bit_take_bit_iff)
  then have "a AND push_bit s x = 0"
    by (intro bit_eqI) (auto simp: bit_and_iff bit_push_bit_iff dest: leD)
  then show ?thesis by (simp add: disjunctive_add_eq_or[symmetric] push_bit_eq_mult)
qed

lemma uvarint_loop_enc:
  "acc < 2 ^ sh \<Longrightarrow> 7 dvd sh \<Longrightarrow> sh \<le> 63 \<Longrightarrow> n < 2 ^ (70 - sh)
   \<Longrightarrow> uvarint_loop acc sh (enc_uvarint n @ r) = Inr (acc + n * 2 ^ sh, r)"
proof (induction n arbitrary: acc sh rule: enc_uvarint.induct)
  case (1 n)
  show ?case
  proof (cases "n < 128")
    case True
    with 1(2) show ?thesis
      by (simp add: enc_uvarint.simps[of n] byte_low byte_high or_push_bit_add)
  next
    case False
    let ?b = "n mod 128 + 128"
    let ?acc = "acc + n mod 128 * 2 ^ sh"
    have b: "?b < 256" by simp
    from 1(3) obtain k where k: "sh = 7 * k" by auto
    have "sh + 7 \<le> 63"
    proof (rule ccontr)
      assume "\<not> ?thesis"
      with k 1(4) have "k = 9" by simp
      with k 1(5) False show False by simp
    qed
    moreover have "n div 128 < 2 ^ (70 - (sh + 7))"
    proof -
      have "(2::nat) ^ (70 - sh) = 2 ^ (70 - (sh + 7)) * 128"
        using \<open>sh + 7 \<le> 63\<close> power_add[of "2::nat" "63 - sh" 7] by simp
      with 1(5) show ?thesis by (simp add: less_mult_imp_div_less)
    qed
    moreover have "?acc < 2 ^ (sh + 7)"
    proof -
      have "?acc < 2 ^ sh + 127 * 2 ^ sh"
        using 1(2) by (intro add_less_le_mono mult_right_mono) auto
      then show ?thesis by (simp add: power_add)
    qed
    ultimately have IH: "uvarint_loop ?acc (sh + 7) (enc_uvarint (n div 128) @ r)
        = Inr (?acc + n div 128 * 2 ^ (sh + 7), r)"
      using 1(1)[OF False, of ?acc "sh + 7"] 1(3) by simp
    have "?acc + n div 128 * 2 ^ (sh + 7) = acc + (n mod 128 + n div 128 * 128) * 2 ^ sh"
      by (simp only: power_add distrib_right mult.assoc) simp
    also have "\<dots> = acc + n * 2 ^ sh" by simp
    finally have "?acc + n div 128 * 2 ^ (sh + 7) = acc + n * 2 ^ sh" .
    moreover have "\<not> sh + 7 > 63" using \<open>sh + 7 \<le> 63\<close> by simp
    ultimately show ?thesis
      using False IH byte_low[OF b] byte_high[OF b] or_push_bit_add[OF 1(2)]
      by (simp add: enc_uvarint.simps[of n] Let_def del: of_nat_add)
  qed
qed

lemma read_uvarint_enc: "n < 2 ^ 70 \<Longrightarrow> read_uvarint (enc_uvarint n @ r) = Inr (n, r)"
  using uvarint_loop_enc[of 0 0 n r] by (simp add: read_uvarint_def)

section \<open>Rank and select\<close>

definition ones :: "nat list \<Rightarrow> nat \<Rightarrow> nat" where
  "ones ws i = (\<Sum>j<i. get_bit ws j)"

definition words64 :: "nat list \<Rightarrow> bool" where
  "words64 ws = (\<forall>w \<in> set ws. w < 2 ^ 64)"

lemma popcount_0 [simp]: "popcount 0 = 0"
  by (simp add: popcount.simps)

lemma popcount_rec: "popcount n = n mod 2 + popcount (n div 2)"
  by (cases "n = 0") (simp_all add: popcount.simps[of n])

lemma popcount_take_bit: "popcount (take_bit b w) = (\<Sum>j<b. w div 2 ^ j mod 2)"
proof (induction b arbitrary: w)
  case 0
  then show ?case by simp
next
  case (Suc b)
  have "popcount (take_bit (Suc b) w) = w mod 2 + popcount (take_bit b (w div 2))"
    using popcount_rec[of "take_bit (Suc b) w"] by (simp add: take_bit_Suc)
  also have "\<dots> = (\<Sum>j<Suc b. w div 2 ^ j mod 2)"
    by (simp add: Suc.IH sum.lessThan_Suc_shift div_mult2_eq del: sum.lessThan_Suc)
  finally show ?case .
qed

lemma get_bit_eq: "get_bit ws i = (if i div 64 < length ws then ws ! (i div 64) div 2 ^ (i mod 64) mod 2 else 0)"
  by (auto simp: get_bit_def Let_def drop_bit_eq_div and_one_eq)

lemma get_bit_le: "get_bit ws i \<le> 1"
  by (auto simp: get_bit_eq)

lemma ones_word: "k < length ws \<Longrightarrow> b \<le> 64
    \<Longrightarrow> ones ws (64 * k + b) = ones ws (64 * k) + popcount (take_bit b (ws ! k))"
proof (induction b)
  case 0
  then show ?case by simp
next
  case (Suc b)
  then have IH: "ones ws (64 * k + b) = ones ws (64 * k) + popcount (take_bit b (ws ! k))" by simp
  from Suc.prems have "get_bit ws (64 * k + b) = ws ! k div 2 ^ b mod 2"
    by (simp add: get_bit_eq)
  then have "ones ws (64 * k + Suc b) = ones ws (64 * k + b) + ws ! k div 2 ^ b mod 2"
    by (simp add: ones_def)
  then show ?case by (simp add: IH popcount_take_bit)
qed

lemma ones_block: "k < length ws \<Longrightarrow> words64 ws
    \<Longrightarrow> ones ws (64 * Suc k) = ones ws (64 * k) + popcount (ws ! k)"
  using ones_word[of k ws 64] by (simp add: words64_def take_bit_nat_eq_self add.commute)

lemma ones_beyond: "64 * length ws \<le> i \<Longrightarrow> ones ws i = ones ws (64 * length ws)"
proof (induction i)
  case (Suc i)
  show ?case
  proof (cases "64 * length ws \<le> i")
    case True
    then have "length ws \<le> i div 64" by simp
    with Suc.IH[OF True] show ?thesis by (simp add: ones_def get_bit_eq)
  next
    case False
    with Suc.prems have "Suc i = 64 * length ws" by simp
    then show ?thesis by simp
  qed
qed simp

text \<open>The same count over the set bits themselves.\<close>

definition set_bit_at :: "nat list \<Rightarrow> nat \<Rightarrow> bool" where
  "set_bit_at ws j = (j div 64 < length ws \<and> bit (ws ! (j div 64)) (j mod 64))"

lemma get_bit_set: "get_bit ws j = 1 \<longleftrightarrow> set_bit_at ws j"
  by (auto simp: get_bit_eq set_bit_at_def bit_iff_odd odd_iff_mod_2_eq_one)

lemma get_bit_of_bool: "get_bit ws j = of_bool (set_bit_at ws j)"
  using get_bit_set[of ws j] get_bit_le[of ws j] by (cases "set_bit_at ws j") auto

lemma ones_card: "ones ws i = card {j. j < i \<and> set_bit_at ws j}"
proof -
  have "{j. j < i \<and> set_bit_at ws j} = {..<i} \<inter> {j. set_bit_at ws j}" by auto
  then show ?thesis by (simp add: ones_def get_bit_of_bool)
qed

lemma ones_all: "ones ws (64 * length ws) = card {j. set_bit_at ws j}"
proof -
  have "{j. j < 64 * length ws \<and> set_bit_at ws j} = {j. set_bit_at ws j}"
    by (auto simp: set_bit_at_def div_less_iff_less_mult mult.commute)
  then show ?thesis by (simp add: ones_card)
qed

lemma ones_le: "ones ws i \<le> i"
proof (induction i)
  case (Suc i)
  with get_bit_le[of ws i] show ?case by (simp add: ones_def)
qed (simp add: ones_def)

lemma length_rank_index [simp]: "length (rank_index a ws) = Suc (length ws)"
  by (induction a ws rule: rank_index.induct) simp_all

lemma rank_index_nonempty: "rank_index a ws \<noteq> []"
  by (cases ws) simp_all

lemma rank_index_nth: "k \<le> length ws \<Longrightarrow> rank_index a ws ! k = a + sum_list (map popcount (take k ws))"
proof (induction a ws arbitrary: k rule: rank_index.induct)
  case (2 acc w ws)
  then show ?case by (cases k) simp_all
qed simp

lemma rank_index_ones:
  assumes "words64 ws" "k \<le> length ws"
  shows "rank_index 0 ws ! k = ones ws (64 * k)"
  using assms(2)
proof (induction k)
  case 0
  then show ?case by (simp add: rank_index_nth ones_def)
next
  case (Suc k)
  then show ?case
    using assms(1) ones_block[of k ws] by (simp add: rank_index_nth take_Suc_conv_app_nth)
qed

lemma rank1_ones:
  assumes "words64 bm"
  shows "rank1 (make_trie lv bm lb) i = ones bm i"
proof (cases "i div 64 < length bm")
  case True
  have i: "64 * (i div 64) + i mod 64 = i" by simp
  have "ones bm i = ones bm (64 * (i div 64)) + popcount (take_bit (i mod 64) (bm ! (i div 64)))"
    using ones_word[OF True, of "i mod 64"] i by simp
  with True show ?thesis
    by (simp add: rank1_def Let_def make_trie_def rank_index_ones[OF assms] take_bit_eq_mask)
next
  case False
  then have "64 * length bm \<le> i" by (simp add: not_less less_eq_div_iff_mult_less_eq mult.commute)
  moreover have "last (rank_index 0 bm) = ones bm (64 * length bm)"
    using rank_index_ones[OF assms, of "length bm"] last_conv_nth[OF rank_index_nonempty, of 0 bm] by simp
  ultimately show ?thesis
    using False ones_beyond[of bm i] by (simp add: rank1_def Let_def make_trie_def)
qed


lemma select_loop_spec:
  "rem < popcount bs \<Longrightarrow> \<exists>q. select_loop bs rem pos = Some (pos + q) \<and> bs div 2 ^ q mod 2 = 1
     \<and> popcount (take_bit q bs) = rem"
proof (induction bs rem pos rule: select_loop.induct)
  case (1 bs remaining pos)
  show ?case
  proof (cases "bs mod 2 = 1 \<and> remaining = 0")
    case True
    then have "bs \<noteq> 0" by (intro notI) simp
    with True show ?thesis by (intro exI[of _ 0]) (simp add: select_loop.simps[of bs])
  next
    case False
    from 1(2) have "bs \<noteq> 0" by (intro notI) simp
    let ?r = "if bs mod 2 = 1 then remaining - 1 else remaining"
    have "?r < popcount (bs div 2)"
      using 1(2) popcount_rec[of bs] False by (auto simp: not_mod_2_eq_1_eq_0)
    with 1(1)[OF \<open>bs \<noteq> 0\<close> False] obtain q where
      q: "select_loop (bs div 2) ?r (pos + 1) = Some (pos + 1 + q)" "bs div 2 div 2 ^ q mod 2 = 1"
         "popcount (take_bit q (bs div 2)) = ?r" by blast
    have "popcount (take_bit (Suc q) bs) = bs mod 2 + ?r"
      using popcount_rec[of "take_bit (Suc q) bs"] q(3) by (simp add: take_bit_Suc)
    then have "popcount (take_bit (Suc q) bs) = remaining"
      using False by (auto simp: not_mod_2_eq_1_eq_0)
    then show ?thesis
      using q \<open>bs \<noteq> 0\<close> False
      by (intro exI[of _ "Suc q"]) (simp add: select_loop.simps[of bs] div_mult2_eq)
  qed
qed

lemma bisect_right_le: "bisect_right xs x \<le> length xs"
  by (simp add: bisect_right_def length_takeWhile_le)

lemma bisect_right_before: "k < bisect_right xs x \<Longrightarrow> xs ! k \<le> x"
  unfolding bisect_right_def
  by (metis nth_mem set_takeWhileD takeWhile_nth)

lemma bisect_right_at: "bisect_right xs x < length xs \<Longrightarrow> x < xs ! bisect_right xs x"
  unfolding bisect_right_def
  by (meson not_le nth_length_takeWhile)

lemma bisect_right_pos: "xs \<noteq> [] \<Longrightarrow> xs ! 0 \<le> x \<Longrightarrow> 0 < bisect_right xs x"
  by (cases xs) (simp_all add: bisect_right_def)

lemma select1_spec:
  assumes "words64 bm" and "i < ones bm (64 * length bm)"
  shows "\<exists>p. select1 (make_trie lv bm lb) i = Inr p \<and> get_bit bm p = 1 \<and> ones bm p = i"
proof -
  let ?r = "rank_index 0 bm"
  let ?n = "bisect_right ?r i"
  have r0: "?r ! 0 = 0" using rank_index_ones[OF assms(1), of 0] by (simp add: ones_def)
  have pos: "0 < ?n" by (rule bisect_right_pos) (simp_all add: rank_index_nonempty r0)
  define w where "w = ?n - 1"
  have le: "ones bm (64 * w) \<le> i"
    using bisect_right_before[of w ?r i] bisect_right_le[of ?r i] pos
      rank_index_ones[OF assms(1), of w] by (simp add: w_def)
  have w: "w < length bm"
  proof (rule ccontr)
    assume "\<not> ?thesis"
    then have "64 * length bm \<le> 64 * w" by simp
    from ones_beyond[OF this] le assms(2) show False by simp
  qed
  have "i < ?r ! ?n"
    by (rule bisect_right_at) (use w pos in \<open>simp add: w_def\<close>)
  then have lt: "i < ones bm (64 * Suc w)"
    using w pos rank_index_ones[OF assms(1), of ?n] by (simp add: w_def)
  then have "i - ones bm (64 * w) < popcount (bm ! w)"
    using le ones_block[OF w assms(1)] by simp
  from select_loop_spec[OF this, of "w * 64"] obtain q where
    q: "select_loop (bm ! w) (i - ones bm (64 * w)) (w * 64) = Some (w * 64 + q)"
       "bm ! w div 2 ^ q mod 2 = 1" "popcount (take_bit q (bm ! w)) = i - ones bm (64 * w)" by blast
  have "q < 64"
  proof (rule ccontr)
    assume "\<not> q < 64"
    then have "(2::nat) ^ 64 \<le> 2 ^ q" by (intro power_increasing) auto
    moreover have "bm ! w < 2 ^ 64" using assms(1) w by (simp add: words64_def)
    ultimately have "bm ! w div 2 ^ q = 0" by (intro div_less) linarith
    with q(2) show False by simp
  qed
  then have "get_bit bm (w * 64 + q) = 1" using q(2) w by (simp add: get_bit_eq)
  moreover have "ones bm (w * 64 + q) = i"
    using ones_word[OF w, of q] q(3) le \<open>q < 64\<close> by (simp add: mult.commute)
  moreover have "select1 (make_trie lv bm lb) i = Inr (w * 64 + q)"
    using q(1) w rank_index_ones[OF assms(1), of w]
    unfolding select1_def Let_def make_trie_def by (simp add: w_def[symmetric, unfolded One_nat_def])
  ultimately show ?thesis by blast
qed

lemma select1_outside:
  assumes "words64 bm" and "ones bm (64 * length bm) \<le> i"
  shows "select1 (make_trie lv bm lb) i = Inl TrieIndexError"
proof -
  let ?r = "rank_index 0 bm"
  have "length bm < bisect_right ?r i"
  proof (rule ccontr)
    assume "\<not> ?thesis"
    then have n: "bisect_right ?r i \<le> length bm" by simp
    then have "i < ?r ! bisect_right ?r i" by (intro bisect_right_at) simp
    also have "\<dots> = ones bm (64 * bisect_right ?r i)" by (rule rank_index_ones[OF assms(1) n])
    also have "\<dots> \<le> ones bm (64 * length bm)"
      unfolding ones_def by (rule sum_mono2) (use n in auto)
    finally show False using assms(2) by simp
  qed
  then have "length bm \<le> bisect_right ?r i - 1" by simp
  then show ?thesis unfolding select1_def Let_def make_trie_def by simp
qed

section \<open>Well-formed rule sets\<close>

definition trie_wf :: "trie \<Rightarrow> bool" where
  "trie_wf t = (words64 (label_bitmap t) \<and> ranks t = rank_index 0 (label_bitmap t))"

definition default_wf :: "default_rule \<Rightarrow> bool" where
  "default_wf d = ((\<forall>t. dr_trie d = Some t \<longrightarrow> trie_wf t) \<and> (\<forall>f. sorted (ranges_of (dr_ranges d) f)))"

fun rule_wf :: "srs_rule \<Rightarrow> bool" where
  "rule_wf (Default d) = default_wf d"
| "rule_wf (Logical _ rs _) = list_all rule_wf rs"

lemma trie_wf_make: "trie_wf t \<Longrightarrow> t = make_trie (leaves t) (label_bitmap t) (labels t)"
  by (simp add: trie_wf_def make_trie_def)

lemma be_int_bound: "be_int bs < 256 ^ length bs"
proof (induction bs rule: rev_induct)
  case (snoc b bs)
  have "unat b < 256" using unsigned_less[of b] by simp
  with snoc show ?case by (simp add: be_int_def)
qed (simp add: be_int_def)

lemma read_many_all:
  "read_many f n r = Inr (xs, r') \<Longrightarrow> x \<in> set xs \<Longrightarrow> (\<And>r x r'. f r = Inr (x, r') \<Longrightarrow> P x) \<Longrightarrow> P x"
proof (induction n arbitrary: r xs)
  case (Suc n)
  from Suc.prems(1) obtain y r1 ys where
    "f r = Inr (y, r1)" "read_many f n r1 = Inr (ys, r')" "xs = y # ys" by auto
  with Suc.IH[of r1 ys] Suc.prems(2,3) show ?case by auto
qed simp

lemma read_list_all:
  "read_list f r = Inr (xs, r') \<Longrightarrow> x \<in> set xs \<Longrightarrow> (\<And>r x r'. f r = Inr (x, r') \<Longrightarrow> P x) \<Longrightarrow> P x"
  by (auto simp: read_list_def intro: read_many_all)

lemma read_uint64_list_words: "read_uint64_list r = Inr (ws, r') \<Longrightarrow> words64 ws"
  unfolding words64_def read_uint64_list_def
proof
  fix w assume "read_list (\<lambda>r. bindR (read_exact 8 r) (\<lambda>(bs, r1). Inr (be_int bs, r1))) r = Inr (ws, r')"
    and "w \<in> set ws"
  then show "w < 2 ^ 64"
    by (rule read_list_all[where P = "\<lambda>w. w < 2 ^ 64"])
      (auto dest!: read_exact_length intro!: order_less_le_trans[OF be_int_bound])
qed

lemma read_domain_matcher_wf: "read_domain_matcher r = Inr (t, r') \<Longrightarrow> trie_wf t"
  by (auto simp: read_domain_matcher_def trie_wf_def make_trie_def dest!: read_uint64_list_words)

lemma ranges_of_map_sort: "ranges_of (map (\<lambda>(f, l). (f, sort l)) d) f = sort (ranges_of d f)"
  by (simp add: ranges_of_def map_of_map split: option.split)

lemma read_ip_ranges_sorted: "read_ip_ranges r = Inr (d, r') \<Longrightarrow> sorted (ranges_of d f)"
  by (auto simp: read_ip_ranges_def ranges_of_map_sort split: if_splits)

lemma fold_add_regex_keeps:
  "dr_trie (fold (add_regex ok) ps d) = dr_trie d \<and> dr_ranges (fold (add_regex ok) ps d) = dr_ranges d"
  by (induction ps arbitrary: d) (simp_all add: add_regex_def mark_unsupported_def)

lemma read_item_wf: "read_item ok item d r = Inr (d', r') \<Longrightarrow> default_wf d \<Longrightarrow> default_wf d'"
  by (auto simp: read_item_def default_wf_def mark_unsupported_def fold_add_regex_keeps
      dest: read_domain_matcher_wf read_ip_ranges_sorted split: if_splits)

lemma read_default_wf: "read_default ok d r = Inr (d', r') \<Longrightarrow> default_wf d \<Longrightarrow> default_wf d'"
proof (induction ok d r rule: read_default.induct)
  case (1 ok d r)
  from 1(2) obtain item r1 where b: "read_byte r = Inr (item, r1)"
    by (subst (asm) read_default.simps) auto
  show ?case
  proof (cases "item = 255")
    case True
    with 1(2,3) b show ?thesis by (subst (asm) read_default.simps) (auto simp: default_wf_def)
  next
    case False
    with 1(2) b obtain d1 r2 where
      i: "read_item ok (unat item) d r1 = Inr (d1, r2)" "read_default ok d1 r2 = Inr (d', r')"
      by (subst (asm) read_default.simps) auto
    from 1(1)[OF b refl False i(1) refl i(2) read_item_wf[OF i(1) 1(3)]] show ?thesis .
  qed
qed

lemma read_rule_wf: "read_rule ok n r = Inr (x, r') \<Longrightarrow> rule_wf x"
proof (induction n arbitrary: r x r')
  case (Suc n)
  from Suc.prems obtain t r1 where b: "read_byte r = Inr (t, r1)" by auto
  have e: "default_wf empty_rule" by (simp add: default_wf_def empty_rule_def ranges_of_def)
  have l: "list_all rule_wf rs" if "read_list (read_rule ok n) r = Inr (rs, r')" for r rs r'
    using read_list_all[where P = rule_wf, OF that _ Suc.IH] by (auto simp: list_all_iff)
  from Suc.prems b show ?case
    by (auto split: if_splits dest!: read_default_wf[OF _ e] l)
qed simp

lemma parse_wf:
  assumes "parse inflate ok raw = Inr rs" "x \<in> set rs"
  shows "rule_wf x"
proof -
  from assms(1) obtain body r' where
    "read_list (read_rule ok (Suc (length body))) body = Inr (rs, r')"
    by (auto simp: parse_def simp del: read_rule.simps split: if_splits option.splits)
  from read_list_all[OF this assms(2) read_rule_wf] show ?thesis .
qed

subsection \<open>The walks return\<close>

lemma edge_loop_returns: "edge_loop t c n b \<noteq> Inl NoFuel"
proof (induction t c n b rule: edge_loop.induct)
  case (1 t c n b)
  then show ?case by (subst edge_loop.simps) (auto simp: Let_def)
qed

lemma tail_loop_returns: "tail_loop t n b \<noteq> Inl NoFuel"
proof (induction t n b rule: tail_loop.induct)
  case (1 t n b)
  then show ?case by (subst tail_loop.simps) (auto simp: Let_def)
qed

lemma select1_returns: "trie_wf t \<Longrightarrow> select1 t i \<noteq> Inl NoFuel"
  using select1_spec[of "label_bitmap t" i "leaves t" "labels t"]
    select1_outside[of "label_bitmap t" i "leaves t" "labels t"] trie_wf_make[of t]
  by (cases "i < ones (label_bitmap t) (64 * length (label_bitmap t))") (auto simp: trie_wf_def)

lemma has_from_returns: "trie_wf t \<Longrightarrow> has_from t cs n b \<noteq> Inl NoFuel"
proof (induction cs arbitrary: n b)
  case Nil
  then show ?case by (simp add: tail_loop_returns)
next
  case (Cons c cs)
  then show ?case
    by (auto simp: bindR_eq_Inl Let_def edge_loop_returns select1_returns split: edge.splits)
qed

lemma anyR_returns: "(\<And>x. x \<in> set xs \<Longrightarrow> f x \<noteq> Inl e) \<Longrightarrow> anyR f xs \<noteq> Inl e"
  by (induction xs) (auto simp: bindR_eq_Inl split: if_splits)

lemma allR_returns: "(\<And>x. x \<in> set xs \<Longrightarrow> f x \<noteq> Inl e) \<Longrightarrow> allR f xs \<noteq> Inl e"
  by (induction xs) (auto simp: bindR_eq_Inl split: if_splits)

lemma default_match_returns: "default_wf d \<Longrightarrow> default_match se d dm ips \<noteq> Inl NoFuel"
  by (auto simp: default_match_def match_names_def match_domain_def has_def bindR_eq_Inl Let_def
      default_wf_def has_from_returns split: option.splits)

lemma rule_match_returns: "rule_wf x \<Longrightarrow> rule_match se x dm ips \<noteq> Inl NoFuel"
proof (induction x)
  case (Default d)
  then show ?case by (simp add: default_match_returns)
next
  case (Logical c rs i)
  then have "\<And>r. r \<in> set rs \<Longrightarrow> rule_match se r dm ips \<noteq> Inl NoFuel" by (simp add: list_all_iff)
  then show ?case by (auto simp: bindR_eq_Inl intro!: anyR_returns allR_returns
      dest: anyR_returns[THEN notE] allR_returns[THEN notE])
qed


subsection \<open>The fuel of \<open>read_rule\<close>\<close>

lemma read_many_cong:
  assumes "\<And>r'. length r' \<le> length r \<Longrightarrow> f r' = g r'"
    and "\<And>r x r'. f r = Inr (x, r') \<Longrightarrow> length r' \<le> length r"
  shows "read_many f n r = read_many g n r"
  using assms(1)
proof (induction n arbitrary: r)
  case (Suc n)
  have "read_many f n r1 = read_many g n r1" if "f r = Inr (x, r1)" for x r1
    using Suc assms(2)[OF that] by (meson order_trans)
  moreover have "f r = g r" using Suc.prems by simp
  ultimately show ?case by (auto intro!: bindR_cong)
qed simp

lemma read_list_cong:
  assumes "\<And>r'. length r' < length r \<Longrightarrow> f r' = g r'"
    and "\<And>r x r'. f r = Inr (x, r') \<Longrightarrow> length r' \<le> length r"
  shows "read_list f r = read_list g r"
  unfolding read_list_def
proof (intro bindR_cong refl, clarify)
  fix n r1 assume "read_uvarint r = Inr (n, r1)"
  then have "length r1 < length r" by (rule read_uvarint_length)
  with assms show "read_many f n r1 = read_many g n r1"
    by (intro read_many_cong) auto
qed

lemma read_default_length: "read_default ok d r = Inr (d', r') \<Longrightarrow> length r' < length r"
proof (induction ok d r rule: read_default.induct)
  case (1 ok d r)
  from 1(2) obtain item r1 where b: "read_byte r = Inr (item, r1)"
    by (subst (asm) read_default.simps) auto
  show ?case
  proof (cases "item = 255")
    case True
    with 1(2) b show ?thesis by (subst (asm) read_default.simps) (auto dest!: read_byte_length)
  next
    case False
    with 1(2) b obtain d1 r2 where
      i: "read_item ok (unat item) d r1 = Inr (d1, r2)" "read_default ok d1 r2 = Inr (d', r')"
      by (subst (asm) read_default.simps) auto
    from 1(1)[OF b refl False i(1) refl i(2)] read_item_length[OF i(1)] read_byte_length[OF b]
    show ?thesis by simp
  qed
qed

lemma read_rule_length: "read_rule ok n r = Inr (x, r') \<Longrightarrow> length r' \<le> length r"
proof (induction n arbitrary: r x r')
  case (Suc n)
  then show ?case
    by (auto split: if_splits dest!: read_byte_length read_default_length
        read_list_length[OF _ Suc.IH])
qed simp

lemma read_rule_fuel: "length r < n \<Longrightarrow> length r < m \<Longrightarrow> read_rule ok n r = read_rule ok m r"
proof (induction n arbitrary: m r)
  case (Suc n)
  then obtain m' where m: "m = Suc m'" by (cases m) auto
  have "read_list (read_rule ok n) r2 = read_list (read_rule ok m') r2"
    if "read_byte r = Inr (t, r1)" "read_byte r1 = Inr (k, r2)" for t r1 k r2
  proof (rule read_list_cong)
    fix r' :: bytes assume "length r' < length r2"
    with that Suc.prems m show "read_rule ok n r' = read_rule ok m' r'"
      by (intro Suc.IH) (auto dest!: read_byte_length)
  qed (rule read_rule_length)
  then show ?case unfolding m by (auto intro!: bindR_cong)
qed simp

lemma read_exact_NoFuel: "read_exact n r \<noteq> Inl NoFuel"
  by (simp add: read_exact_def)

lemma read_byte_NoFuel: "read_byte r \<noteq> Inl NoFuel"
  by (simp add: read_byte_def split: list.split)

lemma uvarint_loop_NoFuel: "uvarint_loop a s r \<noteq> Inl NoFuel"
  by (induction a s r rule: uvarint_loop.induct) (auto simp: Let_def)

lemma read_uvarint_NoFuel: "read_uvarint r \<noteq> Inl NoFuel"
  by (simp add: read_uvarint_def uvarint_loop_NoFuel)

lemma read_many_NoFuel:
  assumes "\<And>r'. length r' \<le> length r \<Longrightarrow> f r' \<noteq> Inl NoFuel"
    and "\<And>r x r'. f r = Inr (x, r') \<Longrightarrow> length r' \<le> length r"
  shows "read_many f n r \<noteq> Inl NoFuel"
  using assms(1)
proof (induction n arbitrary: r)
  case (Suc n)
  have "read_many f n r1 \<noteq> Inl NoFuel" if "f r = Inr (x, r1)" for x r1
    using Suc assms(2)[OF that] by (meson order_trans)
  moreover have "f r \<noteq> Inl NoFuel" using Suc.prems by simp
  ultimately show ?case by (auto simp: bindR_eq_Inl)
qed simp

lemma read_list_NoFuel:
  assumes "\<And>r'. length r' < length r \<Longrightarrow> f r' \<noteq> Inl NoFuel"
    and "\<And>r x r'. f r = Inr (x, r') \<Longrightarrow> length r' \<le> length r"
  shows "read_list f r \<noteq> Inl NoFuel"
proof -
  have "read_many f n r1 \<noteq> Inl NoFuel" if "read_uvarint r = Inr (n, r1)" for n r1
    using assms read_uvarint_length[OF that] by (intro read_many_NoFuel) auto
  then show ?thesis by (auto simp: read_list_def bindR_eq_Inl read_uvarint_NoFuel)
qed

lemma read_block_NoFuel: "read_block r \<noteq> Inl NoFuel"
  by (auto simp: read_block_def bindR_eq_Inl read_uvarint_NoFuel read_exact_NoFuel)

lemma read_string_list_NoFuel: "read_string_list r \<noteq> Inl NoFuel"
  unfolding read_string_list_def
  by (rule read_list_NoFuel) (auto simp: bindR_eq_Inl read_block_NoFuel dest!: read_block_length)

lemma read_uint64_list_NoFuel: "read_uint64_list r \<noteq> Inl NoFuel"
  unfolding read_uint64_list_def
  by (rule read_list_NoFuel) (auto simp: bindR_eq_Inl read_exact_NoFuel dest!: read_exact_length)

lemma read_ip_ranges_NoFuel: "read_ip_ranges r \<noteq> Inl NoFuel"
proof -
  have "read_many read_range n r2 \<noteq> Inl NoFuel" for n r2
    by (rule read_many_NoFuel) (auto simp: read_range_def bindR_eq_Inl read_block_NoFuel
        dest!: read_block_length split: if_splits)
  then show ?thesis
    by (auto simp: read_ip_ranges_def bindR_eq_Inl read_byte_NoFuel read_exact_NoFuel split: if_splits)
qed

lemmas reader_NoFuel = read_exact_NoFuel read_byte_NoFuel read_uvarint_NoFuel read_block_NoFuel
  read_string_list_NoFuel read_uint64_list_NoFuel read_ip_ranges_NoFuel

lemma read_item_NoFuel: "read_item ok item d r \<noteq> Inl NoFuel"
  by (auto simp: read_item_def read_domain_matcher_def skip_uint16_list_def skip_uint8_list_def
      bindR_eq_Inl reader_NoFuel split: if_splits)

lemma read_default_NoFuel: "read_default ok d r \<noteq> Inl NoFuel"
proof (induction ok d r rule: read_default.induct)
  case (1 ok d r)
  show ?case
    by (subst read_default.simps)
      (auto simp: bindR_eq_Inl reader_NoFuel read_item_NoFuel split: if_splits dest: 1[OF _ refl _ _ refl])
qed

lemma read_rule_NoFuel: "length r < n \<Longrightarrow> read_rule ok n r \<noteq> Inl NoFuel"
proof (induction n arbitrary: r)
  case (Suc n)
  have "read_list (read_rule ok n) r2 \<noteq> Inl NoFuel"
    if "read_byte r = Inr (t, r1)" "read_byte r1 = Inr (k, r2)" for t r1 k r2
  proof (rule read_list_NoFuel)
    fix r' :: bytes assume "length r' < length r2"
    with that Suc.prems show "read_rule ok n r' \<noteq> Inl NoFuel"
      by (intro Suc.IH) (auto dest!: read_byte_length)
  qed (rule read_rule_length)
  then show ?case
    by (auto simp: bindR_eq_Inl reader_NoFuel read_default_NoFuel split: if_splits)
qed simp


subsection \<open>Address ranges\<close>

definition ranges_ok :: "(nat \<times> nat) list \<Rightarrow> bool" where
  "ranges_ok l = (sorted_wrt (\<lambda>a b. snd a < fst b) l \<and> (\<forall>x \<in> set l. fst x \<le> snd x \<and> snd x < 2 ^ 128))"

lemma range_after:
  assumes "ranges_ok l" "k < length l" "bisect_right l (v, 2 ^ 128) \<le> k"
  shows "v < fst (l ! k)"
proof -
  let ?n = "bisect_right l (v, 2 ^ 128)"
  have n: "?n < length l" using assms by simp
  from bisect_right_at[OF n] have g: "(v, 2 ^ 128) < l ! ?n" .
  have "l ! ?n \<in> set l" using n by simp
  with assms(1) have hi: "fst (l ! ?n) \<le> snd (l ! ?n)" "snd (l ! ?n) < 2 ^ 128"
    by (simp_all add: ranges_ok_def)
  with g have "v < fst (l ! ?n)" by (cases "l ! ?n") (auto simp: less_prod_def)
  moreover have "fst (l ! ?n) \<le> fst (l ! k)"
  proof (cases "?n = k")
    case False
    then have "snd (l ! ?n) < fst (l ! k)"
      using assms sorted_wrt_nth_less[of "\<lambda>a b. snd a < fst b" l ?n k] by (simp add: ranges_ok_def)
    with hi show ?thesis by simp
  qed simp
  ultimately show ?thesis by simp
qed

lemma bisect_hit:
  fixes v :: nat
  assumes "ranges_ok l"
  defines "n \<equiv> bisect_right l (v, 2 ^ 128)"
  shows "(n > 0 \<and> fst (l ! (n - 1)) \<le> v \<and> v \<le> snd (l ! (n - 1)))
    \<longleftrightarrow> (\<exists>(lo, hi) \<in> set l. lo \<le> v \<and> v \<le> hi)" (is "?L \<longleftrightarrow> ?R")
proof
  assume L: ?L
  then have "n - 1 < length l" using bisect_right_le[of l "(v, 2 ^ 128)"] unfolding n_def by linarith
  then have "l ! (n - 1) \<in> set l" by simp
  with L show ?R by (intro bexI[of _ "l ! (n - 1)"]) (auto split: prod.split)
next
  assume ?R
  then obtain k where k: "k < length l" "fst (l ! k) \<le> v" "v \<le> snd (l ! k)"
    by (auto simp: in_set_conv_nth)
  with range_after[OF assms(1) k(1), of v] have kn: "k < n" by (force simp: n_def)
  have "k = n - 1"
  proof (rule ccontr)
    assume "k \<noteq> n - 1"
    with kn have "k < n - 1" "n - 1 < length l"
      using bisect_right_le[of l "(v, 2 ^ 128)"] by (simp_all add: n_def)
    then have "snd (l ! k) < fst (l ! (n - 1))"
      using assms(1) sorted_wrt_nth_less[of "\<lambda>a b. snd a < fst b" l k "n - 1"]
      by (simp add: ranges_ok_def)
    moreover have "l ! (n - 1) \<le> (v, 2 ^ 128)"
      using kn bisect_right_before[of "n - 1" l "(v, 2 ^ 128)"] by (simp add: n_def)
    ultimately show False using k(3) by (cases "l ! (n - 1)") (auto simp: less_eq_prod_def)
  qed
  with k kn show ?L by simp
qed

lemma contains_iff:
  assumes "ranges_ok (ranges_of (dr_ranges d) (ia_fam ip))"
  shows "contains d ip \<longleftrightarrow>
    (\<exists>(lo, hi) \<in> set (ranges_of (dr_ranges d) (ia_fam ip)). lo \<le> ia_val ip \<and> ia_val ip \<le> hi)"
  using bisect_hit[OF assms, of "ia_val ip"] by (simp add: contains_def Let_def)

section \<open>Properties\<close>

text \<open>Reading a varint gives back the number that the format's encoder wrote, and leaves the rest
  of the stream, for every number below \<open>2^70\<close> (the reader's ten-byte limit).\<close>

theorem uvarint_roundtrip: "n < 2 ^ 70 \<Longrightarrow> read_uvarint (enc_uvarint n @ r) = Inr (n, r)"
  by (rule read_uvarint_enc)

lemma uvarint_roundtrip_witness: "read_uvarint (enc_uvarint 300 @ [7]) = Inr (300, [7])"
  by (rule uvarint_roundtrip) simp

text \<open>C26: \<open>_rank1\<close> and \<open>_select1\<close> are the rank and the select of the label bitmap. For a trie built from
  64-bit words, \<open>_rank1 (i)\<close> is the number of set bits before position \<open>i\<close>, also beyond the last word;
  \<open>_select1 (k)\<close> is the position of the \<open>k\<close>-th set bit, counted from zero, and raises an IndexError
  exactly when there are not that many. So the bit loop of \<open>_select1\<close> ends on every word that the
  binary search picks.\<close>

theorem rank_and_select:
  assumes "words64 bm"
  shows "rank1 (make_trie lv bm lb) i = card {j. j < i \<and> set_bit_at bm j}
    \<and> (case select1 (make_trie lv bm lb) k of
         Inr p \<Rightarrow> set_bit_at bm p \<and> card {j. j < p \<and> set_bit_at bm j} = k
       | Inl e \<Rightarrow> e = TrieIndexError \<and> card {j. set_bit_at bm j} \<le> k)"
proof -
  have "case select1 (make_trie lv bm lb) k of
      Inr p \<Rightarrow> set_bit_at bm p \<and> card {j. j < p \<and> set_bit_at bm j} = k
    | Inl e \<Rightarrow> e = TrieIndexError \<and> card {j. set_bit_at bm j} \<le> k"
  proof (cases "k < ones bm (64 * length bm)")
    case True
    from select1_spec[OF assms True, of lv lb] show ?thesis by (auto simp: ones_card get_bit_set[symmetric])
  next
    case False
    then show ?thesis using select1_outside[OF assms, of k lv lb] ones_all[of bm] by simp
  qed
  then show ?thesis by (simp add: rank1_ones[OF assms] ones_card)
qed

lemma rank_and_select_witness:
  "rank1 (make_trie [] [5] []) 200 = card {j. j < 200 \<and> set_bit_at [5] j}
    \<and> (case select1 (make_trie [] [5] []) 1 of
         Inr p \<Rightarrow> set_bit_at [5] p \<and> card {j. j < p \<and> set_bit_at [5] j} = 1
       | Inl e \<Rightarrow> e = TrieIndexError \<and> card {j. set_bit_at [5] j} \<le> 1)"
  by (rule rank_and_select) (simp add: words64_def)

text \<open>The binary search of \<open>_contains\<close> decides membership: on a family's sorted, disjoint ranges it
  answers true exactly when some range contains the address.\<close>

theorem contains_is_membership:
  assumes "ranges_ok (ranges_of (dr_ranges d) (ia_fam ip))"
  shows "contains d ip \<longleftrightarrow>
    (\<exists>(lo, hi) \<in> set (ranges_of (dr_ranges d) (ia_fam ip)). lo \<le> ia_val ip \<and> ia_val ip \<le> hi)"
  by (rule contains_iff[OF assms])

lemma contains_is_membership_witness:
  "let d = empty_rule\<lparr>dr_ranges := [(V4, [(10, 20), (30, 40)])]\<rparr>;
       ip = \<lparr>ia_fam = V4, ia_val = 35, ia_scope = None\<rparr>
   in contains d ip \<longleftrightarrow>
    (\<exists>(lo, hi) \<in> set (ranges_of (dr_ranges d) (ia_fam ip)). lo \<le> ia_val ip \<and> ia_val ip \<le> hi)"
  unfolding Let_def
  by (rule contains_is_membership) (simp add: ranges_ok_def ranges_of_def empty_rule_def)

text \<open>Reading a rule set ends: the recursion over nested logical rules never needs more levels than
  the body has bytes, so the fuel given by \<open>parse\<close> is never exhausted, and more of it changes
  nothing.\<close>

theorem parse_total: "parse inflate re_ok raw \<noteq> Inl NoFuel"
proof -
  have "read_list (read_rule re_ok (Suc (length body))) body \<noteq> Inl NoFuel" for body
    by (rule read_list_NoFuel) (auto simp del: read_rule.simps
        dest: read_rule_length intro!: read_rule_NoFuel)
  then show ?thesis
    by (auto simp: parse_def bindR_eq_Inl simp del: read_rule.simps split: option.splits)
qed

text \<open>C25: a parsed rule set always answers: for every file that \<open>parse\<close> accepts, \<open>RuleSet.match\<close> ends on
  every destination: the walk of the trie, its bit loop included, never runs forever (the only
  failure left is an index outside a truncated trie).\<close>

theorem parsed_match_returns:
  assumes "parse inflate re_ok raw = Inr rs"
  shows "ruleset_match re_search rs dm ips \<noteq> Inl NoFuel"
  unfolding ruleset_match_def
  by (rule anyR_returns) (rule rule_match_returns, rule parse_wf[OF assms])

text \<open>The file used by the witness: one default rule with the domain trie of \<open>''a''\<close>.\<close>

definition sample_file :: bytes where
  "sample_file = magic @ [3, 1, 0, 2, 0, 1, 0, 0, 0, 0, 0, 0, 0, 2, 1, 0, 0, 0, 0, 0, 0, 0, 6, 1, 97, 255, 0]"

lemma sample_parse:
  "parse Some (\<lambda>_. True) sample_file = Inr [Default (empty_rule\<lparr>dr_trie := Some (make_trie [2] [6] [97])\<rparr>)]"
  by code_simp

lemma parsed_match_returns_witness:
  "ruleset_match (\<lambda>_ _. False) [Default (empty_rule\<lparr>dr_trie := Some (make_trie [2] [6] [97])\<rparr>)] (Some ''a'') [] \<noteq> Inl NoFuel
   \<and> ruleset_match (\<lambda>_ _. False) [Default (empty_rule\<lparr>dr_trie := Some (make_trie [2] [6] [97])\<rparr>)] (Some ''a'') [] = Inr True"
proof
  show "ruleset_match (\<lambda>_ _. False) [Default (empty_rule\<lparr>dr_trie := Some (make_trie [2] [6] [97])\<rparr>)] (Some ''a'') [] = Inr True"
    by code_simp
qed (rule parsed_match_returns[OF sample_parse])

text \<open>The disclosure of \<open>RuleSet.unsupported\<close> ("rules carrying them are treated as not matching")
  does not extend to inverted logical rules: one whose only child carries an unsupported constraint
  matches every destination.\<close>

theorem inverted_unsupported_matches:
  "ruleset_match re_search [Logical all [Default (empty_rule\<lparr>dr_unsupported := [u]\<rparr>)] True] dm ips
     = Inr True"
  by (cases all) (simp_all add: ruleset_match_def default_match_def empty_rule_def)

end
