(* ===== verification/Json.thy ===== *)
theory Json
  imports Complex_Main Prelude "HOL-Library.Multiset"
begin

text \<open>
  The JSON values that the state file and its digests are made of. Numbers are rationals: Python
  compares ints and floats by value. \<open>canon\<close> sorts every object by key, as \<open>json.dumps\<close> does under
  \<open>sort_keys=True\<close>; two values are equal for Python exactly when their canonical forms are.
\<close>

datatype json =
    JNull
  | JBool bool
  | JNum rat
  | JStr string
  | JArr "json list"
  | JObj "(string \<times> json) list"

type_synonym jobj = "(string, json) dict"

fun canon :: "json \<Rightarrow> json" where
  "canon (JArr xs) = JArr (map canon xs)"
| "canon (JObj kvs) = JObj (sort_key fst (map (\<lambda>(k, v). (k, canon v)) kvs))"
| "canon j = j"

definition jeq :: "json \<Rightarrow> json \<Rightarrow> bool" where
  "jeq a b = (canon a = canon b)"

definition obj_eq :: "jobj \<Rightarrow> jobj \<Rightarrow> bool" where
  "obj_eq a b = jeq (JObj a) (JObj b)"

lemma jeq_refl [simp]: "jeq a a"
  by (simp add: jeq_def)

lemma obj_eq_refl [simp]: "obj_eq a a"
  by (simp add: obj_eq_def)

lemma jeq_sym: "jeq a b \<Longrightarrow> jeq b a"
  by (simp add: jeq_def)

lemma jeq_trans: "jeq a b \<Longrightarrow> jeq b c \<Longrightarrow> jeq a c"
  by (simp add: jeq_def)

text \<open>Truthiness of \<open>d.get(k) or {}\<close> and friends.\<close>

fun truthy :: "json \<Rightarrow> bool" where
  "truthy JNull = False"
| "truthy (JBool b) = b"
| "truthy (JNum n) = (n \<noteq> 0)"
| "truthy (JStr s) = (s \<noteq> [])"
| "truthy (JArr xs) = (xs \<noteq> [])"
| "truthy (JObj kvs) = (kvs \<noteq> [])"

fun as_obj :: "json \<Rightarrow> jobj" where
  "as_obj (JObj kvs) = kvs"
| "as_obj _ = []"

definition get_str :: "jobj \<Rightarrow> string \<Rightarrow> string" where
  "get_str d k = (case dget d k of Some (JStr s) \<Rightarrow> s | _ \<Rightarrow> [])"

definition get_obj :: "jobj \<Rightarrow> string \<Rightarrow> jobj" where
  "get_obj d k = (case dget d k of Some j \<Rightarrow> as_obj j | None \<Rightarrow> [])"

text \<open>Insertion order does not matter to equality.\<close>

lemma canon_perm:
  assumes "distinct (keys a)" "mset a = mset b"
  shows "canon (JObj a) = canon (JObj b)"
proof -
  let ?f = "map (\<lambda>(k, v). (k, canon v))"
  have "distinct (map fst (?f a))" using assms(1) by (simp add: case_prod_beta comp_def)
  then have "inj_on fst (set (?f a))" by (rule distinct_map[THEN iffD1, THEN conjunct2])
  moreover have "mset (?f a) = mset (sort_key fst (?f b))" using assms(2) by simp
  ultimately have "sort_key fst (?f a) = sort_key fst (?f b)"
    by (intro sort_key_inj_key_eq) auto
  then show ?thesis by simp
qed

end
