(* ===== verification/State.thy ===== *)
theory State
  imports Json "HOL-Library.Product_Lexorder"
begin

text \<open>
  The data model of \<open>anyhop/state.py\<close>: the raw dictionaries of \<open>state.json\<close> as records, the flat
  channel view, identities (slugs, tags, rule ids), fingerprints and revisions. An absent key and
  its default are one value where every reader treats them alike (\<open>enabled\<close> absent reads true, an
  empty label is never written); where a reader can tell them apart the field is an option.
  SHA-256 over canonical JSON is the argument \<open>dg\<close>.
\<close>

section \<open>Records\<close>

record rule =
  rid :: string
  rtype :: string
  rvalue :: string
  rtarget :: string
  rruleset :: string
  rname :: "string option"
  rmanaged :: bool

record chan =
  ch_country :: string
  ch_city :: string
  ch_port :: int
  ch_wg :: jobj
  ch_probe :: "jobj option"
  ch_reconnect :: "jobj option"
  ch_label :: string
  ch_server :: string
  ch_enabled :: bool
  ch_port_explicit :: bool
  ch_port_home :: "int option"
  ch_managed :: bool

record prov =
  pv_channels :: "(string, chan) dict"
  pv_managed :: bool

record router =
  rt_port :: int
  rt_port_explicit :: bool
  rt_port_home :: "int option"
  rt_killswitch :: bool
  rt_lan_direct :: bool
  rt_tun :: bool
  rt_rules :: "rule list"

record geo_entry =
  ge_commit :: string
  ge_source :: string
  ge_files :: "(string, jobj) dict"

record geodata =
  gd_source :: string
  gd_kinds :: "(string, geo_entry) dict"

record backup_conf =
  bk_enabled :: "bool option"
  bk_dir :: "string option"
  bk_every_hours :: "rat option"
  bk_keep :: "int option"

record data =
  d_version :: int
  d_providers :: "(string, prov) dict"
  d_router :: router
  d_geodata :: geodata
  d_backup :: backup_conf
  d_service_offered :: bool
  d_setup_commit :: "string option"

type_synonym cref = "string \<times> string"

record block =
  b_id :: string
  b_name :: string
  b_target :: string
  b_rules :: "rule list"

datatype store_error =
    BadPort int
  | PortInUse int string
  | BadPortBase
  | NoFreePort
  | ProviderNotAdded string
  | NoSuchChannel string
  | ChannelDisabled string
  | RuleWithoutRuleset string
  | NotContiguous string
  | MixedTargets string
  | UnknownRuleset string
  | NoMatchers
  | EmptyName
  | BadNumber string
  | Referenced "(string, rule list) dict"
  | RevisionConflict string string string "string option"
  | DuplicateIds string "string list"
  | UnknownIds string "string list"
  | MissingIds string "string list"
  | AlreadyInRuleset "string list"
  | EmptySequence

definition router_blank :: router where
  "router_blank = \<lparr>rt_port = 0, rt_port_explicit = False, rt_port_home = None, rt_killswitch = False,
     rt_lan_direct = True, rt_tun = False, rt_rules = []\<rparr>"

definition blank :: data where
  "blank = \<lparr>d_version = 1, d_providers = [], d_router = router_blank,
     d_geodata = \<lparr>gd_source = [], gd_kinds = []\<rparr>,
     d_backup = \<lparr>bk_enabled = None, bk_dir = None, bk_every_hours = None, bk_keep = None\<rparr>,
     d_service_offered = False, d_setup_commit = None\<rparr>"

section \<open>Reading and writing one channel\<close>

text \<open>\<open>(providers.get(p) or {}).get("channels") or {}\<close>, and the same place assigned.\<close>

definition channels_of :: "data \<Rightarrow> string \<Rightarrow> (string, chan) dict" where
  "channels_of d p = (case dget (d_providers d) p of None \<Rightarrow> [] | Some pv \<Rightarrow> pv_channels pv)"

definition get_chan :: "data \<Rightarrow> string \<Rightarrow> string \<Rightarrow> chan option" where
  "get_chan d p c = dget (channels_of d p) c"

definition set_channels :: "string \<Rightarrow> (string, chan) dict \<Rightarrow> data \<Rightarrow> data" where
  "set_channels p cs d = (case dget (d_providers d) p of
     None \<Rightarrow> d
   | Some pv \<Rightarrow> d\<lparr>d_providers := dset p (pv\<lparr>pv_channels := cs\<rparr>) (d_providers d)\<rparr>)"

definition put_chan :: "string \<Rightarrow> string \<Rightarrow> chan \<Rightarrow> data \<Rightarrow> data" where
  "put_chan p c ch d = set_channels p (dset c ch (channels_of d p)) d"

definition pop_chan :: "string \<Rightarrow> string \<Rightarrow> data \<Rightarrow> data" where
  "pop_chan p c d = set_channels p (dpop c (channels_of d p)) d"

abbreviation rules_of :: "data \<Rightarrow> rule list" where
  "rules_of d \<equiv> rt_rules (d_router d)"

definition set_rules :: "rule list \<Rightarrow> data \<Rightarrow> data" where
  "set_rules rs d = d\<lparr>d_router := (d_router d)\<lparr>rt_rules := rs\<rparr>\<rparr>"

definition require_provider :: "data \<Rightarrow> string \<Rightarrow> (store_error, prov) result" where
  "require_provider d p = (case dget (d_providers d) p of
     None \<Rightarrow> Inl (ProviderNotAdded p) | Some pv \<Rightarrow> Inr pv)"

definition ref_str :: "cref \<Rightarrow> string" where
  "ref_str r = fst r @ ''/'' @ snd r"

text \<open>\<open>target.partition("/")\<close>: \<open>None\<close> when there is no channel part.\<close>

definition target_ref :: "string \<Rightarrow> cref option" where
  "target_ref t = (case str_partition CHR ''/'' t of (p, _, c) \<Rightarrow> if c = [] then None else Some (p, c))"

definition ensure_channel_target :: "data \<Rightarrow> string \<Rightarrow> (store_error, unit) result" where
  "ensure_channel_target d t = (case target_ref t of
     None \<Rightarrow> Inr ()
   | Some (p, c) \<Rightarrow> (case get_chan d p c of
       None \<Rightarrow> Inl (NoSuchChannel t)
     | Some ch \<Rightarrow> if ch_enabled ch then Inr () else Inl (ChannelDisabled t)))"

definition note_ref :: "cref set \<Rightarrow> rule \<Rightarrow> (string, rule list) dict \<Rightarrow> (string, rule list) dict" where
  "note_ref refs r out = (case target_ref (rtarget r) of
       None \<Rightarrow> out
     | Some pc \<Rightarrow> if pc \<in> refs
         then dset (ref_str pc) ((case dget out (ref_str pc) of None \<Rightarrow> [] | Some l \<Rightarrow> l) @ [r]) out
         else out)"

definition rules_referencing :: "data \<Rightarrow> cref set \<Rightarrow> (string, rule list) dict" where
  "rules_referencing d refs = fold (note_ref refs) (rules_of d) []"

section \<open>Names and tags\<close>

definition is_alnum :: "char \<Rightarrow> bool" where
  "is_alnum c = (let n = of_char c :: nat in (97 \<le> n \<and> n \<le> 122) \<or> (48 \<le> n \<and> n \<le> 57))"

fun squash :: "bool \<Rightarrow> string \<Rightarrow> string" where
  "squash in_run [] = []"
| "squash in_run (c # cs) =
     (if is_alnum c then c # squash False cs
      else if in_run then squash True cs
      else CHR ''_'' # squash True cs)"

definition slug :: "string \<Rightarrow> string" where
  "slug t = (let s = strip_chars {CHR ''_''} (squash False (lower t)) in if s = [] then ''channel'' else s)"

definition inbound_tag :: "string \<Rightarrow> string \<Rightarrow> string" where
  "inbound_tag p c = ''in-'' @ p @ ''-'' @ c"

definition outbound_tag :: "string \<Rightarrow> string \<Rightarrow> string" where
  "outbound_tag p c = ''out-'' @ p @ ''-'' @ c"

definition tag_to_ref :: "string \<Rightarrow> cref option" where
  "tag_to_ref t = (case str_partition CHR ''-'' t of (a, f1, r) \<Rightarrow>
     (case str_partition CHR ''-'' r of (p, f2, c) \<Rightarrow>
       if f1 \<and> f2 \<and> (a = ''in'' \<or> a = ''out'') then Some (p, c) else None))"

text \<open>\<open>_next_id\<close>: the first suffix, from 1 upward, whose id is not taken. The search ends after at
  most one step more than there are taken ids (\<open>next_suffix_fresh\<close>).\<close>

fun suffix_from :: "string list \<Rightarrow> string \<Rightarrow> nat \<Rightarrow> nat \<Rightarrow> nat option" where
  "suffix_from taken base n 0 = None"
| "suffix_from taken base n (Suc fuel) =
     (if base @ ''_'' @ nat_str n \<in> set taken then suffix_from taken base (n + 1) fuel else Some n)"

definition id_base :: "(string \<Rightarrow> string) \<Rightarrow> string \<Rightarrow> string \<Rightarrow> string option \<Rightarrow> string" where
  "id_base country_code country city hint =
     (if hint \<noteq> None \<and> hint \<noteq> Some [] then slug (the hint)
      else if country \<noteq> [] \<or> city \<noteq> [] then
        (let cc = (if country_code country \<noteq> [] then country_code country else slug country)
         in join ''_'' (filter (\<lambda>p. p \<noteq> []) [''wg'', cc, if city \<noteq> [] then slug city else []]))
      else ''channel'')"

definition next_id :: "(string \<Rightarrow> string) \<Rightarrow> string list \<Rightarrow> string \<Rightarrow> string \<Rightarrow> string option \<Rightarrow> string" where
  "next_id country_code taken country city hint =
     (let base = id_base country_code country city hint in
      base @ ''_'' @ nat_str (case suffix_from taken base 1 (Suc (length taken)) of
        Some n \<Rightarrow> n | None \<Rightarrow> 0))"

section \<open>The channel view\<close>

record channel =
  c_provider :: string
  c_id :: string
  c_port :: int
  c_country :: string
  c_city :: string
  c_label :: string
  c_server :: string
  c_wg :: jobj
  c_probe :: jobj
  c_reconnect :: jobj
  c_enabled :: bool

definition channel_view :: "string \<Rightarrow> string \<Rightarrow> chan \<Rightarrow> channel" where
  "channel_view p c ch = \<lparr>c_provider = p, c_id = c, c_port = ch_port ch, c_country = ch_country ch,
     c_city = ch_city ch, c_label = ch_label ch, c_server = ch_server ch, c_wg = ch_wg ch,
     c_probe = (case ch_probe ch of None \<Rightarrow> [] | Some x \<Rightarrow> x),
     c_reconnect = (case ch_reconnect ch of None \<Rightarrow> [] | Some x \<Rightarrow> x),
     c_enabled = ch_enabled ch\<rparr>"

definition display :: "channel \<Rightarrow> string" where
  "display c = (if c_label c \<noteq> [] then c_label c else c_id c)"

definition current_server :: "channel \<Rightarrow> string" where
  "current_server c = get_str (get_obj (c_wg c) ''peer'') ''hostname''"

text \<open>The dash shown for an unknown place lies outside Latin-1; \<open>[char_of 150]\<close> stands for it.\<close>

definition location :: "channel \<Rightarrow> string" where
  "location c = (if c_city c \<noteq> [] then c_city c @ '', '' @ c_country c
     else if c_country c \<noteq> [] then c_country c else [char_of (150 :: nat)])"

definition listed_last :: "string list" where
  "listed_last = [''customized'']"

definition provider_order :: "string \<Rightarrow> bool \<times> string" where
  "provider_order p = (p \<in> set listed_last, p)"

definition provider_names :: "data \<Rightarrow> string list" where
  "provider_names d = sort_key provider_order (keys (d_providers d))"

definition sorted_items :: "(string, 'v) dict \<Rightarrow> (string \<times> 'v) list" where
  "sorted_items xs = sort_key fst xs"

definition provider_channels :: "data \<Rightarrow> string \<Rightarrow> channel list" where
  "provider_channels d p = map (\<lambda>(c, ch). channel_view p c ch) (sorted_items (channels_of d p))"

definition channels :: "data \<Rightarrow> channel list" where
  "channels d = concat (map (provider_channels d) (provider_names d))"

definition get_channel :: "data \<Rightarrow> string \<Rightarrow> string \<Rightarrow> channel option" where
  "get_channel d p c = map_option (channel_view p c) (get_chan d p c)"

section \<open>Fingerprints and revisions\<close>

definition fingerprint_raw :: "(json \<Rightarrow> 'h) \<Rightarrow> chan \<Rightarrow> 'h" where
  "fingerprint_raw dg ch = dg (canon (JObj [(''enabled'', JBool (ch_enabled ch)),
     (''port'', JNum (of_int (ch_port ch))), (''wg'', JObj (ch_wg ch))]))"

definition content_revision :: "(json \<Rightarrow> string) \<Rightarrow> string \<Rightarrow> string \<Rightarrow> json \<Rightarrow> string" where
  "content_revision dg kind ident content = dg (canon (JObj [(''kind'', JStr kind),
     (''identity'', JStr ident), (''content'', content)]))"

text \<open>The user-intent part of a raw channel: every key but \<open>probe\<close> and \<open>reconnect\<close>.\<close>

definition when_key :: "bool \<Rightarrow> string \<Rightarrow> json \<Rightarrow> jobj" where
  "when_key b k v = (if b then [(k, v)] else [])"

definition intent_json :: "chan \<Rightarrow> json" where
  "intent_json ch = JObj ([(''country'', JStr (ch_country ch)), (''city'', JStr (ch_city ch)),
       (''port'', JNum (of_int (ch_port ch))), (''wg'', JObj (ch_wg ch))]
     @ when_key (ch_label ch \<noteq> []) ''label'' (JStr (ch_label ch))
     @ when_key (ch_server ch \<noteq> []) ''server'' (JStr (ch_server ch))
     @ when_key (\<not> ch_enabled ch) ''enabled'' (JBool False)
     @ when_key (ch_port_explicit ch) ''port_explicit'' (JBool True)
     @ (case ch_port_home ch of None \<Rightarrow> [] | Some h \<Rightarrow> [(''port_home'', JNum (of_int h))])
     @ when_key (ch_managed ch) ''managed'' (JBool True))"

definition rule_json :: "rule \<Rightarrow> json" where
  "rule_json r = JObj ([(''id'', JStr (rid r)), (''type'', JStr (rtype r)), (''value'', JStr (rvalue r)),
       (''target'', JStr (rtarget r)), (''ruleset'', JStr (rruleset r))]
     @ (case rname r of None \<Rightarrow> [] | Some n \<Rightarrow> [(''ruleset_name'', JStr n)])
     @ when_key (rmanaged r) ''managed'' (JBool True))"

definition block_json :: "block \<Rightarrow> json" where
  "block_json b = JObj [(''id'', JStr (b_id b)), (''name'', JStr (b_name b)),
     (''target'', JStr (b_target b)), (''rules'', JArr (map rule_json (b_rules b)))]"

definition channel_revision :: "(json \<Rightarrow> string) \<Rightarrow> data \<Rightarrow> string \<Rightarrow> string \<Rightarrow> string option" where
  "channel_revision dg d p c =
     map_option (\<lambda>ch. content_revision dg ''channel'' (ref_str (p, c)) (intent_json ch)) (get_chan d p c)"

definition require_revision ::
  "string \<Rightarrow> string \<Rightarrow> string option \<Rightarrow> string option \<Rightarrow> (store_error, unit) result" where
  "require_revision resource ident expected current = (case expected of
     None \<Rightarrow> Inr ()
   | Some e \<Rightarrow> if current = Some e then Inr () else Inl (RevisionConflict resource ident e current))"

section \<open>Laws of the accessors\<close>

named_theorems state_simps \<open>how the accessors read what the updaters wrote\<close>

lemma channels_of_set_channels [state_simps]:
  "channels_of (set_channels p cs d) q =
     (if q = p \<and> dget (d_providers d) p \<noteq> None then cs else channels_of d q)"
  by (auto simp: channels_of_def set_channels_def split: option.split)

lemma get_chan_provider: "get_chan d p c = Some ch \<Longrightarrow> dget (d_providers d) p \<noteq> None"
  by (auto simp: get_chan_def channels_of_def split: option.splits)

lemma get_chan_put [state_simps]:
  "get_chan (put_chan p c ch d) q e =
     (if q = p \<and> e = c \<and> dget (d_providers d) p \<noteq> None then Some ch else get_chan d q e)"
  by (auto simp: put_chan_def get_chan_def state_simps)

lemma get_chan_pop [state_simps]:
  "get_chan (pop_chan p c d) q e = (if q = p \<and> e = c then None else get_chan d q e)"
  by (cases "dget (d_providers d) p")
    (auto simp: pop_chan_def get_chan_def channels_of_set_channels, simp add: channels_of_def)

lemma provider_keys_set_channels [state_simps]:
  "keys (d_providers (set_channels p cs d)) = keys (d_providers d)"
  by (simp add: set_channels_def keys_dset_same split: option.split)

lemma provider_keys_put [state_simps]: "keys (d_providers (put_chan p c ch d)) = keys (d_providers d)"
  by (simp add: put_chan_def state_simps)

lemma provider_keys_pop [state_simps]: "keys (d_providers (pop_chan p c d)) = keys (d_providers d)"
  by (simp add: pop_chan_def state_simps)

lemma router_set_channels [state_simps]: "d_router (set_channels p cs d) = d_router d"
  by (simp add: set_channels_def split: option.split)

lemma router_put [state_simps]: "d_router (put_chan p c ch d) = d_router d"
  by (simp add: put_chan_def state_simps)

lemma router_pop [state_simps]: "d_router (pop_chan p c d) = d_router d"
  by (simp add: pop_chan_def state_simps)

lemma set_rules_simps [state_simps]:
  "rules_of (set_rules rs d) = rs"
  "d_providers (set_rules rs d) = d_providers d"
  "channels_of (set_rules rs d) = channels_of d"
  "get_chan (set_rules rs d) = get_chan d"
  "rt_port (d_router (set_rules rs d)) = rt_port (d_router d)"
  by (simp_all add: set_rules_def channels_of_def get_chan_def fun_eq_iff)

lemma get_chan_router [state_simps]: "get_chan (d\<lparr>d_router := r\<rparr>) = get_chan d"
  by (simp add: get_chan_def channels_of_def fun_eq_iff)

lemma channels_of_cong: "d_providers d = d_providers e \<Longrightarrow> channels_of d = channels_of e"
  by (simp add: channels_of_def fun_eq_iff)

lemma get_chan_cong: "d_providers d = d_providers e \<Longrightarrow> get_chan d = get_chan e"
  by (simp add: get_chan_def channels_of_def fun_eq_iff)

text \<open>A provider key holds no slash, so a target text names one channel.\<close>

lemma ref_str_inj: "CHR ''/'' \<notin> set p \<Longrightarrow> CHR ''/'' \<notin> set q \<Longrightarrow> ref_str (p, c) = ref_str (q, e) \<longleftrightarrow> p = q \<and> c = e"
proof -
  assume n: "CHR ''/'' \<notin> set p" "CHR ''/'' \<notin> set q"
  show "ref_str (p, c) = ref_str (q, e) \<longleftrightarrow> p = q \<and> c = e"
  proof
    assume "ref_str (p, c) = ref_str (q, e)"
    then have "p @ CHR ''/'' # c = q @ CHR ''/'' # e" by (simp add: ref_str_def)
    then have "str_partition CHR ''/'' (p @ CHR ''/'' # c) = str_partition CHR ''/'' (q @ CHR ''/'' # e)"
      by simp
    then show "p = q \<and> c = e" by (simp only: str_partition_found[OF n(1)] str_partition_found[OF n(2)]) simp
  qed simp
qed

lemma target_ref_str: "CHR ''/'' \<notin> set p \<Longrightarrow> c \<noteq> [] \<Longrightarrow> target_ref (ref_str (p, c)) = Some (p, c)"
  using str_partition_found[of "CHR ''/''" p c] by (simp add: target_ref_def ref_str_def)

lemma target_ref_Some: "target_ref t = Some (p, c) \<Longrightarrow> t = ref_str (p, c) \<and> CHR ''/'' \<notin> set p \<and> c \<noteq> []"
proof -
  assume a: "target_ref t = Some (p, c)"
  show ?thesis
  proof (cases "CHR ''/'' \<in> set t")
    case True
    then obtain u v where t: "t = u @ CHR ''/'' # v" "CHR ''/'' \<notin> set u"
      by (meson split_list_first)
    with a show ?thesis
      using str_partition_found[of "CHR ''/''" u v] by (auto simp: target_ref_def ref_str_def split: if_splits)
  next
    case False
    with a show ?thesis by (simp add: target_ref_def str_partition_none)
  qed
qed

section \<open>Names\<close>

lemma suffix_from_least:
  "suffix_from taken base n fuel = Some m \<Longrightarrow> n \<le> m \<and> base @ ''_'' @ nat_str m \<notin> set taken"
  by (induction taken base n fuel rule: suffix_from.induct) (auto split: if_splits)

lemma suffix_from_taken:
  "suffix_from taken base n fuel = None \<Longrightarrow> m \<in> {n..<n + fuel} \<Longrightarrow> base @ ''_'' @ nat_str m \<in> set taken"
proof (induction taken base n fuel rule: suffix_from.induct)
  case (2 taken base n fuel)
  then show ?case by (cases "m = n") (auto split: if_splits)
qed simp

lemma suffix_from_enough: "length taken < fuel \<Longrightarrow> suffix_from taken base n fuel \<noteq> None"
proof
  assume f: "length taken < fuel" and n: "suffix_from taken base n fuel = None"
  let ?ids = "(\<lambda>m. base @ ''_'' @ nat_str m) ` {n..<n + fuel}"
  have "?ids \<subseteq> set taken" using suffix_from_taken[OF n] by auto
  then have "card ?ids \<le> length taken"
    by (meson card_length card_mono finite_set order_trans)
  moreover have "card ?ids = fuel" by (subst card_image) (auto simp: inj_on_def)
  ultimately show False using f by simp
qed

lemma next_suffix_fresh: "next_id cc taken country city hint \<notin> set taken"
proof -
  let ?b = "id_base cc country city hint"
  obtain m where "suffix_from taken ?b 1 (Suc (length taken)) = Some m"
    using suffix_from_enough[of taken "Suc (length taken)" ?b 1] by auto
  with suffix_from_least[OF this] show ?thesis by (simp add: next_id_def Let_def)
qed

lemma squash_chars: "c \<in> set (squash b s) \<Longrightarrow> is_alnum c \<or> c = CHR ''_''"
  by (induction b s rule: squash.induct) (auto split: if_splits)

lemma strip_chars_subset: "set (strip_chars cs s) \<subseteq> set s"
  unfolding strip_chars_def rstrip_chars_def
  by (auto dest!: set_dropWhileD)

lemma slug_chars: "c \<in> set (slug t) \<Longrightarrow> is_alnum c \<or> c = CHR ''_''"
proof -
  assume c: "c \<in> set (slug t)"
  show ?thesis
  proof (cases "slug t = ''channel''")
    case True
    with c show ?thesis by (auto simp: is_alnum_def)
  next
    case False
    with c have "c \<in> set (strip_chars {CHR ''_''} (squash False (lower t)))"
      by (auto simp: slug_def Let_def split: if_splits)
    then show ?thesis using strip_chars_subset squash_chars by blast
  qed
qed

lemma slug_nonempty: "slug t \<noteq> []"
  by (simp add: slug_def Let_def)

lemma tag_roundtrip:
  "CHR ''-'' \<notin> set p \<Longrightarrow> tag_to_ref (inbound_tag p c) = Some (p, c) \<and> tag_to_ref (outbound_tag p c) = Some (p, c)"
  using str_partition_found[of "CHR ''-''" p c]
    str_partition_found[of "CHR ''-''" "''in''" "p @ ''-'' @ c"]
    str_partition_found[of "CHR ''-''" "''out''" "p @ ''-'' @ c"]
  by (simp add: tag_to_ref_def inbound_tag_def outbound_tag_def)

end
