(* ===== verification/Ports.thy ===== *)
theory Ports
  imports State
begin

text \<open>
  Local proxy ports (\<open>anyhop/state.py\<close>): which are claimed and by whom, the check of a declared port,
  the allocation of a fresh one, and the two recovery passes. The operating system is a value:
  \<open>ANYHOP_PORT_BASE\<close>, the ports a bind would succeed on, and the ephemeral ports it hands out, in
  order (\<open>os_pos\<close> counts those used). The locale states what any allocator must promise for
  claimed ports to stay distinct; it is interpreted on the model's own store.
\<close>

section \<open>Claimed ports\<close>

record os =
  os_base :: "string option"
  os_free :: "int \<Rightarrow> bool"
  os_eph :: "nat \<Rightarrow> int"
  os_pos :: nat

definition router_name :: string where
  "router_name = ''the router entrypoint''"

definition chan_holder :: "cref \<Rightarrow> string" where
  "chan_holder r = ''channel '' @ ref_str r"

definition note_port :: "int \<Rightarrow> string \<Rightarrow> (int, string) dict \<Rightarrow> (int, string) dict" where
  "note_port p h used = (if p \<noteq> 0 then dset p h used else used)"

definition used_ports :: "data \<Rightarrow> (int, string) dict" where
  "used_ports d = note_port (rt_port (d_router d)) router_name
     (fold (\<lambda>(p, pv) used. fold (\<lambda>(c, ch) used. note_port (ch_port ch) (chan_holder (p, c)) used)
        (pv_channels pv) used) (d_providers d) [])"

definition claim_port :: "data \<Rightarrow> int \<Rightarrow> cref option \<Rightarrow> (store_error, int) result" where
  "claim_port d port exclude =
     (if \<not> (0 < port \<and> port \<le> 65535) then Inl (BadPort port) else
      (let used = (case exclude of None \<Rightarrow> used_ports d
                   | Some r \<Rightarrow> filter (\<lambda>(p, h). h \<noteq> chan_holder r) (used_ports d)) in
       case dget used port of Some h \<Rightarrow> Inl (PortInUse port h) | None \<Rightarrow> Inr port))"

section \<open>Allocation\<close>

fun eph_search :: "nat \<Rightarrow> os \<Rightarrow> int list \<Rightarrow> (store_error, int \<times> os) result" where
  "eph_search 0 e used = Inl NoFreePort"
| "eph_search (Suc n) e used =
     (let port = os_eph e (os_pos e); e' = e\<lparr>os_pos := os_pos e + 1\<rparr> in
      if port \<notin> set used then Inr (port, e') else eph_search n e' used)"

definition next_free_port :: "os \<Rightarrow> data \<Rightarrow> (store_error, int \<times> os) result" where
  "next_free_port e d =
     (let used = keys (used_ports d) in
      case os_base e of
        Some b \<Rightarrow> if b \<noteq> [] then
            (case py_int b of
               None \<Rightarrow> Inl BadPortBase
             | Some start \<Rightarrow>
                 if \<not> (0 < start \<and> start \<le> 65535) then Inl BadPortBase
                 else (case find (\<lambda>p. p \<notin> set used \<and> os_free e p) [start..65535] of
                         None \<Rightarrow> Inl NoFreePort | Some p \<Rightarrow> Inr (p, e)))
          else eph_search 100 e used
      | None \<Rightarrow> eph_search 100 e used)"

definition port_or_free :: "os \<Rightarrow> data \<Rightarrow> int \<Rightarrow> (store_error, int \<times> os) result" where
  "port_or_free e d port =
     (if port \<noteq> 0 then bindR (claim_port d port None) (\<lambda>p. Inr (p, e)) else next_free_port e d)"

section \<open>Recovery passes\<close>

type_synonym move = "string \<times> string \<times> int \<times> int"
type_synonym hold = "string \<times> string \<times> int"

definition all_refs :: "data \<Rightarrow> cref list" where
  "all_refs d = concat (map (\<lambda>(p, pv). map (\<lambda>(c, _). (p, c)) (sorted_items (pv_channels pv)))
     (sorted_items (d_providers d)))"

definition realloc_step :: "int set \<Rightarrow> cref \<Rightarrow> (move list \<times> hold list) \<times> os \<times> data
    \<Rightarrow> (store_error, (move list \<times> hold list) \<times> os \<times> data) result" where
  "realloc_step ports r st = (case r of (p, c) \<Rightarrow> case st of ((moved, held), e, d) \<Rightarrow>
     (case get_chan d p c of
        None \<Rightarrow> Inr st
      | Some ch \<Rightarrow>
          if ch_port ch \<notin> ports then Inr st
          else if ch_port_explicit ch then Inr ((moved, held @ [(p, c, ch_port ch)]), e, d)
          else bindR (next_free_port e d) (\<lambda>(new, e').
            let home = (case ch_port_home ch of None \<Rightarrow> Some (ch_port ch) | h \<Rightarrow> h) in
            Inr ((moved @ [(p, c, ch_port ch, new)], held), e',
                 put_chan p c (ch\<lparr>ch_port_home := home, ch_port := new\<rparr>) d))))"

definition realloc_router :: "int set \<Rightarrow> (move list \<times> hold list) \<times> os \<times> data
    \<Rightarrow> (store_error, (move list \<times> hold list) \<times> os \<times> data) result" where
  "realloc_router ports st = (case st of ((moved, held), e, d) \<Rightarrow>
     (let r = d_router d; old = rt_port r in
      if old = 0 \<or> old \<notin> ports then Inr st
      else if rt_port_explicit r then Inr ((moved, held @ [(''router'', ''entrypoint'', old)]), e, d)
      else bindR (next_free_port e d) (\<lambda>(new, e').
        let home = (case rt_port_home r of None \<Rightarrow> Some old | h \<Rightarrow> h) in
        Inr ((moved @ [(''router'', ''entrypoint'', old, new)], held), e',
             d\<lparr>d_router := r\<lparr>rt_port_home := home, rt_port := new\<rparr>\<rparr>))))"

definition reallocate_channel_ports :: "int set \<Rightarrow> os \<Rightarrow> data
    \<Rightarrow> (store_error, (move list \<times> hold list) \<times> os \<times> data) result" where
  "reallocate_channel_ports ports e d =
     bindR (foldR (realloc_step ports) (all_refs d) (([], []), e, d)) (realloc_router ports)"

text \<open>\<open>restore_home_ports\<close> carries its own list of used ports: a channel put back frees the port it
  held and takes its home.\<close>

definition restore_step :: "(int \<Rightarrow> bool) \<Rightarrow> cref \<Rightarrow> hold list \<times> int list \<times> data \<Rightarrow> hold list \<times> int list \<times> data" where
  "restore_step free r st = (case r of (p, c) \<Rightarrow> case st of (restored, used, d) \<Rightarrow>
     (case get_chan d p c of
        None \<Rightarrow> st
      | Some ch \<Rightarrow>
          if ch_port_explicit ch then st
          else (case ch_port_home ch of
            None \<Rightarrow> st
          | Some home \<Rightarrow>
              if home = ch_port ch \<or> home \<in> set used \<or> \<not> free home then st
              else (restored @ [(p, c, home)], home # removeAll (ch_port ch) used,
                    put_chan p c (ch\<lparr>ch_port := home\<rparr>) d))))"

definition restore_router :: "(int \<Rightarrow> bool) \<Rightarrow> hold list \<times> int list \<times> data \<Rightarrow> hold list \<times> data" where
  "restore_router free st = (case st of (restored, used, d) \<Rightarrow>
     (let r = d_router d in
      case rt_port_home r of
        None \<Rightarrow> (restored, d)
      | Some home \<Rightarrow>
          if \<not> rt_port_explicit r \<and> home \<noteq> rt_port r \<and> home \<notin> set used \<and> free home
          then (restored @ [(''router'', ''entrypoint'', home)], d\<lparr>d_router := r\<lparr>rt_port := home\<rparr>\<rparr>)
          else (restored, d)))"

text \<open>\<open>snap\<close> is the snapshot the store was loaded with: a store detached from the disk is left alone.\<close>

definition restore_home_ports :: "(int \<Rightarrow> bool) \<Rightarrow> data \<Rightarrow> data \<Rightarrow> hold list \<times> data" where
  "restore_home_ports free snap d =
     (if snap \<noteq> d then ([], d)
      else restore_router free (fold (restore_step free) (all_refs d) ([], keys (used_ports d), d)))"

definition ensure_router_port :: "os \<Rightarrow> data \<Rightarrow> (store_error, int \<times> os \<times> data) result" where
  "ensure_router_port e d =
     (if rt_port (d_router d) \<noteq> 0 then Inr (rt_port (d_router d), e, d)
      else bindR (next_free_port e d) (\<lambda>(p, e'). Inr (p, e', d\<lparr>d_router := (d_router d)\<lparr>rt_port := p\<rparr>\<rparr>)))"


section \<open>Distinct ports\<close>

text \<open>The port of a channel, or of the router entrypoint (\<open>None\<close>); 0 is no port.\<close>

definition port_at :: "data \<Rightarrow> cref option \<Rightarrow> int" where
  "port_at d x = (case x of
     None \<Rightarrow> rt_port (d_router d)
   | Some (p, c) \<Rightarrow> (case get_chan d p c of None \<Rightarrow> 0 | Some ch \<Rightarrow> ch_port ch))"

definition set_port :: "cref option \<Rightarrow> int \<Rightarrow> data \<Rightarrow> data" where
  "set_port x q d = (case x of
     None \<Rightarrow> d\<lparr>d_router := (d_router d)\<lparr>rt_port := q\<rparr>\<rparr>
   | Some (p, c) \<Rightarrow> (case get_chan d p c of None \<Rightarrow> d | Some ch \<Rightarrow> put_chan p c (ch\<lparr>ch_port := q\<rparr>) d))"

definition distinct_ports :: "('x \<Rightarrow> int) \<Rightarrow> bool" where
  "distinct_ports f = (\<forall>x y. f x \<noteq> 0 \<longrightarrow> f x = f y \<longrightarrow> x = y)"

definition port_set :: "data \<Rightarrow> int set" where
  "port_set d = set (keys (used_ports d))"

definition data_wf :: "data \<Rightarrow> bool" where
  "data_wf d = (distinct (keys (d_providers d))
     \<and> (\<forall>(p, pv) \<in> set (d_providers d). CHR ''/'' \<notin> set p \<and> distinct (keys (pv_channels pv))))"

text \<open>The contract between whoever assigns ports and the table of claims: writing changes one entry,
  and every claimed port is in the used set.\<close>

locale port_table =
  fixes port :: "'s \<Rightarrow> 'x \<Rightarrow> int"
    and assign :: "'x \<Rightarrow> int \<Rightarrow> 's \<Rightarrow> 's"
    and present :: "'s \<Rightarrow> 'x \<Rightarrow> bool"
    and used :: "'s \<Rightarrow> int set"
  assumes port_assign: "present s x \<Longrightarrow> port (assign x q s) y = (if y = x then q else port s y)"
    and port_used: "port s x \<noteq> 0 \<Longrightarrow> port s x \<in> used s"
begin

lemma assign_unclaimed:
  assumes "distinct_ports (port s)" "present s x" "\<And>y. port s y = q \<Longrightarrow> q \<noteq> 0 \<Longrightarrow> y = x"
  shows "distinct_ports (port (assign x q s))"
  using assms by (fastforce simp: distinct_ports_def port_assign)

lemma assign_fresh:
  assumes "distinct_ports (port s)" "present s x" "q \<notin> used s"
  shows "distinct_ports (port (assign x q s))"
  using assms port_used by (intro assign_unclaimed) metis+

end

subsection \<open>The used ports\<close>

definition claims :: "data \<Rightarrow> (int \<times> string) list" where
  "claims d = concat (map (\<lambda>(p, pv). map (\<lambda>(c, ch). (ch_port ch, chan_holder (p, c))) (pv_channels pv))
     (d_providers d)) @ [(rt_port (d_router d), router_name)]"

lemma fold_concat_map: "fold (\<lambda>x. fold f (g x)) xs s = fold f (concat (map g xs)) s"
  by (induction xs arbitrary: s) simp_all

lemma used_ports_claims: "used_ports d = fold (\<lambda>(q, h). note_port q h) (claims d) []"
proof -
  let ?g = "\<lambda>(p, pv :: prov). map (\<lambda>(c, ch). (ch_port ch, chan_holder (p, c))) (pv_channels pv)"
  have "(\<lambda>(p, pv :: prov). fold (\<lambda>(c, ch). note_port (ch_port ch) (chan_holder (p, c))) (pv_channels pv))
      = (\<lambda>x. fold (\<lambda>(q, h). note_port q h) (?g x))"
    by (intro ext) (simp add: fold_map comp_def case_prod_beta')
  then show ?thesis
    unfolding used_ports_def claims_def fold_append comp_def fold_concat_map[symmetric] by simp
qed

lemma fold_note_Some:
  "dget (fold (\<lambda>(q, h). note_port q h) xs u) q = Some h \<Longrightarrow> (q \<noteq> 0 \<and> (q, h) \<in> set xs) \<or> dget u q = Some h"
proof (induction xs arbitrary: u)
  case (Cons x xs)
  obtain r g where "x = (r, g)" by force
  with Cons.IH[of "note_port r g u"] Cons.prems show ?case
    by (auto simp: note_port_def split: if_splits)
qed simp

lemma fold_note_keeps: "dget u q \<noteq> None \<Longrightarrow> dget (fold (\<lambda>(q, h). note_port q h) xs u) q \<noteq> None"
proof (induction xs arbitrary: u)
  case (Cons x xs)
  then show ?case by (cases x) (auto simp: note_port_def)
qed simp

lemma fold_note_in: "(q, h) \<in> set xs \<Longrightarrow> q \<noteq> 0 \<Longrightarrow> dget (fold (\<lambda>(q, h). note_port q h) xs u) q \<noteq> None"
proof (induction xs arbitrary: u)
  case (Cons x xs)
  show ?case
  proof (cases "x = (q, h)")
    case True
    have "dget (note_port q h u) q \<noteq> None" using Cons.prems by (simp add: note_port_def)
    then show ?thesis using fold_note_keeps True by simp
  next
    case False
    with Cons show ?thesis by (cases x) auto
  qed
qed simp

lemma distinct_used: "distinct (keys (used_ports d))"
proof -
  have "distinct (keys u) \<Longrightarrow> distinct (keys (fold (\<lambda>(q, h). note_port q h) xs u))" for xs u
    by (induction xs arbitrary: u) (auto simp: note_port_def)
  then show ?thesis by (simp add: used_ports_claims)
qed

definition holder :: "cref option \<Rightarrow> string" where
  "holder x = (case x of None \<Rightarrow> router_name | Some r \<Rightarrow> chan_holder r)"

lemma get_chan_claims: "get_chan d p c = Some ch \<Longrightarrow> (ch_port ch, chan_holder (p, c)) \<in> set (claims d)"
proof -
  assume "get_chan d p c = Some ch"
  then obtain pv where "(p, pv) \<in> set (d_providers d)" "(c, ch) \<in> set (pv_channels pv)"
    by (auto simp: get_chan_def channels_of_def split: option.splits dest!: map_of_SomeD)
  then show ?thesis by (force simp: claims_def)
qed

lemma port_at_used: "port_at d x \<noteq> 0 \<Longrightarrow> port_at d x \<in> port_set d"
proof -
  assume n: "port_at d x \<noteq> 0"
  have "(port_at d x, holder x) \<in> set (claims d)"
  proof (cases x)
    case None
    then show ?thesis by (simp add: port_at_def holder_def claims_def)
  next
    case (Some pc)
    then show ?thesis using n get_chan_claims
      by (auto simp: port_at_def holder_def split: option.splits prod.splits)
  qed
  from fold_note_in[OF this n, of "[]"] show ?thesis
    by (metis dget_Some_key not_None_eq port_set_def used_ports_claims)
qed

lemma used_port_at:
  assumes "data_wf d" "dget (used_ports d) q = Some h"
  shows "\<exists>x. port_at d x = q \<and> holder x = h \<and> q \<noteq> 0"
proof -
  from fold_note_Some[of "claims d" "[]" q h] assms(2)
  have q: "q \<noteq> 0" "(q, h) \<in> set (claims d)" by (simp_all add: used_ports_claims)
  then consider "(q, h) = (rt_port (d_router d), router_name)"
    | p pv c ch where "(p, pv) \<in> set (d_providers d)" "(c, ch) \<in> set (pv_channels pv)"
        "q = ch_port ch" "h = chan_holder (p, c)"
    by (auto simp: claims_def)
  then show ?thesis
  proof cases
    case 1
    then show ?thesis using q(1) by (intro exI[of _ None]) (simp add: port_at_def holder_def)
  next
    case 2
    with assms(1) have "get_chan d p c = Some ch"
      by (auto simp: get_chan_def channels_of_def data_wf_def)
    with 2 q(1) show ?thesis by (intro exI[of _ "Some (p, c)"]) (simp add: port_at_def holder_def)
  qed
qed

lemma port_at_set_port:
  "x = None \<or> (\<exists>p c. x = Some (p, c) \<and> get_chan d p c \<noteq> None) \<Longrightarrow>
   port_at (set_port x q d) y = (if y = x then q else port_at d y)"
  by (auto simp: port_at_def set_port_def get_chan_put router_put get_chan_router dest: get_chan_provider
      split: option.split prod.split)

definition has_entry :: "data \<Rightarrow> cref option \<Rightarrow> bool" where
  "has_entry d x = (case x of None \<Rightarrow> True | Some (p, c) \<Rightarrow> get_chan d p c \<noteq> None)"

interpretation store_ports: port_table port_at set_port has_entry port_set
proof
  fix d x q y
  assume "has_entry d x"
  then show "port_at (set_port x q d) y = (if y = x then q else port_at d y)"
    by (intro port_at_set_port) (auto simp: has_entry_def split: option.splits prod.splits)
next
  fix d x
  show "port_at d x \<noteq> 0 \<Longrightarrow> port_at d x \<in> port_set d" by (rule port_at_used)
qed

subsection \<open>Claims and allocations are fresh\<close>

lemma eph_search_fresh: "eph_search n e (keys (used_ports d)) = Inr (q, e') \<Longrightarrow> q \<notin> port_set d"
proof -
  have "eph_search n e u = Inr (q, e') \<Longrightarrow> q \<notin> set u" for n e u
    by (induction n e u rule: eph_search.induct) (auto simp: Let_def split: if_splits)
  then show "eph_search n e (keys (used_ports d)) = Inr (q, e') \<Longrightarrow> q \<notin> port_set d"
    unfolding port_set_def by blast
qed

lemma find_fresh: "find (\<lambda>p. p \<notin> set (keys (used_ports d)) \<and> P p) xs = Some q \<Longrightarrow> q \<notin> port_set d"
  unfolding port_set_def by (drule find_Some_split) blast

lemma next_free_port_fresh:
  assumes "next_free_port e d = Inr (q, e')"
  shows "q \<notin> port_set d"
proof (cases "os_base e = None \<or> os_base e = Some []")
  case True
  with assms have "eph_search 100 e (keys (used_ports d)) = Inr (q, e')"
    by (auto simp: next_free_port_def Let_def simp del: set_map)
  then show ?thesis by (rule eph_search_fresh)
next
  case False
  with assms obtain start where
    "find (\<lambda>p. p \<notin> set (keys (used_ports d)) \<and> os_free e p) [start..65535] = Some q"
    by (auto simp: next_free_port_def Let_def simp del: set_map split: option.splits if_splits)
  then show ?thesis by (rule find_fresh)
qed

lemma claim_port_fresh:
  "claim_port d q None = Inr q' \<Longrightarrow> q' = q \<and> 0 < q \<and> q \<le> 65535 \<and> q \<notin> port_set d"
  by (simp add: claim_port_def Let_def port_set_def map_of_eq_None_iff split: if_splits option.splits)

lemma port_or_free_fresh:
  "port_or_free e d q = Inr (q', e') \<Longrightarrow> q' \<notin> port_set d"
  using claim_port_fresh[of d q] next_free_port_fresh[of e d q' e']
  by (auto simp: port_or_free_def split: if_splits)

lemma chan_holder_inj:
  "CHR ''/'' \<notin> set p \<Longrightarrow> CHR ''/'' \<notin> set q \<Longrightarrow> chan_holder (p, c) = chan_holder (q, e) \<longleftrightarrow> p = q \<and> c = e"
  using ref_str_inj by (simp add: chan_holder_def)

lemma chan_holder_not_router: "chan_holder r \<noteq> router_name"
  by (simp add: chan_holder_def router_name_def)

lemma data_wf_provider: "data_wf d \<Longrightarrow> get_chan d p c \<noteq> None \<Longrightarrow> CHR ''/'' \<notin> set p"
  by (auto simp: data_wf_def dest!: get_chan_provider map_of_SomeD)

lemma claim_port_own:
  assumes "claim_port d q (Some (p, c)) = Inr q'" "data_wf d" "distinct_ports (port_at d)"
    and "get_chan d p c \<noteq> None" "port_at d y = q"
  shows "y = Some (p, c) \<and> q' = q"
proof -
  from assms(1) have q: "q' = q" "0 < q"
    and n: "dget (filter (\<lambda>(p', h). h \<noteq> chan_holder (p, c)) (used_ports d)) q = None"
    by (auto simp: claim_port_def Let_def split: if_splits option.splits)
  from port_at_used[of d y] assms(5) q(2) obtain h where h: "dget (used_ports d) q = Some h"
    by (metis map_of_eq_None_iff not_None_eq less_irrefl list.set_map port_set_def)
  with n have hh: "h = chan_holder (p, c)"
    by (simp add: dget_filter_distinct[OF distinct_used] split: if_splits)
  from used_port_at[OF assms(2) h] obtain x where x: "port_at d x = q" "holder x = h" "q \<noteq> 0" by blast
  with assms(3,5) have xy: "x = y" by (auto simp: distinct_ports_def)
  have "x = Some (p, c)"
  proof (cases x)
    case None
    with x(2) hh chan_holder_not_router show ?thesis by (metis holder_def option.simps(4))
  next
    case (Some r)
    obtain p' c' where r: "r = (p', c')" by force
    with Some x have "get_chan d p' c' \<noteq> None" by (auto simp: port_at_def split: option.splits)
    then have "CHR ''/'' \<notin> set p'" "CHR ''/'' \<notin> set p" using data_wf_provider assms(2,4) by blast+
    with Some x(2) hh r show ?thesis by (simp add: holder_def chan_holder_inj)
  qed
  with xy q show ?thesis by simp
qed

section \<open>Recovery keeps ports distinct\<close>

lemma distinct_ports_upd:
  assumes "distinct_ports f" "\<And>y. g y = (if y = x then q else f y)" "\<And>y. f y = q \<Longrightarrow> q \<noteq> 0 \<Longrightarrow> y = x"
  shows "distinct_ports g"
  unfolding distinct_ports_def
proof (intro allI impI)
  fix y z assume "g y \<noteq> 0" "g y = g z"
  with assms show "y = z" by (cases "y = x"; cases "z = x") (auto simp: distinct_ports_def)
qed

lemma port_at_put:
  "port_at (put_chan p c ch d) y = (if y = Some (p, c) \<and> dget (d_providers d) p \<noteq> None then ch_port ch else port_at d y)"
  by (auto simp: port_at_def get_chan_put router_put split: option.split prod.split)

lemma distinct_ports_put [inv_intros]:
  assumes "distinct_ports (port_at d)"
    and "get_chan d p c = Some ch0 \<and> ch_port ch0 = ch_port ch \<or> ch_port ch \<notin> port_set d"
  shows "distinct_ports (port_at (put_chan p c ch d))"
proof (cases "dget (d_providers d) p = None")
  case True
  then have "port_at (put_chan p c ch d) = port_at d" by (intro ext) (simp add: port_at_put)
  with assms show ?thesis by simp
next
  case False
  show ?thesis
  proof (rule distinct_ports_upd[OF assms(1)])
    show "port_at (put_chan p c ch d) y = (if y = Some (p, c) then ch_port ch else port_at d y)" for y
      using False by (simp add: port_at_put)
    fix y assume y: "port_at d y = ch_port ch" "ch_port ch \<noteq> 0"
    then have u: "ch_port ch \<in> port_set d" using port_at_used[of d y] by simp
    with assms(2) have "get_chan d p c = Some ch0 \<and> ch_port ch0 = ch_port ch" by blast
    then have "port_at d (Some (p, c)) = ch_port ch" by (simp add: port_at_def)
    with assms(1) y show "y = Some (p, c)" unfolding distinct_ports_def by metis
  qed
qed

lemma distinct_ports_put_fresh:
  "distinct_ports (port_at d) \<Longrightarrow> ch_port ch \<notin> port_set d \<Longrightarrow> distinct_ports (port_at (put_chan p c ch d))"
  using distinct_ports_put by blast

lemma distinct_ports_router [inv_intros]:
  assumes "distinct_ports (port_at d)" "rt_port r \<notin> port_set d \<or> rt_port r = rt_port (d_router d)"
  shows "distinct_ports (port_at (d\<lparr>d_router := r\<rparr>))"
proof (rule distinct_ports_upd[OF assms(1)])
  show "port_at (d\<lparr>d_router := r\<rparr>) y = (if y = None then rt_port r else port_at d y)" for y
    by (auto simp: port_at_def get_chan_router split: option.split)
  fix y assume y: "port_at d y = rt_port r" "rt_port r \<noteq> 0"
  then have "rt_port r \<in> port_set d" using port_at_used[of d y] by simp
  with assms(2) have "port_at d None = rt_port r" by (simp add: port_at_def)
  with assms(1) y show "y = None" unfolding distinct_ports_def by metis
qed

lemma realloc_step_ports:
  assumes "realloc_step ports r st = Inr st'" "distinct_ports (port_at (snd (snd st)))"
  shows "distinct_ports (port_at (snd (snd st')))"
proof -
  obtain p c moved held e d where s: "r = (p, c)" "st = ((moved, held), e, d)" by (metis prod.exhaust)
  from assms s show ?thesis
    by (auto simp: realloc_step_def Let_def split: option.splits if_splits
        intro!: distinct_ports_put_fresh dest!: next_free_port_fresh)
qed

lemma reallocate_ports_distinct [inv_intros]:
  assumes "reallocate_channel_ports ports e d = Inr (res, e', d')" "distinct_ports (port_at d)"
  shows "distinct_ports (port_at d')"
proof -
  from assms(1) obtain st where st: "foldR (realloc_step ports) (all_refs d) (([], []), e, d) = Inr st"
    "realloc_router ports st = Inr (res, e', d')"
    by (auto simp: reallocate_channel_ports_def)
  have "distinct_ports (port_at (snd (snd st)))"
    by (rule foldR_keeps[OF st(1), of "\<lambda>st. distinct_ports (port_at (snd (snd st)))"])
      (use assms(2) realloc_step_ports in auto)
  moreover obtain res1 e1 d1 where "st = (res1, e1, d1)" by (metis prod.exhaust)
  ultimately show ?thesis using st(2)
    by (cases res1) (auto simp: realloc_router_def Let_def split: if_splits
        intro!: distinct_ports_router dest!: next_free_port_fresh)
qed

lemma ensure_router_port_distinct [inv_intros]:
  "ensure_router_port e d = Inr (p, e', d') \<Longrightarrow> distinct_ports (port_at d) \<Longrightarrow> distinct_ports (port_at d')"
  by (auto simp: ensure_router_port_def split: if_splits intro!: distinct_ports_router
      dest!: next_free_port_fresh)

text \<open>The restore pass: its list of used ports covers the ports in the store.\<close>

definition covers_ports :: "int list \<Rightarrow> data \<Rightarrow> bool" where
  "covers_ports used d = (\<forall>x. port_at d x \<noteq> 0 \<longrightarrow> port_at d x \<in> set used)"

lemma restore_step_cases:
  "restore_step free (p, c) (res, used, d) = (res, used, d) \<or>
   (\<exists>ch home. get_chan d p c = Some ch \<and> \<not> ch_port_explicit ch \<and> ch_port_home ch = Some home
      \<and> home \<noteq> ch_port ch \<and> home \<notin> set used \<and> free home
      \<and> restore_step free (p, c) (res, used, d) = (res @ [(p, c, home)], home # removeAll (ch_port ch) used,
          put_chan p c (ch\<lparr>ch_port := home\<rparr>) d))"
  by (simp add: restore_step_def split: option.split)

lemma restore_step_ports:
  assumes "restore_step free r (res, used, d) = (res', used', d')"
    and "distinct_ports (port_at d)" "covers_ports used d"
  shows "distinct_ports (port_at d') \<and> covers_ports used' d'"
proof -
  obtain p c where r: "r = (p, c)" by force
  show ?thesis
  proof (cases "(res', used', d') = (res, used, d)")
    case False
    with assms(1) r restore_step_cases[of free p c res used d] obtain ch home where
      ch: "get_chan d p c = Some ch" and h: "home \<noteq> ch_port ch" "home \<notin> set used"
      and e: "(res', used', d') = (res @ [(p, c, home)], home # removeAll (ch_port ch) used,
          put_chan p c (ch\<lparr>ch_port := home\<rparr>) d)"
      by metis
    from e have d': "used' = home # removeAll (ch_port ch) used" "d' = put_chan p c (ch\<lparr>ch_port := home\<rparr>) d"
      by simp_all
    have pa: "port_at d' y = (if y = Some (p, c) then home else port_at d y)" for y
      using get_chan_provider[OF ch] d'(2) by (simp add: port_at_put)
    have old: "port_at d (Some (p, c)) = ch_port ch" using ch by (simp add: port_at_def)
    have "distinct_ports (port_at d')"
    proof (rule distinct_ports_upd[OF assms(2) pa])
      fix y assume "port_at d y = home" "home \<noteq> 0"
      then show "y = Some (p, c)" using assms(3) h(2) by (auto simp: covers_ports_def)
    qed
    moreover have "covers_ports used' d'"
      unfolding covers_ports_def
    proof (intro allI impI)
      fix x assume n: "port_at d' x \<noteq> 0"
      show "port_at d' x \<in> set used'"
      proof (cases "x = Some (p, c)")
        case True
        then show ?thesis using pa d'(1) by simp
      next
        case F: False
        then have "port_at d' x = port_at d x" using pa by simp
        moreover have "port_at d x \<noteq> ch_port ch"
        proof
          assume "port_at d x = ch_port ch"
          with old n calculation assms(2) have "x = Some (p, c)" unfolding distinct_ports_def by metis
          with F show False by simp
        qed
        ultimately show ?thesis using assms(3) n d'(1) by (auto simp: covers_ports_def)
      qed
    qed
    ultimately show ?thesis by simp
  qed (use assms in simp)
qed

lemma restore_fold_ports:
  "fold (restore_step free) rs (res, used, d) = (res', used', d') \<Longrightarrow> distinct_ports (port_at d)
   \<Longrightarrow> covers_ports used d \<Longrightarrow> distinct_ports (port_at d') \<and> covers_ports used' d'"
proof (induction rs arbitrary: res used d)
  case (Cons r rs)
  obtain res1 used1 d1 where s: "restore_step free r (res, used, d) = (res1, used1, d1)"
    by (metis prod.exhaust)
  from restore_step_ports[OF s] Cons.prems Cons.IH[of res1 used1 d1] s show ?case by simp
qed simp

lemma restore_home_ports_distinct [inv_intros]:
  assumes "restore_home_ports free snap d = (res, d')" "distinct_ports (port_at d)"
  shows "distinct_ports (port_at d')"
proof (cases "snap = d")
  case True
  obtain res1 used1 d1 where s: "fold (restore_step free) (all_refs d) ([], keys (used_ports d), d) = (res1, used1, d1)"
    by (metis prod.exhaust)
  have "covers_ports (keys (used_ports d)) d"
    using port_at_used[of d] by (simp add: covers_ports_def port_set_def)
  from restore_fold_ports[OF s assms(2) this] have k: "distinct_ports (port_at d1)" "covers_ports used1 d1" by auto
  have rr: "restore_router free (res1, used1, d1) = (res, d')"
    using assms(1) True s by (simp add: restore_home_ports_def)
  show ?thesis
  proof (cases "d' = d1")
    case False
    with rr obtain home where h: "home \<notin> set used1" "d' = d1\<lparr>d_router := (d_router d1)\<lparr>rt_port := home\<rparr>\<rparr>"
      by (auto simp: restore_router_def Let_def split: option.splits if_splits)
    show ?thesis
    proof (rule distinct_ports_upd[OF k(1)])
      show "port_at d' y = (if y = None then home else port_at d1 y)" for y
        unfolding h(2) by (auto simp: port_at_def get_chan_router split: option.split)
      show "port_at d1 y = home \<Longrightarrow> home \<noteq> 0 \<Longrightarrow> y = None" for y
        using k(2) h(1) by (auto simp: covers_ports_def)
    qed
  qed (use k in simp)
qed (use assms in \<open>simp add: restore_home_ports_def\<close>)

text \<open>A declared port never moves: both passes leave a channel with an explicit port as it was.\<close>

lemma realloc_step_explicit:
  assumes "realloc_step ports r st = Inr st'" "get_chan (snd (snd st)) p c = Some ch" "ch_port_explicit ch"
  shows "get_chan (snd (snd st')) p c = Some ch"
proof -
  obtain q k moved held e d where s: "r = (q, k)" "st = ((moved, held), e, d)" by (metis prod.exhaust)
  from assms s show ?thesis
    by (auto simp: realloc_step_def Let_def get_chan_put split: option.splits if_splits)
qed

lemma reallocate_explicit:
  assumes "reallocate_channel_ports ports e d = Inr (res, e', d')" "get_chan d p c = Some ch" "ch_port_explicit ch"
  shows "get_chan d' p c = Some ch"
proof -
  from assms(1) obtain st where st: "foldR (realloc_step ports) (all_refs d) (([], []), e, d) = Inr st"
    "realloc_router ports st = Inr (res, e', d')"
    by (auto simp: reallocate_channel_ports_def)
  have "get_chan (snd (snd st)) p c = Some ch"
    by (rule foldR_keeps[OF st(1), of "\<lambda>st. get_chan (snd (snd st)) p c = Some ch"])
      (use assms(2,3) realloc_step_explicit in auto)
  moreover obtain res1 e1 d1 where "st = (res1, e1, d1)" by (metis prod.exhaust)
  ultimately show ?thesis using st(2)
    by (cases res1) (auto simp: realloc_router_def Let_def get_chan_router split: if_splits)
qed

text \<open>The router's record: the channels' steps leave it alone, and its own steps do when its port is declared.\<close>

lemma restore_step_router: "d_router (snd (snd (restore_step free r st))) = d_router (snd (snd st))"
  by (auto simp: restore_step_def router_put split: prod.split option.split)

lemma restore_home_router:
  assumes "rt_port_explicit (d_router d)"
  shows "d_router (snd (restore_home_ports free snap d)) = d_router d"
proof -
  have f: "d_router (snd (snd (fold (restore_step free) xs st))) = d_router (snd (snd st))" for xs and st :: "hold list \<times> int list \<times> data"
    by (induction xs arbitrary: st) (simp_all add: restore_step_router)
  have "d_router (snd (restore_router free st)) = d_router (snd (snd st))" if "rt_port_explicit (d_router (snd (snd st)))" for st
    using that by (auto simp: restore_router_def Let_def split: prod.splits option.split)
  then show ?thesis using assms f[of "all_refs d" "([], keys (used_ports d), d)"] by (simp add: restore_home_ports_def)
qed

lemma realloc_step_router:
  assumes "realloc_step ports r st = Inr st'"
  shows "d_router (snd (snd st')) = d_router (snd (snd st))"
proof -
  obtain q k moved held e d where s: "r = (q, k)" "st = ((moved, held), e, d)" by (metis prod.exhaust)
  from assms s show ?thesis by (auto simp: realloc_step_def Let_def router_put split: option.splits if_splits)
qed

lemma reallocate_router:
  assumes "reallocate_channel_ports ports e d = Inr (res, e', d')" "rt_port_explicit (d_router d)"
  shows "d_router d' = d_router d"
proof -
  from assms(1) obtain st where st: "foldR (realloc_step ports) (all_refs d) (([], []), e, d) = Inr st"
    "realloc_router ports st = Inr (res, e', d')"
    by (auto simp: reallocate_channel_ports_def)
  have "d_router (snd (snd st)) = d_router d"
    by (rule foldR_keeps[OF st(1), of "\<lambda>st. d_router (snd (snd st)) = d_router d"]) (use realloc_step_router in auto)
  moreover obtain res1 e1 d1 where "st = (res1, e1, d1)" by (metis prod.exhaust)
  ultimately show ?thesis using st(2) assms(2)
    by (cases res1) (auto simp: realloc_router_def Let_def split: if_splits)
qed

end
