(* ===== verification/Rulesets.thy ===== *)
theory Rulesets
  imports State
begin

text \<open>
  The rule table of the router (\<open>anyhop/state.py\<close>): an ordered list of rule rows whose order is the
  priority. Rows belong to rulesets; a ruleset is a contiguous run of rows with one target. The
  first part holds the operations; the second shows that \<open>_ruleset_blocks\<close> accepts exactly the
  flattenings of well-formed block lists, and works out every operation in terms of blocks.
\<close>

section \<open>Identities\<close>

definition num_after :: "string \<Rightarrow> string \<Rightarrow> (store_error, nat) result" where
  "num_after p s = (if startswith s p \<and> isdigit (drop (length p) s)
     then (case int_of_digits (drop (length p) s) of None \<Rightarrow> Inl (BadNumber s) | Some n \<Rightarrow> Inr n)
     else Inr 0)"

definition rule_num :: "rule \<Rightarrow> (store_error, nat) result" where
  "rule_num r = num_after ''r'' (rid r)"

definition ruleset_num :: "rule \<Rightarrow> (store_error, nat) result" where
  "ruleset_num r = num_after ''rs'' (rruleset r)"

definition max_num :: "(rule \<Rightarrow> (store_error, nat) result) \<Rightarrow> rule list \<Rightarrow> (store_error, nat) result" where
  "max_num f rs = foldR (\<lambda>r m. bindR (f r) (\<lambda>n. Inr (max m n))) rs 0"

definition next_rule_id :: "rule list \<Rightarrow> (store_error, string) result" where
  "next_rule_id rs = bindR (max_num rule_num rs) (\<lambda>m. Inr (''r'' @ nat_str (m + 1)))"

definition next_ruleset_id :: "rule list \<Rightarrow> (store_error, string) result" where
  "next_ruleset_id rs = bindR (max_num ruleset_num rs) (\<lambda>m. Inr (''rs'' @ nat_str (m + 1)))"

definition target_name :: "string \<Rightarrow> string" where
  "target_name t = (if t = ''direct'' then ''Direct'' else if t = ''block'' then ''Block'' else t)"

section \<open>Normalisation of loaded rows\<close>

text \<open>The loop carries the last number given out, the target of the open legacy run (none after a
  grouped row), and the run's id and name.\<close>

definition fix_type :: "rule \<Rightarrow> rule" where
  "fix_type r = (if rtype r = ''domain'' then r\<lparr>rtype := ''domain_suffix''\<rparr> else r)"

definition fill_name :: "rule \<Rightarrow> rule" where
  "fill_name r = (case rname r of None \<Rightarrow> r\<lparr>rname := Some (target_name (rtarget r))\<rparr> | Some _ \<Rightarrow> r)"

fun norm_loop :: "nat \<Rightarrow> string option \<Rightarrow> string \<Rightarrow> string \<Rightarrow> rule list \<Rightarrow> rule list" where
  "norm_loop mx lst lid lname [] = []"
| "norm_loop mx lst lid lname (r0 # rs) =
     (let r = fix_type r0 in
      if rruleset r \<noteq> [] then fill_name r # norm_loop mx None lid lname rs
      else if Some (rtarget r) \<noteq> lst then
        (let lid' = ''rs'' @ nat_str (mx + 1); ln' = target_name (rtarget r) in
         r\<lparr>rruleset := lid', rname := Some ln'\<rparr> # norm_loop (mx + 1) (Some (rtarget r)) lid' ln' rs)
      else r\<lparr>rruleset := lid, rname := Some lname\<rparr> # norm_loop mx lst lid lname rs)"

definition normalize_rulesets :: "rule list \<Rightarrow> (store_error, rule list) result" where
  "normalize_rulesets rs = (if rs = [] then Inr [] else
     bindR (max_num ruleset_num rs) (\<lambda>mx. Inr (norm_loop mx None [] [] rs)))"

section \<open>Blocks\<close>

definition block_name :: "rule \<Rightarrow> string" where
  "block_name r = (case rname r of Some n \<Rightarrow> (if n \<noteq> [] then n else target_name (rtarget r))
     | None \<Rightarrow> target_name (rtarget r))"

definition new_block :: "rule \<Rightarrow> block" where
  "new_block r = \<lparr>b_id = rruleset r, b_name = block_name r, b_target = rtarget r, b_rules = [r]\<rparr>"

definition block_step :: "rule \<Rightarrow> block list \<Rightarrow> (store_error, block list) result" where
  "block_step r bs =
     (if rruleset r = [] then Inl (RuleWithoutRuleset (rid r))
      else if bs \<noteq> [] \<and> b_id (last bs) = rruleset r then
        (if rtarget r \<noteq> b_target (last bs) then Inl (MixedTargets (rruleset r))
         else Inr (butlast bs @ [(last bs)\<lparr>b_rules := b_rules (last bs) @ [r]\<rparr>]))
      else if rruleset r \<in> set (map b_id bs) then Inl (NotContiguous (rruleset r))
      else Inr (bs @ [new_block r]))"

definition ruleset_blocks :: "rule list \<Rightarrow> (store_error, block list) result" where
  "ruleset_blocks rs = foldR block_step rs []"

definition find_block :: "string \<Rightarrow> block list \<Rightarrow> (store_error, block) result" where
  "find_block i bs = (case find (\<lambda>b. b_id b = i) bs of None \<Rightarrow> Inl (UnknownRuleset i) | Some b \<Rightarrow> Inr b)"

definition ruleset_revision :: "(json \<Rightarrow> string) \<Rightarrow> data \<Rightarrow> string \<Rightarrow> (store_error, string option) result" where
  "ruleset_revision dg d i = bindR (ruleset_blocks (rules_of d)) (\<lambda>bs.
     Inr (map_option (\<lambda>b. content_revision dg ''ruleset'' i (block_json b)) (find (\<lambda>b. b_id b = i) bs)))"

definition ruleset_order_revision :: "(json \<Rightarrow> string) \<Rightarrow> data \<Rightarrow> (store_error, string) result" where
  "ruleset_order_revision dg d = bindR (ruleset_blocks (rules_of d)) (\<lambda>bs.
     Inr (content_revision dg ''ruleset-order'' ''router'' (JArr (map (\<lambda>b. JStr (b_id b)) bs))))"

section \<open>Permutations\<close>

fun dupes_loop :: "string list \<Rightarrow> string list \<Rightarrow> string list \<Rightarrow> string list" where
  "dupes_loop seen dupes [] = dupes"
| "dupes_loop seen dupes (i # is) =
     dupes_loop (i # seen) (if i \<in> set seen \<and> i \<notin> set dupes then dupes @ [i] else dupes) is"

definition check_permutation :: "string list \<Rightarrow> string list \<Rightarrow> string \<Rightarrow> (store_error, unit) result" where
  "check_permutation current proposed noun =
     (let dupes = dupes_loop [] [] proposed;
          unknown = filter (\<lambda>i. i \<notin> set current) proposed;
          missing = filter (\<lambda>i. i \<notin> set proposed) current in
      bindR (guardR (dupes \<noteq> []) (DuplicateIds noun dupes)) (\<lambda>_.
      bindR (guardR (unknown \<noteq> []) (UnknownIds noun unknown)) (\<lambda>_.
      guardR (missing \<noteq> []) (MissingIds noun missing))))"

section \<open>Operations\<close>

text \<open>Fresh rows: every row's id is computed from the table and the rows made before it.\<close>

fun mint :: "rule list \<Rightarrow> (string \<times> string) list \<Rightarrow> string \<Rightarrow> string \<Rightarrow> string \<Rightarrow> bool
    \<Rightarrow> (store_error, rule list) result" where
  "mint ctx [] target rsid name mgd = Inr []"
| "mint ctx ((t, v) # ms) target rsid name mgd =
     bindR (next_rule_id ctx) (\<lambda>i.
       let row = \<lparr>rid = i, rtype = t, rvalue = v, rtarget = target, rruleset = rsid,
                  rname = Some name, rmanaged = mgd\<rparr> in
       bindR (mint (ctx @ [row]) ms target rsid name mgd) (\<lambda>rows. Inr (row # rows)))"

definition create_ruleset :: "string \<Rightarrow> string \<Rightarrow> (string \<times> string) list \<Rightarrow> data
    \<Rightarrow> (store_error, block \<times> data) result" where
  "create_ruleset name target ms d =
     bindR (guardR (ms = []) NoMatchers) (\<lambda>_.
     bindR (guardR (strip name = []) EmptyName) (\<lambda>_.
     bindR (ensure_channel_target d target) (\<lambda>_.
     bindR (next_ruleset_id (rules_of d)) (\<lambda>rsid.
     bindR (mint (rules_of d) ms target rsid (strip name) False) (\<lambda>rows.
     bindR (ruleset_blocks (rules_of d @ rows)) (\<lambda>bs.
       Inr (last bs, set_rules (rules_of d @ rows) d)))))))"

text \<open>Where the rows of a ruleset begin and end in a list.\<close>

definition first_index :: "string \<Rightarrow> rule list \<Rightarrow> nat" where
  "first_index i rs = length (takeWhile (\<lambda>r. rruleset r \<noteq> i) rs)"

definition end_index :: "string \<Rightarrow> rule list \<Rightarrow> nat" where
  "end_index i rs = length rs - length (takeWhile (\<lambda>r. rruleset r \<noteq> i) (rev rs))"

definition insert_at :: "nat \<Rightarrow> 'a list \<Rightarrow> 'a list \<Rightarrow> 'a list" where
  "insert_at n ys xs = take n xs @ ys @ drop n xs"

definition add_ruleset_matchers :: "string \<Rightarrow> (string \<times> string) list \<Rightarrow> data
    \<Rightarrow> (store_error, block \<times> data) result" where
  "add_ruleset_matchers i ms d =
     bindR (guardR (ms = []) NoMatchers) (\<lambda>_.
     bindR (ruleset_blocks (rules_of d)) (\<lambda>bs.
     bindR (find_block i bs) (\<lambda>b.
     bindR (mint (rules_of d) ms (b_target b) i (b_name b) False) (\<lambda>rows.
     let rs = insert_at (end_index i (rules_of d)) rows (rules_of d) in
     bindR (ruleset_blocks rs) (\<lambda>bs'.
     bindR (find_block i bs') (\<lambda>b'. Inr (b', set_rules rs d)))))))"

definition remove_ruleset :: "string \<Rightarrow> data \<Rightarrow> (store_error, rule list \<times> data) result" where
  "remove_ruleset i d =
     bindR (ruleset_blocks (rules_of d)) (\<lambda>_.
       let removed = filter (\<lambda>r. rruleset r = i) (rules_of d) in
       bindR (guardR (removed = []) (UnknownRuleset i)) (\<lambda>_.
         Inr (removed, set_rules (filter (\<lambda>r. rruleset r \<noteq> i) (rules_of d)) d)))"

definition map_ruleset :: "string \<Rightarrow> (rule \<Rightarrow> rule) \<Rightarrow> rule list \<Rightarrow> rule list" where
  "map_ruleset i f rs = map (\<lambda>r. if rruleset r = i then f r else r) rs"

definition edit_ruleset :: "string \<Rightarrow> (rule \<Rightarrow> rule) \<Rightarrow> data \<Rightarrow> (store_error, block \<times> data) result" where
  "edit_ruleset i f d =
     bindR (ruleset_blocks (rules_of d)) (\<lambda>_.
     bindR (guardR (\<forall>r \<in> set (rules_of d). rruleset r \<noteq> i) (UnknownRuleset i)) (\<lambda>_.
     let rs = map_ruleset i f (rules_of d) in
     bindR (ruleset_blocks rs) (\<lambda>bs.
     bindR (find_block i bs) (\<lambda>b. Inr (b, set_rules rs d)))))"

definition rename_ruleset :: "string \<Rightarrow> string \<Rightarrow> data \<Rightarrow> (store_error, block \<times> data) result" where
  "rename_ruleset i name d =
     bindR (guardR (name = []) EmptyName) (\<lambda>_. edit_ruleset i (\<lambda>r. r\<lparr>rname := Some name\<rparr>) d)"

definition retarget_ruleset :: "string \<Rightarrow> string \<Rightarrow> data \<Rightarrow> (store_error, block \<times> data) result" where
  "retarget_ruleset i target d =
     bindR (ensure_channel_target d target) (\<lambda>_. edit_ruleset i (\<lambda>r. r\<lparr>rtarget := target\<rparr>) d)"

definition update_ruleset :: "(json \<Rightarrow> string) \<Rightarrow> string \<Rightarrow> string \<Rightarrow> string \<Rightarrow> (string \<times> string) list
    \<Rightarrow> string option \<Rightarrow> data \<Rightarrow> (store_error, block \<times> data) result" where
  "update_ruleset dg i name target ms expected d =
     bindR (guardR (name = []) EmptyName) (\<lambda>_.
     bindR (guardR (ms = []) NoMatchers) (\<lambda>_.
     bindR (ruleset_revision dg d i) (\<lambda>cur.
     bindR (require_revision ''ruleset'' i expected cur) (\<lambda>_.
     bindR (ensure_channel_target d target) (\<lambda>_.
     bindR (guardR (\<forall>r \<in> set (rules_of d). rruleset r \<noteq> i) (UnknownRuleset i)) (\<lambda>_.
     let kept = filter (\<lambda>r. rruleset r \<noteq> i) (rules_of d) in
     bindR (mint kept ms target i name False) (\<lambda>rows.
     let rs = insert_at (min (first_index i (rules_of d)) (length kept)) rows kept in
     bindR (ruleset_blocks rs) (\<lambda>bs.
     bindR (find_block i bs) (\<lambda>b. Inr (b, set_rules rs d))))))))))"

definition remove_rules :: "string list \<Rightarrow> data \<Rightarrow> rule list \<times> data" where
  "remove_rules ids d =
     (filter (\<lambda>r. rid r \<in> set ids) (rules_of d),
      set_rules (filter (\<lambda>r. rid r \<notin> set ids) (rules_of d)) d)"

text \<open>\<open>by_id = {r["id"]: r}\<close>: the last row with that id.\<close>

definition row_of :: "rule list \<Rightarrow> string \<Rightarrow> rule option" where
  "row_of rs i = find (\<lambda>r. rid r = i) (rev rs)"

definition rows_of :: "rule list \<Rightarrow> string list \<Rightarrow> rule list" where
  "rows_of rs ids = concat (map (\<lambda>i. case row_of rs i of None \<Rightarrow> [] | Some r \<Rightarrow> [r]) ids)"

fun dedup :: "string list \<Rightarrow> string list" where
  "dedup [] = []"
| "dedup (i # is) = i # filter (\<lambda>j. j \<noteq> i) (dedup is)"

definition move_rules :: "string list \<Rightarrow> string \<Rightarrow> data
    \<Rightarrow> (store_error, (block \<times> string list) \<times> data) result" where
  "move_rules ids i d =
     (let wanted = dedup ids; rs = rules_of d in
      bindR (ruleset_blocks rs) (\<lambda>bs.
      bindR (find_block i bs) (\<lambda>dest.
      bindR (guardR (filter (\<lambda>j. row_of rs j = None) wanted \<noteq> [])
               (UnknownIds ''rule'' (filter (\<lambda>j. row_of rs j = None) wanted))) (\<lambda>_.
      let already = map rid (filter (\<lambda>r. rruleset r = i) (rows_of rs wanted)) in
      bindR (guardR (already \<noteq> []) (AlreadyInRuleset already)) (\<lambda>_.
      let kept = filter (\<lambda>r. rid r \<notin> set wanted) rs;
          moved = map (\<lambda>r. r\<lparr>rruleset := i, rname := Some (b_name dest), rtarget := b_target dest\<rparr>)
                    (rows_of rs wanted);
          new = insert_at (end_index i kept) moved kept in
      bindR (guardR (\<forall>r \<in> set kept. rruleset r \<noteq> i) EmptySequence) (\<lambda>_.
      bindR (ruleset_blocks new) (\<lambda>after.
      let dissolved = filter (\<lambda>j. j \<notin> set (map b_id after)) (map b_id bs) in
      bindR (find_block i after) (\<lambda>b. Inr ((b, dissolved), set_rules new d)))))))))"

definition reorder_rules :: "string list \<Rightarrow> data \<Rightarrow> (store_error, (rule list \<times> bool) \<times> data) result" where
  "reorder_rules ids d =
     (let rs = rules_of d; current = map rid rs in
      bindR (ruleset_blocks rs) (\<lambda>_.
      bindR (check_permutation current ids ''rule'') (\<lambda>_.
      let ordered = rows_of rs ids in
      bindR (ruleset_blocks ordered) (\<lambda>_.
        Inr ((ordered, ids \<noteq> current), set_rules ordered d)))))"

definition block_rows :: "block list \<Rightarrow> string \<Rightarrow> rule list" where
  "block_rows bs i = (case find (\<lambda>b. b_id b = i) bs of None \<Rightarrow> [] | Some b \<Rightarrow> b_rules b)"

definition reorder_rulesets :: "(json \<Rightarrow> string) \<Rightarrow> string list \<Rightarrow> string option \<Rightarrow> data
    \<Rightarrow> (store_error, (block list \<times> bool) \<times> data) result" where
  "reorder_rulesets dg ids expected d =
     bindR (ruleset_order_revision dg d) (\<lambda>cur.
     bindR (require_revision ''ruleset order'' ''router'' expected (Some cur)) (\<lambda>_.
     bindR (ruleset_blocks (rules_of d)) (\<lambda>bs.
     let current = map b_id bs in
     bindR (check_permutation current ids ''ruleset'') (\<lambda>_.
     let rs = concat (map (block_rows bs) ids) in
     bindR (ruleset_blocks rs) (\<lambda>ordered.
       Inr ((ordered, ids \<noteq> current), set_rules rs d))))))"

section \<open>Block lists\<close>

definition block_ok :: "block \<Rightarrow> bool" where
  "block_ok b = (b_id b \<noteq> [] \<and> b_rules b \<noteq> [] \<and> b_name b = block_name (hd (b_rules b))
     \<and> (\<forall>r \<in> set (b_rules b). rruleset r = b_id b \<and> rtarget r = b_target b))"

definition blocks_ok :: "block list \<Rightarrow> bool" where
  "blocks_ok bs = (list_all block_ok bs \<and> distinct (map b_id bs))"

definition flat :: "block list \<Rightarrow> rule list" where
  "flat bs = concat (map b_rules bs)"

lemma flat_simps [simp]:
  "flat [] = []"
  "flat (b # bs) = b_rules b @ flat bs"
  "flat (as @ bs) = flat as @ flat bs"
  by (simp_all add: flat_def)

lemma block_step_ok:
  assumes "block_step r bs = Inr bs'" "blocks_ok bs"
  shows "blocks_ok bs' \<and> flat bs' = flat bs @ [r]"
proof (cases "bs \<noteq> [] \<and> b_id (last bs) = rruleset r")
  case True
  then obtain as b where bs: "bs = as @ [b]" by (metis rev_exhaust)
  with True assms show ?thesis
    by (auto simp: block_step_def blocks_ok_def block_ok_def split: if_splits)
next
  case False
  with assms show ?thesis
    by (auto simp: block_step_def blocks_ok_def block_ok_def new_block_def split: if_splits)
qed

lemma fold_block_step_ok:
  "foldR block_step rs bs = Inr bs' \<Longrightarrow> blocks_ok bs \<Longrightarrow> blocks_ok bs' \<and> flat bs' = flat bs @ rs"
proof (induction rs arbitrary: bs)
  case (Cons r rs)
  then obtain bs1 where "block_step r bs = Inr bs1" "foldR block_step rs bs1 = Inr bs'" by auto
  with Cons.IH[of bs1] block_step_ok[of r bs bs1] Cons.prems(2) show ?case by simp
qed simp

lemma fold_block_rest:
  "\<forall>r \<in> set rs. rruleset r = b_id b \<and> rtarget r = b_target b \<Longrightarrow> b_id b \<noteq> []
   \<Longrightarrow> foldR block_step rs (as @ [b]) = Inr (as @ [b\<lparr>b_rules := b_rules b @ rs\<rparr>])"
proof (induction rs arbitrary: b)
  case (Cons r rs)
  have "block_step r (as @ [b]) = Inr (as @ [b\<lparr>b_rules := b_rules b @ [r]\<rparr>])"
    using Cons.prems by (simp add: block_step_def)
  then show ?case using Cons.IH[of "b\<lparr>b_rules := b_rules b @ [r]\<rparr>"] Cons.prems by simp
qed simp

lemma fold_block:
  assumes "block_ok b" "b_id b \<notin> set (map b_id as)"
  shows "foldR block_step (b_rules b) as = Inr (as @ [b])"
proof -
  obtain r rs where rr: "b_rules b = r # rs" using assms(1) by (cases "b_rules b") (auto simp: block_ok_def)
  have n: "as = [] \<or> b_id (last as) \<noteq> b_id b" using assms(2) by (metis in_set_conv_decomp last_in_set list.set_map image_eqI)
  have "block_step r as = Inr (as @ [new_block r])"
    using assms rr n by (auto simp: block_step_def block_ok_def)
  moreover have "foldR block_step rs (as @ [new_block r]) = Inr (as @ [(new_block r)\<lparr>b_rules := [r] @ rs\<rparr>])"
    using fold_block_rest[of rs "new_block r" as] assms(1) rr
    by (simp add: block_ok_def new_block_def)
  moreover have "(new_block r)\<lparr>b_rules := [r] @ rs\<rparr> = b"
    using assms(1) rr by (cases b) (simp add: block_ok_def new_block_def)
  ultimately show ?thesis using rr by simp
qed

lemma fold_blocks:
  "blocks_ok (as @ bs) \<Longrightarrow> foldR block_step (flat bs) as = Inr (as @ bs)"
proof (induction bs arbitrary: as)
  case (Cons b bs)
  have "foldR block_step (b_rules b) as = Inr (as @ [b])"
    using Cons.prems by (intro fold_block) (auto simp: blocks_ok_def)
  moreover have "foldR block_step (flat bs) (as @ [b]) = Inr ((as @ [b]) @ bs)"
    using Cons.prems by (intro Cons.IH) simp
  ultimately show ?case by (simp add: foldR_append)
qed simp

lemma ruleset_blocks_iff: "ruleset_blocks rs = Inr bs \<longleftrightarrow> blocks_ok bs \<and> flat bs = rs"
  using fold_block_step_ok[of rs "[]" bs] fold_blocks[of "[]" bs]
  by (auto simp: ruleset_blocks_def blocks_ok_def)

lemma ruleset_blocks_flat: "blocks_ok bs \<Longrightarrow> ruleset_blocks (flat bs) = Inr bs"
  by (simp add: ruleset_blocks_iff)

lemma blocks_ok_unique: "blocks_ok as \<Longrightarrow> blocks_ok bs \<Longrightarrow> flat as = flat bs \<Longrightarrow> as = bs"
  by (metis ruleset_blocks_flat sum.inject(2))

subsection \<open>Taking a table apart at a ruleset\<close>

lemma find_block_Inr:
  "find_block i bs = Inr b \<Longrightarrow> \<exists>as cs. bs = as @ b # cs \<and> b_id b = i \<and> (\<forall>y \<in> set as. b_id y \<noteq> i)"
  unfolding find_block_def by (auto split: option.splits dest!: find_Some_split)

lemma find_block_at: "blocks_ok (as @ b # cs) \<Longrightarrow> find_block (b_id b) (as @ b # cs) = Inr b"
proof -
  assume "blocks_ok (as @ b # cs)"
  then have "\<forall>y \<in> set as. b_id y \<noteq> b_id b" by (simp add: blocks_ok_def image_iff) metis
  then have "find (\<lambda>y. b_id y = b_id b) (as @ b # cs) = Some b"
    by (induction as) auto
  then show ?thesis by (simp add: find_block_def)
qed

lemma rows_other: "list_all block_ok bs \<Longrightarrow> i \<notin> set (map b_id bs) \<Longrightarrow> r \<in> set (flat bs) \<Longrightarrow> rruleset r \<noteq> i"
  by (auto simp: flat_def list_all_iff block_ok_def)

lemma filter_flat:
  "list_all block_ok bs \<Longrightarrow> filter (\<lambda>r. P (rruleset r)) (flat bs) = flat (filter (\<lambda>b. P (b_id b)) bs)"
proof (induction bs)
  case (Cons b bs)
  then have "filter (\<lambda>r. P (rruleset r)) (b_rules b) = (if P (b_id b) then b_rules b else [])"
    by (auto simp: block_ok_def filter_id_conv filter_empty_conv)
  with Cons show ?case by simp
qed simp

lemma blocks_ok_filter: "blocks_ok bs \<Longrightarrow> blocks_ok (filter P bs)"
  by (auto simp: blocks_ok_def list_all_iff distinct_map_filter)

lemma split_facts:
  assumes "blocks_ok (as @ b # cs)"
  shows "\<forall>r \<in> set (flat as). rruleset r \<noteq> b_id b" "\<forall>r \<in> set (flat cs). rruleset r \<noteq> b_id b"
    "\<forall>r \<in> set (b_rules b). rruleset r = b_id b" "b_rules b \<noteq> []"
proof -
  have o: "list_all block_ok as" "block_ok b" "list_all block_ok cs"
    and n: "b_id b \<notin> set (map b_id as)" "b_id b \<notin> set (map b_id cs)"
    using assms by (auto simp: blocks_ok_def)
  show "\<forall>r \<in> set (flat as). rruleset r \<noteq> b_id b" "\<forall>r \<in> set (flat cs). rruleset r \<noteq> b_id b"
    using rows_other o n by blast+
  show "\<forall>r \<in> set (b_rules b). rruleset r = b_id b" "b_rules b \<noteq> []"
    using o(2) by (simp_all add: block_ok_def)
qed

lemma first_index_at: "blocks_ok (as @ b # cs) \<Longrightarrow> first_index (b_id b) (flat (as @ b # cs)) = length (flat as)"
proof -
  assume "blocks_ok (as @ b # cs)"
  note s = split_facts[OF this]
  obtain r rs where "b_rules b = r # rs" using s(4) by (cases "b_rules b") auto
  with s show ?thesis by (simp add: first_index_def takeWhile_append2)
qed

lemma end_index_at:
  assumes "blocks_ok (as @ b # cs)"
  shows "end_index (b_id b) (flat (as @ b # cs)) = length (flat as @ b_rules b)"
proof -
  note s = split_facts[OF assms]
  obtain r rs where "b_rules b = rs @ [r]" using s(4) by (metis rev_exhaust)
  then have "rev (flat (as @ b # cs)) = rev (flat cs) @ r # rev rs @ rev (flat as)" by simp
  moreover have "takeWhile (\<lambda>r. rruleset r \<noteq> b_id b) (rev (flat cs) @ r # rev rs @ rev (flat as))
      = rev (flat cs) @ takeWhile (\<lambda>r. rruleset r \<noteq> b_id b) (r # rev rs @ rev (flat as))"
    by (rule takeWhile_append2) (use s(2) in auto)
  ultimately show ?thesis using s(3) \<open>b_rules b = rs @ [r]\<close> by (simp add: end_index_def)
qed

lemma insert_at_append [simp]: "n = length xs \<Longrightarrow> insert_at n ys (xs @ zs) = xs @ ys @ zs"
  by (simp add: insert_at_def)

lemma blocks_ok_replace:
  "blocks_ok (as @ b # cs) \<Longrightarrow> block_ok b' \<Longrightarrow> b_id b' = b_id b \<Longrightarrow> blocks_ok (as @ b' # cs)"
  by (simp add: blocks_ok_def)

subsection \<open>Fresh identities\<close>

definition nums_ok :: "rule list \<Rightarrow> bool" where
  "nums_ok rs = (\<forall>r \<in> set rs. (\<exists>n. rule_num r = Inr n) \<and> (\<exists>n. ruleset_num r = Inr n))"

definition table_ok :: "rule list \<Rightarrow> bool" where
  "table_ok rs = ((\<exists>bs. ruleset_blocks rs = Inr bs) \<and> distinct (map rid rs) \<and> nums_ok rs)"

lemma table_okE:
  assumes "table_ok rs"
  obtains bs where "blocks_ok bs" "rs = flat bs" "ruleset_blocks rs = Inr bs" "distinct (map rid rs)" "nums_ok rs"
  using assms by (auto simp: table_ok_def ruleset_blocks_iff)

lemma table_okI: "blocks_ok bs \<Longrightarrow> distinct (map rid (flat bs)) \<Longrightarrow> nums_ok (flat bs) \<Longrightarrow> table_ok (flat bs)"
  by (auto simp: table_ok_def ruleset_blocks_iff)

lemma max_num_fold:
  fixes f :: "'a \<Rightarrow> ('e, nat) result"
  shows "\<forall>r \<in> set rs. \<exists>n. f r = Inr n \<Longrightarrow>
   \<exists>m. foldR (\<lambda>r m. bindR (f r) (\<lambda>n. Inr (max m n))) rs k = Inr m \<and> k \<le> m \<and> (\<forall>r \<in> set rs. \<forall>n. f r = Inr n \<longrightarrow> n \<le> m)"
proof (induction rs arbitrary: k)
  case (Cons r rs)
  then obtain n where n: "f r = Inr n" by auto
  with Cons.IH[of "max k n"] Cons.prems show ?case by (auto simp: max.bounded_iff)
qed simp

lemma max_num_bound:
  "max_num f rs = Inr m \<Longrightarrow> r \<in> set rs \<Longrightarrow> f r = Inr n \<Longrightarrow> n \<le> m"
proof -
  assume a: "max_num f rs = Inr m" "r \<in> set rs" "f r = Inr n"
  have "\<forall>r \<in> set rs. \<exists>n. f r = Inr n"
  proof -
    have "foldR (\<lambda>r m. bindR (f r) (\<lambda>n. Inr (max m n))) rs k = Inr m \<Longrightarrow> \<forall>r \<in> set rs. \<exists>n. f r = Inr n" for k rs
      by (induction rs arbitrary: k) auto
    with a(1) show ?thesis by (auto simp: max_num_def)
  qed
  from max_num_fold[OF this, of 0] a show ?thesis by (auto simp: max_num_def)
qed

lemma num_after_mint: "num_after p (p @ nat_str n) = Inr n"
  using ascii_digits_isdigit[OF digits_nat_str[of n]]
  by (simp add: num_after_def startswith_def)

lemma next_rule_id_fresh:
  assumes "next_rule_id rs = Inr i"
  shows "i \<notin> rid ` set rs" "\<exists>n. num_after ''r'' i = Inr n"
proof -
  from assms obtain m where m: "max_num rule_num rs = Inr m" "i = ''r'' @ nat_str (m + 1)"
    by (auto simp: next_rule_id_def)
  then have i: "num_after ''r'' i = Inr (m + 1)" by (simp only: num_after_mint)
  then show "\<exists>n. num_after ''r'' i = Inr n" by blast
  show "i \<notin> rid ` set rs"
  proof
    assume "i \<in> rid ` set rs"
    then obtain r where "r \<in> set rs" "rule_num r = Inr (m + 1)" using i by (auto simp: rule_num_def)
    from max_num_bound[OF m(1) this] show False by simp
  qed
qed

lemma next_ruleset_id_fresh:
  assumes "next_ruleset_id rs = Inr i"
  shows "i \<notin> rruleset ` set rs" "\<exists>n. num_after ''rs'' i = Inr n" "i \<noteq> []"
proof -
  from assms obtain m where m: "max_num ruleset_num rs = Inr m" "i = ''rs'' @ nat_str (m + 1)"
    by (auto simp: next_ruleset_id_def)
  then have i: "num_after ''rs'' i = Inr (m + 1)" by (simp only: num_after_mint)
  then show "\<exists>n. num_after ''rs'' i = Inr n" by blast
  show "i \<noteq> []" using m by simp
  show "i \<notin> rruleset ` set rs"
  proof
    assume "i \<in> rruleset ` set rs"
    then obtain r where "r \<in> set rs" "ruleset_num r = Inr (m + 1)" using i by (auto simp: ruleset_num_def)
    from max_num_bound[OF m(1) this] show False by simp
  qed
qed

lemma mint_facts:
  assumes "mint ctx ms target i name mgd = Inr rows"
  shows "map (\<lambda>r. (rtype r, rvalue r)) rows = ms"
    "\<forall>r \<in> set rows. rtarget r = target \<and> rruleset r = i \<and> rname r = Some name \<and> rmanaged r = mgd"
    "distinct (map rid rows)" "rid ` set rows \<inter> rid ` set ctx = {}"
    "\<forall>r \<in> set rows. \<exists>n. rule_num r = Inr n"
proof -
  have "map (\<lambda>r. (rtype r, rvalue r)) rows = ms
    \<and> (\<forall>r \<in> set rows. rtarget r = target \<and> rruleset r = i \<and> rname r = Some name \<and> rmanaged r = mgd)
    \<and> distinct (map rid rows) \<and> rid ` set rows \<inter> rid ` set ctx = {}
    \<and> (\<forall>r \<in> set rows. \<exists>n. rule_num r = Inr n)"
    using assms
  proof (induction ctx ms target i name mgd arbitrary: rows rule: mint.induct)
    case (2 ctx t v ms target rsid name mgd)
    then obtain j rest where j: "next_rule_id ctx = Inr j" and
      rest: "mint (ctx @ [\<lparr>rid = j, rtype = t, rvalue = v, rtarget = target, rruleset = rsid,
                  rname = Some name, rmanaged = mgd\<rparr>]) ms target rsid name mgd = Inr rest" and
      rows: "rows = \<lparr>rid = j, rtype = t, rvalue = v, rtarget = target, rruleset = rsid,
                  rname = Some name, rmanaged = mgd\<rparr> # rest"
      by (auto simp: Let_def)
    from "2.IH"[OF j refl rest] next_rule_id_fresh[OF j] rows show ?case
      by (auto simp: rule_num_def)
  qed simp
  then show "map (\<lambda>r. (rtype r, rvalue r)) rows = ms"
    "\<forall>r \<in> set rows. rtarget r = target \<and> rruleset r = i \<and> rname r = Some name \<and> rmanaged r = mgd"
    "distinct (map rid rows)" "rid ` set rows \<inter> rid ` set ctx = {}"
    "\<forall>r \<in> set rows. \<exists>n. rule_num r = Inr n"
    by auto
qed

lemma block_name_row: "rname r = Some n \<Longrightarrow> n \<noteq> [] \<Longrightarrow> block_name r = n"
  by (simp add: block_name_def)

lemma minted_block:
  assumes "mint ctx ms target i name mgd = Inr rows" "ms \<noteq> []" "name \<noteq> []" "i \<noteq> []"
  shows "block_ok \<lparr>b_id = i, b_name = name, b_target = target, b_rules = rows\<rparr>"
proof -
  note m = mint_facts[OF assms(1)]
  from m(1) assms(2) obtain r rest where "rows = r # rest" by (cases rows) auto
  with m(2) assms show ?thesis by (auto simp: block_ok_def block_name_row)
qed

lemma block_name_nonempty: "rtarget r \<noteq> [] \<Longrightarrow> block_name r \<noteq> []"
  by (auto simp: block_name_def target_name_def split: option.splits)

section \<open>What the operations do\<close>

lemma create_ruleset_spec:
  assumes "create_ruleset name target ms d = Inr (b, d')" "ruleset_blocks (rules_of d) = Inr bs"
  shows "d' = set_rules (flat (bs @ [b])) d" "blocks_ok (bs @ [b])"
    "b_name b = strip name" "b_target b = target" "map (\<lambda>r. (rtype r, rvalue r)) (b_rules b) = ms"
    "ensure_channel_target d target = Inr ()"
    "distinct (map rid (b_rules b))" "rid ` set (b_rules b) \<inter> rid ` set (rules_of d) = {}"
    "nums_ok (b_rules b)"
proof -
  from assms(1) obtain rsid rows bs' where
    g: "ms \<noteq> []" "strip name \<noteq> []" "ensure_channel_target d target = Inr ()"
    and rsid: "next_ruleset_id (rules_of d) = Inr rsid"
    and rows: "mint (rules_of d) ms target rsid (strip name) False = Inr rows"
    and bs': "ruleset_blocks (rules_of d @ rows) = Inr bs'"
    and b: "b = last bs'" "d' = set_rules (rules_of d @ rows) d"
    by (auto simp: create_ruleset_def)
  let ?b = "\<lparr>b_id = rsid, b_name = strip name, b_target = target, b_rules = rows\<rparr>"
  note f = next_ruleset_id_fresh[OF rsid] and m = mint_facts[OF rows]
  from assms(2) have bs: "blocks_ok bs" "flat bs = rules_of d" by (simp_all add: ruleset_blocks_iff)
  have bo: "block_ok ?b" using minted_block[OF rows g(1,2) f(3)] .
  have n: "rsid \<notin> set (map b_id bs)"
  proof
    assume "rsid \<in> set (map b_id bs)"
    then obtain x where "x \<in> set bs" "b_id x = rsid" by auto
    moreover from this bs(1) obtain r where "r \<in> set (b_rules x)" "rruleset r = rsid"
      by (metis (no_types, lifting) block_ok_def blocks_ok_def last_in_set list_all_iff)
    ultimately have "r \<in> set (rules_of d)" "rruleset r = rsid"
      unfolding bs(2)[symmetric] by (auto simp: flat_def)
    with f(1) show False by auto
  qed
  with bs bo have ok: "blocks_ok (bs @ [?b])" by (auto simp: blocks_ok_def)
  then have "bs' = bs @ [?b]" using bs' bs(2) ruleset_blocks_flat[OF ok] by simp
  with b have b': "b = ?b" by simp
  show "d' = set_rules (flat (bs @ [b])) d" "blocks_ok (bs @ [b])"
    "b_name b = strip name" "b_target b = target" "map (\<lambda>r. (rtype r, rvalue r)) (b_rules b) = ms"
    "ensure_channel_target d target = Inr ()"
    "distinct (map rid (b_rules b))" "rid ` set (b_rules b) \<inter> rid ` set (rules_of d) = {}"
    "nums_ok (b_rules b)"
    unfolding b' using ok b(2) bs m f(2) g by (auto simp: nums_ok_def ruleset_num_def)
qed

lemma add_ruleset_matchers_spec:
  assumes "add_ruleset_matchers i ms d = Inr (b', d')" "ruleset_blocks (rules_of d) = Inr bs"
    and "nums_ok (rules_of d)"
  obtains as b cs rows where "bs = as @ b # cs" "b_id b = i" "b' = b\<lparr>b_rules := b_rules b @ rows\<rparr>"
    "d' = set_rules (flat (as @ b' # cs)) d" "blocks_ok (as @ b' # cs)"
    "map (\<lambda>r. (rtype r, rvalue r)) rows = ms" "distinct (map rid rows)"
    "rid ` set rows \<inter> rid ` set (rules_of d) = {}" "nums_ok rows"
proof -
  from assms(2) have bs: "blocks_ok bs" "flat bs = rules_of d" by (simp_all add: ruleset_blocks_iff)
  from assms(1,2) obtain b rows bs' where
    f: "find_block i bs = Inr b" and g: "ms \<noteq> []"
    and rows: "mint (rules_of d) ms (b_target b) i (b_name b) False = Inr rows"
    and bs': "ruleset_blocks (insert_at (end_index i (rules_of d)) rows (rules_of d)) = Inr bs'"
    and b': "find_block i bs' = Inr b'" "d' = set_rules (insert_at (end_index i (rules_of d)) rows (rules_of d)) d"
    by (auto simp: add_ruleset_matchers_def Let_def)
  from find_block_Inr[OF f] obtain as cs where s: "bs = as @ b # cs" "b_id b = i" by blast
  note m = mint_facts[OF rows] and ok = bs(1)[unfolded s(1)]
  let ?b = "b\<lparr>b_rules := b_rules b @ rows\<rparr>"
  have "end_index i (rules_of d) = length (flat as @ b_rules b)"
    using end_index_at[OF ok] s bs(2) by simp
  moreover have rd: "rules_of d = (flat as @ b_rules b) @ flat cs" using s(1) bs(2) by simp
  ultimately have ins: "insert_at (end_index i (rules_of d)) rows (rules_of d) = flat (as @ ?b # cs)"
    by (simp only: insert_at_append) simp
  have bo: "block_ok b" using ok by (simp add: blocks_ok_def)
  then have bo': "block_ok ?b" using m(2) s(2) by (auto simp: block_ok_def)
  have ok': "blocks_ok (as @ ?b # cs)" using blocks_ok_replace[OF ok bo'] by simp
  have "bs' = as @ ?b # cs" using bs' ruleset_blocks_flat[OF ok'] ins by simp
  with b'(1) find_block_at[OF ok'] s(2) have bb: "b' = ?b" by simp
  have "\<exists>n. ruleset_num r = Inr n" if "r \<in> set rows" for r
  proof -
    from bo obtain r0 where "r0 \<in> set (b_rules b)" "rruleset r0 = i"
      using s(2) by (metis block_ok_def last_in_set)
    moreover have "rruleset r = i" using m(2) that by simp
    ultimately show ?thesis using assms(3) rd by (auto simp: nums_ok_def ruleset_num_def)
  qed
  with m(5) have "nums_ok rows" by (simp add: nums_ok_def)
  then show thesis using that[OF s bb] b'(2) ins ok' m(1,3,4) bb by simp
qed

lemma row_block: "blocks_ok bs \<Longrightarrow> r \<in> set (flat bs) \<Longrightarrow> \<exists>b \<in> set bs. b_id b = rruleset r"
  by (auto simp: flat_def blocks_ok_def block_ok_def list_all_iff)

lemma remove_ruleset_spec:
  assumes "remove_ruleset i d = Inr (removed, d')" "ruleset_blocks (rules_of d) = Inr bs"
  shows "d' = set_rules (flat (filter (\<lambda>b. b_id b \<noteq> i) bs)) d"
    "removed = flat (filter (\<lambda>b. b_id b = i) bs)" "\<exists>b \<in> set bs. b_id b = i"
proof -
  from assms(2) have bs: "blocks_ok bs" "flat bs = rules_of d" by (simp_all add: ruleset_blocks_iff)
  then have l: "list_all block_ok bs" by (simp add: blocks_ok_def)
  from assms have r: "removed = filter (\<lambda>r. rruleset r = i) (rules_of d)" "removed \<noteq> []"
    "d' = set_rules (filter (\<lambda>r. rruleset r \<noteq> i) (rules_of d)) d"
    by (auto simp: remove_ruleset_def Let_def)
  show "d' = set_rules (flat (filter (\<lambda>b. b_id b \<noteq> i) bs)) d"
    using r(3) filter_flat[OF l, of "\<lambda>x. x \<noteq> i"] bs(2) by simp
  show q: "removed = flat (filter (\<lambda>b. b_id b = i) bs)"
    using r(1) filter_flat[OF l, of "\<lambda>x. x = i"] bs(2) by simp
  show "\<exists>b \<in> set bs. b_id b = i"
  proof (rule ccontr)
    assume "\<not> ?thesis"
    then have "filter (\<lambda>b. b_id b = i) bs = []" by (simp add: filter_empty_conv)
    with q r(2) show False by simp
  qed
qed

lemma map_ruleset_at:
  assumes "blocks_ok (as @ b # cs)"
  shows "map_ruleset (b_id b) f (flat (as @ b # cs)) = flat as @ map f (b_rules b) @ flat cs"
  using split_facts[OF assms] by (simp add: map_ruleset_def map_idI cong: map_cong)

lemma edit_ruleset_spec:
  assumes "edit_ruleset i f d = Inr (b', d')" "ruleset_blocks (rules_of d) = Inr bs"
    and f: "\<And>r. rruleset (f r) = rruleset r" "\<And>r s. rtarget r = rtarget s \<Longrightarrow> rtarget (f r) = rtarget (f s)"
  obtains as b cs where "bs = as @ b # cs" "b_id b = i" "b_id b' = i" "b_rules b' = map f (b_rules b)"
    "d' = set_rules (flat (as @ b' # cs)) d" "blocks_ok (as @ b' # cs)"
proof -
  from assms(2) have bs: "blocks_ok bs" "flat bs = rules_of d" by (simp_all add: ruleset_blocks_iff)
  from assms(1,2) obtain bs' where
    e: "\<exists>r \<in> set (rules_of d). rruleset r = i"
    and bs': "ruleset_blocks (map_ruleset i f (rules_of d)) = Inr bs'"
    and b': "find_block i bs' = Inr b'" "d' = set_rules (map_ruleset i f (rules_of d)) d"
    by (auto simp: edit_ruleset_def Let_def)
  from e row_block[OF bs(1)] obtain b where "b \<in> set bs" "b_id b = i"
    unfolding bs(2) by metis
  then obtain as cs where s: "bs = as @ b # cs" "b_id b = i" by (meson split_list)
  note ok = bs(1)[unfolded s(1)] and sf = split_facts[OF bs(1)[unfolded s(1)]]
  let ?b = "\<lparr>b_id = i, b_name = block_name (f (hd (b_rules b))), b_target = rtarget (f (hd (b_rules b))),
    b_rules = map f (b_rules b)\<rparr>"
  have bo: "block_ok b" using ok by (simp add: blocks_ok_def)
  have "block_ok ?b"
    unfolding block_ok_def
  proof (intro conjI ballI)
    show "b_id ?b \<noteq> []" using bo s(2) by (simp add: block_ok_def)
    show "b_rules ?b \<noteq> []" using sf(4) by simp
    show "b_name ?b = block_name (hd (b_rules ?b))" using sf(4) by (simp add: hd_map)
    fix r assume "r \<in> set (b_rules ?b)"
    then obtain r0 where r0: "r0 \<in> set (b_rules b)" "r = f r0" by auto
    then show "rruleset r = b_id ?b" using sf(3) f(1) s(2) by simp
    have "rtarget r0 = rtarget (hd (b_rules b))"
      using bo r0(1) hd_in_set[OF sf(4)] by (simp add: block_ok_def)
    then have "rtarget (f r0) = rtarget (f (hd (b_rules b)))" by (rule f(2))
    then show "rtarget r = b_target ?b" using r0(2) by simp
  qed
  then have ok': "blocks_ok (as @ ?b # cs)" using blocks_ok_replace[OF ok, of ?b] s(2) by simp
  have m: "map_ruleset i f (rules_of d) = flat (as @ ?b # cs)"
    using map_ruleset_at[OF ok, of f] s bs(2) by simp
  then have "bs' = as @ ?b # cs" using bs' ruleset_blocks_flat[OF ok'] by simp
  then have "b' = ?b" using b'(1) find_block_at[OF ok'] by simp
  then show thesis using that[OF s] b'(2) m ok' by simp
qed

lemma update_ruleset_spec:
  assumes "update_ruleset dg i name target ms e d = Inr (b', d')" "ruleset_blocks (rules_of d) = Inr bs"
  obtains as b cs where "bs = as @ b # cs" "b_id b = i" "b_id b' = i" "b_name b' = name" "b_target b' = target"
    "map (\<lambda>r. (rtype r, rvalue r)) (b_rules b') = ms"
    "d' = set_rules (flat (as @ b' # cs)) d" "blocks_ok (as @ b' # cs)"
    "distinct (map rid (b_rules b'))" "rid ` set (b_rules b') \<inter> rid ` set (flat as @ flat cs) = {}"
    "\<forall>r \<in> set (b_rules b'). \<exists>n. rule_num r = Inr n" "ensure_channel_target d target = Inr ()"
proof -
  from assms(2) have bs: "blocks_ok bs" "flat bs = rules_of d" by (simp_all add: ruleset_blocks_iff)
  define kept where "kept = filter (\<lambda>r. rruleset r \<noteq> i) (rules_of d)"
  from assms(1) obtain rows bs' where
    g: "name \<noteq> []" "ms \<noteq> []" "ensure_channel_target d target = Inr ()"
    and e: "\<exists>r \<in> set (rules_of d). rruleset r = i"
    and rows: "mint kept ms target i name False = Inr rows"
    and bs': "ruleset_blocks (insert_at (min (first_index i (rules_of d)) (length kept)) rows kept) = Inr bs'"
    and b': "find_block i bs' = Inr b'"
      "d' = set_rules (insert_at (min (first_index i (rules_of d)) (length kept)) rows kept) d"
    by (auto simp: update_ruleset_def Let_def kept_def)
  from e row_block[OF bs(1)] obtain b where "b \<in> set bs" "b_id b = i"
    unfolding bs(2) by metis
  then obtain as cs where s: "bs = as @ b # cs" "b_id b = i" by (meson split_list)
  note ok = bs(1)[unfolded s(1)] and sf = split_facts[OF bs(1)[unfolded s(1)]] and m = mint_facts[OF rows]
  have k: "kept = flat as @ flat cs"
    using sf s bs(2)[symmetric] by (simp add: kept_def filter_id_conv)
  have fi: "first_index i (rules_of d) = length (flat as)"
    using first_index_at[OF ok] s bs(2) by simp
  let ?b = "\<lparr>b_id = i, b_name = name, b_target = target, b_rules = rows\<rparr>"
  have "b_id b \<noteq> []" using ok by (simp add: blocks_ok_def block_ok_def)
  then have "block_ok ?b" using minted_block[OF rows g(2,1)] s(2) by simp
  then have ok': "blocks_ok (as @ ?b # cs)" using blocks_ok_replace[OF ok, of ?b] s(2) by simp
  have ins: "insert_at (min (first_index i (rules_of d)) (length kept)) rows kept = flat (as @ ?b # cs)"
    using fi k by simp
  then have "bs' = as @ ?b # cs" using bs' ruleset_blocks_flat[OF ok'] by simp
  then have "b' = ?b" using b'(1) find_block_at[OF ok'] by simp
  then show thesis using that[OF s] b'(2) ins ok' m k g(3) by simp
qed

section \<open>Permutations\<close>

lemma dupes_loop_empty:
  "dupes_loop seen dupes is = [] \<longleftrightarrow> dupes = [] \<and> distinct is \<and> set is \<inter> set seen = {}"
  by (induction seen dupes "is" rule: dupes_loop.induct) auto

lemma check_permutation_iff:
  "check_permutation current proposed noun = Inr u \<longleftrightarrow> distinct proposed \<and> set proposed = set current"
  by (auto simp: check_permutation_def Let_def dupes_loop_empty filter_empty_conv)

lemma row_of_Some: "row_of rs i = Some r \<Longrightarrow> r \<in> set rs \<and> rid r = i"
  unfolding row_of_def by (drule find_Some_split) (metis in_set_conv_decomp set_rev)

lemma row_of_in: "distinct (map rid rs) \<Longrightarrow> r \<in> set rs \<Longrightarrow> row_of rs (rid r) = Some r"
proof -
  assume a: "distinct (map rid rs)" "r \<in> set rs"
  then have "row_of rs (rid r) \<noteq> None" by (auto simp: row_of_def find_None_iff)
  then obtain r' where r': "row_of rs (rid r) = Some r'" by auto
  with row_of_Some[OF r'] a show ?thesis by (auto simp: distinct_map inj_on_def)
qed

lemma row_of_None: "row_of rs i = None \<longleftrightarrow> i \<notin> rid ` set rs"
  by (auto simp: row_of_def find_None_iff)

lemma rows_of_map:
  assumes "distinct (map rid rs)" "set ids \<subseteq> rid ` set rs"
  shows "map rid (rows_of rs ids) = ids" "set (rows_of rs ids) = {r \<in> set rs. rid r \<in> set ids}"
proof -
  show "map rid (rows_of rs ids) = ids"
    using assms(2)
  proof (induction ids)
    case (Cons i ids)
    then obtain r where "row_of rs i = Some r" "rid r = i"
      using row_of_in[OF assms(1)] by auto
    with Cons show ?case by (simp add: rows_of_def)
  qed (simp add: rows_of_def)
  show "set (rows_of rs ids) = {r \<in> set rs. rid r \<in> set ids}"
    using row_of_in[OF assms(1)] row_of_Some[of rs]
    by (auto simp: rows_of_def split: option.splits)
qed

lemma rows_of_perm:
  assumes "distinct (map rid rs)" "distinct ids" "set ids = rid ` set rs"
  shows "mset (rows_of rs ids) = mset rs"
proof -
  note r = rows_of_map[OF assms(1), of ids]
  have "distinct (rows_of rs ids)" using r(1) assms(2,3) by (metis distinct_map order_refl)
  moreover have "distinct rs" using assms(1) by (simp add: distinct_map)
  moreover have "set (rows_of rs ids) = set rs" using r(2) assms(3) by auto
  ultimately show ?thesis by (simp add: set_eq_iff_mset_eq_distinct)
qed

lemma reorder_rules_spec:
  assumes "reorder_rules ids d = Inr ((ordered, changed), d')" "table_ok (rules_of d)"
  shows "d' = set_rules ordered d" "map rid ordered = ids" "mset ordered = mset (rules_of d)"
    "\<exists>bs. ruleset_blocks ordered = Inr bs" "changed \<longleftrightarrow> ids \<noteq> map rid (rules_of d)"
proof -
  from assms(1) have g: "distinct ids" "set ids = rid ` set (rules_of d)"
    and o: "ordered = rows_of (rules_of d) ids" "changed = (ids \<noteq> map rid (rules_of d))"
    and d: "d' = set_rules ordered d" "\<exists>bs. ruleset_blocks ordered = Inr bs"
    by (auto simp: reorder_rules_def Let_def check_permutation_iff)
  from assms(2) have t: "distinct (map rid (rules_of d))" by (simp add: table_ok_def)
  show "d' = set_rules ordered d" "map rid ordered = ids" "mset ordered = mset (rules_of d)"
    "\<exists>bs. ruleset_blocks ordered = Inr bs" "changed \<longleftrightarrow> ids \<noteq> map rid (rules_of d)"
    using d o g t rows_of_map(1)[OF t, of ids] rows_of_perm[OF t g] by auto
qed

definition block_of :: "block list \<Rightarrow> string \<Rightarrow> block" where
  "block_of bs i = the (find (\<lambda>b. b_id b = i) bs)"

lemma find_block_of: "distinct (map b_id bs) \<Longrightarrow> b \<in> set bs \<Longrightarrow> find (\<lambda>x. b_id x = b_id b) bs = Some b"
  by (induction bs) (auto simp: image_iff)

lemma reorder_rulesets_spec:
  assumes "reorder_rulesets dg ids e d = Inr ((ordered, changed), d')" "ruleset_blocks (rules_of d) = Inr bs"
  shows "d' = set_rules (flat ordered) d" "map b_id ordered = ids" "mset ordered = mset bs" "blocks_ok ordered"
proof -
  from assms(2) have bs: "blocks_ok bs" "flat bs = rules_of d" by (simp_all add: ruleset_blocks_iff)
  then have di: "distinct (map b_id bs)" by (simp add: blocks_ok_def)
  from assms have g: "distinct ids" "set ids = b_id ` set bs"
    and o: "ruleset_blocks (concat (map (block_rows bs) ids)) = Inr ordered"
      "d' = set_rules (concat (map (block_rows bs) ids)) d"
    by (auto simp: reorder_rulesets_def Let_def check_permutation_iff)
  have f: "find (\<lambda>b. b_id b = i) bs = Some (block_of bs i) \<and> b_id (block_of bs i) = i \<and> block_of bs i \<in> set bs"
    if "i \<in> set ids" for i
    using that g(2) find_block_of[OF di] by (auto simp: block_of_def)
  let ?bs = "map (block_of bs) ids"
  have c: "concat (map (block_rows bs) ids) = flat ?bs"
    using f by (auto simp: flat_def block_rows_def intro!: arg_cong[of _ _ concat])
  have ids: "map b_id ?bs = ids" using f by (simp add: map_idI)
  then have dis: "distinct (map b_id ?bs)" using g(1) by simp
  then have ok: "blocks_ok ?bs" using f bs(1) by (auto simp: blocks_ok_def list_all_iff)
  then have eq: "ordered = ?bs" using o(1) c ruleset_blocks_flat by simp
  have "set ?bs = set bs"
  proof
    show "set ?bs \<subseteq> set bs" using f by auto
    show "set bs \<subseteq> set ?bs"
    proof
      fix b assume "b \<in> set bs"
      then have "b_id b \<in> set ids" "block_of bs (b_id b) = b"
        using g(2) find_block_of[OF di] by (auto simp: block_of_def)
      then show "b \<in> set ?bs" by (metis image_eqI list.set_map)
    qed
  qed
  moreover have "distinct bs" using di by (simp add: distinct_map)
  moreover have "distinct ?bs" using dis inj_on_imageI2[of b_id "block_of bs" "set ids"] g(1)
    by (auto simp: distinct_map)
  ultimately show "mset ordered = mset bs" unfolding eq by (metis set_eq_iff_mset_eq_distinct)
  show "d' = set_rules (flat ordered) d" "map b_id ordered = ids" "blocks_ok ordered"
    using o(2) c ids ok eq by simp_all
qed


section \<open>The table stays well formed\<close>

lemma nums_ok_append [simp]: "nums_ok (as @ bs) \<longleftrightarrow> nums_ok as \<and> nums_ok bs"
  by (auto simp: nums_ok_def)

lemma nums_ok_filter: "nums_ok rs \<Longrightarrow> nums_ok (filter P rs)"
  by (auto simp: nums_ok_def)

lemma distinct_filter_map: "distinct (map f xs) \<Longrightarrow> distinct (map f (filter P xs))"
  by (rule distinct_map_filter)

lemma flat_filter_subset: "set (flat (filter P bs)) \<subseteq> set (flat bs)"
  by (auto simp: flat_def)

lemma distinct_flat_filter: "distinct (map rid (flat bs)) \<Longrightarrow> distinct (map rid (flat (filter P bs)))"
proof (induction bs)
  case (Cons b bs)
  then have "distinct (map rid (flat (filter P bs)))" by simp
  moreover have "rid ` set (b_rules b) \<inter> rid ` set (flat (filter P bs)) = {}"
    using Cons.prems flat_filter_subset[of P bs] by (auto simp: distinct_map)
  ultimately show ?case using Cons.prems by simp
qed simp

lemma table_ok_create [inv_intros]:
  assumes "create_ruleset name target ms d = Inr (b, d')" "table_ok (rules_of d)"
  shows "table_ok (rules_of d')"
proof -
  from assms(2) obtain bs where t: "blocks_ok bs" "rules_of d = flat bs" "ruleset_blocks (rules_of d) = Inr bs"
    "distinct (map rid (rules_of d))" "nums_ok (rules_of d)" by (rule table_okE)
  note c = create_ruleset_spec[OF assms(1) t(3)]
  have "table_ok (flat (bs @ [b]))"
    using c t by (intro table_okI) auto
  then show ?thesis using c(1) by (simp add: state_simps)
qed

lemma table_ok_add_matchers [inv_intros]:
  assumes "add_ruleset_matchers i ms d = Inr (b, d')" "table_ok (rules_of d)"
  shows "table_ok (rules_of d')"
proof -
  from assms(2) obtain bs where t: "blocks_ok bs" "rules_of d = flat bs" "ruleset_blocks (rules_of d) = Inr bs"
    "distinct (map rid (rules_of d))" "nums_ok (rules_of d)" by (rule table_okE)
  obtain as b0 cs rows where a: "bs = as @ b0 # cs" "b = b0\<lparr>b_rules := b_rules b0 @ rows\<rparr>"
    "d' = set_rules (flat (as @ b # cs)) d" "blocks_ok (as @ b # cs)"
    "distinct (map rid rows)" "rid ` set rows \<inter> rid ` set (rules_of d) = {}" "nums_ok rows"
    by (rule add_ruleset_matchers_spec[OF assms(1) t(3) t(5)]) (rule that; assumption)
  have "distinct (map rid (flat (as @ b # cs)))"
    using a(2,5,6) t(4) unfolding t(2) a(1) by auto
  moreover have "nums_ok (flat (as @ b # cs))" using a(2,7) t(5) unfolding t(2) a(1) by simp
  ultimately show ?thesis using table_okI[OF a(4)] a(3) by (simp add: state_simps)
qed

lemma table_ok_remove_ruleset [inv_intros]:
  assumes "remove_ruleset i d = Inr (x, d')" "table_ok (rules_of d)"
  shows "table_ok (rules_of d')"
proof -
  from assms(2) obtain bs where t: "blocks_ok bs" "rules_of d = flat bs" "ruleset_blocks (rules_of d) = Inr bs"
    "distinct (map rid (rules_of d))" "nums_ok (rules_of d)" by (rule table_okE)
  have "nums_ok (flat (filter P bs))" for P
    using t(5) flat_filter_subset[of P bs] unfolding t(2) by (auto simp: nums_ok_def)
  with t have "table_ok (flat (filter (\<lambda>b. b_id b \<noteq> i) bs))"
    by (intro table_okI blocks_ok_filter distinct_flat_filter) auto
  then show ?thesis using remove_ruleset_spec(1)[OF assms(1) t(3)] by (simp add: state_simps)
qed

lemma table_ok_edit:
  assumes "edit_ruleset i f d = Inr (b', d')" "table_ok (rules_of d)"
    and f: "\<And>r. rruleset (f r) = rruleset r" "\<And>r s. rtarget r = rtarget s \<Longrightarrow> rtarget (f r) = rtarget (f s)"
    "\<And>r. rid (f r) = rid r"
  shows "table_ok (rules_of d')"
proof -
  from assms(2) obtain bs where t: "blocks_ok bs" "rules_of d = flat bs" "ruleset_blocks (rules_of d) = Inr bs"
    "distinct (map rid (rules_of d))" "nums_ok (rules_of d)" by (rule table_okE)
  obtain as b cs where e: "bs = as @ b # cs" "b_rules b' = map f (b_rules b)"
    "d' = set_rules (flat (as @ b' # cs)) d" "blocks_ok (as @ b' # cs)"
    using edit_ruleset_spec[OF assms(1) t(3) f(1,2)] by metis
  have "map rid (flat (as @ b' # cs)) = map rid (flat bs)"
    using e(1,2) f(3) by (simp add: comp_def)
  moreover have "nums_ok (flat (as @ b' # cs))"
    using t(5) e(2) f(1,3) unfolding t(2) e(1) by (auto simp: nums_ok_def rule_num_def ruleset_num_def)
  ultimately show ?thesis using table_okI[OF e(4)] e(3) t by (simp add: state_simps)
qed

lemma table_ok_rename [inv_intros]:
  "rename_ruleset i name d = Inr (b, d') \<Longrightarrow> table_ok (rules_of d) \<Longrightarrow> table_ok (rules_of d')"
  by (auto simp: rename_ruleset_def elim!: table_ok_edit)

lemma table_ok_retarget [inv_intros]:
  "retarget_ruleset i t d = Inr (b, d') \<Longrightarrow> table_ok (rules_of d) \<Longrightarrow> table_ok (rules_of d')"
  by (auto simp: retarget_ruleset_def elim!: table_ok_edit)

lemma table_ok_update [inv_intros]:
  assumes "update_ruleset dg i name target ms e d = Inr (b', d')" "table_ok (rules_of d)"
  shows "table_ok (rules_of d')"
proof -
  from assms(2) obtain bs where t: "blocks_ok bs" "rules_of d = flat bs" "ruleset_blocks (rules_of d) = Inr bs"
    "distinct (map rid (rules_of d))" "nums_ok (rules_of d)" by (rule table_okE)
  obtain as b cs where u: "bs = as @ b # cs" "b_id b = i" "b_id b' = i"
    "d' = set_rules (flat (as @ b' # cs)) d" "blocks_ok (as @ b' # cs)"
    "distinct (map rid (b_rules b'))" "rid ` set (b_rules b') \<inter> rid ` set (flat as @ flat cs) = {}"
    "\<forall>r \<in> set (b_rules b'). \<exists>n. rule_num r = Inr n"
    by (rule update_ruleset_spec[OF assms(1) t(3)]) (rule that; assumption)
  have bk: "block_ok b" "block_ok b'" using t(1) u(1,5) by (simp_all add: blocks_ok_def)
  obtain r0 where r0: "r0 \<in> set (b_rules b)" "rruleset r0 = i"
    using bk(1) u(2) by (metis block_ok_def last_in_set)
  have rn: "\<forall>r \<in> set (b_rules b'). rruleset r = i" using bk(2) u(3) by (simp add: block_ok_def)
  have "nums_ok (b_rules b')"
    using u(8) rn r0 t(5) unfolding t(2) u(1) by (auto simp: nums_ok_def ruleset_num_def)
  then have "nums_ok (flat (as @ b' # cs))" using t(5) unfolding t(2) u(1) by simp
  moreover have "distinct (map rid (flat (as @ b' # cs)))"
    using t(4) u(6,7) unfolding t(2) u(1) by auto
  ultimately show ?thesis using table_okI[OF u(5)] u(4) by (simp add: state_simps)
qed

lemma table_ok_perm:
  assumes "table_ok rs" "mset rs' = mset rs" "ruleset_blocks rs' = Inr bs'"
  shows "table_ok rs'"
proof -
  have "mset (map rid rs') = mset (map rid rs)" using assms(2) by simp
  then have "distinct (map rid rs')" using assms(1) by (metis mset_eq_imp_distinct_iff table_ok_def)
  moreover have "nums_ok rs'" using assms(1,2) by (metis mset_eq_setD nums_ok_def table_ok_def)
  ultimately show ?thesis using assms(3) by (auto simp: table_ok_def)
qed

lemma table_ok_reorder_rules [inv_intros]:
  assumes "reorder_rules ids d = Inr ((o', c), d')" "table_ok (rules_of d)"
  shows "table_ok (rules_of d')"
  using reorder_rules_spec[OF assms] table_ok_perm[OF assms(2)] by (auto simp: state_simps)

lemma mset_flat: "mset (flat bs) = sum_list (map (\<lambda>b. mset (b_rules b)) bs)"
  by (induction bs) simp_all

lemma table_ok_reorder_rulesets [inv_intros]:
  assumes "reorder_rulesets dg ids e d = Inr ((o', c), d')" "table_ok (rules_of d)"
  shows "table_ok (rules_of d')"
proof -
  from assms(2) obtain bs where t: "rules_of d = flat bs" "ruleset_blocks (rules_of d) = Inr bs"
    by (rule table_okE)
  note r = reorder_rulesets_spec[OF assms(1) t(2)]
  have "mset (flat o') = mset (flat bs)"
    unfolding mset_flat using r(3) by (metis mset_map sum_mset_sum_list)
  then show ?thesis
    using table_ok_perm[OF assms(2)] t(1) ruleset_blocks_flat[OF r(4)] r(1) by (simp add: state_simps)
qed

text \<open>Removing rows keeps the table well formed: a block left with no row is gone.\<close>

lemma block_ok_filter:
  "block_ok b \<Longrightarrow> filter P (b_rules b) \<noteq> [] \<Longrightarrow>
   block_ok (b\<lparr>b_rules := filter P (b_rules b), b_name := block_name (hd (filter P (b_rules b)))\<rparr>)"
  by (auto simp: block_ok_def)

lemma blocks_ok_thin:
  "blocks_ok bs \<Longrightarrow> \<exists>bs'. blocks_ok bs' \<and> flat bs' = filter P (flat bs) \<and> set (map b_id bs') \<subseteq> set (map b_id bs)"
proof (induction bs)
  case Nil
  then show ?case by (intro exI[of _ "[]"]) simp
next
  case (Cons b bs)
  then obtain bs' where bs': "blocks_ok bs'" "flat bs' = filter P (flat bs)" "set (map b_id bs') \<subseteq> set (map b_id bs)"
    by (auto simp: blocks_ok_def)
  show ?case
  proof (cases "filter P (b_rules b) = []")
    case True
    with bs' show ?thesis by (intro exI[of _ bs']) auto
  next
    case False
    let ?b = "b\<lparr>b_rules := filter P (b_rules b), b_name := block_name (hd (filter P (b_rules b)))\<rparr>"
    have "block_ok ?b" using Cons.prems False block_ok_filter by (simp add: blocks_ok_def)
    with bs' Cons.prems show ?thesis
      by (intro exI[of _ "?b # bs'"]) (auto simp: blocks_ok_def)
  qed
qed

lemma table_ok_filter:
  assumes "table_ok rs"
  shows "table_ok (filter P rs)"
proof -
  from assms obtain bs where t: "blocks_ok bs" "rs = flat bs" "distinct (map rid rs)" "nums_ok rs"
    by (rule table_okE)
  from blocks_ok_thin[OF t(1), of P] obtain bs' where "blocks_ok bs'" "flat bs' = filter P rs"
    using t(2) by auto
  then show ?thesis
    using table_okI[of bs'] t(3,4) by (simp add: nums_ok_filter distinct_map_filter)
qed

lemma table_ok_remove_rules [inv_intros]:
  "remove_rules ids d = (x, d') \<Longrightarrow> table_ok (rules_of d) \<Longrightarrow> table_ok (rules_of d')"
  using table_ok_filter[of "rules_of d" "\<lambda>r. rid r \<notin> set ids"] by (auto simp: remove_rules_def state_simps)

lemma set_dedup [simp]: "set (dedup xs) = set xs"
  by (induction xs) auto

lemma distinct_dedup [simp]: "distinct (dedup xs)"
  by (induction xs) auto

lemma insert_at_mset: "mset (insert_at n ys xs) = mset ys + mset xs"
  by (simp add: insert_at_def) (metis append_take_drop_id mset_append union_commute)

lemma table_ok_move [inv_intros]:
  assumes "move_rules ids i d = Inr (x, d')" "table_ok (rules_of d)"
  shows "table_ok (rules_of d')"
proof -
  let ?rs = "rules_of d" and ?w = "dedup ids"
  from assms(2) obtain bs where t: "blocks_ok bs" "?rs = flat bs" "ruleset_blocks ?rs = Inr bs"
    "distinct (map rid ?rs)" "nums_ok ?rs" by (rule table_okE)
  define kept where "kept = filter (\<lambda>r. rid r \<notin> set ?w) ?rs"
  from assms(1) t(3) obtain dest after where
    dest: "find_block i bs = Inr dest"
    and known: "filter (\<lambda>j. row_of ?rs j = None) ?w = []"
    and new: "ruleset_blocks (insert_at (end_index i kept)
        (map (\<lambda>r. r\<lparr>rruleset := i, rname := Some (b_name dest), rtarget := b_target dest\<rparr>) (rows_of ?rs ?w)) kept)
        = Inr after"
    and d': "d' = set_rules (insert_at (end_index i kept)
        (map (\<lambda>r. r\<lparr>rruleset := i, rname := Some (b_name dest), rtarget := b_target dest\<rparr>) (rows_of ?rs ?w)) kept) d"
    by (auto simp: move_rules_def Let_def kept_def)
  let ?f = "\<lambda>r. r\<lparr>rruleset := i, rname := Some (b_name dest), rtarget := b_target dest\<rparr>"
  let ?new = "insert_at (end_index i kept) (map ?f (rows_of ?rs ?w)) kept"
  have w: "set ?w \<subseteq> rid ` set ?rs"
    using known by (auto simp: filter_empty_conv row_of_None)
  note ro = rows_of_map[OF t(4) w]
  have "map rid (map ?f (rows_of ?rs ?w)) = ?w" using ro(1) by (simp add: comp_def)
  moreover have "rid ` set kept \<inter> set ?w = {}" by (auto simp: kept_def)
  moreover have "distinct (map rid kept)" using t(4) by (simp add: kept_def distinct_map_filter)
  ultimately have "distinct (map rid (map ?f (rows_of ?rs ?w) @ kept))"
    by (simp only: map_append distinct_append set_map) auto
  moreover have ms: "mset ?new = mset (map ?f (rows_of ?rs ?w) @ kept)"
    by (simp only: insert_at_mset mset_append)
  then have "mset (map rid ?new) = mset (map rid (map ?f (rows_of ?rs ?w) @ kept))"
    by (simp only: mset_map)
  ultimately have dn: "distinct (map rid ?new)" by (metis mset_eq_imp_distinct_iff)
  obtain r0 where "r0 \<in> set ?rs" "rruleset r0 = i"
  proof -
    from find_block_Inr[OF dest] have "dest \<in> set bs" "b_id dest = i" by auto
    moreover from this t(1) obtain r where "r \<in> set (b_rules dest)" "rruleset r = i"
      by (metis (no_types, lifting) block_ok_def blocks_ok_def last_in_set list_all_iff)
    ultimately show thesis using that[of r] unfolding t(2) by (auto simp: flat_def)
  qed
  then have ri: "\<exists>n. num_after ''rs'' i = Inr n" using t(5) by (auto simp: nums_ok_def ruleset_num_def)
  have "nums_ok (map ?f (rows_of ?rs ?w) @ kept)"
    using t(5) ri ro(2) by (auto simp: nums_ok_def kept_def ruleset_num_def rule_num_def)
  then have "nums_ok ?new" using mset_eq_setD[OF ms] by (simp only: nums_ok_def)
  with dn new d' show ?thesis by (simp add: table_ok_def state_simps)
qed

section \<open>Loaded tables\<close>

definition row_normal :: "rule \<Rightarrow> bool" where
  "row_normal r = (rruleset r \<noteq> [] \<and> rname r \<noteq> None \<and> rtype r \<noteq> ''domain'')"

lemma fix_type_simps [simp]:
  "rruleset (fix_type r) = rruleset r" "rname (fix_type r) = rname r" "rtarget (fix_type r) = rtarget r"
  "rtype (fix_type r) \<noteq> ''domain''" "rid (fix_type r) = rid r" "rvalue (fix_type r) = rvalue r"
  by (simp_all add: fix_type_def)

lemma fill_name_simps [simp]:
  "rruleset (fill_name r) = rruleset r" "\<exists>n. rname (fill_name r) = Some n" "rtarget (fill_name r) = rtarget r"
  "rtype (fill_name r) = rtype r" "rid (fill_name r) = rid r" "rvalue (fill_name r) = rvalue r"
  by (simp_all add: fill_name_def split: option.split)

lemma norm_loop_normal: "lst = None \<or> lid \<noteq> [] \<Longrightarrow> r \<in> set (norm_loop mx lst lid lm rs) \<Longrightarrow> row_normal r"
  by (induction mx lst lid lm rs rule: norm_loop.induct)
    (auto simp: Let_def row_normal_def split: if_splits)

lemma norm_loop_id: "\<forall>r \<in> set rs. row_normal r \<Longrightarrow> norm_loop mx lst lid lm rs = rs"
  by (induction mx lst lid lm rs rule: norm_loop.induct)
    (auto simp: Let_def row_normal_def fix_type_def fill_name_def)

lemma norm_loop_keeps:
  "map (\<lambda>r. (rid r, rvalue r, rtarget r)) (norm_loop mx lst lid lm rs)
     = map (\<lambda>r. (rid r, rvalue r, rtarget r)) rs"
  by (induction mx lst lid lm rs rule: norm_loop.induct) (simp_all add: Let_def)

lemma norm_loop_nums:
  "\<forall>r \<in> set rs. \<exists>n. ruleset_num r = Inr n \<Longrightarrow> \<exists>n. num_after ''rs'' lid = Inr n \<Longrightarrow>
   \<forall>r \<in> set (norm_loop mx lst lid lm rs). \<exists>n. ruleset_num r = Inr n"
proof (induction mx lst lid lm rs rule: norm_loop.induct)
  case (2 mx lst lid lname r0 rs)
  have n: "\<exists>n. num_after ''rs'' (''rs'' @ nat_str (mx + 1)) = Inr n" using num_after_mint by blast
  show ?case
    using 2(1)[OF refl] 2(2)[OF refl _ _ refl refl] 2(3)[OF refl] 2(4,5) n
    by (auto simp: Let_def ruleset_num_def simp del: append.simps)
qed simp

lemma max_num_Inr_iff: "(\<exists>m. max_num f rs = Inr m) \<longleftrightarrow> (\<forall>r \<in> set rs. \<exists>n. f r = Inr n)"
proof
  have "foldR (\<lambda>r m. bindR (f r) (\<lambda>n. Inr (max m n))) rs k = Inr m \<Longrightarrow> \<forall>r \<in> set rs. \<exists>n. f r = Inr n" for k m
    by (induction rs arbitrary: k) auto
  then show "\<exists>m. max_num f rs = Inr m \<Longrightarrow> \<forall>r \<in> set rs. \<exists>n. f r = Inr n"
    by (auto simp: max_num_def)
  show "\<forall>r \<in> set rs. \<exists>n. f r = Inr n \<Longrightarrow> \<exists>m. max_num f rs = Inr m"
    using max_num_fold[of rs f 0] by (auto simp: max_num_def)
qed

lemma normalize_idem:
  assumes "normalize_rulesets rs = Inr rs'"
  shows "normalize_rulesets rs' = Inr rs'"
proof (cases "rs = []")
  case False
  with assms obtain mx where mx: "max_num ruleset_num rs = Inr mx" "rs' = norm_loop mx None [] [] rs"
    by (auto simp: normalize_rulesets_def)
  have "\<forall>r \<in> set rs. \<exists>n. ruleset_num r = Inr n" using mx(1) max_num_Inr_iff by blast
  then have "\<forall>r \<in> set rs'. \<exists>n. ruleset_num r = Inr n"
    unfolding mx(2) by (rule norm_loop_nums) (simp add: num_after_def startswith_def)
  then obtain m where "max_num ruleset_num rs' = Inr m" using max_num_Inr_iff by blast
  moreover have "norm_loop m None [] [] rs' = rs'"
    unfolding mx(2) by (rule norm_loop_id, rule ballI, rule norm_loop_normal[rotated]) auto
  ultimately show ?thesis by (simp add: normalize_rulesets_def)
qed (use assms in \<open>simp add: normalize_rulesets_def\<close>)

lemma norm_loop_blocks:
  "\<forall>r \<in> set rs. rruleset r = [] \<Longrightarrow> blocks_ok as
   \<Longrightarrow> \<forall>b \<in> set as. \<exists>k \<le> mx. b_id b = ''rs'' @ nat_str k
   \<Longrightarrow> lst = None \<or> (as \<noteq> [] \<and> b_id (last as) = lid \<and> lst = Some (b_target (last as)) \<and> lid \<noteq> [])
   \<Longrightarrow> \<exists>bs. foldR block_step (norm_loop mx lst lid lm rs) as = Inr bs"
proof (induction mx lst lid lm rs arbitrary: as rule: norm_loop.induct)
  case (2 mx lst lid lname r0 rs)
  let ?r = "fix_type r0" and ?id = "''rs'' @ nat_str (mx + 1)"
  have e: "rruleset r0 = []" using "2.prems"(1) by simp
  show ?case
  proof (cases "Some (rtarget ?r) \<noteq> lst")
    case True
    let ?row = "?r\<lparr>rruleset := ?id, rname := Some (target_name (rtarget ?r))\<rparr>"
    have fresh: "?id \<notin> set (map b_id as)"
    proof
      assume "?id \<in> set (map b_id as)"
      with "2.prems"(3) obtain k where "k \<le> mx" "nat_str k = nat_str (mx + 1)" by auto
      then show False by (simp only: nat_str_inj)
    qed
    then have "as = [] \<or> b_id (last as) \<noteq> ?id" by (metis last_in_set list.set_map image_eqI)
    with fresh have st: "block_step ?row as = Inr (as @ [new_block ?row])"
      by (auto simp: block_step_def)
    have ok: "blocks_ok (as @ [new_block ?row])"
      using block_step_ok[OF st "2.prems"(2)] by simp
    have "\<forall>b \<in> set (as @ [new_block ?row]). \<exists>k \<le> mx + 1. b_id b = ''rs'' @ nat_str k"
    proof
      fix b assume "b \<in> set (as @ [new_block ?row])"
      then consider "b \<in> set as" | "b = new_block ?row" by auto
      then show "\<exists>k \<le> mx + 1. b_id b = ''rs'' @ nat_str k"
      proof cases
        case 1
        with "2.prems"(3) show ?thesis using le_add1 order_trans by blast
      next
        case 2
        then show ?thesis by (intro exI[of _ "mx + 1"]) (simp add: new_block_def)
      qed
    qed
    with "2.IH"(2)[OF refl _ True refl refl, of "as @ [new_block ?row]"] "2.prems"(1) e ok
    have "\<exists>bs. foldR block_step (norm_loop (mx + 1) (Some (rtarget ?r)) ?id (target_name (rtarget ?r)) rs)
        (as @ [new_block ?row]) = Inr bs"
      by (simp add: new_block_def)
    with st True e show ?thesis by (simp add: Let_def)
  next
    case False
    then have l: "as \<noteq> []" "b_id (last as) = lid" "rtarget ?r = b_target (last as)" "lid \<noteq> []"
      using "2.prems"(4) by auto
    let ?row = "?r\<lparr>rruleset := lid, rname := Some lname\<rparr>"
    let ?as = "butlast as @ [(last as)\<lparr>b_rules := b_rules (last as) @ [?row]\<rparr>]"
    have st: "block_step ?row as = Inr ?as" using l by (simp add: block_step_def)
    have ok: "blocks_ok ?as" using block_step_ok[OF st "2.prems"(2)] by simp
    have "\<forall>b \<in> set ?as. \<exists>k \<le> mx. b_id b = ''rs'' @ nat_str k"
      using "2.prems"(3) l(1) last_in_set[OF l(1)] by (auto dest: in_set_butlastD)
    with "2.IH"(3)[OF refl _ False, of ?as] "2.prems"(1) e ok l False
    have "\<exists>bs. foldR block_step (norm_loop mx lst lid lname rs) ?as = Inr bs" by simp
    with st False e show ?thesis by (simp add: Let_def)
  qed
qed simp

lemma normalize_legacy:
  assumes "\<forall>r \<in> set rs. rruleset r = []"
  shows "\<exists>rs' bs. normalize_rulesets rs = Inr rs' \<and> ruleset_blocks rs' = Inr bs
    \<and> map (\<lambda>r. (rid r, rvalue r, rtarget r)) rs' = map (\<lambda>r. (rid r, rvalue r, rtarget r)) rs"
proof (cases "rs = []")
  case True
  then show ?thesis by (simp add: normalize_rulesets_def ruleset_blocks_def)
next
  case False
  have "\<forall>r \<in> set rs. \<exists>n. ruleset_num r = Inr n"
    using assms by (simp add: ruleset_num_def num_after_def startswith_def)
  then obtain mx where "max_num ruleset_num rs = Inr mx" using max_num_Inr_iff by blast
  moreover have "\<exists>bs. ruleset_blocks (norm_loop mx None [] [] rs) = Inr bs"
    unfolding ruleset_blocks_def
    by (rule norm_loop_blocks[OF assms]) (auto simp: blocks_ok_def)
  ultimately show ?thesis using False norm_loop_keeps by (auto simp: normalize_rulesets_def)
qed

end
