(* ===== verification/Channels.thy ===== *)
theory Channels
  imports Ports Rulesets
begin

text \<open>
  The channel and router operations of the store (\<open>anyhop/state.py\<close>, class \<open>Store\<close>): every body of a
  transaction as a function from the locked state to a result and the next state. A raise leaves the
  state as it was, because nothing is written (\<open>Inl\<close> carries no state).
\<close>

section \<open>Providers\<close>

definition add_provider :: "string \<Rightarrow> data \<Rightarrow> data" where
  "add_provider p d =
     d\<lparr>d_providers := setdefault p \<lparr>pv_channels = [], pv_managed = False\<rparr> (d_providers d)\<rparr>"

definition pop_provider :: "string \<Rightarrow> (string, nat) dict \<times> data \<Rightarrow> (string, nat) dict \<times> data" where
  "pop_provider p st = (case st of (counts, d) \<Rightarrow>
     (dset p (length (channels_of d p)) counts, d\<lparr>d_providers := dpop p (d_providers d)\<rparr>))"

definition remove_providers :: "string list \<Rightarrow> data \<Rightarrow> (store_error, (string, nat) dict \<times> data) result" where
  "remove_providers ps d =
     (let refs = set (concat (map (\<lambda>p. map (\<lambda>c. (p, c)) (keys (channels_of d p))) ps));
          blockers = rules_referencing d refs in
      bindR (guardR (blockers \<noteq> []) (Referenced blockers)) (\<lambda>_.
        Inr (fold pop_provider ps ([], d))))"

section \<open>Channels\<close>

definition mod_chan :: "string \<Rightarrow> string \<Rightarrow> (chan \<Rightarrow> chan) \<Rightarrow> data \<Rightarrow> data" where
  "mod_chan p c f d = (case get_chan d p c of None \<Rightarrow> d | Some ch \<Rightarrow> put_chan p c (f ch) d)"

definition fresh_chan :: "string \<Rightarrow> string \<Rightarrow> int \<Rightarrow> jobj \<Rightarrow> bool \<Rightarrow> string \<Rightarrow> string \<Rightarrow> chan" where
  "fresh_chan country city port wg explicit label server =
     \<lparr>ch_country = country, ch_city = city, ch_port = port, ch_wg = wg, ch_probe = Some [],
      ch_reconnect = None, ch_label = label, ch_server = server, ch_enabled = True,
      ch_port_explicit = explicit, ch_port_home = None, ch_managed = False\<rparr>"

definition add_channel :: "(string \<Rightarrow> string) \<Rightarrow> os \<Rightarrow> string \<Rightarrow> string \<Rightarrow> string \<Rightarrow> jobj \<Rightarrow> string
    \<Rightarrow> int \<Rightarrow> string \<Rightarrow> data \<Rightarrow> (store_error, channel \<times> os \<times> data) result" where
  "add_channel country_code e p country city wg label port server d =
     bindR (require_provider d p) (\<lambda>pv.
     let cid = next_id country_code (keys (pv_channels pv)) country city None in
     bindR (port_or_free e d port) (\<lambda>(q, e').
     let ch = fresh_chan country city q wg (port \<noteq> 0) label server in
     Inr (channel_view p cid ch, e', put_chan p cid ch d)))"

definition repoint :: "string \<Rightarrow> string \<Rightarrow> int \<Rightarrow> chan \<Rightarrow> data \<Rightarrow> (store_error, chan) result" where
  "repoint p c port ch d =
     (if port \<noteq> 0 \<and> port \<noteq> ch_port ch
      then bindR (claim_port d port (Some (p, c))) (\<lambda>q. Inr (ch\<lparr>ch_port := q\<rparr>))
      else Inr ch)"

definition upsert_channel :: "os \<Rightarrow> string \<Rightarrow> string \<Rightarrow> string \<Rightarrow> string \<Rightarrow> jobj \<Rightarrow> string \<Rightarrow> int \<Rightarrow> data
    \<Rightarrow> (store_error, (channel \<times> bool) \<times> os \<times> data) result" where
  "upsert_channel e p filename country city wg label port d =
     (let cid = slug filename in
      bindR (require_provider d p) (\<lambda>pv.
      case dget (pv_channels pv) cid of
        None \<Rightarrow>
          bindR (port_or_free e d port) (\<lambda>(q, e').
          let ch = fresh_chan country city q wg (port \<noteq> 0) label [] in
          Inr ((channel_view p cid ch, True), e', put_chan p cid ch d))
      | Some ch \<Rightarrow>
          bindR (repoint p cid port (ch\<lparr>ch_country := country, ch_city := city, ch_wg := wg\<rparr>) d) (\<lambda>ch1.
          let ch2 = (if port \<noteq> 0 then ch1\<lparr>ch_port_explicit := True\<rparr> else ch1);
              ch3 = (if label \<noteq> [] then ch2\<lparr>ch_label := label\<rparr> else ch2);
              ch4 = ch3\<lparr>ch_reconnect := None\<rparr> in
          Inr ((channel_view p cid ch4, False), e, put_chan p cid ch4 d))))"

definition remove_step :: "cref \<Rightarrow> cref list \<times> data \<Rightarrow> cref list \<times> data" where
  "remove_step r st = (case st of (removed, d) \<Rightarrow>
     (if get_chan d (fst r) (snd r) \<noteq> None then (removed @ [r], pop_chan (fst r) (snd r) d) else (removed, d)))"

definition remove_channels :: "cref list \<Rightarrow> data \<Rightarrow> (store_error, cref list \<times> data) result" where
  "remove_channels refs d =
     (let blockers = rules_referencing d (set refs) in
      bindR (guardR (blockers \<noteq> []) (Referenced blockers)) (\<lambda>_.
        Inr (fold remove_step refs ([], d))))"

definition toggle :: "bool \<Rightarrow> chan \<Rightarrow> chan" where
  "toggle enabled ch =
     (if enabled then ch\<lparr>ch_enabled := True\<rparr>
      else ch\<lparr>ch_enabled := False, ch_probe := None, ch_reconnect := None\<rparr>)"

definition toggle_step :: "bool \<Rightarrow> cref \<Rightarrow> cref list \<times> data \<Rightarrow> cref list \<times> data" where
  "toggle_step enabled r st = (case st of (changed, d) \<Rightarrow>
     (case get_chan d (fst r) (snd r) of
        None \<Rightarrow> (changed, d)
      | Some ch \<Rightarrow> if ch_enabled ch = enabled then (changed, d)
          else (changed @ [r], put_chan (fst r) (snd r) (toggle enabled ch) d)))"

definition check_channel_revision ::
  "(json \<Rightarrow> string) \<Rightarrow> data \<Rightarrow> cref \<Rightarrow> string option \<Rightarrow> (store_error, unit) result" where
  "check_channel_revision dg d r expected =
     require_revision ''channel'' (ref_str r) expected (channel_revision dg d (fst r) (snd r))"

definition set_channels_enabled :: "(json \<Rightarrow> string) \<Rightarrow> cref list \<Rightarrow> bool \<Rightarrow> (cref, string) dict \<Rightarrow> data
    \<Rightarrow> (store_error, cref list \<times> data) result" where
  "set_channels_enabled dg refs enabled expected d =
     bindR (foldR (\<lambda>(r, e) _. check_channel_revision dg d r (Some e)) expected ()) (\<lambda>_.
     let blockers = (if enabled then [] else rules_referencing d (set refs)) in
     bindR (guardR (blockers \<noteq> []) (Referenced blockers)) (\<lambda>_.
       Inr (fold (toggle_step enabled) refs ([], d))))"

definition set_label :: "string \<Rightarrow> string \<Rightarrow> string \<Rightarrow> data \<Rightarrow> bool \<times> data" where
  "set_label p c label d = (get_chan d p c \<noteq> None, mod_chan p c (\<lambda>ch. ch\<lparr>ch_label := label\<rparr>) d)"

definition pin :: "string \<Rightarrow> jobj option \<Rightarrow> string \<Rightarrow> string \<Rightarrow> chan \<Rightarrow> chan" where
  "pin server wg country city ch =
     (let ch1 = (if server \<noteq> [] then
          (let ch0 = ch\<lparr>ch_server := server, ch_country := country, ch_city := city\<rparr> in
           case wg of None \<Rightarrow> ch0 | Some w \<Rightarrow> ch0\<lparr>ch_wg := w\<rparr>)
        else ch\<lparr>ch_server := []\<rparr>) in
      ch1\<lparr>ch_reconnect := None\<rparr>)"

definition set_channel_server :: "(json \<Rightarrow> string) \<Rightarrow> string \<Rightarrow> string \<Rightarrow> string \<Rightarrow> jobj option \<Rightarrow> string
    \<Rightarrow> string \<Rightarrow> string option \<Rightarrow> data \<Rightarrow> (store_error, channel option \<times> data) result" where
  "set_channel_server dg p c server wg country city expected d =
     bindR (check_channel_revision dg d (p, c) expected) (\<lambda>_.
     let d' = mod_chan p c (pin server wg country city) d in
     Inr (get_channel d' p c, d'))"

section \<open>Probe and reconnect bookkeeping\<close>

definition set_probe :: "string \<Rightarrow> string \<Rightarrow> jobj \<Rightarrow> data \<Rightarrow> data" where
  "set_probe p c probe d = mod_chan p c (\<lambda>ch. ch\<lparr>ch_probe := Some probe\<rparr>) d"

definition probe_step :: "(json \<Rightarrow> string) \<Rightarrow> cref \<times> string \<times> jobj \<Rightarrow> cref list \<times> data \<Rightarrow> cref list \<times> data" where
  "probe_step dg u st = (case u of ((p, c), expected, res) \<Rightarrow> case st of (applied, d) \<Rightarrow>
     (case get_chan d p c of
        None \<Rightarrow> st
      | Some ch \<Rightarrow> if fingerprint_raw dg ch \<noteq> expected then st
          else (applied @ [(p, c)], put_chan p c (ch\<lparr>ch_probe := Some res\<rparr>) d)))"

definition set_probes :: "(json \<Rightarrow> string) \<Rightarrow> (cref, string \<times> jobj) dict \<Rightarrow> data \<Rightarrow> cref list \<times> data" where
  "set_probes dg updates d = fold (probe_step dg) updates ([], d)"

definition store_reconnect :: "jobj \<Rightarrow> chan \<Rightarrow> chan" where
  "store_reconnect rc ch = ch\<lparr>ch_reconnect := (if rc = [] then None else Some rc)\<rparr>"

definition set_reconnect :: "string \<Rightarrow> string \<Rightarrow> jobj \<Rightarrow> data \<Rightarrow> data" where
  "set_reconnect p c rc d = mod_chan p c (store_reconnect rc) d"

definition reconnect_of :: "chan \<Rightarrow> jobj" where
  "reconnect_of ch = (case ch_reconnect ch of None \<Rightarrow> [] | Some r \<Rightarrow> r)"

definition prepare_step :: "(json \<Rightarrow> string) \<Rightarrow> cref \<times> string \<times> jobj \<times> jobj \<Rightarrow> cref list \<times> data \<Rightarrow> cref list \<times> data" where
  "prepare_step dg u st = (case u of ((p, c), fp, expected, repl) \<Rightarrow> case st of (applied, d) \<Rightarrow>
     (case get_chan d p c of
        None \<Rightarrow> st
      | Some ch \<Rightarrow>
          if fingerprint_raw dg ch \<noteq> fp \<or> \<not> obj_eq (reconnect_of ch) expected then st
          else (applied @ [(p, c)], put_chan p c (store_reconnect repl ch) d)))"

definition prepare_reconnects :: "(json \<Rightarrow> string) \<Rightarrow> (cref, string \<times> jobj \<times> jobj) dict \<Rightarrow> data \<Rightarrow> cref list \<times> data" where
  "prepare_reconnects dg updates d = fold (prepare_step dg) updates ([], d)"

definition finish_reconnect_attempt :: "(json \<Rightarrow> string) \<Rightarrow> string \<Rightarrow> string \<Rightarrow> string \<Rightarrow> string \<Rightarrow> jobj
    \<Rightarrow> jobj option \<Rightarrow> data \<Rightarrow> bool \<times> data" where
  "finish_reconnect_attempt dg p c fp nonce rc wg d = (case get_chan d p c of
     None \<Rightarrow> (False, d)
   | Some ch \<Rightarrow>
       if fingerprint_raw dg ch = fp \<and> dget (reconnect_of ch) ''attempt_nonce'' = Some (JStr nonce)
       then (let ch1 = (case wg of None \<Rightarrow> ch | Some w \<Rightarrow> ch\<lparr>ch_wg := w\<rparr>) in
             (True, put_chan p c (ch1\<lparr>ch_reconnect := Some rc\<rparr>) d))
       else (False, d))"

definition map_channels :: "(chan \<Rightarrow> chan) \<Rightarrow> data \<Rightarrow> data" where
  "map_channels f d = d\<lparr>d_providers := map (\<lambda>(p, pv).
     (p, pv\<lparr>pv_channels := map (\<lambda>(c, ch). (c, f ch)) (pv_channels pv)\<rparr>)) (d_providers d)\<rparr>"

definition clear_reconnect_all :: "data \<Rightarrow> nat \<times> data" where
  "clear_reconnect_all d =
     (length (filter (\<lambda>ch. ch_reconnect ch \<noteq> None) (concat (map (\<lambda>(p, pv). map snd (pv_channels pv)) (d_providers d)))),
      map_channels (\<lambda>ch. ch\<lparr>ch_reconnect := None\<rparr>) d)"

section \<open>WireGuard parameters\<close>

definition update_channel_wg :: "(json \<Rightarrow> string) \<Rightarrow> string \<Rightarrow> string \<Rightarrow> jobj \<Rightarrow> string option \<Rightarrow> data
    \<Rightarrow> (store_error, bool \<times> data) result" where
  "update_channel_wg dg p c wg expected d =
     bindR (check_channel_revision dg d (p, c) expected) (\<lambda>_.
       Inr (get_chan d p c \<noteq> None, mod_chan p c (\<lambda>ch. ch\<lparr>ch_wg := wg\<rparr>) d))"

definition wg_step :: "string \<Rightarrow> string \<times> jobj \<Rightarrow> string list \<times> data \<Rightarrow> string list \<times> data" where
  "wg_step p u st = (case u of (c, wg) \<Rightarrow> case st of (updated, d) \<Rightarrow>
     (if get_chan d p c = None then st
      else (updated @ [c], mod_chan p c (\<lambda>ch. ch\<lparr>ch_wg := wg\<rparr>) d)))"

definition update_channels_wg :: "string \<Rightarrow> (string, jobj) dict \<Rightarrow> data \<Rightarrow> string list \<times> data" where
  "update_channels_wg p wgs d = (case fold (wg_step p) wgs ([], d) of (updated, d1) \<Rightarrow>
     (updated, set_channels p (map (\<lambda>(c, ch). (c, ch\<lparr>ch_reconnect := None\<rparr>)) (channels_of d1 p)) d1))"

section \<open>Router flags, geodata and backup settings\<close>

definition set_killswitch :: "bool \<Rightarrow> data \<Rightarrow> data" where
  "set_killswitch b d = d\<lparr>d_router := (d_router d)\<lparr>rt_killswitch := b\<rparr>\<rparr>"

definition set_lan_direct :: "bool \<Rightarrow> data \<Rightarrow> data" where
  "set_lan_direct b d = d\<lparr>d_router := (d_router d)\<lparr>rt_lan_direct := b\<rparr>\<rparr>"

definition set_tun :: "bool \<Rightarrow> data \<Rightarrow> data" where
  "set_tun b d = d\<lparr>d_router := (d_router d)\<lparr>rt_tun := b\<rparr>\<rparr>"

definition update_geodata :: "string \<Rightarrow> string \<Rightarrow> string \<Rightarrow> (string, jobj) dict \<Rightarrow> bool \<Rightarrow> data \<Rightarrow> data" where
  "update_geodata kind source commit files repl d =
     (let old = (case dget (gd_kinds (d_geodata d)) kind of
          None \<Rightarrow> \<lparr>ge_commit = [], ge_source = [], ge_files = []\<rparr> | Some en \<Rightarrow> en);
          fs = (if repl then files else fold (\<lambda>(n, f) fs. dset n f fs) files (ge_files old));
          en = \<lparr>ge_commit = commit, ge_source = source, ge_files = fs\<rparr> in
      d\<lparr>d_geodata := \<lparr>gd_source = source, gd_kinds = dset kind en (gd_kinds (d_geodata d))\<rparr>\<rparr>)"

definition set_geodata_source :: "string \<Rightarrow> data \<Rightarrow> data" where
  "set_geodata_source name d = d\<lparr>d_geodata := (d_geodata d)\<lparr>gd_source := name\<rparr>\<rparr>"

definition keep_or :: "'a option \<Rightarrow> 'a option \<Rightarrow> 'a option" where
  "keep_or new old = (case new of None \<Rightarrow> old | Some x \<Rightarrow> Some x)"

definition set_backup :: "bool option \<Rightarrow> string option \<Rightarrow> rat option \<Rightarrow> int option \<Rightarrow> data \<Rightarrow> backup_conf \<times> data" where
  "set_backup enabled dir every n_keep d =
     (let b = d_backup d;
          b' = \<lparr>bk_enabled = keep_or enabled (bk_enabled b), bk_dir = keep_or dir (bk_dir b),
                bk_every_hours = keep_or every (bk_every_hours b), bk_keep = keep_or n_keep (bk_keep b)\<rparr> in
      (b', d\<lparr>d_backup := b'\<rparr>))"

definition record_service_offer :: "data \<Rightarrow> data" where
  "record_service_offer d = d\<lparr>d_service_offered := True\<rparr>"

section \<open>The configuration signature\<close>

definition chan_relevant :: "string \<times> chan \<Rightarrow> string \<times> json" where
  "chan_relevant x = (case x of (c, ch) \<Rightarrow>
     (c, JObj ([(''port'', JNum (of_int (ch_port ch))), (''wg'', JObj (ch_wg ch))]
       @ when_key (\<not> ch_enabled ch) ''enabled'' (JBool False))))"

definition providers_relevant :: "data \<Rightarrow> jobj" where
  "providers_relevant d = map (\<lambda>(p, pv). (p, JObj (map chan_relevant (sorted_items (pv_channels pv)))))
     (filter (\<lambda>(p, pv). pv_channels pv \<noteq> []) (sorted_items (d_providers d)))"

definition router_relevant :: "router \<Rightarrow> jobj" where
  "router_relevant r =
     (if rt_port r \<noteq> 0 \<or> rt_rules r \<noteq> [] \<or> rt_killswitch r \<or> rt_tun r then
       [(''_router'', JObj [(''port'', JNum (of_int (rt_port r))), (''killswitch'', JBool (rt_killswitch r)),
          (''lan_direct'', JBool (rt_lan_direct r)), (''tun'', JBool (rt_tun r)),
          (''rules'', JArr (map (\<lambda>x. JObj [(''id'', JStr (rid x)), (''type'', JStr (rtype x)),
             (''value'', JStr (rvalue x)), (''target'', JStr (rtarget x))]) (rt_rules r)))])]
      else [])"

definition geo_relevant :: "geodata \<Rightarrow> jobj" where
  "geo_relevant g =
     (let es = map (\<lambda>(k, en). (k, JObj [(''commit'', JStr (ge_commit en)),
            (''files'', JObj (map (\<lambda>(n, f). (n, case dget f ''sha256'' of None \<Rightarrow> JNull | Some v \<Rightarrow> v)) (ge_files en)))]))
          (filter (\<lambda>(k, en). ge_files en \<noteq> []) (gd_kinds g)) in
      if es = [] then [] else [(''_geodata'', JObj es)])"

definition config_signature :: "(json \<Rightarrow> string) \<Rightarrow> data \<Rightarrow> string" where
  "config_signature dg d =
     dg (canon (JObj (providers_relevant d @ router_relevant (d_router d) @ geo_relevant (d_geodata d))))"

end
