(* ===== verification/Setup.thy ===== *)
theory Setup
  imports Channels
begin

text \<open>
  The compound commits of the store (\<open>merge_setup\<close>, \<open>sync_setup\<close>, \<open>restore_setup\<close>): a whole bundle
  applied in one transaction. Each is the composition of its phases in the order of the code; a
  raise in any phase drops every change made before it.
\<close>

section \<open>Bundles\<close>

record spec =
  sp_country :: string
  sp_city :: string
  sp_label :: string
  sp_server :: string
  sp_wg :: "jobj option"
  sp_port :: int
  sp_enabled :: "bool option"

record rspec =
  rs_name :: string
  rs_target :: string
  rs_matchers :: "(string \<times> string) list"

type_synonym specs = "(string, (string, spec) dict) dict"

record summary =
  s_providers_added :: "string list"
  s_providers_pruned :: "string list"
  s_created :: "string list"
  s_updated :: "string list"
  s_unchanged :: "string list"
  s_pruned :: "string list"
  s_kept :: "(string, string list) dict"
  s_rs_added :: "string list"
  s_rs_updated :: "string list"
  s_rs_unchanged :: "string list"
  s_rs_pruned :: "string list"

definition no_summary :: summary where
  "no_summary = \<lparr>s_providers_added = [], s_providers_pruned = [], s_created = [], s_updated = [],
     s_unchanged = [], s_pruned = [], s_kept = [], s_rs_added = [], s_rs_updated = [],
     s_rs_unchanged = [], s_rs_pruned = []\<rparr>"

type_synonym apply_state = "summary \<times> os \<times> data"

text \<open>The channels a bundle disables explicitly: those that read enabled so far.\<close>

definition spec_refs :: "specs \<Rightarrow> cref list" where
  "spec_refs ps = concat (map (\<lambda>(p, cs). map (\<lambda>(c, _). (p, c)) cs) ps)"

definition disabling :: "data \<Rightarrow> specs \<Rightarrow> cref list" where
  "disabling d ps = concat (map (\<lambda>(p, cs). map (\<lambda>(c, _). (p, c))
     (filter (\<lambda>(c, sp). sp_enabled sp = Some False
        \<and> (case get_chan d p c of None \<Rightarrow> True | Some ch \<Rightarrow> ch_enabled ch)) cs)) ps)"

definition refuse_referenced :: "data \<Rightarrow> cref list \<Rightarrow> (store_error, unit) result" where
  "refuse_referenced d refs =
     (let blockers = rules_referencing d (set refs) in
      guardR (refs \<noteq> [] \<and> blockers \<noteq> []) (Referenced blockers))"

section \<open>Upserting the channels of a bundle\<close>

definition spec_wg :: "spec \<Rightarrow> jobj" where
  "spec_wg sp = (case sp_wg sp of None \<Rightarrow> [] | Some w \<Rightarrow> w)"

definition spec_enabled :: "spec \<Rightarrow> chan option \<Rightarrow> bool" where
  "spec_enabled sp ch = (case sp_enabled sp of Some b \<Rightarrow> b
     | None \<Rightarrow> (case ch of None \<Rightarrow> True | Some x \<Rightarrow> ch_enabled x))"

definition spec_entry :: "bool \<Rightarrow> spec \<Rightarrow> int \<Rightarrow> chan" where
  "spec_entry mgd sp q = \<lparr>ch_country = sp_country sp, ch_city = sp_city sp, ch_port = q,
     ch_wg = spec_wg sp, ch_probe = (if spec_enabled sp None then Some [] else None),
     ch_reconnect = None, ch_label = sp_label sp, ch_server = sp_server sp,
     ch_enabled = spec_enabled sp None, ch_port_explicit = (sp_port sp \<noteq> 0), ch_port_home = None,
     ch_managed = mgd\<rparr>"

definition same_content :: "spec \<Rightarrow> chan \<Rightarrow> bool" where
  "same_content sp ch = (ch_country ch = sp_country sp \<and> ch_city ch = sp_city sp
     \<and> ch_server ch = sp_server sp \<and> obj_eq (ch_wg ch) (spec_wg sp)
     \<and> ch_enabled ch = spec_enabled sp (Some ch)
     \<and> (sp_label sp = [] \<or> ch_label ch = sp_label sp))"

definition merge_unchanged :: "spec \<Rightarrow> chan \<Rightarrow> bool" where
  "merge_unchanged sp ch = (same_content sp ch
     \<and> (sp_port sp = 0 \<or> (ch_port ch = sp_port sp \<and> ch_port_explicit ch)))"

definition sync_unchanged :: "spec \<Rightarrow> chan \<Rightarrow> bool" where
  "sync_unchanged sp ch = (same_content sp ch \<and> (sp_port sp = 0 \<or> ch_port ch = sp_port sp)
     \<and> ((sp_port sp \<noteq> 0) = ch_port_explicit ch))"

text \<open>An update in place. \<open>sync\<close> also lets a port that is no longer declared fall back to automatic.\<close>

definition spec_update :: "bool \<Rightarrow> string \<Rightarrow> string \<Rightarrow> spec \<Rightarrow> chan \<Rightarrow> data \<Rightarrow> (store_error, chan) result" where
  "spec_update sync p c sp ch d =
     bindR (repoint p c (sp_port sp)
              (ch\<lparr>ch_country := sp_country sp, ch_city := sp_city sp, ch_server := sp_server sp,
                  ch_wg := spec_wg sp\<rparr>) d) (\<lambda>ch1.
     let ch2 = ch1\<lparr>ch_port_explicit :=
                 (if sp_port sp \<noteq> 0 then True else if sync then False else ch_port_explicit ch1)\<rparr>;
         ch3 = (if sp_label sp \<noteq> [] then ch2\<lparr>ch_label := sp_label sp\<rparr> else ch2);
         ch4 = (if spec_enabled sp (Some ch) then ch3\<lparr>ch_enabled := True\<rparr>
                else ch3\<lparr>ch_enabled := False, ch_probe := None\<rparr>) in
     Inr (ch4\<lparr>ch_reconnect := None\<rparr>))"

definition apply_spec :: "bool \<Rightarrow> string \<Rightarrow> string \<times> spec \<Rightarrow> apply_state \<Rightarrow> (store_error, apply_state) result" where
  "apply_spec sync p x st = (case x of (c, sp) \<Rightarrow> case st of (s, e, d) \<Rightarrow>
     (case get_chan d p c of
        None \<Rightarrow>
          bindR (port_or_free e d (sp_port sp)) (\<lambda>(q, e').
            Inr (s\<lparr>s_created := s_created s @ [ref_str (p, c)]\<rparr>, e', put_chan p c (spec_entry sync sp q) d))
      | Some ch \<Rightarrow>
          if (if sync then sync_unchanged sp ch else merge_unchanged sp ch)
          then Inr (s\<lparr>s_unchanged := s_unchanged s @ [ref_str (p, c)]\<rparr>, e, d)
          else bindR (spec_update sync p c sp ch d) (\<lambda>ch'.
            Inr (s\<lparr>s_updated := s_updated s @ [ref_str (p, c)]\<rparr>, e, put_chan p c ch' d))))"

definition open_provider :: "bool \<Rightarrow> string \<Rightarrow> apply_state \<Rightarrow> apply_state" where
  "open_provider sync p st = (case st of (s, e, d) \<Rightarrow>
     (case dget (d_providers d) p of
        Some _ \<Rightarrow> st
      | None \<Rightarrow> (s\<lparr>s_providers_added := s_providers_added s @ [p]\<rparr>, e,
          d\<lparr>d_providers := dset p \<lparr>pv_channels = [], pv_managed = sync\<rparr> (d_providers d)\<rparr>)))"

definition apply_provider ::
  "bool \<Rightarrow> string \<times> (string, spec) dict \<Rightarrow> apply_state \<Rightarrow> (store_error, apply_state) result" where
  "apply_provider sync x st = (case x of (p, cs) \<Rightarrow> foldR (apply_spec sync p) cs (open_provider sync p st))"

definition merge_channels :: "specs \<Rightarrow> apply_state \<Rightarrow> (store_error, apply_state) result" where
  "merge_channels ps st = foldR (apply_provider False) ps st"

definition sync_channels :: "specs \<Rightarrow> apply_state \<Rightarrow> (store_error, apply_state) result" where
  "sync_channels ps st = foldR (apply_provider True) ps st"

section \<open>Router settings of a bundle\<close>

definition claim_router_port :: "data \<Rightarrow> int \<Rightarrow> (store_error, int) result" where
  "claim_router_port d port =
     (if port \<noteq> 0 \<and> port \<noteq> rt_port (d_router d) then
        (case dget (dpop (rt_port (d_router d)) (used_ports d)) port of
           Some h \<Rightarrow> Inl (PortInUse port h) | None \<Rightarrow> Inr port)
      else Inr (rt_port (d_router d)))"

definition router_settings :: "bool \<Rightarrow> bool option \<Rightarrow> bool option \<Rightarrow> int \<Rightarrow> data \<Rightarrow> (store_error, data) result" where
  "router_settings sync ks ld port d =
     bindR (claim_router_port d port) (\<lambda>q.
     let r = d_router d in
     Inr (d\<lparr>d_router := r\<lparr>rt_killswitch := (case ks of None \<Rightarrow> rt_killswitch r | Some b \<Rightarrow> b),
              rt_lan_direct := (case ld of None \<Rightarrow> rt_lan_direct r | Some b \<Rightarrow> b),
              rt_port := q,
              rt_port_explicit := (if port \<noteq> 0 then True else if sync then False else rt_port_explicit r)\<rparr>\<rparr>))"

section \<open>Merge\<close>

definition ensure_targets :: "string list \<Rightarrow> data \<Rightarrow> (store_error, unit) result" where
  "ensure_targets ts d = foldR (\<lambda>t _. ensure_channel_target d t) ts ()"

definition append_ruleset :: "rspec \<Rightarrow> apply_state \<Rightarrow> (store_error, apply_state) result" where
  "append_ruleset b st = (case st of (s, e, d) \<Rightarrow>
     bindR (next_ruleset_id (rules_of d)) (\<lambda>rsid.
     bindR (mint (rules_of d) (rs_matchers b) (rs_target b) rsid (rs_name b) False) (\<lambda>rows.
       Inr (s\<lparr>s_rs_added := s_rs_added s @ [rs_name b]\<rparr>, e, set_rules (rules_of d @ rows) d))))"

definition merge_setup :: "os \<Rightarrow> specs \<Rightarrow> rspec list \<Rightarrow> bool option \<Rightarrow> bool option \<Rightarrow> int \<Rightarrow> data
    \<Rightarrow> (store_error, apply_state) result" where
  "merge_setup e ps rss ks ld port d =
     bindR (refuse_referenced d (disabling d ps)) (\<lambda>_.
     bindR (merge_channels ps (no_summary, e, d)) (\<lambda>st1.
     bindR (ensure_targets (map rs_target rss) (snd (snd st1))) (\<lambda>_.
     bindR (foldR append_ruleset rss st1) (\<lambda>(s, e', d2).
     bindR (router_settings False ks ld port d2) (\<lambda>d3. Inr (s, e', d3))))))"

section \<open>Sync\<close>

text \<open>Blocks are matched to the bundle's rulesets by name, first to first, among managed blocks.\<close>

definition any_managed :: "block \<Rightarrow> bool" where
  "any_managed b = (\<exists>r \<in> set (b_rules b). rmanaged r)"

fun match_blocks :: "nat \<Rightarrow> rspec list \<Rightarrow> block list \<Rightarrow> (string, nat) dict \<Rightarrow> (string, nat) dict" where
  "match_blocks i [] bs matched = matched"
| "match_blocks i (sp # sps) bs matched =
     match_blocks (i + 1) sps bs
       (case find (\<lambda>b. b_id b \<notin> set (keys matched) \<and> any_managed b \<and> b_name b = rs_name sp) bs of
          None \<Rightarrow> matched | Some b \<Rightarrow> dset (b_id b) i matched)"

fun managed_rows :: "nat \<Rightarrow> rspec \<Rightarrow> string \<Rightarrow> (string \<times> string) list \<Rightarrow> rule list" where
  "managed_rows n sp rsid [] = []"
| "managed_rows n sp rsid ((t, v) # ms) =
     \<lparr>rid = ''r'' @ nat_str (n + 1), rtype = t, rvalue = v, rtarget = rs_target sp, rruleset = rsid,
      rname = Some (rs_name sp), rmanaged = True\<rparr> # managed_rows (n + 1) sp rsid ms"

text \<open>The state of the two loops: last rule number, last ruleset number, pending targets, the new
  table, the summary.\<close>

record sync_state =
  y_rule :: nat
  y_rsid :: nat
  y_pending :: "string list"
  y_rules :: "rule list"
  y_summary :: summary

definition emit_rows :: "rspec \<Rightarrow> string \<Rightarrow> sync_state \<Rightarrow> sync_state" where
  "emit_rows sp rsid y = y\<lparr>y_rule := y_rule y + length (rs_matchers sp),
     y_pending := y_pending y @ [rs_target sp],
     y_rules := y_rules y @ managed_rows (y_rule y) sp rsid (rs_matchers sp)\<rparr>"

definition identical :: "block \<Rightarrow> rspec \<Rightarrow> bool" where
  "identical b sp = (b_target b = rs_target sp
     \<and> map (\<lambda>r. (rtype r, rvalue r)) (b_rules b) = rs_matchers sp \<and> (\<forall>r \<in> set (b_rules b). rmanaged r))"

definition converge_block :: "rspec list \<Rightarrow> (string, nat) dict \<Rightarrow> block \<Rightarrow> sync_state \<Rightarrow> sync_state" where
  "converge_block desired matched b y = (let s = y_summary y in case dget matched (b_id b) of
     Some i \<Rightarrow> (let sp = desired ! i in
       if identical b sp
       then y\<lparr>y_rules := y_rules y @ b_rules b, y_summary := s\<lparr>s_rs_unchanged := s_rs_unchanged s @ [rs_name sp]\<rparr>\<rparr>
       else (emit_rows sp (b_id b) y)\<lparr>y_summary := s\<lparr>s_rs_updated := s_rs_updated s @ [rs_name sp]\<rparr>\<rparr>)
   | None \<Rightarrow>
       if any_managed b then y\<lparr>y_summary := s\<lparr>s_rs_pruned := s_rs_pruned s @ [b_name b]\<rparr>\<rparr>
       else y\<lparr>y_rules := y_rules y @ b_rules b\<rparr>)"

definition add_block :: "(string, nat) dict \<Rightarrow> nat \<times> rspec \<Rightarrow> sync_state \<Rightarrow> sync_state" where
  "add_block matched x y = (case x of (i, sp) \<Rightarrow>
     if i \<in> snd ` set matched then y
     else (let y' = y\<lparr>y_rsid := y_rsid y + 1\<rparr>; s = y_summary y in
       (emit_rows sp (''rs'' @ nat_str (y_rsid y')) y')\<lparr>y_summary := s\<lparr>s_rs_added := s_rs_added s @ [rs_name sp]\<rparr>\<rparr>))"

definition converge_rules :: "rspec list \<Rightarrow> rule list \<Rightarrow> (store_error, sync_state) result" where
  "converge_rules desired rules =
     bindR (ruleset_blocks rules) (\<lambda>blocks.
     bindR (max_num rule_num rules) (\<lambda>mr.
     bindR (max_num ruleset_num rules) (\<lambda>ms.
     let matched = match_blocks 0 desired blocks [];
         y0 = \<lparr>y_rule = mr, y_rsid = ms, y_pending = [], y_rules = [], y_summary = no_summary\<rparr> in
     Inr (fold (add_block matched) (enumerate 0 desired) (fold (converge_block desired matched) blocks y0)))))"

definition prune_step :: "(string, rule list) dict \<Rightarrow> cref \<Rightarrow> summary \<times> data \<Rightarrow> summary \<times> data" where
  "prune_step blockers r st = (case st of (s, d) \<Rightarrow> (case dget blockers (ref_str r) of
     Some rs \<Rightarrow>
       (s\<lparr>s_kept := dset (ref_str r) (dedup (map (\<lambda>x. case rname x of Some n \<Rightarrow> if n \<noteq> [] then n else rid x
          | None \<Rightarrow> rid x) rs)) (s_kept s)\<rparr>, d)
   | None \<Rightarrow> (s\<lparr>s_pruned := s_pruned s @ [ref_str r]\<rparr>, pop_chan (fst r) (snd r) d)))"

definition prune_channels :: "specs \<Rightarrow> summary \<times> data \<Rightarrow> summary \<times> data" where
  "prune_channels ps st = (case st of (s, d) \<Rightarrow>
     (let candidates = concat (map (\<lambda>(p, pv). map (\<lambda>(c, _). (p, c))
            (filter (\<lambda>(c, ch). ch_managed ch \<and> (p, c) \<notin> set (spec_refs ps)) (pv_channels pv))) (d_providers d));
          blockers = rules_referencing d (set candidates) in
      fold (prune_step blockers) candidates (s, d)))"

definition prune_providers :: "specs \<Rightarrow> summary \<times> data \<Rightarrow> summary \<times> data" where
  "prune_providers ps st = (case st of (s, d) \<Rightarrow>
     (let dropped = map fst (filter (\<lambda>(p, pv). p \<notin> set (keys ps) \<and> pv_managed pv \<and> pv_channels pv = [])
            (d_providers d)) in
      (s\<lparr>s_providers_pruned := s_providers_pruned s @ dropped\<rparr>,
       d\<lparr>d_providers := fold dpop dropped (d_providers d)\<rparr>)))"

definition sync_setup :: "os \<Rightarrow> specs \<Rightarrow> rspec list \<Rightarrow> bool option \<Rightarrow> bool option \<Rightarrow> int \<Rightarrow> data
    \<Rightarrow> (store_error, apply_state) result" where
  "sync_setup e ps rss ks ld port d =
     (let dis = disabling d ps in
      bindR (converge_rules rss (rules_of d)) (\<lambda>y.
      let (s1, d1) = prune_providers ps (prune_channels ps (y_summary y, set_rules (y_rules y) d)) in
      bindR (sync_channels ps (s1, e, d1)) (\<lambda>(s2, e', d2).
      bindR (ensure_targets (y_pending y) d2) (\<lambda>_.
      bindR (refuse_referenced d2 dis) (\<lambda>_.
      bindR (router_settings True ks ld port d2) (\<lambda>d3. Inr (s2, e', d3)))))))"

section \<open>Restore\<close>

definition old_port :: "data \<Rightarrow> cref \<Rightarrow> int" where
  "old_port d r = (case get_chan d (fst r) (snd r) of None \<Rightarrow> 0 | Some ch \<Rightarrow> ch_port ch)"

definition restore_entry :: "data \<Rightarrow> string \<Rightarrow> string \<times> spec \<Rightarrow> string \<times> chan" where
  "restore_entry d p x = (case x of (c, sp) \<Rightarrow>
     (c, (spec_entry False sp (if sp_port sp \<noteq> 0 then sp_port sp else old_port d (p, c)))
       \<lparr>ch_enabled := (sp_enabled sp \<noteq> Some False),
        ch_probe := (if sp_enabled sp \<noteq> Some False then Some [] else None)\<rparr>))"

definition restore_providers :: "specs \<Rightarrow> data \<Rightarrow> (string, prov) dict" where
  "restore_providers ps d =
     map (\<lambda>(p, cs). (p, \<lparr>pv_channels = map (restore_entry d p) cs, pv_managed = False\<rparr>)) ps"

definition see_port :: "int \<times> string \<Rightarrow> (int, string) dict \<Rightarrow> (store_error, (int, string) dict) result" where
  "see_port x seen = (case x of (port, h) \<Rightarrow>
     if port = 0 then Inr seen
     else (case dget seen port of Some h' \<Rightarrow> Inl (PortInUse port h') | None \<Rightarrow> Inr (dset port h seen)))"

definition channel_claims :: "data \<Rightarrow> (int \<times> string) list" where
  "channel_claims d = concat (map (\<lambda>(p, pv). map (\<lambda>(c, ch). (ch_port ch, chan_holder (p, c))) (pv_channels pv))
     (d_providers d))"

definition fill_port :: "cref \<Rightarrow> os \<times> data \<Rightarrow> (store_error, os \<times> data) result" where
  "fill_port r st = (case st of (e, d) \<Rightarrow> (case get_chan d (fst r) (snd r) of
     None \<Rightarrow> Inr st
   | Some ch \<Rightarrow> if ch_port ch \<noteq> 0 then Inr st
       else bindR (next_free_port e d) (\<lambda>(q, e'). Inr (e', put_chan (fst r) (snd r) (ch\<lparr>ch_port := q\<rparr>) d))))"

fun restore_rows :: "nat \<Rightarrow> nat \<Rightarrow> rspec list \<Rightarrow> rule list" where
  "restore_rows i n [] = []"
| "restore_rows i n (b # bs) =
     (let rows = map (\<lambda>(k, t, v). \<lparr>rid = ''r'' @ nat_str (k + 1), rtype = t, rvalue = v,
            rtarget = rs_target b, rruleset = ''rs'' @ nat_str i, rname = Some (rs_name b), rmanaged = False\<rparr>)
          (enumerate n (rs_matchers b)) in
      rows @ restore_rows (i + 1) (n + length (rs_matchers b)) bs)"

definition restore_setup :: "os \<Rightarrow> specs \<Rightarrow> rspec list \<Rightarrow> bool \<Rightarrow> bool \<Rightarrow> int \<Rightarrow> data
    \<Rightarrow> (store_error, os \<times> data) result" where
  "restore_setup e ps rss ks ld port d =
     (let r0 = d_router d;
          r1 = (if port \<noteq> 0 then r0\<lparr>rt_port := port, rt_port_explicit := True\<rparr> else r0);
          d1 = d\<lparr>d_providers := restore_providers ps d, d_router := r1\<rparr> in
      bindR (foldR see_port (channel_claims d1)
               (if rt_port r1 \<noteq> 0 then [(rt_port r1, router_name)] else [])) (\<lambda>_.
      bindR (foldR fill_port (spec_refs ps) (e, d1)) (\<lambda>(e', d2).
        Inr (e', d2\<lparr>d_router := (d_router d2)\<lparr>rt_killswitch := ks, rt_lan_direct := ld,
               rt_rules := restore_rows 1 0 rss\<rparr>\<rparr>))))"

end
