(* ===== verification/StoreInv.thy ===== *)
theory StoreInv
  imports Setup
begin

text \<open>
  The invariant of the store: dictionary keys are unique and provider keys hold no slash; no two
  claimants share a port; the rule table splits into contiguous, homogeneous rulesets with unique
  rule ids; and no rule targets a channel that is missing or disabled (the restrict-only rule). Every
  operation keeps it, and so does every sequence of operations from the blank store.
\<close>

section \<open>The restrict-only rule\<close>

definition enabled_at :: "data \<Rightarrow> cref \<Rightarrow> bool" where
  "enabled_at d r = (case get_chan d (fst r) (snd r) of None \<Rightarrow> False | Some ch \<Rightarrow> ch_enabled ch)"

definition referenced :: "rule list \<Rightarrow> cref set" where
  "referenced rs = {r. \<exists>x \<in> set rs. target_ref (rtarget x) = Some r}"

definition restrict_only :: "data \<Rightarrow> bool" where
  "restrict_only d = (\<forall>x \<in> set (rules_of d). ensure_channel_target d (rtarget x) = Inr ())"

lemma ensure_target_iff:
  "ensure_channel_target d t = Inr u \<longleftrightarrow> (\<forall>r. target_ref t = Some r \<longrightarrow> enabled_at d r)"
  by (auto simp: ensure_channel_target_def enabled_at_def split: option.splits prod.splits)

lemma restrict_only_iff: "restrict_only d \<longleftrightarrow> (\<forall>r \<in> referenced (rules_of d). enabled_at d r)"
  by (auto simp: restrict_only_def ensure_target_iff referenced_def)

lemma restrict_frame:
  assumes "restrict_only d" "referenced (rules_of d') \<subseteq> referenced (rules_of d)"
    and "\<And>r. r \<in> referenced (rules_of d) \<Longrightarrow> enabled_at d r \<Longrightarrow> enabled_at d' r"
  shows "restrict_only d'"
  using assms by (auto simp: restrict_only_iff)

lemma referencing_fold:
  "fold (note_ref refs) rs out = [] \<longleftrightarrow> out = [] \<and> referenced rs \<inter> refs = {}"
proof (induction rs arbitrary: out)
  case Nil
  then show ?case by (simp add: referenced_def)
next
  case (Cons x rs)
  have n: "dset k v out \<noteq> []" for k and v :: "rule list" and out by (cases out) auto
  have "note_ref refs x out = [] \<longleftrightarrow> out = [] \<and> (\<forall>r. target_ref (rtarget x) = Some r \<longrightarrow> r \<notin> refs)"
    by (cases "target_ref (rtarget x)") (simp_all add: note_ref_def n)
  moreover have "referenced (x # rs) = {r. target_ref (rtarget x) = Some r} \<union> referenced rs"
    by (auto simp: referenced_def)
  ultimately show ?case using Cons.IH[of "note_ref refs x out"] by auto
qed

lemma rules_referencing_empty: "rules_referencing d refs = [] \<longleftrightarrow> referenced (rules_of d) \<inter> refs = {}"
  unfolding rules_referencing_def by (simp add: referencing_fold)

lemma note_ref_keeps: "dget out k \<noteq> None \<Longrightarrow> dget (fold (note_ref refs) rs out) k \<noteq> None"
  by (induction rs arbitrary: out) (auto simp: note_ref_def split: option.split)

lemma note_ref_in:
  "r \<in> referenced rs \<Longrightarrow> r \<in> refs \<Longrightarrow> dget (fold (note_ref refs) rs out) (ref_str r) \<noteq> None"
proof (induction rs arbitrary: out)
  case (Cons x rs)
  show ?case
  proof (cases "target_ref (rtarget x) = Some r")
    case True
    then have "dget (note_ref refs x out) (ref_str r) \<noteq> None" using Cons.prems(2) by (simp add: note_ref_def)
    from note_ref_keeps[OF this] show ?thesis by simp
  next
    case False
    then have "r \<in> referenced rs" using Cons.prems(1) by (auto simp: referenced_def)
    then show ?thesis using Cons.IH Cons.prems(2) by simp
  qed
qed (simp add: referenced_def)

lemma rules_referencing_in:
  "r \<in> referenced (rules_of d) \<Longrightarrow> r \<in> refs \<Longrightarrow> dget (rules_referencing d refs) (ref_str r) \<noteq> None"
  unfolding rules_referencing_def by (rule note_ref_in)

lemma enabled_at_put:
  "enabled_at (put_chan p c ch d) r =
     (if r = (p, c) \<and> dget (d_providers d) p \<noteq> None then ch_enabled ch else enabled_at d r)"
  by (cases r) (auto simp: enabled_at_def get_chan_put)

lemma enabled_at_pop: "enabled_at (pop_chan p c d) r = (r \<noteq> (p, c) \<and> enabled_at d r)"
  by (cases r) (auto simp: enabled_at_def get_chan_pop)

lemma enabled_at_router [simp]: "enabled_at (d\<lparr>d_router := r\<rparr>) = enabled_at d"
  by (simp add: enabled_at_def get_chan_router fun_eq_iff)

lemma enabled_at_set_rules [simp]: "enabled_at (set_rules rs d) = enabled_at d"
  by (simp add: enabled_at_def set_rules_simps fun_eq_iff)

section \<open>Unique keys\<close>

lemma data_wf_channels: "data_wf d \<Longrightarrow> distinct (keys (channels_of d p))"
  by (auto simp: data_wf_def channels_of_def split: option.split dest!: map_of_SomeD)

lemma data_wf_set_channels [inv_intros]:
  assumes "data_wf d" "distinct (keys cs)"
  shows "data_wf (set_channels p cs d)"
proof (cases "dget (d_providers d) p")
  case (Some pv)
  have "distinct (keys (dset p (pv\<lparr>pv_channels := cs\<rparr>) (d_providers d)))"
    using assms(1) by (simp add: data_wf_def)
  moreover have "CHR ''/'' \<notin> set q \<and> distinct (keys (pv_channels w))"
    if "(q, w) \<in> set (dset p (pv\<lparr>pv_channels := cs\<rparr>) (d_providers d))" for q w
  proof -
    from calculation that have "dget (dset p (pv\<lparr>pv_channels := cs\<rparr>) (d_providers d)) q = Some w"
      by (simp add: map_of_eq_Some_iff del: dget_dset)
    then have "(q = p \<and> w = pv\<lparr>pv_channels := cs\<rparr>) \<or> dget (d_providers d) q = Some w"
      by (auto split: if_splits)
    with assms Some show ?thesis by (auto simp: data_wf_def dest!: map_of_SomeD)
  qed
  ultimately show ?thesis using Some by (auto simp: data_wf_def set_channels_def)
qed (use assms in \<open>simp add: set_channels_def\<close>)

lemma data_wf_put [inv_intros]: "data_wf d \<Longrightarrow> data_wf (put_chan p c ch d)"
  unfolding put_chan_def by (intro data_wf_set_channels distinct_dset data_wf_channels)

lemma data_wf_pop [inv_intros]: "data_wf d \<Longrightarrow> data_wf (pop_chan p c d)"
  unfolding pop_chan_def by (intro data_wf_set_channels distinct_dpop data_wf_channels)

lemma data_wf_router [simp]: "data_wf (d\<lparr>d_router := r\<rparr>) = data_wf d"
  by (simp add: data_wf_def)

lemma data_wf_set_rules [simp]: "data_wf (set_rules rs d) = data_wf d"
  by (simp add: set_rules_def)

lemma data_wf_new_provider [inv_intros]:
  assumes "data_wf d" "CHR ''/'' \<notin> set p" "dget (d_providers d) p = None" "distinct (keys (pv_channels pv))"
  shows "data_wf (d\<lparr>d_providers := dset p pv (d_providers d)\<rparr>)"
proof -
  have dist: "distinct (keys (dset p pv (d_providers d)))" using assms(1) by (simp add: data_wf_def)
  have "CHR ''/'' \<notin> set q \<and> distinct (keys (pv_channels w))"
    if "(q, w) \<in> set (dset p pv (d_providers d))" for q w
  proof -
    from dist that have "dget (dset p pv (d_providers d)) q = Some w"
      by (simp add: map_of_eq_Some_iff del: dget_dset)
    then have "(q = p \<and> w = pv) \<or> dget (d_providers d) q = Some w" by (auto split: if_splits)
    with assms show ?thesis by (auto simp: data_wf_def dest!: map_of_SomeD)
  qed
  with dist show ?thesis by (auto simp: data_wf_def)
qed

lemma data_wf_drop_provider [inv_intros]:
  "data_wf d \<Longrightarrow> data_wf (d\<lparr>d_providers := dpop p (d_providers d)\<rparr>)"
  using distinct_dpop[of "d_providers d" p] by (auto simp: data_wf_def) (auto simp: AList.delete_eq)

lemma get_chan_new_provider:
  "dget (d_providers d) p = None \<Longrightarrow> pv_channels pv = [] \<Longrightarrow>
   get_chan (d\<lparr>d_providers := dset p pv (d_providers d)\<rparr>) = get_chan d"
  by (auto simp: get_chan_def channels_of_def fun_eq_iff split: option.split)

lemma get_chan_drop_provider:
  "get_chan (d\<lparr>d_providers := dpop p (d_providers d)\<rparr>) q c = (if q = p then None else get_chan d q c)"
  by (auto simp: get_chan_def channels_of_def)

section \<open>The invariant\<close>

definition store_ok :: "data \<Rightarrow> bool" where
  "store_ok d = (data_wf d \<and> distinct_ports (port_at d) \<and> table_ok (rules_of d) \<and> restrict_only d)"

lemma store_okI:
  "data_wf d \<Longrightarrow> distinct_ports (port_at d) \<Longrightarrow> table_ok (rules_of d) \<Longrightarrow> restrict_only d \<Longrightarrow> store_ok d"
  by (simp add: store_ok_def)

lemma store_okD:
  assumes "store_ok d"
  shows "data_wf d" "distinct_ports (port_at d)" "table_ok (rules_of d)" "restrict_only d"
  using assms by (simp_all add: store_ok_def)

lemma port_at_cong: "get_chan d = get_chan e \<Longrightarrow> rt_port (d_router d) = rt_port (d_router e) \<Longrightarrow> port_at d = port_at e"
  by (auto simp: port_at_def fun_eq_iff split: option.split)

lemma enabled_at_cong: "get_chan d = get_chan e \<Longrightarrow> enabled_at d = enabled_at e"
  by (simp add: enabled_at_def fun_eq_iff)

text \<open>Writing one channel: its port stays or is fresh, and it is not disabled under a rule.\<close>

lemma store_ok_put [inv_intros]:
  assumes "store_ok d"
    and "get_chan d p c = Some ch0 \<and> ch_port ch0 = ch_port ch \<or> ch_port ch \<notin> port_set d"
    and "ch_enabled ch \<or> (p, c) \<notin> referenced (rules_of d)"
  shows "store_ok (put_chan p c ch d)"
proof (rule store_okI)
  note s = store_okD[OF assms(1)]
  show "data_wf (put_chan p c ch d)" by (rule data_wf_put[OF s(1)])
  show "distinct_ports (port_at (put_chan p c ch d))" using s(2) assms(2) by (rule distinct_ports_put)
  show "table_ok (rules_of (put_chan p c ch d))" using s(3) by (simp add: router_put)
  show "restrict_only (put_chan p c ch d)"
    by (rule restrict_frame[OF s(4)]) (use assms(3) in \<open>auto simp: router_put enabled_at_put\<close>)
qed

lemma store_ok_pop [inv_intros]:
  assumes "store_ok d" "(p, c) \<notin> referenced (rules_of d)"
  shows "store_ok (pop_chan p c d)"
proof (rule store_okI)
  note s = store_okD[OF assms(1)]
  show "data_wf (pop_chan p c d)" by (rule data_wf_pop[OF s(1)])
  have "port_at (pop_chan p c d) x = (if x = Some (p, c) then 0 else port_at d x)" for x
    by (auto simp: port_at_def get_chan_pop router_pop split: option.split prod.split)
  then show "distinct_ports (port_at (pop_chan p c d))"
    by (rule distinct_ports_upd[OF s(2)]) simp
  show "table_ok (rules_of (pop_chan p c d))" using s(3) by (simp add: router_pop)
  show "restrict_only (pop_chan p c d)"
    by (rule restrict_frame[OF s(4)]) (use assms(2) in \<open>auto simp: router_pop enabled_at_pop\<close>)
qed

lemma store_ok_new_provider [inv_intros]:
  assumes "store_ok d" "CHR ''/'' \<notin> set p" "dget (d_providers d) p = None" "pv_channels pv = []"
  shows "store_ok (d\<lparr>d_providers := dset p pv (d_providers d)\<rparr>)" (is "store_ok ?d")
proof (rule store_okI)
  note s = store_okD[OF assms(1)] and g = get_chan_new_provider[OF assms(3,4)]
  show "data_wf ?d" using s(1) assms(2-4) by (intro data_wf_new_provider) simp_all
  show "distinct_ports (port_at ?d)" using s(2) port_at_cong[OF g] by simp
  show "table_ok (rules_of ?d)" using s(3) by simp
  show "restrict_only ?d" by (rule restrict_frame[OF s(4)]) (simp_all add: enabled_at_cong[OF g])
qed

lemma store_ok_drop_provider [inv_intros]:
  assumes "store_ok d" "\<And>c. (p, c) \<notin> referenced (rules_of d) \<or> get_chan d p c = None"
  shows "store_ok (d\<lparr>d_providers := dpop p (d_providers d)\<rparr>)" (is "store_ok ?d")
proof (rule store_okI)
  note s = store_okD[OF assms(1)]
  show "data_wf ?d" by (rule data_wf_drop_provider[OF s(1)])
  have pa: "port_at ?d x \<noteq> 0 \<Longrightarrow> port_at ?d x = port_at d x" for x
    by (auto simp: port_at_def get_chan_drop_provider split: option.splits prod.splits)
  show "distinct_ports (port_at ?d)"
    unfolding distinct_ports_def
  proof (intro allI impI)
    fix x y assume n: "port_at ?d x \<noteq> 0" and e: "port_at ?d x = port_at ?d y"
    then have "port_at d x \<noteq> 0" "port_at d x = port_at d y" using pa[of x] pa[of y] by auto
    with s(2) show "x = y" by (simp add: distinct_ports_def)
  qed
  show "table_ok (rules_of ?d)" using s(3) by simp
  show "restrict_only ?d"
  proof (rule restrict_frame[OF s(4)])
    fix r assume r: "r \<in> referenced (rules_of d)" "enabled_at d r"
    obtain q c where "r = (q, c)" by force
    with r assms(2)[of c] show "enabled_at ?d r"
      by (auto simp: enabled_at_def get_chan_drop_provider split: option.splits)
  qed simp
qed

lemma store_ok_rules [inv_intros]:
  assumes "store_ok d" "table_ok rs" "\<forall>r \<in> referenced rs. enabled_at d r"
  shows "store_ok (set_rules rs d)"
proof (rule store_okI)
  note s = store_okD[OF assms(1)]
  show "data_wf (set_rules rs d)" using s(1) by simp
  have "port_at (set_rules rs d) = port_at d" by (rule port_at_cong) (simp_all add: set_rules_simps)
  then show "distinct_ports (port_at (set_rules rs d))" using s(2) by simp
  show "table_ok (rules_of (set_rules rs d))" using assms(2) by (simp add: set_rules_simps)
  show "restrict_only (set_rules rs d)" using assms(3) by (simp add: restrict_only_iff set_rules_simps)
qed

lemma store_ok_router [inv_intros]:
  assumes "store_ok d" "rt_rules r = rules_of d" "rt_port r = rt_port (d_router d) \<or> rt_port r \<notin> port_set d"
  shows "store_ok (d\<lparr>d_router := r\<rparr>)"
proof (rule store_okI)
  note s = store_okD[OF assms(1)]
  show "data_wf (d\<lparr>d_router := r\<rparr>)" using s(1) by simp
  show "distinct_ports (port_at (d\<lparr>d_router := r\<rparr>))"
    by (rule distinct_ports_router[OF s(2)]) (use assms(3) in auto)
  show "table_ok (rules_of (d\<lparr>d_router := r\<rparr>))" using s(3) assms(2) by simp
  show "restrict_only (d\<lparr>d_router := r\<rparr>)"
    by (rule restrict_frame[OF s(4)]) (simp_all add: assms(2))
qed

lemma store_ok_cong:
  assumes "store_ok d" "d_providers e = d_providers d" "d_router e = d_router d"
  shows "store_ok e"
  using assms get_chan_cong[of e d] port_at_cong[of e d] enabled_at_cong[of e d]
  by (simp add: store_ok_def data_wf_def restrict_only_iff)

section \<open>Every operation keeps the invariant\<close>

subsection \<open>Rules\<close>

lemma store_ok_set_rules:
  assumes "store_ok d" "d' = set_rules rs d" "table_ok (rules_of d')"
    and "\<And>x. x \<in> set rs \<Longrightarrow> ensure_channel_target d (rtarget x) = Inr ()"
  shows "store_ok d'"
proof -
  have "\<forall>r \<in> referenced rs. enabled_at d r"
    using assms(4) by (force simp: referenced_def ensure_target_iff)
  with assms show ?thesis by (auto simp: set_rules_simps intro: store_ok_rules)
qed

lemma store_ok_target: "store_ok d \<Longrightarrow> x \<in> set (rules_of d) \<Longrightarrow> ensure_channel_target d (rtarget x) = Inr ()"
  by (simp add: store_ok_def restrict_only_def)

lemma store_ok_create [inv_intros]:
  assumes "create_ruleset name target ms d = Inr (b, d')" "store_ok d"
  shows "store_ok d'"
proof -
  note t = store_okD(3)[OF assms(2)]
  then obtain bs where bs: "ruleset_blocks (rules_of d) = Inr bs" by (auto simp: table_ok_def)
  note c = create_ruleset_spec[OF assms(1) bs]
  have f: "flat bs = rules_of d" using bs by (simp add: ruleset_blocks_iff)
  have "block_ok b" using c(2) by (simp add: blocks_ok_def)
  then have "\<And>x. x \<in> set (b_rules b) \<Longrightarrow> rtarget x = target" using c(4) by (simp add: block_ok_def)
  then show ?thesis
    using store_ok_set_rules[OF assms(2) c(1) table_ok_create[OF assms(1) t]] c(6) f
      store_ok_target[OF assms(2)] by auto
qed

lemma store_ok_add_matchers [inv_intros]:
  assumes "add_ruleset_matchers i ms d = Inr (b', d')" "store_ok d"
  shows "store_ok d'"
proof -
  note t = store_okD(3)[OF assms(2)]
  then obtain bs where bs: "ruleset_blocks (rules_of d) = Inr bs" and n: "nums_ok (rules_of d)"
    by (auto simp: table_ok_def)
  obtain as b cs rows where a: "bs = as @ b # cs" "b' = b\<lparr>b_rules := b_rules b @ rows\<rparr>"
    "d' = set_rules (flat (as @ b' # cs)) d" "blocks_ok (as @ b' # cs)"
    by (rule add_ruleset_matchers_spec[OF assms(1) bs n]) (rule that; assumption)
  have f: "rules_of d = flat as @ b_rules b @ flat cs" and ok: "blocks_ok (as @ b # cs)"
    using bs a(1) by (simp_all add: ruleset_blocks_iff)
  obtain r0 where r0: "r0 \<in> set (b_rules b)" using split_facts(4)[OF ok] by (meson last_in_set)
  have "rtarget x = rtarget r0" if "x \<in> set (b_rules b')" for x
    using that a(2,4) r0 by (auto simp: blocks_ok_def block_ok_def)
  then have "x \<in> set (flat (as @ b' # cs)) \<Longrightarrow> \<exists>y \<in> set (rules_of d). rtarget x = rtarget y" for x
    using r0 f by auto
  then show ?thesis
    using store_ok_set_rules[OF assms(2) a(3) table_ok_add_matchers[OF assms(1) t]]
      store_ok_target[OF assms(2)] by metis
qed

lemma store_ok_subset_rules:
  assumes "store_ok d" "d' = set_rules rs d" "table_ok (rules_of d')" "set rs \<subseteq> set (rules_of d)"
  shows "store_ok d'"
  using assms store_ok_target[OF assms(1)] by (intro store_ok_set_rules[OF assms(1-3)]) blast

lemma store_ok_remove_ruleset [inv_intros]:
  assumes "remove_ruleset i d = Inr (x, d')" "store_ok d"
  shows "store_ok d'"
proof -
  have "d' = set_rules (filter (\<lambda>r. rruleset r \<noteq> i) (rules_of d)) d"
    using assms(1) by (auto simp: remove_ruleset_def Let_def)
  then show ?thesis
    using store_ok_subset_rules[OF assms(2) _ table_ok_remove_ruleset[OF assms(1) store_okD(3)[OF assms(2)]]]
    by auto
qed

lemma edit_ruleset_rules:
  "edit_ruleset i f d = Inr (b, d') \<Longrightarrow> d' = set_rules (map_ruleset i f (rules_of d)) d"
  by (auto simp: edit_ruleset_def Let_def)

lemma store_ok_rename [inv_intros]:
  assumes "rename_ruleset i name d = Inr (b, d')" "store_ok d"
  shows "store_ok d'"
proof -
  have e: "d' = set_rules (map_ruleset i (\<lambda>r. r\<lparr>rname := Some name\<rparr>) (rules_of d)) d"
    using assms(1) edit_ruleset_rules by (auto simp: rename_ruleset_def)
  show ?thesis
    by (rule store_ok_set_rules[OF assms(2) e table_ok_rename[OF assms(1) store_okD(3)[OF assms(2)]]])
      (auto simp: map_ruleset_def store_ok_target[OF assms(2)])
qed

lemma store_ok_retarget [inv_intros]:
  assumes "retarget_ruleset i t d = Inr (b, d')" "store_ok d"
  shows "store_ok d'"
proof -
  have e: "d' = set_rules (map_ruleset i (\<lambda>r. r\<lparr>rtarget := t\<rparr>) (rules_of d)) d"
    and t: "ensure_channel_target d t = Inr ()"
    using assms(1) edit_ruleset_rules by (auto simp: retarget_ruleset_def)
  show ?thesis
    by (rule store_ok_set_rules[OF assms(2) e table_ok_retarget[OF assms(1) store_okD(3)[OF assms(2)]]])
      (auto simp: map_ruleset_def store_ok_target[OF assms(2)] t)
qed

lemma store_ok_update [inv_intros]:
  assumes "update_ruleset dg i name target ms e d = Inr (b', d')" "store_ok d"
  shows "store_ok d'"
proof -
  note t = store_okD(3)[OF assms(2)]
  then obtain bs where bs: "ruleset_blocks (rules_of d) = Inr bs" by (auto simp: table_ok_def)
  obtain as b cs where u: "bs = as @ b # cs" "b_target b' = target"
    "d' = set_rules (flat (as @ b' # cs)) d" "blocks_ok (as @ b' # cs)" "ensure_channel_target d target = Inr ()"
    by (rule update_ruleset_spec[OF assms(1) bs]) (rule that; assumption)
  have f: "rules_of d = flat as @ b_rules b @ flat cs" using bs u(1) by (simp add: ruleset_blocks_iff)
  have "block_ok b'" using u(4) by (simp add: blocks_ok_def)
  then have "\<And>x. x \<in> set (b_rules b') \<Longrightarrow> rtarget x = target" using u(2) by (simp add: block_ok_def)
  then show ?thesis
    using store_ok_set_rules[OF assms(2) u(3) table_ok_update[OF assms(1) t]] u(5) f
      store_ok_target[OF assms(2)] by auto
qed

lemma store_ok_remove_rules [inv_intros]:
  assumes "remove_rules ids d = (x, d')" "store_ok d"
  shows "store_ok d'"
proof -
  have "d' = set_rules (filter (\<lambda>r. rid r \<notin> set ids) (rules_of d)) d"
    using assms(1) by (simp add: remove_rules_def)
  then show ?thesis
    using store_ok_subset_rules[OF assms(2) _ table_ok_remove_rules[OF assms(1) store_okD(3)[OF assms(2)]]]
    by auto
qed

lemma store_ok_reorder_rules [inv_intros]:
  assumes "reorder_rules ids d = Inr ((o', c), d')" "store_ok d"
  shows "store_ok d'"
proof -
  note t = store_okD(3)[OF assms(2)]
  note r = reorder_rules_spec[OF assms(1) t]
  show ?thesis
    by (rule store_ok_subset_rules[OF assms(2) r(1) table_ok_reorder_rules[OF assms(1) t]])
      (use mset_eq_setD[OF r(3)] in simp)
qed

lemma store_ok_reorder_rulesets [inv_intros]:
  assumes "reorder_rulesets dg ids e d = Inr ((o', c), d')" "store_ok d"
  shows "store_ok d'"
proof -
  note t = store_okD(3)[OF assms(2)]
  then obtain bs where bs: "ruleset_blocks (rules_of d) = Inr bs" by (auto simp: table_ok_def)
  note r = reorder_rulesets_spec[OF assms(1) bs]
  have "set (flat o') = set (rules_of d)"
    using mset_eq_setD[OF r(3)] bs unfolding flat_def ruleset_blocks_iff
    by (metis (no_types, lifting) list.set_map set_concat)
  then show ?thesis
    by (intro store_ok_subset_rules[OF assms(2) r(1) table_ok_reorder_rulesets[OF assms(1) t]]) simp
qed

lemma set_insert_at: "set (insert_at n ys xs) = set ys \<union> set xs"
  using insert_at_mset[of n ys xs] by (metis mset_append mset_eq_setD set_append)

lemma move_rules_table:
  assumes "move_rules ids i d = Inr (x, d')" "ruleset_blocks (rules_of d) = Inr bs"
  shows "\<exists>dest. find_block i bs = Inr dest \<and> d' = set_rules
    (insert_at (end_index i (filter (\<lambda>r. rid r \<notin> set (dedup ids)) (rules_of d)))
      (map (\<lambda>r. r\<lparr>rruleset := i, rname := Some (b_name dest), rtarget := b_target dest\<rparr>)
        (rows_of (rules_of d) (dedup ids)))
      (filter (\<lambda>r. rid r \<notin> set (dedup ids)) (rules_of d))) d"
  using assms by (auto simp: move_rules_def Let_def)

lemma store_ok_move [inv_intros]:
  assumes "move_rules ids i d = Inr (x, d')" "store_ok d"
  shows "store_ok d'"
proof -
  note t = store_okD(3)[OF assms(2)]
  then obtain bs where bs: "ruleset_blocks (rules_of d) = Inr bs" by (auto simp: table_ok_def)
  from move_rules_table[OF assms(1) bs] obtain dest kept moved where
    dest: "find_block i bs = Inr dest" and d': "d' = set_rules (insert_at (end_index i kept)
      (map (\<lambda>r. r\<lparr>rruleset := i, rname := Some (b_name dest), rtarget := b_target dest\<rparr>) moved) kept) d"
    and k: "set kept \<subseteq> set (rules_of d)"
    by (metis (no_types, lifting) filter_is_subset)
  from find_block_Inr[OF dest] have "dest \<in> set bs" by auto
  with bs obtain r0 where "r0 \<in> set (rules_of d)" "rtarget r0 = b_target dest"
  proof -
    from bs have ok: "block_ok dest" "flat bs = rules_of d"
      using \<open>dest \<in> set bs\<close> by (auto simp: ruleset_blocks_iff blocks_ok_def list_all_iff)
    then obtain r where "r \<in> set (b_rules dest)" "rtarget r = b_target dest"
      by (metis block_ok_def last_in_set)
    then show thesis using that[of r] \<open>dest \<in> set bs\<close> unfolding ok(2)[symmetric] by (auto simp: flat_def)
  qed
  then have e: "ensure_channel_target d (b_target dest) = Inr ()" using store_ok_target[OF assms(2)] by metis
  show ?thesis
    by (rule store_ok_set_rules[OF assms(2) d' table_ok_move[OF assms(1) t]])
      (use k e store_ok_target[OF assms(2)] in \<open>auto simp: set_insert_at\<close>)
qed

subsection \<open>Channels\<close>

definition shape :: "chan \<Rightarrow> int \<times> bool" where
  "shape ch = (ch_port ch, ch_enabled ch)"

text \<open>What the invariant sees of the channels: the shape at every reference.\<close>

lemma store_ok_shape:
  assumes "store_ok d" "data_wf d'" "d_router d' = d_router d"
    and "\<And>p c. map_option shape (get_chan d' p c) = map_option shape (get_chan d p c)"
  shows "store_ok d'"
proof (rule store_okI)
  note s = store_okD[OF assms(1)]
  have g: "(get_chan d' p c = None) = (get_chan d p c = None)" for p c
    using assms(4)[of p c] by (metis map_option_is_None)
  have v: "shape x = shape y" if "get_chan d' p c = Some x" "get_chan d p c = Some y" for p c x y
    using assms(4)[of p c] that by simp
  have "port_at d' x = port_at d x" for x
  proof (cases x)
    case (Some r)
    obtain p c where "r = (p, c)" by force
    with Some g[of p c] v[of p c] show ?thesis
      by (auto simp: port_at_def shape_def split: option.split)
  qed (simp add: port_at_def assms(3))
  then show "distinct_ports (port_at d')" using s(2) by (simp add: distinct_ports_def)
  show "data_wf d'" by (rule assms(2))
  show "table_ok (rules_of d')" using s(3) assms(3) by simp
  have "enabled_at d' r = enabled_at d r" for r
    using g[of "fst r" "snd r"] v[of "fst r" "snd r"]
    by (auto simp: enabled_at_def shape_def split: option.split)
  then show "restrict_only d'" using s(4) assms(3) by (simp add: restrict_only_iff)
qed

lemma store_ok_mod_chan:
  assumes "store_ok d" "\<And>ch. shape (f ch) = shape ch"
  shows "store_ok (mod_chan p c f d)"
proof (cases "get_chan d p c")
  case (Some ch)
  have "map_option shape (get_chan (put_chan p c (f ch) d) q e) = map_option shape (get_chan d q e)" for q e
    using Some assms(2) get_chan_provider[OF Some] by (auto simp: get_chan_put)
  then show ?thesis
    using Some store_ok_shape[OF assms(1) data_wf_put[OF store_okD(1)[OF assms(1)]] router_put]
    by (simp add: mod_chan_def)
qed (use assms in \<open>simp add: mod_chan_def\<close>)

lemma store_ok_put_shape:
  assumes "store_ok d" "get_chan d p c = Some ch0" "shape ch = shape ch0"
  shows "store_ok (put_chan p c ch d)"
proof -
  have "map_option shape (get_chan (put_chan p c ch d) q e) = map_option shape (get_chan d q e)" for q e
    using assms(2,3) get_chan_provider[OF assms(2)] by (auto simp: get_chan_put)
  then show ?thesis
    by (rule store_ok_shape[OF assms(1) data_wf_put[OF store_okD(1)[OF assms(1)]] router_put])
qed

lemma get_chan_map_channels: "get_chan (map_channels f d) p c = map_option f (get_chan d p c)"
  by (cases "dget (d_providers d) p")
    (simp_all add: get_chan_def channels_of_def map_channels_def map_of_map)

lemma store_ok_map_channels:
  assumes "store_ok d" "\<And>ch. shape (f ch) = shape ch"
  shows "store_ok (map_channels f d)"
proof (rule store_ok_shape[OF assms(1)])
  have "keys (map (\<lambda>(c, ch). (c, f ch)) cs) = keys cs" for cs :: "(string, chan) dict"
    by (simp add: case_prod_beta' comp_def)
  then show "data_wf (map_channels f d)"
    using store_okD(1)[OF assms(1)]
    by (auto simp: data_wf_def map_channels_def case_prod_beta' comp_def)
  show "d_router (map_channels f d) = d_router d" by (simp add: map_channels_def)
  show "map_option shape (get_chan (map_channels f d) p c) = map_option shape (get_chan d p c)" for p c
    using assms(2) by (cases "get_chan d p c") (simp_all add: get_chan_map_channels)
qed

text \<open>A channel whose port is repointed by a declaration.\<close>

lemma repoint_keeps:
  "repoint p c port ch d = Inr ch' \<Longrightarrow> ch_enabled ch' = ch_enabled ch"
  by (auto simp: repoint_def split: if_splits)

lemma store_ok_repoint:
  assumes "repoint p c port ch d = Inr ch1" "store_ok d" "get_chan d p c = Some ch0"
    and "ch_port ch = ch_port ch0" "ch_port ch2 = ch_port ch1"
    and "ch_enabled ch2 \<or> (p, c) \<notin> referenced (rules_of d)"
  shows "store_ok (put_chan p c ch2 d)"
proof (cases "port \<noteq> 0 \<and> port \<noteq> ch_port ch")
  case False
  with assms(1) have "ch1 = ch" by (auto simp: repoint_def)
  with assms show ?thesis by (intro store_ok_put) auto
next
  case True
  note s = store_okD[OF assms(2)]
  from True assms(1) obtain q where q: "claim_port d port (Some (p, c)) = Inr q" "ch1 = ch\<lparr>ch_port := q\<rparr>"
    by (auto simp: repoint_def)
  from q(1) have qp: "q = port" by (auto simp: claim_port_def Let_def split: if_splits option.splits)
  show ?thesis
  proof (rule store_okI)
    show "data_wf (put_chan p c ch2 d)" by (rule data_wf_put[OF s(1)])
    show "distinct_ports (port_at (put_chan p c ch2 d))"
    proof (rule distinct_ports_upd[OF s(2)])
      show "port_at (put_chan p c ch2 d) y = (if y = Some (p, c) then port else port_at d y)" for y
        using get_chan_provider[OF assms(3)] assms(5) q(2) qp by (simp add: port_at_put)
      show "port_at d y = port \<Longrightarrow> port \<noteq> 0 \<Longrightarrow> y = Some (p, c)" for y
        using claim_port_own[OF q(1) s(1,2)] assms(3) by simp
    qed
    show "table_ok (rules_of (put_chan p c ch2 d))" using s(3) by (simp add: router_put)
    show "restrict_only (put_chan p c ch2 d)"
      by (rule restrict_frame[OF s(4)]) (use assms(6) in \<open>auto simp: router_put enabled_at_put\<close>)
  qed
qed

lemma store_ok_add_provider [inv_intros]:
  "store_ok d \<Longrightarrow> CHR ''/'' \<notin> set p \<Longrightarrow> store_ok (add_provider p d)"
  using store_ok_new_provider[of d p]
  by (auto simp: add_provider_def setdefault_def split: option.split)

lemma store_ok_add_channel [inv_intros]:
  assumes "add_channel cc e p country city wg label port server d = Inr (v, e', d')" "store_ok d"
  shows "store_ok d'"
proof -
  from assms(1) obtain pv q cid where
    q: "port_or_free e d port = Inr (q, e')" and
    d': "d' = put_chan p cid (fresh_chan country city q wg (port \<noteq> 0) label server) d"
    by (auto simp: add_channel_def Let_def)
  show ?thesis unfolding d'
    by (rule store_ok_put[OF assms(2)]) (use port_or_free_fresh[OF q] in \<open>auto simp: fresh_chan_def\<close>)
qed

lemma store_ok_upsert_channel [inv_intros]:
  assumes "upsert_channel e p filename country city wg label port d = Inr (v, e', d')" "store_ok d"
  shows "store_ok d'"
proof -
  let ?cid = "slug filename"
  from assms(1) obtain pv where pv: "dget (d_providers d) p = Some pv"
    by (auto simp: upsert_channel_def Let_def require_provider_def split: option.splits)
  then have g: "dget (pv_channels pv) ?cid = get_chan d p ?cid" by (simp add: get_chan_def channels_of_def)
  show ?thesis
  proof (cases "get_chan d p ?cid")
    case None
    with assms(1) pv g obtain q where q: "port_or_free e d port = Inr (q, e')" and
      d': "d' = put_chan p ?cid (fresh_chan country city q wg (port \<noteq> 0) label []) d"
      by (auto simp: upsert_channel_def Let_def require_provider_def)
    show ?thesis unfolding d'
      by (rule store_ok_put[OF assms(2)]) (use port_or_free_fresh[OF q] in \<open>auto simp: fresh_chan_def\<close>)
  next
    case (Some ch)
    let ?ch = "ch\<lparr>ch_country := country, ch_city := city, ch_wg := wg\<rparr>"
    from assms(1) pv g Some obtain ch1 ch2 where r: "repoint p ?cid port ?ch d = Inr ch1"
      and d': "d' = put_chan p ?cid ch2 d" "shape ch2 = shape ch1"
      by (auto simp: upsert_channel_def Let_def require_provider_def shape_def split: if_splits)
    have "ch_enabled ch2 = ch_enabled ch" using repoint_keeps[OF r] d'(2) by (simp add: shape_def)
    moreover have "ch_enabled ch \<or> (p, ?cid) \<notin> referenced (rules_of d)"
      using store_okD(4)[OF assms(2)] Some by (auto simp: restrict_only_iff enabled_at_def)
    ultimately show ?thesis unfolding d'(1)
      by (intro store_ok_repoint[OF r assms(2) Some]) (use d'(2) in \<open>auto simp: shape_def\<close>)
  qed
qed

lemma store_ok_remove_channels [inv_intros]:
  assumes "remove_channels refs d = Inr (res, d')" "store_ok d"
  shows "store_ok d'"
proof -
  have "store_ok d \<Longrightarrow> referenced (rules_of d) \<inter> set refs = {} \<Longrightarrow> store_ok (snd (fold remove_step refs (x, d)))" for x
  proof (induction refs arbitrary: x d)
    case (Cons r refs)
    have "\<exists>y d1. remove_step r (x, d) = (y, d1) \<and> store_ok d1 \<and> rules_of d1 = rules_of d"
      using store_ok_pop[of d "fst r" "snd r"] Cons.prems by (auto simp: remove_step_def router_pop)
    then obtain y d1 where "remove_step r (x, d) = (y, d1)" "store_ok d1" "rules_of d1 = rules_of d" by blast
    with Cons.IH[of d1 y] Cons.prems show ?case by simp
  qed simp
  from this[of "[]"] assms show ?thesis
    by (auto simp: remove_channels_def Let_def rules_referencing_empty)
qed

lemma store_ok_set_enabled [inv_intros]:
  assumes "set_channels_enabled dg refs en ex d = Inr (res, d')" "store_ok d"
  shows "store_ok d'"
proof -
  have "store_ok d \<Longrightarrow> en \<or> referenced (rules_of d) \<inter> set refs = {}
      \<Longrightarrow> store_ok (snd (fold (toggle_step en) refs (x, d)))" for x
  proof (induction refs arbitrary: x d)
    case (Cons r refs)
    have "\<exists>y d1. toggle_step en r (x, d) = (y, d1) \<and> store_ok d1 \<and> rules_of d1 = rules_of d"
    proof (cases "get_chan d (fst r) (snd r)")
      case (Some ch)
      have "store_ok (put_chan (fst r) (snd r) (toggle en ch) d)"
        by (rule store_ok_put[OF Cons.prems(1)]) (use Some Cons.prems(2) in \<open>auto simp: toggle_def\<close>)
      with Some Cons.prems show ?thesis by (auto simp: toggle_step_def router_put)
    qed (use Cons.prems in \<open>simp add: toggle_step_def\<close>)
    then obtain y d1 where "toggle_step en r (x, d) = (y, d1)" "store_ok d1" "rules_of d1 = rules_of d" by blast
    with Cons.IH[of d1 y] Cons.prems show ?case by auto
  qed simp
  from this[of "[]"] assms show ?thesis
    by (auto simp: set_channels_enabled_def Let_def rules_referencing_empty split: if_splits)
qed

subsection \<open>Bookkeeping\<close>

lemma store_ok_label [inv_intros]: "store_ok d \<Longrightarrow> store_ok (snd (set_label p c l d))"
  by (simp add: set_label_def store_ok_mod_chan shape_def)

lemma store_ok_server [inv_intros]:
  "set_channel_server dg p c sv wg co ci ex d = Inr (v, d') \<Longrightarrow> store_ok d \<Longrightarrow> store_ok d'"
  by (auto simp: set_channel_server_def Let_def pin_def shape_def split: option.split
      intro!: store_ok_mod_chan)

lemma store_ok_probe [inv_intros]: "store_ok d \<Longrightarrow> store_ok (set_probe p c x d)"
  by (simp add: set_probe_def store_ok_mod_chan shape_def)

lemma store_ok_reconnect [inv_intros]: "store_ok d \<Longrightarrow> store_ok (set_reconnect p c x d)"
  by (simp add: set_reconnect_def store_ok_mod_chan shape_def store_reconnect_def)

lemma probe_step_ok: "store_ok (snd st) \<Longrightarrow> store_ok (snd (probe_step dg u st))"
  by (auto simp: probe_step_def shape_def split: prod.splits option.splits intro!: store_ok_put_shape)

lemma store_ok_probes [inv_intros]: "store_ok d \<Longrightarrow> store_ok (snd (set_probes dg us d))"
proof -
  have "store_ok (snd st) \<Longrightarrow> store_ok (snd (fold (probe_step dg) us st))" for st
    by (induction us arbitrary: st) (simp_all add: probe_step_ok)
  then show "store_ok d \<Longrightarrow> store_ok (snd (set_probes dg us d))" by (simp add: set_probes_def)
qed

lemma prepare_step_ok: "store_ok (snd st) \<Longrightarrow> store_ok (snd (prepare_step dg u st))"
  by (auto simp: prepare_step_def shape_def store_reconnect_def split: prod.splits option.splits
      intro!: store_ok_put_shape)

lemma store_ok_prepare [inv_intros]: "store_ok d \<Longrightarrow> store_ok (snd (prepare_reconnects dg us d))"
proof -
  have "store_ok (snd st) \<Longrightarrow> store_ok (snd (fold (prepare_step dg) us st))" for st
    by (induction us arbitrary: st) (simp_all add: prepare_step_ok)
  then show "store_ok d \<Longrightarrow> store_ok (snd (prepare_reconnects dg us d))" by (simp add: prepare_reconnects_def)
qed

lemma store_ok_finish [inv_intros]:
  "store_ok d \<Longrightarrow> store_ok (snd (finish_reconnect_attempt dg p c fp nonce rc wg d))"
  by (auto simp: finish_reconnect_attempt_def Let_def shape_def split: option.splits
      intro!: store_ok_put_shape)

lemma store_ok_clear_reconnect [inv_intros]: "store_ok d \<Longrightarrow> store_ok (snd (clear_reconnect_all d))"
  by (simp add: clear_reconnect_all_def store_ok_map_channels shape_def)

lemma store_ok_channel_wg [inv_intros]:
  "update_channel_wg dg p c wg ex d = Inr (b, d') \<Longrightarrow> store_ok d \<Longrightarrow> store_ok d'"
  by (auto simp: update_channel_wg_def shape_def intro!: store_ok_mod_chan)

lemma store_ok_channels_wg [inv_intros]:
  assumes "store_ok d"
  shows "store_ok (snd (update_channels_wg p wgs d))"
proof -
  have "store_ok (snd st) \<Longrightarrow> store_ok (snd (fold (wg_step p) wgs st))" for st
  proof (induction wgs arbitrary: st)
    case (Cons u wgs)
    have "store_ok (snd (wg_step p u st))"
      using Cons.prems by (auto simp: wg_step_def shape_def split: prod.splits intro!: store_ok_mod_chan)
    with Cons.IH show ?case by simp
  qed simp
  from this[of "([], d)"] assms have k: "store_ok (snd (fold (wg_step p) wgs ([], d)))" by simp
  obtain upd d1 where f: "fold (wg_step p) wgs ([], d) = (upd, d1)" by force
  let ?cs = "map (\<lambda>(c, ch). (c, ch\<lparr>ch_reconnect := None\<rparr>)) (channels_of d1 p)"
  have d1: "store_ok d1" using k f by simp
  have "store_ok (set_channels p ?cs d1)"
  proof (rule store_ok_shape[OF d1])
    have "keys ?cs = keys (channels_of d1 p)" by (simp add: case_prod_beta' comp_def)
    then show "data_wf (set_channels p ?cs d1)"
      using data_wf_set_channels[OF store_okD(1)[OF d1]] data_wf_channels[OF store_okD(1)[OF d1]] by metis
    show "d_router (set_channels p ?cs d1) = d_router d1" by (rule router_set_channels)
    show "map_option shape (get_chan (set_channels p ?cs d1) q c) = map_option shape (get_chan d1 q c)" for q c
      by (auto simp: get_chan_def channels_of_set_channels map_of_map shape_def[abs_def] option.map_comp comp_def)
  qed
  then show ?thesis using f by (simp add: update_channels_wg_def)
qed

lemma store_ok_flags [inv_intros]:
  assumes "store_ok d"
  shows "store_ok (set_killswitch b d)" "store_ok (set_lan_direct b d)" "store_ok (set_tun b d)"
  using assms by (simp_all add: set_killswitch_def set_lan_direct_def set_tun_def store_ok_router)

lemma store_ok_settings [inv_intros]:
  assumes "store_ok d"
  shows "store_ok (update_geodata k s c fs r d)" "store_ok (set_geodata_source n d)"
    "store_ok (snd (set_backup en dir ev kp d))" "store_ok (record_service_offer d)"
  by (rule store_ok_cong[OF assms]; simp add: update_geodata_def set_geodata_source_def set_backup_def
      record_service_offer_def Let_def)+

subsection \<open>Providers and ports\<close>

lemma store_ok_remove_providers [inv_intros]:
  assumes "remove_providers ps d = Inr (counts, d')" "store_ok d"
  shows "store_ok d'"
proof -
  have k: "store_ok d \<Longrightarrow> \<forall>p \<in> set ps. \<forall>c. (p, c) \<notin> referenced (rules_of d) \<or> get_chan d p c = None
      \<Longrightarrow> store_ok (snd (fold pop_provider ps (x, d)))" for x
  proof (induction ps arbitrary: x d)
    case (Cons p ps)
    let ?d = "d\<lparr>d_providers := dpop p (d_providers d)\<rparr>"
    have "store_ok ?d" using Cons.prems by (intro store_ok_drop_provider) auto
    moreover have "\<forall>q \<in> set ps. \<forall>c. (q, c) \<notin> referenced (rules_of ?d) \<or> get_chan ?d q c = None"
      using Cons.prems(2) by (simp add: get_chan_drop_provider)
    ultimately show ?case using Cons.IH[of ?d "dset p (length (channels_of d p)) x"]
      by (simp add: pop_provider_def)
  qed simp
  have "\<forall>p \<in> set ps. \<forall>c. (p, c) \<notin> referenced (rules_of d) \<or> get_chan d p c = None"
  proof (intro ballI allI)
    fix p c assume p: "p \<in> set ps"
    show "(p, c) \<notin> referenced (rules_of d) \<or> get_chan d p c = None"
    proof (cases "get_chan d p c")
      case (Some ch)
      then have "c \<in> set (keys (channels_of d p))" by (auto simp: get_chan_def dest: dget_Some_key)
      with p assms(1) show ?thesis
        by (auto simp: remove_providers_def Let_def rules_referencing_empty)
    qed simp
  qed
  from k[OF assms(2) this, of "[]"] assms(1) show ?thesis
    by (auto simp: remove_providers_def Let_def)
qed

lemma store_ok_realloc_step:
  assumes "realloc_step ports r st = Inr st'" "store_ok (snd (snd st))"
  shows "store_ok (snd (snd st'))"
proof -
  obtain p c moved held e d where s: "r = (p, c)" "st = ((moved, held), e, d)" by (metis prod.exhaust)
  have ok: "store_ok d" using assms(2) s by simp
  then have en: "ch_enabled ch \<or> (p, c) \<notin> referenced (rules_of d)" if "get_chan d p c = Some ch" for ch
    using that store_okD(4)[OF ok] by (auto simp: restrict_only_iff enabled_at_def)
  have put: "store_ok (put_chan p c (ch\<lparr>ch_port_home := h, ch_port := q\<rparr>) d)"
    if "get_chan d p c = Some ch" "next_free_port e d = Inr (q, e')" for ch h q e'
    by (rule store_ok_put[OF ok]) (use en[OF that(1)] next_free_port_fresh[OF that(2)] in auto)
  show ?thesis
  proof (cases "get_chan d p c")
    case (Some ch)
    then show ?thesis using assms(1) ok s put[OF Some]
      by (auto simp: realloc_step_def Let_def split: if_splits)
  qed (use assms s in \<open>auto simp: realloc_step_def\<close>)
qed

lemma store_ok_reallocate [inv_intros]:
  assumes "reallocate_channel_ports ports e d = Inr (res, e', d')" "store_ok d"
  shows "store_ok d'"
proof -
  from assms(1) obtain st where st: "foldR (realloc_step ports) (all_refs d) (([], []), e, d) = Inr st"
    "realloc_router ports st = Inr (res, e', d')"
    by (auto simp: reallocate_channel_ports_def)
  have "store_ok (snd (snd st))"
    by (rule foldR_keeps[OF st(1), of "\<lambda>st. store_ok (snd (snd st))"])
      (use assms(2) store_ok_realloc_step in auto)
  moreover obtain res1 e1 d1 where "st = (res1, e1, d1)" by (metis prod.exhaust)
  ultimately show ?thesis using st(2)
    by (cases res1) (auto simp: realloc_router_def Let_def split: if_splits
        intro!: store_ok_router dest!: next_free_port_fresh)
qed

lemma store_ok_ensure_router [inv_intros]:
  "ensure_router_port e d = Inr (p, e', d') \<Longrightarrow> store_ok d \<Longrightarrow> store_ok d'"
  by (auto simp: ensure_router_port_def split: if_splits intro!: store_ok_router dest!: next_free_port_fresh)

lemma restore_step_frame:
  assumes "data_wf (snd (snd st))"
  shows "data_wf (snd (snd (restore_step free r st)))
    \<and> d_router (snd (snd (restore_step free r st))) = d_router (snd (snd st))
    \<and> enabled_at (snd (snd (restore_step free r st))) = enabled_at (snd (snd st))"
proof -
  obtain p c res used d where s: "r = (p, c)" "st = (res, used, d)" by (metis prod.exhaust)
  have "enabled_at (put_chan p c (ch\<lparr>ch_port := h\<rparr>) d) = enabled_at d" if "get_chan d p c = Some ch" for ch h
    using that get_chan_provider[OF that] by (auto simp: fun_eq_iff enabled_at_put) (simp_all add: enabled_at_def)
  with restore_step_cases[of free p c res used d] assms s show ?thesis
    by (auto simp: router_put data_wf_put)
qed

lemma store_ok_restore_home [inv_intros]:
  assumes "restore_home_ports free snap d = (res, d')" "store_ok d"
  shows "store_ok d'"
proof (cases "snap = d")
  case True
  note s = store_okD[OF assms(2)]
  obtain res1 used1 d1 where f: "fold (restore_step free) (all_refs d) ([], keys (used_ports d), d) = (res1, used1, d1)"
    by (metis prod.exhaust)
  have "data_wf (snd (snd st)) \<Longrightarrow> data_wf (snd (snd (fold (restore_step free) rs st)))
    \<and> d_router (snd (snd (fold (restore_step free) rs st))) = d_router (snd (snd st))
    \<and> enabled_at (snd (snd (fold (restore_step free) rs st))) = enabled_at (snd (snd st))" for rs st
    by (induction rs arbitrary: st) (simp_all add: restore_step_frame)
  from this[of "([], keys (used_ports d), d)" "all_refs d"] s(1) f
  have k: "data_wf d1" "d_router d1 = d_router d" "enabled_at d1 = enabled_at d" by simp_all
  have rr: "restore_router free (res1, used1, d1) = (res, d')"
    using assms(1) True f by (simp add: restore_home_ports_def)
  then have r: "\<exists>q. d' = d1\<lparr>d_router := (d_router d1)\<lparr>rt_port := q\<rparr>\<rparr> \<or> d' = d1"
    by (auto simp: restore_router_def Let_def split: option.splits if_splits)
  then have ru: "rules_of d' = rules_of d" "data_wf d'" "enabled_at d' = enabled_at d"
    using k by auto
  show ?thesis
  proof (rule store_okI)
    show "distinct_ports (port_at d')" by (rule restore_home_ports_distinct[OF assms(1) s(2)])
    show "data_wf d'" "table_ok (rules_of d')" "restrict_only d'"
      using ru s(3,4) by (simp_all add: restrict_only_iff)
  qed
qed (use assms in \<open>simp add: restore_home_ports_def\<close>)

end
