(* ===== verification/SetupInv.thy ===== *)
theory SetupInv
  imports StoreInv
begin

text \<open>
  The compound commits keep the invariant. Inside a sync the restrict-only rule may be broken for a
  while (a channel is disabled before the rules that pointed at it are known to be gone), so the
  phases are first shown to keep the rest, and how far they keep channels enabled; the checks at the
  end then give the rule back.
\<close>

section \<open>The part kept by every phase\<close>

definition base_ok :: "data \<Rightarrow> bool" where
  "base_ok d = (data_wf d \<and> distinct_ports (port_at d) \<and> table_ok (rules_of d))"

lemma store_ok_base: "store_ok d \<longleftrightarrow> base_ok d \<and> restrict_only d"
  by (auto simp: store_ok_def base_ok_def)

lemma base_okD:
  assumes "base_ok d"
  shows "data_wf d" "distinct_ports (port_at d)" "table_ok (rules_of d)"
  using assms by (simp_all add: base_ok_def)

lemma base_ok_put:
  assumes "base_ok d" "distinct_ports (port_at (put_chan p c ch d))"
  shows "base_ok (put_chan p c ch d)"
  using assms by (simp add: base_ok_def data_wf_put router_put)

text \<open>The references a bundle disables in so many words.\<close>

definition off_refs :: "specs \<Rightarrow> cref set" where
  "off_refs ps = {(p, c). \<exists>cs sp. (p, cs) \<in> set ps \<and> (c, sp) \<in> set cs \<and> sp_enabled sp = Some False}"

definition keeps_on :: "cref set \<Rightarrow> data \<Rightarrow> data \<Rightarrow> bool" where
  "keeps_on off d d' = (base_ok d' \<and> d_router d' = d_router d
     \<and> (\<forall>r. enabled_at d r \<longrightarrow> r \<notin> off \<longrightarrow> enabled_at d' r))"

lemma keeps_on_refl: "base_ok d \<Longrightarrow> keeps_on off d d"
  by (simp add: keeps_on_def)

lemma keeps_on_trans: "keeps_on off d d' \<Longrightarrow> keeps_on off d' d'' \<Longrightarrow> keeps_on off d d''"
  by (simp add: keeps_on_def)

lemma spec_update_facts:
  assumes "spec_update sync p c sp ch d = Inr ch'"
  shows "ch_enabled ch' = spec_enabled sp (Some ch)"
    "\<exists>ch1. repoint p c (sp_port sp) (ch\<lparr>ch_country := sp_country sp, ch_city := sp_city sp,
       ch_server := sp_server sp, ch_wg := spec_wg sp\<rparr>) d = Inr ch1 \<and> ch_port ch' = ch_port ch1"
proof -
  from assms obtain ch1 where r: "repoint p c (sp_port sp) (ch\<lparr>ch_country := sp_country sp, ch_city := sp_city sp,
       ch_server := sp_server sp, ch_wg := spec_wg sp\<rparr>) d = Inr ch1"
    and e: "ch' = (let ch2 = ch1\<lparr>ch_port_explicit :=
                 (if sp_port sp \<noteq> 0 then True else if sync then False else ch_port_explicit ch1)\<rparr>;
         ch3 = (if sp_label sp \<noteq> [] then ch2\<lparr>ch_label := sp_label sp\<rparr> else ch2);
         ch4 = (if spec_enabled sp (Some ch) then ch3\<lparr>ch_enabled := True\<rparr>
                else ch3\<lparr>ch_enabled := False, ch_probe := None\<rparr>) in
       ch4\<lparr>ch_reconnect := None\<rparr>)"
    by (auto simp only: spec_update_def bindR_eq_Inr Let_def sum.inject)
  show "ch_enabled ch' = spec_enabled sp (Some ch)" unfolding e Let_def by simp
  have "ch_port ch' = ch_port ch1" unfolding e Let_def by simp
  with r show "\<exists>ch1. repoint p c (sp_port sp) (ch\<lparr>ch_country := sp_country sp, ch_city := sp_city sp,
       ch_server := sp_server sp, ch_wg := spec_wg sp\<rparr>) d = Inr ch1 \<and> ch_port ch' = ch_port ch1" by blast
qed

lemma repoint_distinct:
  assumes "repoint p c port ch d = Inr ch1" "base_ok d" "get_chan d p c = Some ch0"
    and "ch_port ch = ch_port ch0" "ch_port ch2 = ch_port ch1"
  shows "distinct_ports (port_at (put_chan p c ch2 d))"
proof (cases "port \<noteq> 0 \<and> port \<noteq> ch_port ch")
  case False
  with assms(1) have "ch1 = ch" by (auto simp: repoint_def)
  with assms show ?thesis by (intro distinct_ports_put base_okD(2)) auto
next
  case True
  then obtain q where q: "claim_port d port (Some (p, c)) = Inr q" "ch1 = ch\<lparr>ch_port := q\<rparr>"
    using assms(1) by (auto simp: repoint_def)
  from q(1) have qp: "q = port" by (auto simp: claim_port_def Let_def split: if_splits option.splits)
  show ?thesis
  proof (rule distinct_ports_upd[OF base_okD(2)[OF assms(2)]])
    show "port_at (put_chan p c ch2 d) y = (if y = Some (p, c) then port else port_at d y)" for y
      using get_chan_provider[OF assms(3)] assms(5) q(2) qp by (simp add: port_at_put)
    show "port_at d y = port \<Longrightarrow> port \<noteq> 0 \<Longrightarrow> y = Some (p, c)" for y
      using claim_port_own[OF q(1) base_okD(1,2)[OF assms(2)]] assms(3) by simp
  qed
qed

lemma apply_spec_keeps:
  assumes "apply_spec sync p (c, sp) (s, e, d) = Inr (s', e', d')" "base_ok d"
    and "sp_enabled sp = Some False \<Longrightarrow> (p, c) \<in> off"
  shows "keeps_on off d d'"
proof (cases "get_chan d p c")
  case None
  with assms(1) obtain q where q: "port_or_free e d (sp_port sp) = Inr (q, e')"
    and d': "d' = put_chan p c (spec_entry sync sp q) d"
    by (auto simp: apply_spec_def)
  have "ch_port (spec_entry sync sp q) \<notin> port_set d" using port_or_free_fresh[OF q] by (simp add: spec_entry_def)
  then have "base_ok d'" unfolding d'
    using base_ok_put[OF assms(2)] distinct_ports_put_fresh[OF base_okD(2)[OF assms(2)]] by blast
  moreover have "enabled_at d' r" if "enabled_at d r" for r
  proof -
    have "r \<noteq> (p, c)" using that None by (auto simp: enabled_at_def)
    with that show ?thesis unfolding d' by (simp add: enabled_at_put)
  qed
  ultimately show ?thesis by (simp add: keeps_on_def d' router_put)
next
  case (Some ch)
  show ?thesis
  proof (cases "d' = d")
    case True
    then show ?thesis using keeps_on_refl[OF assms(2)] by simp
  next
    case False
    with assms(1) Some obtain ch' where u: "spec_update sync p c sp ch d = Inr ch'"
      and d': "d' = put_chan p c ch' d"
      by (auto simp: apply_spec_def split: if_splits)
    note f = spec_update_facts[OF u]
    from f(2) obtain ch1 where r: "repoint p c (sp_port sp) (ch\<lparr>ch_country := sp_country sp, ch_city := sp_city sp,
       ch_server := sp_server sp, ch_wg := spec_wg sp\<rparr>) d = Inr ch1" "ch_port ch' = ch_port ch1" by blast
    have "base_ok d'" unfolding d'
      by (rule base_ok_put[OF assms(2) repoint_distinct[OF r(1) assms(2) Some _ r(2)]]) simp
    moreover have "enabled_at d' x" if x: "enabled_at d x" "x \<notin> off" for x
    proof (cases "x = (p, c)")
      case True
      with x Some have "ch_enabled ch" by (simp add: enabled_at_def)
      with True x assms(3) f(1) have "ch_enabled ch'"
        by (cases "sp_enabled sp") (auto simp: spec_enabled_def)
      with True get_chan_provider[OF Some] show ?thesis by (simp add: d' enabled_at_put)
    qed (use x in \<open>auto simp: d' enabled_at_put\<close>)
    ultimately show ?thesis by (simp add: keeps_on_def d' router_put)
  qed
qed

lemma open_provider_keeps:
  assumes "open_provider sync p (s, e, d) = (s', e', d')" "base_ok d" "CHR ''/'' \<notin> set p"
  shows "keeps_on off d d'"
proof (cases "dget (d_providers d) p")
  case None
  let ?pv = "\<lparr>pv_channels = [], pv_managed = sync\<rparr>"
  have d': "d' = d\<lparr>d_providers := dset p ?pv (d_providers d)\<rparr>"
    using assms(1) None by (simp add: open_provider_def)
  have g: "get_chan d' = get_chan d" unfolding d' by (rule get_chan_new_provider[OF None]) simp
  have "data_wf d'" unfolding d' using base_okD(1)[OF assms(2)] assms(3) None
    by (intro data_wf_new_provider) simp_all
  then show ?thesis
    using base_okD(2,3)[OF assms(2)] port_at_cong[OF g] enabled_at_cong[OF g]
    by (simp add: keeps_on_def base_ok_def d')
next
  case (Some pv)
  with assms show ?thesis by (simp add: open_provider_def keeps_on_refl)
qed

lemma apply_provider_keeps:
  assumes "apply_provider sync (p, cs) (s, e, d) = Inr (s', e', d')" "base_ok d" "CHR ''/'' \<notin> set p"
    and "\<And>c sp. (c, sp) \<in> set cs \<Longrightarrow> sp_enabled sp = Some False \<Longrightarrow> (p, c) \<in> off"
  shows "keeps_on off d d'"
proof -
  obtain s1 e1 d1 where o: "open_provider sync p (s, e, d) = (s1, e1, d1)" by (metis prod.exhaust)
  have k1: "keeps_on off d d1" by (rule open_provider_keeps[OF o assms(2,3)])
  have f: "foldR (apply_spec sync p) cs (s1, e1, d1) = Inr (s', e', d')"
    using assms(1) o by (simp add: apply_provider_def)
  have "keeps_on off d (snd (snd (s', e', d')))"
  proof (rule foldR_keeps[OF f, of "\<lambda>st. keeps_on off d (snd (snd st))"])
    show "keeps_on off d (snd (snd (s1, e1, d1)))" using k1 by simp
    fix x st st' assume x: "x \<in> set cs" and k: "keeps_on off d (snd (snd st))" and a: "apply_spec sync p x st = Inr st'"
    obtain c sp where xe: "x = (c, sp)" by force
    obtain s2 e2 d2 where st: "st = (s2, e2, d2)" by (metis prod.exhaust)
    obtain s3 e3 d3 where st': "st' = (s3, e3, d3)" by (metis prod.exhaust)
    have b: "base_ok d2" using k st by (simp add: keeps_on_def)
    have "keeps_on off d2 d3"
      by (rule apply_spec_keeps[OF a[unfolded xe st st'] b]) (use assms(4) x xe in auto)
    then show "keeps_on off d (snd (snd st'))" using k st st' keeps_on_trans by auto
  qed
  then show ?thesis by simp
qed

text \<open>A bundle is a dictionary of dictionaries, its provider keys without a slash.\<close>

definition specs_wf :: "specs \<Rightarrow> bool" where
  "specs_wf ps = (distinct (keys ps) \<and> (\<forall>(p, cs) \<in> set ps. CHR ''/'' \<notin> set p \<and> distinct (keys cs)))"

lemma apply_all_keeps:
  assumes "foldR (apply_provider sync) ps (s, e, d) = Inr (s', e', d')" "base_ok d" "specs_wf ps"
  shows "keeps_on (off_refs ps) d d'"
proof -
  let ?off = "off_refs ps"
  have "keeps_on ?off d (snd (snd (s', e', d')))"
  proof (rule foldR_keeps[OF assms(1), of "\<lambda>st. keeps_on ?off d (snd (snd st))"])
    show "keeps_on ?off d (snd (snd (s, e, d)))" using keeps_on_refl[OF assms(2)] by simp
    fix x st st' assume x: "x \<in> set ps" and k: "keeps_on ?off d (snd (snd st))"
      and a: "apply_provider sync x st = Inr st'"
    obtain p cs where xe: "x = (p, cs)" by force
    obtain s2 e2 d2 where st: "st = (s2, e2, d2)" by (metis prod.exhaust)
    obtain s3 e3 d3 where st': "st' = (s3, e3, d3)" by (metis prod.exhaust)
    have b: "base_ok d2" using k st by (simp add: keeps_on_def)
    have "CHR ''/'' \<notin> set p" using assms(3) x xe by (auto simp: specs_wf_def)
    from apply_provider_keeps[OF a[unfolded xe st st'] b this, of ?off]
    have "keeps_on ?off d2 d3" using x xe by (fastforce simp: off_refs_def)
    then show "keeps_on ?off d (snd (snd st'))" using k st st' keeps_on_trans by auto
  qed
  then show ?thesis by simp
qed

section \<open>Router settings\<close>

lemma claim_router_port_fresh:
  assumes "claim_router_port d port = Inr q"
  shows "q = rt_port (d_router d) \<or> q \<notin> port_set d"
proof (cases "port \<noteq> 0 \<and> port \<noteq> rt_port (d_router d)")
  case True
  with assms have "q = port" "dget (dpop (rt_port (d_router d)) (used_ports d)) port = None"
    by (auto simp: claim_router_port_def split: option.splits)
  with True have "dget (used_ports d) q = None" by simp
  then show ?thesis by (simp add: port_set_def map_of_eq_None_iff)
qed (use assms in \<open>auto simp: claim_router_port_def\<close>)

lemma router_settings_ok [inv_intros]:
  assumes "router_settings sync ks ld port d = Inr d'" "store_ok d"
  shows "store_ok d'"
  using assms claim_router_port_fresh[of d port]
  by (auto simp: router_settings_def Let_def intro!: store_ok_router)

section \<open>Merge\<close>

lemma refused_off:
  assumes "refuse_referenced d (disabling d ps) = Inr u" "restrict_only d"
  shows "off_refs ps \<inter> referenced (rules_of d) = {}"
proof (rule ccontr)
  assume "\<not> ?thesis"
  then obtain p c cs sp where r: "(p, cs) \<in> set ps" "(c, sp) \<in> set cs" "sp_enabled sp = Some False"
    "(p, c) \<in> referenced (rules_of d)" by (auto simp: off_refs_def)
  then have "enabled_at d (p, c)" using assms(2) by (auto simp: restrict_only_iff)
  with r have "(p, c) \<in> set (disabling d ps)"
    by (force simp: disabling_def enabled_at_def split: option.splits)
  with r assms(1) show False by (auto simp: refuse_referenced_def Let_def rules_referencing_empty)
qed

lemma ensure_targets_iff:
  "ensure_targets ts d = Inr u \<longleftrightarrow> (\<forall>t \<in> set ts. ensure_channel_target d t = Inr ())"
proof -
  have "foldR (\<lambda>t _. ensure_channel_target d t) ts v = Inr u \<longleftrightarrow> (\<forall>t \<in> set ts. ensure_channel_target d t = Inr ())" for v
    by (induction ts arbitrary: v) auto
  then show ?thesis by (simp add: ensure_targets_def)
qed

lemma table_ok_append_rows:
  assumes "table_ok rs" "next_ruleset_id rs = Inr i" "mint rs ms t i n m = Inr rows"
  shows "table_ok (rs @ rows)"
proof (cases "rows = []")
  case False
  from assms(1) obtain bs where t: "blocks_ok bs" "rs = flat bs" "distinct (map rid rs)" "nums_ok rs"
    by (rule table_okE)
  note f = next_ruleset_id_fresh[OF assms(2)] and m = mint_facts[OF assms(3)]
  let ?b = "\<lparr>b_id = i, b_name = block_name (hd rows), b_target = t, b_rules = rows\<rparr>"
  have "block_ok ?b" using m(2) f(3) False by (simp add: block_ok_def)
  moreover have "i \<notin> set (map b_id bs)"
  proof
    assume "i \<in> set (map b_id bs)"
    then obtain x where "x \<in> set bs" "b_id x = i" by auto
    moreover from this t(1) obtain r where "r \<in> set (b_rules x)" "rruleset r = i"
      by (metis (no_types, lifting) block_ok_def blocks_ok_def last_in_set list_all_iff)
    ultimately have "r \<in> set rs" "rruleset r = i" unfolding t(2) by (auto simp: flat_def)
    with f(1) show False by auto
  qed
  ultimately have "blocks_ok (bs @ [?b])" using t(1) by (auto simp: blocks_ok_def)
  moreover have "flat (bs @ [?b]) = rs @ rows" using t(2) by simp
  moreover have "nums_ok rows" using m(2,5) f(2) by (auto simp: nums_ok_def ruleset_num_def)
  ultimately show ?thesis using table_okI[of "bs @ [?b]"] t(3,4) m(3,4) by auto
qed (use assms in simp)

lemma append_ruleset_ok:
  assumes "append_ruleset b (s, e, d) = Inr (s', e', d')" "store_ok d"
    and "ensure_channel_target d (rs_target b) = Inr ()"
  shows "store_ok d' \<and> d_providers d' = d_providers d"
proof -
  from assms(1) obtain i rows where i: "next_ruleset_id (rules_of d) = Inr i"
    and m: "mint (rules_of d) (rs_matchers b) (rs_target b) i (rs_name b) False = Inr rows"
    and d': "d' = set_rules (rules_of d @ rows) d"
    by (auto simp: append_ruleset_def)
  have "table_ok (rules_of d')"
    using table_ok_append_rows[OF store_okD(3)[OF assms(2)] i m] by (simp add: d' set_rules_simps)
  moreover have "ensure_channel_target d (rtarget x) = Inr ()" if "x \<in> set (rules_of d @ rows)" for x
    using that mint_facts(2)[OF m] store_ok_target[OF assms(2)] assms(3) by auto
  ultimately have "store_ok d'" by (rule store_ok_set_rules[OF assms(2) d'])
  then show ?thesis by (simp add: d' set_rules_def)
qed

lemma ensure_target_cong: "d_providers d = d_providers e \<Longrightarrow> ensure_channel_target d = ensure_channel_target e"
  by (drule get_chan_cong) (intro ext, simp only: ensure_channel_target_def)

lemma merge_setup_ok [inv_intros]:
  assumes "merge_setup e ps rss ks ld port d = Inr (s, e', d')" "store_ok d" "specs_wf ps"
  shows "store_ok d'"
proof -
  note ok = store_okD[OF assms(2)]
  from assms(1) obtain s1 e1 d1 s2 e2 d2 where
    rf: "refuse_referenced d (disabling d ps) = Inr ()" and
    mc: "foldR (apply_provider False) ps (no_summary, e, d) = Inr (s1, e1, d1)" and
    et: "ensure_targets (map rs_target rss) d1 = Inr ()" and
    ar: "foldR append_ruleset rss (s1, e1, d1) = Inr (s2, e2, d2)" and
    rs: "router_settings False ks ld port d2 = Inr d'"
    by (auto simp: merge_setup_def merge_channels_def)
  have b: "base_ok d" using assms(2) by (simp add: store_ok_base)
  note k = apply_all_keeps[OF mc b assms(3)]
  have "restrict_only d1"
    using ok(4) refused_off[OF rf ok(4)] k by (auto simp: restrict_only_iff keeps_on_def)
  with k have d1: "store_ok d1" by (simp add: store_ok_base keeps_on_def)
  let ?P = "\<lambda>st :: apply_state. store_ok (snd (snd st)) \<and> d_providers (snd (snd st)) = d_providers d1"
  have "?P (s2, e2, d2)"
  proof (rule foldR_keeps[OF ar, of ?P])
    show "?P (s1, e1, d1)" using d1 by simp
    fix b st st' assume x: "b \<in> set rss" and p: "?P st" and a: "append_ruleset b st = Inr st'"
    obtain s3 e3 d3 where st: "st = (s3, e3, d3)" by (metis prod.exhaust)
    obtain s4 e4 d4 where st': "st' = (s4, e4, d4)" by (metis prod.exhaust)
    have "ensure_channel_target d3 (rs_target b) = Inr ()"
      using et x p st ensure_target_cong[of d3 d1] by (auto simp: ensure_targets_iff)
    from append_ruleset_ok[OF a[unfolded st st'] _ this] p st st' show "?P st'" by simp
  qed
  then show ?thesis using router_settings_ok[OF rs] by simp
qed

section \<open>Sync\<close>

lemma managed_rows_facts:
  "length (managed_rows n sp i ms) = length ms"
  "k < length ms \<Longrightarrow> managed_rows n sp i ms ! k = \<lparr>rid = ''r'' @ nat_str (n + k + 1), rtype = fst (ms ! k),
     rvalue = snd (ms ! k), rtarget = rs_target sp, rruleset = i, rname = Some (rs_name sp), rmanaged = True\<rparr>"
proof -
  show l: "length (managed_rows n sp i ms) = length ms"
    by (induction n sp i ms rule: managed_rows.induct) simp_all
  show "k < length ms \<Longrightarrow> managed_rows n sp i ms ! k = \<lparr>rid = ''r'' @ nat_str (n + k + 1), rtype = fst (ms ! k),
     rvalue = snd (ms ! k), rtarget = rs_target sp, rruleset = i, rname = Some (rs_name sp), rmanaged = True\<rparr>"
  proof (induction n sp i ms arbitrary: k rule: managed_rows.induct)
    case (2 n sp rsid t v ms)
    then show ?case by (cases k) simp_all
  qed simp
qed

lemma managed_rows_mem:
  assumes "x \<in> set (managed_rows n sp i ms)"
  shows "rtarget x = rs_target sp" "rruleset x = i" "\<exists>k. n < k \<and> k \<le> n + length ms \<and> rid x = ''r'' @ nat_str k"
proof -
  from assms obtain k where k: "k < length ms" "x = managed_rows n sp i ms ! k"
    by (auto simp: in_set_conv_nth managed_rows_facts(1))
  note f = managed_rows_facts(2)[OF k(1), of n sp i]
  show "rtarget x = rs_target sp" "rruleset x = i" using k(2) f by simp_all
  show "\<exists>j. n < j \<and> j \<le> n + length ms \<and> rid x = ''r'' @ nat_str j"
    using k f by (intro exI[of _ "n + k + 1"]) simp
qed

lemma managed_rows_distinct: "distinct (map rid (managed_rows n sp i ms))"
  by (auto simp: distinct_conv_nth managed_rows_facts)

text \<open>The invariant of the loop over blocks: \<open>mr\<close> and \<open>ms\<close> are the highest numbers of the old table.\<close>

definition sync_inv :: "nat \<Rightarrow> nat \<Rightarrow> rule list \<Rightarrow> string set \<Rightarrow> sync_state \<Rightarrow> bool" where
  "sync_inv mr ms old ids y = (mr \<le> y_rule y \<and> ms \<le> y_rsid y
     \<and> (\<exists>nb. blocks_ok nb \<and> flat nb = y_rules y
          \<and> set (map b_id nb) \<subseteq> ids \<union> {''rs'' @ nat_str k |k. ms < k \<and> k \<le> y_rsid y})
     \<and> distinct (map rid (y_rules y)) \<and> nums_ok (y_rules y)
     \<and> (\<forall>x \<in> set (y_rules y). x \<in> set old \<or>
          (rtarget x \<in> set (y_pending y) \<and> (\<exists>k. mr < k \<and> k \<le> y_rule y \<and> rid x = ''r'' @ nat_str k))))"

lemma rule_num_bound: "\<forall>x \<in> set old. \<forall>n. rule_num x = Inr n \<longrightarrow> n \<le> mr \<Longrightarrow> x \<in> set old \<Longrightarrow> mr < k \<Longrightarrow> rid x \<noteq> ''r'' @ nat_str k"
  using num_after_mint[of "''r''" k] by (auto simp: rule_num_def)

lemma emit_inv:
  assumes inv: "sync_inv mr ms old ids y" and i: "ids \<subseteq> ids'" "i \<noteq> []"
    and fresh: "\<forall>nb. blocks_ok nb \<and> flat nb = y_rules y \<longrightarrow> i \<notin> set (map b_id nb)"
    and num: "\<exists>n. num_after ''rs'' i = Inr n"
    and ii: "i \<in> ids' \<or> (\<exists>k. ms < k \<and> k \<le> y_rsid y \<and> i = ''rs'' @ nat_str k)"
    and old: "\<forall>x \<in> set old. \<forall>n. rule_num x = Inr n \<longrightarrow> n \<le> mr"
  shows "sync_inv mr ms old ids' (emit_rows sp i y)"
proof -
  let ?rows = "managed_rows (y_rule y) sp i (rs_matchers sp)"
  from inv obtain nb where nb: "blocks_ok nb" "flat nb = y_rules y"
    "set (map b_id nb) \<subseteq> ids \<union> {''rs'' @ nat_str k |k. ms < k \<and> k \<le> y_rsid y}"
    and m: "mr \<le> y_rule y" "ms \<le> y_rsid y" and d: "distinct (map rid (y_rules y))" "nums_ok (y_rules y)"
    and src: "\<forall>x \<in> set (y_rules y). x \<in> set old \<or>
          (rtarget x \<in> set (y_pending y) \<and> (\<exists>k. mr < k \<and> k \<le> y_rule y \<and> rid x = ''r'' @ nat_str k))"
    unfolding sync_inv_def by blast
  note mem = managed_rows_mem[of _ "y_rule y" sp i "rs_matchers sp"]
  have disj: "rid x \<noteq> rid z" if "x \<in> set (y_rules y)" "z \<in> set ?rows" for x z
  proof -
    from mem(3)[OF that(2)] obtain k where k: "y_rule y < k" "rid z = ''r'' @ nat_str k" by blast
    from bspec[OF src that(1)] show ?thesis
    proof
      assume "x \<in> set old"
      with rule_num_bound[OF old] k m(1) show ?thesis by auto
    next
      assume "rtarget x \<in> set (y_pending y) \<and> (\<exists>k. mr < k \<and> k \<le> y_rule y \<and> rid x = ''r'' @ nat_str k)"
      with k show ?thesis by auto
    qed
  qed
  have blocks: "\<exists>nb'. blocks_ok nb' \<and> flat nb' = y_rules y @ ?rows
      \<and> set (map b_id nb') \<subseteq> ids' \<union> {''rs'' @ nat_str k |k. ms < k \<and> k \<le> y_rsid y}"
  proof (cases "?rows = []")
    case True
    then show ?thesis using nb i(1) by (intro exI[of _ nb]) auto
  next
    case False
    let ?b = "\<lparr>b_id = i, b_name = block_name (hd ?rows), b_target = rs_target sp, b_rules = ?rows\<rparr>"
    have "block_ok ?b" using False i(2) mem by (simp add: block_ok_def)
    then have "blocks_ok (nb @ [?b])" using nb(1,2) fresh by (auto simp: blocks_ok_def)
    then show ?thesis using nb i(1) ii by (intro exI[of _ "nb @ [?b]"]) auto
  qed
  have nums: "nums_ok ?rows"
    unfolding nums_ok_def
  proof
    fix x assume x: "x \<in> set ?rows"
    from mem(2)[OF x] mem(3)[OF x] num num_after_mint[of "''r''"]
    show "(\<exists>n. rule_num x = Inr n) \<and> (\<exists>n. ruleset_num x = Inr n)"
      by (auto simp: rule_num_def ruleset_num_def)
  qed
  have dist: "distinct (map rid (y_rules y @ ?rows))"
    using d(1) managed_rows_distinct disj by (auto simp: distinct_map)
  have src': "x \<in> set old \<or> (rtarget x \<in> set (y_pending y @ [rs_target sp])
      \<and> (\<exists>k. mr < k \<and> k \<le> y_rule y + length (rs_matchers sp) \<and> rid x = ''r'' @ nat_str k))"
    if "x \<in> set (y_rules y @ ?rows)" for x
  proof -
    from that consider "x \<in> set (y_rules y)" | "x \<in> set ?rows" by auto
    then show ?thesis
    proof cases
      case 1
      with src show ?thesis by (fastforce intro: trans_le_add1)
    next
      case 2
      from mem(1)[OF 2] mem(3)[OF 2] m(1) show ?thesis by (fastforce intro: order_le_less_trans)
    qed
  qed
  show ?thesis
    unfolding sync_inv_def emit_rows_def
    using m blocks dist d(2) nums src' by (simp del: set_append map_append distinct_append)
qed


lemma sync_inv_blocks:
  assumes "sync_inv mr ms old ids y" "blocks_ok nb" "flat nb = y_rules y"
  shows "set (map b_id nb) \<subseteq> ids \<union> {''rs'' @ nat_str k |k. ms < k \<and> k \<le> y_rsid y}"
proof -
  from assms(1) obtain nb' where n: "blocks_ok nb'" "flat nb' = y_rules y"
    "set (map b_id nb') \<subseteq> ids \<union> {''rs'' @ nat_str k |k. ms < k \<and> k \<le> y_rsid y}"
    unfolding sync_inv_def by blast
  from blocks_ok_unique[OF n(1) assms(2)] n(2,3) assms(3) show ?thesis by simp
qed

lemma keep_inv:
  assumes inv: "sync_inv mr ms old ids y" and b: "block_ok b" "b_id b \<notin> ids" "set (b_rules b) \<subseteq> set old"
    and nk: "\<forall>k > ms. b_id b \<noteq> ''rs'' @ nat_str k"
    and dis: "distinct (map rid (b_rules b))" "rid ` set (b_rules b) \<inter> rid ` (set (y_rules y) \<inter> set old) = {}"
    and nums: "nums_ok (b_rules b)"
    and old: "\<forall>x \<in> set old. \<forall>n. rule_num x = Inr n \<longrightarrow> n \<le> mr"
  shows "sync_inv mr ms old (insert (b_id b) ids) (y\<lparr>y_rules := y_rules y @ b_rules b\<rparr>)"
proof -
  from inv obtain nb where nb: "blocks_ok nb" "flat nb = y_rules y"
    and m: "mr \<le> y_rule y" "ms \<le> y_rsid y" and d: "distinct (map rid (y_rules y))" "nums_ok (y_rules y)"
    and src: "\<forall>x \<in> set (y_rules y). x \<in> set old \<or>
          (rtarget x \<in> set (y_pending y) \<and> (\<exists>k. mr < k \<and> k \<le> y_rule y \<and> rid x = ''r'' @ nat_str k))"
    unfolding sync_inv_def by blast
  note ids = sync_inv_blocks[OF inv nb]
  have "b_id b \<notin> set (map b_id nb)" using ids b(2) nk by auto
  then have "blocks_ok (nb @ [b])" using nb(1) b(1) by (auto simp: blocks_ok_def)
  then have blocks: "\<exists>nb'. blocks_ok nb' \<and> flat nb' = y_rules y @ b_rules b
      \<and> set (map b_id nb') \<subseteq> insert (b_id b) ids \<union> {''rs'' @ nat_str k |k. ms < k \<and> k \<le> y_rsid y}"
    using nb(2) ids by (intro exI[of _ "nb @ [b]"]) auto
  have "rid x \<noteq> rid z" if "x \<in> set (y_rules y)" "z \<in> set (b_rules b)" for x z
  proof -
    from bspec[OF src that(1)] show ?thesis
    proof
      assume "x \<in> set old"
      with that dis(2) show ?thesis by (auto simp: disjoint_iff image_iff)
    next
      assume "rtarget x \<in> set (y_pending y) \<and> (\<exists>k. mr < k \<and> k \<le> y_rule y \<and> rid x = ''r'' @ nat_str k)"
      then obtain k where "mr < k" "rid x = ''r'' @ nat_str k" by blast
      with rule_num_bound[OF old, of z k] that(2) b(3) show ?thesis by auto
    qed
  qed
  then have dist: "distinct (map rid (y_rules y @ b_rules b))"
    using d(1) dis(1) by (auto simp: distinct_map)
  have src': "x \<in> set old \<or> (rtarget x \<in> set (y_pending y) \<and> (\<exists>k. mr < k \<and> k \<le> y_rule y \<and> rid x = ''r'' @ nat_str k))"
    if "x \<in> set (y_rules y @ b_rules b)" for x
    using that src b(3) by auto
  show ?thesis
    unfolding sync_inv_def
    using m blocks dist d(2) nums src' by (simp del: set_append map_append distinct_append)
qed

lemma sync_inv_mono: "sync_inv mr ms old ids y \<Longrightarrow> ids \<subseteq> ids' \<Longrightarrow> sync_inv mr ms old ids' y"
  unfolding sync_inv_def by blast

lemma sync_inv_summary [simp]: "sync_inv mr ms old ids (y\<lparr>y_summary := s\<rparr>) = sync_inv mr ms old ids y"
  by (simp add: sync_inv_def)

lemma emit_fields [simp]:
  "y_rsid (emit_rows sp i y) = y_rsid y"
  by (simp add: emit_rows_def)

text \<open>One block of the old table. \<open>pre\<close> are the blocks handled so far.\<close>

lemma converge_block_inv:
  assumes inv: "sync_inv mr ms (flat bs) (b_id ` set pre) y"
    and old_in: "rid ` set (b_rules b) \<inter> rid ` (set (y_rules y) \<inter> set (flat bs)) = {}"
    and bs: "blocks_ok bs" "bs = pre @ b # post" "distinct (map rid (flat bs))" "nums_ok (flat bs)"
    and nums: "\<forall>x \<in> set (flat bs). \<forall>n. rule_num x = Inr n \<longrightarrow> n \<le> mr"
      "\<forall>x \<in> set (flat bs). \<forall>n. ruleset_num x = Inr n \<longrightarrow> n \<le> ms"
  shows "sync_inv mr ms (flat bs) (b_id ` set (pre @ [b])) (converge_block desired matched b y)"
proof -
  have bo: "block_ok b" and bn: "b_id b \<notin> b_id ` set pre" using bs(1,2) by (auto simp: blocks_ok_def)
  obtain r0 where r0: "r0 \<in> set (b_rules b)" "rruleset r0 = b_id b" "r0 \<in> set (flat bs)"
  proof -
    from bo have "last (b_rules b) \<in> set (b_rules b)" by (simp add: block_ok_def)
    with bo bs(2) that[of "last (b_rules b)"] show thesis by (auto simp: block_ok_def)
  qed
  then have num: "\<exists>n. num_after ''rs'' (b_id b) = Inr n"
    using bs(4) by (auto simp: nums_ok_def ruleset_num_def)
  have nk: "\<forall>k > ms. b_id b \<noteq> ''rs'' @ nat_str k"
  proof (intro allI impI notI)
    fix k assume "ms < k" "b_id b = ''rs'' @ nat_str k"
    then have "ruleset_num r0 = Inr k" using r0(2) num_after_mint[of "''rs''" k] by (simp add: ruleset_num_def)
    with nums(2) r0(3) \<open>ms < k\<close> show False by fastforce
  qed
  have sub: "set (b_rules b) \<subseteq> set (flat bs)" using bs(2) by auto
  have k: "sync_inv mr ms (flat bs) (b_id ` set (pre @ [b])) (y\<lparr>y_rules := y_rules y @ b_rules b\<rparr>)"
  proof -
    have "nums_ok (b_rules b)" "distinct (map rid (b_rules b))" using bs(2-4) by simp_all
    then show ?thesis using keep_inv[OF inv bo bn sub nk _ old_in _ nums(1)] by simp
  qed
  have e: "sync_inv mr ms (flat bs) (b_id ` set (pre @ [b])) (emit_rows sp (b_id b) y)" for sp
  proof (rule emit_inv[OF inv])
    show "b_id b \<noteq> []" using bo by (simp add: block_ok_def)
    show "\<forall>nb. blocks_ok nb \<and> flat nb = y_rules y \<longrightarrow> b_id b \<notin> set (map b_id nb)"
    proof (intro allI impI notI)
      fix nb assume nb: "blocks_ok nb \<and> flat nb = y_rules y" and i: "b_id b \<in> set (map b_id nb)"
      have "b_id b \<in> b_id ` set pre \<union> {''rs'' @ nat_str k |k. ms < k \<and> k \<le> y_rsid y}"
        by (rule subsetD[OF sync_inv_blocks[OF inv] i]) (use nb in simp_all)
      with bn nk show False by blast
    qed
  qed (use num nums(1) in auto)
  have p: "sync_inv mr ms (flat bs) (b_id ` set (pre @ [b])) y"
    using sync_inv_mono[OF inv] by auto
  show ?thesis
    using k e p by (auto simp: converge_block_def Let_def split: option.split)
qed

lemma converge_block_rules:
  "set (y_rules (converge_block desired matched b y)) \<subseteq> set (y_rules y) \<union> set (b_rules b)
     \<union> {x. \<exists>k. y_rule y < k \<and> rid x = ''r'' @ nat_str k}"
  using managed_rows_mem(3)
  by (auto simp: converge_block_def Let_def emit_rows_def split: option.splits if_splits) blast+

lemma converge_blocks_inv:
  assumes "blocks_ok bs" "distinct (map rid (flat bs))" "nums_ok (flat bs)"
    and nums: "\<forall>x \<in> set (flat bs). \<forall>n. rule_num x = Inr n \<longrightarrow> n \<le> mr"
      "\<forall>x \<in> set (flat bs). \<forall>n. ruleset_num x = Inr n \<longrightarrow> n \<le> ms"
  shows "bs = pre @ post \<Longrightarrow> sync_inv mr ms (flat bs) (b_id ` set pre) y
    \<Longrightarrow> set (y_rules y) \<inter> set (flat bs) \<subseteq> set (flat pre)
    \<Longrightarrow> sync_inv mr ms (flat bs) (b_id ` set bs) (fold (converge_block desired matched) post y)"
proof (induction post arbitrary: pre y)
  case (Cons b post)
  let ?y = "converge_block desired matched b y"
  have d: "distinct (map rid (flat pre @ b_rules b @ flat post))" using assms(2) Cons.prems(1) by simp
  then have "rid ` set (b_rules b) \<inter> rid ` set (flat pre) = {}" by auto
  then have old: "rid ` set (b_rules b) \<inter> rid ` (set (y_rules y) \<inter> set (flat bs)) = {}"
    using Cons.prems(3) by blast
  have inv: "sync_inv mr ms (flat bs) (b_id ` set (pre @ [b])) ?y"
    by (rule converge_block_inv[OF Cons.prems(2) old assms(1) Cons.prems(1) assms(2,3) nums])
  have m: "mr \<le> y_rule y" using Cons.prems(2) by (simp add: sync_inv_def)
  have "set (y_rules ?y) \<inter> set (flat bs) \<subseteq> set (flat (pre @ [b]))"
  proof
    fix x assume x: "x \<in> set (y_rules ?y) \<inter> set (flat bs)"
    then consider "x \<in> set (y_rules y)" | "x \<in> set (b_rules b)" | k where "y_rule y < k" "rid x = ''r'' @ nat_str k"
      using converge_block_rules[of desired matched b y] by blast
    then show "x \<in> set (flat (pre @ [b]))"
    proof cases
      case 3
      with rule_num_bound[OF nums(1), of x k] m x show ?thesis by auto
    qed (use x Cons.prems(3) in auto)
  qed
  with Cons.IH[of "pre @ [b]" ?y] Cons.prems(1) inv show ?case by simp
qed simp

lemma add_block_inv:
  assumes inv: "sync_inv mr ms old ids y"
    and ids: "\<forall>i \<in> ids. \<forall>k > ms. i \<noteq> ''rs'' @ nat_str k"
    and old: "\<forall>x \<in> set old. \<forall>n. rule_num x = Inr n \<longrightarrow> n \<le> mr"
  shows "sync_inv mr ms old ids (add_block matched x y)"
proof -
  obtain i sp where x: "x = (i, sp)" by force
  let ?y = "y\<lparr>y_rsid := y_rsid y + 1\<rparr>" and ?i = "''rs'' @ nat_str (y_rsid y + 1)"
  have inv': "sync_inv mr ms old ids ?y"
  proof -
    have "{''rs'' @ nat_str k |k. ms < k \<and> k \<le> y_rsid y} \<subseteq> {''rs'' @ nat_str k |k. ms < k \<and> k \<le> y_rsid y + 1}"
      by force
    with inv show ?thesis unfolding sync_inv_def by (simp del: nat_str_inj) (meson Un_mono order_refl subset_trans)
  qed
  have m: "ms \<le> y_rsid y" using inv by (simp add: sync_inv_def)
  have "sync_inv mr ms old ids (emit_rows sp ?i ?y)"
  proof (rule emit_inv[OF inv'])
    show "\<forall>nb. blocks_ok nb \<and> flat nb = y_rules ?y \<longrightarrow> ?i \<notin> set (map b_id nb)"
    proof (intro allI impI notI)
      fix nb assume nb: "blocks_ok nb \<and> flat nb = y_rules ?y" and i: "?i \<in> set (map b_id nb)"
      have "?i \<in> ids \<union> {''rs'' @ nat_str k |k. ms < k \<and> k \<le> y_rsid y}"
        by (rule subsetD[OF sync_inv_blocks[OF inv] i]) (use nb in simp_all)
      then show False
      proof
        assume "?i \<in> ids"
        from ids[THEN bspec, OF this, THEN spec, of "y_rsid y + 1"] m show False by simp
      next
        assume "?i \<in> {''rs'' @ nat_str k |k. ms < k \<and> k \<le> y_rsid y}"
        then obtain k where "nat_str (y_rsid y + 1) = nat_str k" "k \<le> y_rsid y" by auto
        then show False by (simp only: nat_str_inj)
      qed
    qed
    show "\<exists>n. num_after ''rs'' ?i = Inr n" using num_after_mint by blast
    show "?i \<in> ids \<or> (\<exists>k. ms < k \<and> k \<le> y_rsid ?y \<and> ?i = ''rs'' @ nat_str k)"
      using m by (intro disjI2 exI[of _ "y_rsid y + 1"]) simp
  qed (use old in auto)
  then show ?thesis using inv by (simp add: add_block_def x Let_def)
qed

lemma converge_rules_ok:
  assumes "converge_rules desired rules = Inr y" "table_ok rules"
  shows "table_ok (y_rules y) \<and> (\<forall>x \<in> set (y_rules y). x \<in> set rules \<or> rtarget x \<in> set (y_pending y))"
proof -
  from assms(2) obtain bs where t: "blocks_ok bs" "rules = flat bs" "ruleset_blocks rules = Inr bs"
    "distinct (map rid rules)" "nums_ok rules" by (rule table_okE)
  from assms(1) t(3) obtain mr ms where
    mr: "max_num rule_num rules = Inr mr" and ms: "max_num ruleset_num rules = Inr ms"
    and y: "y = fold (add_block (match_blocks 0 desired bs [])) (enumerate 0 desired)
      (fold (converge_block desired (match_blocks 0 desired bs [])) bs
        \<lparr>y_rule = mr, y_rsid = ms, y_pending = [], y_rules = [], y_summary = no_summary\<rparr>)"
    by (auto simp: converge_rules_def Let_def)
  let ?mt = "match_blocks 0 desired bs []"
  let ?y0 = "\<lparr>y_rule = mr, y_rsid = ms, y_pending = [], y_rules = [], y_summary = no_summary\<rparr>"
  have nb: "\<forall>x \<in> set (flat bs). \<forall>n. rule_num x = Inr n \<longrightarrow> n \<le> mr"
    "\<forall>x \<in> set (flat bs). \<forall>n. ruleset_num x = Inr n \<longrightarrow> n \<le> ms"
    using max_num_bound[OF mr] max_num_bound[OF ms] t(2) by auto
  have "sync_inv mr ms (flat bs) (b_id ` set []) ?y0"
    unfolding sync_inv_def by (auto simp: blocks_ok_def nums_ok_def intro!: exI[of _ "[]"])
  from converge_blocks_inv[OF t(1) _ _ nb _ this, of bs desired ?mt] t
  have c: "sync_inv mr ms (flat bs) (b_id ` set bs) (fold (converge_block desired ?mt) bs ?y0)" by simp
  have ids: "\<forall>i \<in> b_id ` set bs. \<forall>k > ms. i \<noteq> ''rs'' @ nat_str k"
  proof (intro ballI allI impI notI)
    fix i k assume i: "i \<in> b_id ` set bs" and k: "ms < k" "i = ''rs'' @ nat_str k"
    from i obtain b where b: "b \<in> set bs" "b_id b = i" by auto
    with t(1) obtain r where "r \<in> set (b_rules b)" "rruleset r = i"
      by (metis (no_types, lifting) block_ok_def blocks_ok_def last_in_set list_all_iff)
    with b have "r \<in> set (flat bs)" "ruleset_num r = Inr k"
      using k(2) num_after_mint[of "''rs''" k] by (auto simp: flat_def ruleset_num_def)
    with nb(2) k(1) show False by fastforce
  qed
  have "sync_inv mr ms (flat bs) (b_id ` set bs) z \<Longrightarrow>
      sync_inv mr ms (flat bs) (b_id ` set bs) (fold (add_block ?mt) xs z)" for xs z
    by (induction xs arbitrary: z) (simp_all add: add_block_inv[OF _ ids nb(1)])
  from this[OF c] have inv: "sync_inv mr ms (flat bs) (b_id ` set bs) y" by (simp add: y)
  then obtain nb' where "blocks_ok nb'" "flat nb' = y_rules y" unfolding sync_inv_def by blast
  with inv have "table_ok (y_rules y)" using table_okI[of nb'] unfolding sync_inv_def by auto
  moreover have "\<forall>x \<in> set (y_rules y). x \<in> set rules \<or> rtarget x \<in> set (y_pending y)"
    using inv t(2) unfolding sync_inv_def by blast
  ultimately show ?thesis by blast
qed

subsection \<open>Pruning\<close>

lemma prune_channels_ok:
  assumes "prune_channels ps (s, d) = (s', d')" "base_ok d"
  shows "base_ok d' \<and> d_router d' = d_router d
    \<and> (\<forall>r \<in> referenced (rules_of d). enabled_at d r \<longrightarrow> enabled_at d' r)"
proof -
  define cand where "cand = concat (map (\<lambda>(p, pv). map (\<lambda>(c, _). (p, c))
            (filter (\<lambda>(c, ch). ch_managed ch \<and> (p, c) \<notin> set (spec_refs ps)) (pv_channels pv))) (d_providers d))"
  define bl where "bl = rules_referencing d (set cand)"
  have bl_in: "dget bl (ref_str r) \<noteq> None" if "r \<in> referenced (rules_of d)" "r \<in> set cand" for r
    using rules_referencing_in[OF that] by (simp add: bl_def)
  have step: "base_ok (snd (prune_step bl r (x, e))) \<and> d_router (snd (prune_step bl r (x, e))) = d_router e
      \<and> (\<forall>q \<in> referenced (rules_of d). enabled_at e q \<longrightarrow> enabled_at (snd (prune_step bl r (x, e))) q)"
    if r: "r \<in> set cand" and b: "base_ok e" for r x e
  proof (cases "dget bl (ref_str r)")
    case None
    then have nr: "r \<notin> referenced (rules_of d)" using bl_in r by blast
    have "port_at (pop_chan (fst r) (snd r) e) y = (if y = Some r then 0 else port_at e y)" for y
      by (auto simp: port_at_def get_chan_pop router_pop split: option.split prod.split)
    then have "distinct_ports (port_at (pop_chan (fst r) (snd r) e))"
      by (rule distinct_ports_upd[OF base_okD(2)[OF b]]) simp
    then have "base_ok (pop_chan (fst r) (snd r) e)"
      using b by (simp add: base_ok_def data_wf_pop router_pop)
    then show ?thesis using None nr by (auto simp: prune_step_def router_pop enabled_at_pop)
  qed (use b in \<open>simp add: prune_step_def\<close>)
  have "set rs \<subseteq> set cand \<Longrightarrow> base_ok e \<Longrightarrow> base_ok (snd (fold (prune_step bl) rs (x, e)))
      \<and> d_router (snd (fold (prune_step bl) rs (x, e))) = d_router e
      \<and> (\<forall>q \<in> referenced (rules_of d). enabled_at e q \<longrightarrow> enabled_at (snd (fold (prune_step bl) rs (x, e))) q)" for rs x e
  proof (induction rs arbitrary: x e)
    case (Cons r rs)
    obtain x1 e1 where p: "prune_step bl r (x, e) = (x1, e1)" by force
    from step[of r e x] Cons.prems p have "base_ok e1" "d_router e1 = d_router e"
      "\<forall>q \<in> referenced (rules_of d). enabled_at e q \<longrightarrow> enabled_at e1 q" by auto
    with Cons.IH[of e1 x1] Cons.prems p show ?case by auto
  qed simp
  from this[of cand d s] assms show ?thesis
    by (simp add: prune_channels_def Let_def cand_def bl_def)
qed

lemma prune_providers_ok:
  assumes "prune_providers ps (s, d) = (s', d')" "base_ok d"
  shows "base_ok d' \<and> d_router d' = d_router d \<and> get_chan d' = get_chan d"
proof -
  define dropped where "dropped = map fst (filter (\<lambda>(p, pv). p \<notin> set (keys ps) \<and> pv_managed pv \<and> pv_channels pv = [])
            (d_providers d))"
  have d': "d' = d\<lparr>d_providers := fold dpop dropped (d_providers d)\<rparr>"
    using assms(1) by (auto simp: prune_providers_def Let_def dropped_def)
  have e: "get_chan d p c = None" if "p \<in> set dropped" for p c
  proof -
    from that obtain pv where "(p, pv) \<in> set (d_providers d)" "pv_channels pv = []"
      by (auto simp: dropped_def)
    with base_okD(1)[OF assms(2)] have "dget (d_providers d) p = Some pv" by (simp add: data_wf_def)
    with \<open>pv_channels pv = []\<close> show ?thesis by (simp add: get_chan_def channels_of_def)
  qed
  have "set ds \<subseteq> set dropped \<Longrightarrow> data_wf x \<Longrightarrow> (\<forall>p \<in> set dropped. \<forall>c. get_chan x p c = None) \<Longrightarrow>
      data_wf (x\<lparr>d_providers := fold dpop ds (d_providers x)\<rparr>)
      \<and> get_chan (x\<lparr>d_providers := fold dpop ds (d_providers x)\<rparr>) = get_chan x" for ds x
  proof (induction ds arbitrary: x)
    case (Cons p ds)
    let ?x = "x\<lparr>d_providers := dpop p (d_providers x)\<rparr>"
    have g: "get_chan ?x = get_chan x" using Cons.prems by (auto simp: get_chan_drop_provider fun_eq_iff)
    have "data_wf ?x" by (rule data_wf_drop_provider[OF Cons.prems(2)])
    with Cons.IH[of ?x] Cons.prems g show ?case by simp
  qed simp
  from this[of dropped d] base_okD(1)[OF assms(2)] e
  have "data_wf d'" "get_chan d' = get_chan d" by (auto simp: d')
  moreover have "port_at d' = port_at d" by (rule port_at_cong[OF calculation(2)]) (simp add: d')
  ultimately show ?thesis using assms(2) by (simp add: base_ok_def d')
qed

lemma sync_setup_ok [inv_intros]:
  assumes "sync_setup e ps rss ks ld port d = Inr (s, e', d')" "store_ok d" "specs_wf ps"
  shows "store_ok d'"
proof -
  note ok = store_okD[OF assms(2)]
  from assms(1) obtain y where cr: "converge_rules rss (rules_of d) = Inr y"
    by (auto simp: sync_setup_def Let_def)
  obtain sa da where pc: "prune_channels ps (y_summary y, set_rules (y_rules y) d) = (sa, da)" by force
  obtain sb db where pp: "prune_providers ps (sa, da) = (sb, db)" by force
  from assms(1) cr pc pp obtain s2 e2 d2 where
    sc: "foldR (apply_provider True) ps (sb, e, db) = Inr (s2, e2, d2)" and
    et: "ensure_targets (y_pending y) d2 = Inr ()" and
    rf: "refuse_referenced d2 (disabling d ps) = Inr ()" and
    rs: "router_settings True ks ld port d2 = Inr d'"
    by (auto simp: sync_setup_def Let_def sync_channels_def)
  note c = converge_rules_ok[OF cr ok(3)]
  let ?d0 = "set_rules (y_rules y) d"
  have "port_at ?d0 = port_at d" by (rule port_at_cong) (simp_all add: set_rules_simps)
  then have b0: "base_ok ?d0" using ok c by (simp add: base_ok_def set_rules_simps)
  note p1 = prune_channels_ok[OF pc b0]
  then have ba: "base_ok da" by simp
  note p2 = prune_providers_ok[OF pp ba]
  then have bb: "base_ok db" by simp
  note k = apply_all_keeps[OF sc bb assms(3)]
  have r2: "rules_of d2 = y_rules y" using k p1 p2 by (simp add: keeps_on_def set_rules_simps)
  have "restrict_only d2"
    unfolding restrict_only_iff
  proof
    fix r assume r: "r \<in> referenced (rules_of d2)"
    then obtain x where x: "x \<in> set (y_rules y)" "target_ref (rtarget x) = Some r"
      unfolding r2 by (auto simp: referenced_def)
    with c consider "x \<in> set (rules_of d)" | "rtarget x \<in> set (y_pending y)" by blast
    then show "enabled_at d2 r"
    proof cases
      case 1
      with x(2) have "r \<in> referenced (rules_of d)" by (auto simp: referenced_def)
      then have on: "enabled_at d r" using ok(4) by (simp add: restrict_only_iff)
      have ry: "r \<in> referenced (y_rules y)" using x by (auto simp: referenced_def)
      with on p1 have "enabled_at da r" by (simp add: set_rules_simps)
      with p2 enabled_at_cong[of db da] have "enabled_at db r" by simp
      moreover have "r \<notin> off_refs ps"
      proof
        assume "r \<in> off_refs ps"
        with on have "r \<in> set (disabling d ps)"
          by (cases r) (force simp: off_refs_def disabling_def enabled_at_def split: option.splits)
        with rf r show False by (auto simp: refuse_referenced_def Let_def rules_referencing_empty)
      qed
      ultimately show ?thesis using k by (cases r) (simp add: keeps_on_def)
    next
      case 2
      with et have "ensure_channel_target d2 (rtarget x) = Inr ()" by (simp add: ensure_targets_iff)
      with x(2) show ?thesis by (simp add: ensure_target_iff)
    qed
  qed
  with k have "store_ok d2" by (simp add: store_ok_base keeps_on_def)
  then show ?thesis using router_settings_ok[OF rs] by simp
qed

section \<open>Restore\<close>

text \<open>What a restored bundle must declare for its rules: each channel target is one of its own channels,
  not disabled (\<open>bundle.py\<close> checks it before the commit).\<close>

definition targets_declared :: "specs \<Rightarrow> rspec list \<Rightarrow> bool" where
  "targets_declared ps rss = (\<forall>b \<in> set rss. case target_ref (rs_target b) of None \<Rightarrow> True
     | Some (p, c) \<Rightarrow> (case dget ps p of None \<Rightarrow> False | Some cs \<Rightarrow>
         (case dget cs c of None \<Rightarrow> False | Some sp \<Rightarrow> sp_enabled sp \<noteq> Some False)))"

lemma see_ports:
  "foldR see_port xs seen = Inr seen' \<Longrightarrow>
   distinct (map fst (filter (\<lambda>x. fst x \<noteq> 0) xs)) \<and> (\<forall>x \<in> set xs. fst x \<noteq> 0 \<longrightarrow> dget seen (fst x) = None)"
proof (induction xs arbitrary: seen)
  case (Cons x xs)
  obtain q h where x: "x = (q, h)" by force
  show ?case
  proof (cases "q = 0")
    case True
    with Cons x show ?thesis by (simp add: see_port_def)
  next
    case False
    from Cons.prems obtain s1 where s1: "see_port x seen = Inr s1" "foldR see_port xs s1 = Inr seen'" by auto
    from s1(1) False x have n: "dget seen q = None" "s1 = dset q h seen"
      by (auto simp: see_port_def split: option.splits)
    from Cons.IH[OF s1(2)] n False x show ?thesis by (auto split: if_splits)
  qed
qed simp

lemma map_of_map_key: "map_of (map (\<lambda>(k, v). (k, f k v)) xs) k = map_option (f k) (map_of xs k)"
  by (induction xs) auto

lemma restore_providers_lookup:
  "dget (restore_providers ps d) p = map_option (\<lambda>cs. \<lparr>pv_channels = map (restore_entry d p) cs, pv_managed = False\<rparr>) (dget ps p)"
  unfolding restore_providers_def by (rule map_of_map_key)

lemma restore_entry_lookup:
  "dget (map (restore_entry d p) cs) c = map_option (\<lambda>sp. snd (restore_entry d p (c, sp))) (dget cs c)"
proof -
  have "restore_entry d p = (\<lambda>(c, sp). (c, snd (restore_entry d p (c, sp))))"
    by (simp add: restore_entry_def fun_eq_iff)
  then show ?thesis using map_of_map_key[of "\<lambda>c sp. snd (restore_entry d p (c, sp))" cs c] by simp
qed

lemma keys_restore_entries: "map fst (map (restore_entry d p) cs) = map fst cs"
  by (simp add: restore_entry_def case_prod_beta' comp_def)

lemma keys_restore_providers: "map fst (restore_providers ps d) = map fst ps"
  by (simp add: restore_providers_def case_prod_beta' comp_def)

lemma restore_providers_wf:
  assumes "specs_wf ps"
  shows "data_wf (d\<lparr>d_providers := restore_providers ps d0\<rparr>)"
  unfolding data_wf_def
proof (intro conjI ballI)
  show "distinct (keys (d_providers (d\<lparr>d_providers := restore_providers ps d0\<rparr>)))"
    using assms by (simp add: specs_wf_def keys_restore_providers)
  fix x assume "x \<in> set (d_providers (d\<lparr>d_providers := restore_providers ps d0\<rparr>))"
  then obtain p cs where x: "(p, cs) \<in> set ps" "x = (p, \<lparr>pv_channels = map (restore_entry d0 p) cs, pv_managed = False\<rparr>)"
    by (auto simp: restore_providers_def)
  with assms show "case x of (p, pv) \<Rightarrow> CHR ''/'' \<notin> set p \<and> distinct (keys (pv_channels pv))"
    using keys_restore_entries[of d0 p cs] by (auto simp: specs_wf_def simp del: map_map)
qed

lemma seen_distinct:
  assumes "data_wf d"
    and "foldR see_port (channel_claims d) (if rt_port (d_router d) \<noteq> 0 then [(rt_port (d_router d), router_name)] else []) = Inr seen"
  shows "distinct_ports (port_at d)"
proof -
  note s = see_ports[OF assms(2)]
  have inj: "inj_on fst (set (filter (\<lambda>x. fst x \<noteq> 0) (channel_claims d)))"
    using s by (simp add: distinct_map)
  have cl: "(ch_port ch, chan_holder (p, c)) \<in> set (channel_claims d)" if "get_chan d p c = Some ch" for p c ch
  proof -
    from that obtain pv where "(p, pv) \<in> set (d_providers d)" "(c, ch) \<in> set (pv_channels pv)"
      by (auto simp: get_chan_def channels_of_def split: option.splits dest!: map_of_SomeD)
    then show ?thesis by (force simp: channel_claims_def)
  qed
  have rt: "ch_port ch \<noteq> rt_port (d_router d)" if "get_chan d p c = Some ch" "ch_port ch \<noteq> 0" for p c ch
    using s cl[OF that(1)] that(2) by (auto split: if_splits)
  have cc: "(p, c) = (q, k)" if "get_chan d p c = Some ch" "get_chan d q k = Some ch'" "ch_port ch = ch_port ch'" "ch_port ch \<noteq> 0"
    for p c q k ch ch'
  proof -
    have "(ch_port ch, chan_holder (p, c)) = (ch_port ch', chan_holder (q, k))"
      by (rule inj_onD[OF inj]) (use cl[OF that(1)] cl[OF that(2)] that(3,4) in auto)
    then have "chan_holder (p, c) = chan_holder (q, k)" by simp
    with chan_holder_inj data_wf_provider[OF assms(1), of p c] data_wf_provider[OF assms(1), of q k] that(1,2)
    show ?thesis by simp
  qed
  show ?thesis
    unfolding distinct_ports_def
  proof (intro allI impI)
    fix x y assume n: "port_at d x \<noteq> 0" and e: "port_at d x = port_at d y"
    show "x = y"
    proof (cases x)
      case None
      with n e rt show ?thesis by (cases y) (force simp: port_at_def split: option.splits prod.splits)+
    next
      case (Some r)
      then obtain p c ch where r: "r = (p, c)" "get_chan d p c = Some ch" "port_at d x = ch_port ch"
        using n by (cases r) (auto simp: port_at_def split: option.splits)
      show ?thesis
      proof (cases y)
        case None
        with e n r(3) rt[OF r(2)] show ?thesis by (simp add: port_at_def)
      next
        case (Some q)
        have "port_at d (Some q) \<noteq> 0" using n e Some by simp
        then obtain p' c' ch' where q: "q = (p', c')" "get_chan d p' c' = Some ch'" "port_at d (Some q) = ch_port ch'"
          by (cases q) (simp add: port_at_def split: option.splits)
        have "(p, c) = (p', c')" by (rule cc[OF r(2) q(2)]) (use r(3) q(3) e n Some in simp_all)
        with r(1) q(1) Some \<open>x = Some r\<close> show ?thesis by simp
      qed
    qed
  qed
qed

lemma fill_ports_keep:
  assumes "foldR fill_port rs (e, d) = Inr (e', d')" "data_wf d" "distinct_ports (port_at d)"
  shows "data_wf d' \<and> distinct_ports (port_at d') \<and> d_router d' = d_router d \<and> enabled_at d' = enabled_at d"
proof -
  let ?P = "\<lambda>st :: os \<times> data. data_wf (snd st) \<and> distinct_ports (port_at (snd st)) \<and> d_router (snd st) = d_router d
    \<and> enabled_at (snd st) = enabled_at d"
  have "?P (e', d')"
  proof (rule foldR_keeps[OF assms(1), of ?P])
    show "?P (e, d)" using assms(2,3) by simp
    fix r st st' assume p: "?P st" and f: "fill_port r st = Inr st'"
    obtain x c where r: "r = (x, c)" by force
    obtain e1 d1 where st: "st = (e1, d1)" by force
    show "?P st'"
    proof (cases "st' = st")
      case False
      with f r st obtain ch q e2 where ch: "get_chan d1 x c = Some ch" and q: "next_free_port e1 d1 = Inr (q, e2)"
        and st': "st' = (e2, put_chan x c (ch\<lparr>ch_port := q\<rparr>) d1)"
        by (auto simp: fill_port_def split: option.splits if_splits)
      have en: "enabled_at (put_chan x c (ch\<lparr>ch_port := q\<rparr>) d1) = enabled_at d1"
        using ch get_chan_provider[OF ch] by (auto simp: fun_eq_iff enabled_at_put) (simp_all add: enabled_at_def)
      have "distinct_ports (port_at (put_chan x c (ch\<lparr>ch_port := q\<rparr>) d1))"
        by (rule distinct_ports_put_fresh) (use p st next_free_port_fresh[OF q] in auto)
      with p st st' en show ?thesis by (simp add: data_wf_put router_put)
    qed (use p in simp)
  qed
  then show ?thesis by simp
qed

lemma restore_rows_ok:
  "(\<exists>bs. blocks_ok bs \<and> flat bs = restore_rows i n rss \<and> (\<forall>b \<in> set bs. \<exists>k \<ge> i. b_id b = ''rs'' @ nat_str k))
   \<and> distinct (map rid (restore_rows i n rss)) \<and> nums_ok (restore_rows i n rss)
   \<and> (\<forall>x \<in> set (restore_rows i n rss). (\<exists>k > n. rid x = ''r'' @ nat_str k) \<and> (\<exists>b \<in> set rss. rtarget x = rs_target b))"
proof (induction i n rss rule: restore_rows.induct)
  case (1 i n)
  then show ?case by (auto simp: blocks_ok_def nums_ok_def intro!: exI[of _ "[]"])
next
  case (2 i n b rss)
  define rows where "rows = map (\<lambda>(k, t, v). \<lparr>rid = ''r'' @ nat_str (k + 1), rtype = t, rvalue = v,
            rtarget = rs_target b, rruleset = ''rs'' @ nat_str i, rname = Some (rs_name b), rmanaged = False\<rparr>)
          (enumerate n (rs_matchers b))"
  let ?rest = "restore_rows (i + 1) (n + length (rs_matchers b)) rss"
  have e: "restore_rows i n (b # rss) = rows @ ?rest" by (simp add: rows_def Let_def)
  from 2[OF refl] obtain bs where bs: "blocks_ok bs" "flat bs = ?rest"
      "\<forall>x \<in> set bs. \<exists>k \<ge> i + 1. b_id x = ''rs'' @ nat_str k"
    and r: "distinct (map rid ?rest)" "nums_ok ?rest"
      "\<forall>x \<in> set ?rest. (\<exists>k > n + length (rs_matchers b). rid x = ''r'' @ nat_str k) \<and> (\<exists>b \<in> set rss. rtarget x = rs_target b)"
    by blast
  have mem: "rtarget x = rs_target b \<and> rruleset x = ''rs'' @ nat_str i
      \<and> (\<exists>k. n < k \<and> k \<le> n + length (rs_matchers b) \<and> rid x = ''r'' @ nat_str k)" if "x \<in> set rows" for x
    using that by (auto simp: rows_def in_set_enumerate_eq)
  have "length rows = length (rs_matchers b)" by (simp add: rows_def)
  moreover have "rid (rows ! k) = ''r'' @ nat_str (n + k + 1)" if "k < length (rs_matchers b)" for k
    using that by (simp add: rows_def nth_enumerate_eq split: prod.split)
  ultimately have dr: "distinct (map rid rows)" by (simp add: distinct_conv_nth)
  have nr: "nums_ok rows"
    unfolding nums_ok_def
  proof
    fix x assume "x \<in> set rows"
    from mem[OF this] num_after_mint[of "''r''"] num_after_mint[of "''rs''"]
    show "(\<exists>n. rule_num x = Inr n) \<and> (\<exists>n. ruleset_num x = Inr n)" by (auto simp: rule_num_def ruleset_num_def)
  qed
  have blocks: "\<exists>bs'. blocks_ok bs' \<and> flat bs' = rows @ ?rest \<and> (\<forall>b \<in> set bs'. \<exists>k \<ge> i. b_id b = ''rs'' @ nat_str k)"
  proof (cases "rows = []")
    case True
    then show ?thesis using bs by (intro exI[of _ bs]) (auto dest: Suc_leD)
  next
    case False
    let ?b = "\<lparr>b_id = ''rs'' @ nat_str i, b_name = block_name (hd rows), b_target = rs_target b, b_rules = rows\<rparr>"
    have "block_ok ?b" using False mem by (simp add: block_ok_def)
    moreover have "b_id ?b \<notin> set (map b_id bs)" using bs(3) by fastforce
    ultimately have "blocks_ok (?b # bs)" using bs(1) by (simp add: blocks_ok_def)
    then show ?thesis using bs by (intro exI[of _ "?b # bs"]) (auto dest: Suc_leD)
  qed
  have disj: "rid ` set rows \<inter> rid ` set ?rest = {}"
  proof (rule ccontr)
    assume "\<not> ?thesis"
    then obtain x z where xz: "x \<in> set rows" "z \<in> set ?rest" "rid x = rid z" by auto
    from mem[OF xz(1)] r(3) xz(2,3) show False by fastforce
  qed
  have tgt: "(\<exists>k > n. rid x = ''r'' @ nat_str k) \<and> (\<exists>c \<in> set (b # rss). rtarget x = rs_target c)"
    if "x \<in> set (rows @ ?rest)" for x
  proof -
    from that consider "x \<in> set rows" | "x \<in> set ?rest" by auto
    then show ?thesis
    proof cases
      case 1
      with mem show ?thesis by auto
    next
      case 2
      with r(3) show ?thesis by (fastforce dest: add_lessD1)
    qed
  qed
  show ?case unfolding e
    using blocks dr r(1) disj nr r(2) tgt by (auto simp del: set_append)
qed

lemma restore_setup_ok [inv_intros]:
  assumes "restore_setup e ps rss ks ld port d = Inr (e', d')" "specs_wf ps" "targets_declared ps rss"
  shows "store_ok d'"
proof -
  define r1 where "r1 = (if port \<noteq> 0 then (d_router d)\<lparr>rt_port := port, rt_port_explicit := True\<rparr> else d_router d)"
  define d1 where "d1 = d\<lparr>d_providers := restore_providers ps d, d_router := r1\<rparr>"
  from assms(1) obtain seen d2 where
    sp: "foldR see_port (channel_claims d1) (if rt_port r1 \<noteq> 0 then [(rt_port r1, router_name)] else []) = Inr seen" and
    fp: "foldR fill_port (spec_refs ps) (e, d1) = Inr (e', d2)" and
    d': "d' = d2\<lparr>d_router := (d_router d2)\<lparr>rt_killswitch := ks, rt_lan_direct := ld,
               rt_rules := restore_rows 1 0 rss\<rparr>\<rparr>"
    unfolding restore_setup_def Let_def r1_def[symmetric] d1_def[symmetric] bindR_eq_Inr by auto
  have w1: "data_wf d1" using restore_providers_wf[OF assms(2), of d d] by (simp add: d1_def data_wf_def)
  have r: "d_router d1 = r1" by (simp add: d1_def)
  have p1: "distinct_ports (port_at d1)" by (rule seen_distinct[OF w1 sp[folded r]])
  note f = fill_ports_keep[OF fp w1 p1]
  have pa: "port_at d' = port_at d2" by (rule port_at_cong) (simp_all add: d' get_chan_router)
  note rr = restore_rows_ok[of 1 0 rss]
  show ?thesis
  proof (rule store_okI)
    show "data_wf d'" using f by (simp add: d')
    show "distinct_ports (port_at d')" using f pa by simp
    show "table_ok (rules_of d')" using rr table_okI by (simp add: d') metis
    show "restrict_only d'"
      unfolding restrict_only_iff
    proof
      fix q assume "q \<in> referenced (rules_of d')"
      then obtain x where x: "x \<in> set (restore_rows 1 0 rss)" "target_ref (rtarget x) = Some q"
        unfolding referenced_def d' by auto
      with rr obtain b where b: "b \<in> set rss" "rtarget x = rs_target b" by blast
      obtain p c where q: "q = (p, c)" by force
      have "target_ref (rs_target b) = Some (p, c)" using x(2) b(2) q by simp
      with assms(3) b(1) have "case dget ps p of None \<Rightarrow> False | Some cs \<Rightarrow>
          (case dget cs c of None \<Rightarrow> False | Some sp \<Rightarrow> sp_enabled sp \<noteq> Some False)"
        unfolding targets_declared_def by (fastforce dest!: bspec)
      then obtain cs sp where sp': "dget ps p = Some cs" "dget cs c = Some sp" "sp_enabled sp \<noteq> Some False"
        by (cases "dget ps p") (simp_all split: option.splits)
      have "get_chan d1 p c = Some (snd (restore_entry d p (c, sp)))"
        using sp' by (simp add: get_chan_def channels_of_def d1_def restore_providers_lookup restore_entry_lookup)
      then have "enabled_at d1 q" using q sp'(3) by (simp add: enabled_at_def restore_entry_def)
      then show "enabled_at d' q" using f by (simp add: d')
    qed
  qed
qed

end
