(* ===== verification/Store.thy ===== *)
theory Store
  imports SetupInv
begin

text \<open>
  The store as a state machine: one rule per operation that writes \<open>state.json\<close>, a raised error being
  no step. \<open>reachable\<close> closes it from a blank store; every reachable state keeps \<open>store_ok\<close>, and the
  facts a caller relies on (a target that resolves, a rule table that reads back, no port held
  twice) follow for every history of operations, in any order.
\<close>

section \<open>Steps\<close>

text \<open>The bundle commits take what validation has established: \<open>specs_wf\<close>, and for a restore, which checks no
  target itself, \<open>targets_declared\<close>. \<open>BundleSafe\<close> proves both of every bundle that passes validation
  (\<open>bundle_targets_declared\<close>) and so the invariant for every applied text.\<close>

inductive store_step :: "data \<Rightarrow> data \<Rightarrow> bool" where
  add_provider: "CHR ''/'' \<notin> set p \<Longrightarrow> store_step d (add_provider p d)"
| remove_providers: "remove_providers ps d = Inr (n, d') \<Longrightarrow> store_step d d'"
| add_channel: "add_channel cc e p country city wg label port server d = Inr (v, e', d') \<Longrightarrow> store_step d d'"
| upsert_channel: "upsert_channel e p filename country city wg label port d = Inr (u, e', d') \<Longrightarrow> store_step d d'"
| remove_channels: "remove_channels refs d = Inr (rs, d') \<Longrightarrow> store_step d d'"
| set_channels_enabled: "set_channels_enabled dg refs en ex d = Inr (rs, d') \<Longrightarrow> store_step d d'"
| set_label: "store_step d (snd (set_label p c l d))"
| set_channel_server: "set_channel_server dg p c sv wgo co ci exo d = Inr (vo, d') \<Longrightarrow> store_step d d'"
| set_probe: "store_step d (set_probe p c x d)"
| set_probes: "store_step d (snd (set_probes dg us d))"
| set_reconnect: "store_step d (set_reconnect p c x d)"
| prepare_reconnects: "store_step d (snd (prepare_reconnects dg ups d))"
| finish_reconnect_attempt: "store_step d (snd (finish_reconnect_attempt dg p c fp nonce rc wgo d))"
| clear_reconnect_all: "store_step d (snd (clear_reconnect_all d))"
| update_channel_wg: "update_channel_wg dg p c wg exo d = Inr (b, d') \<Longrightarrow> store_step d d'"
| update_channels_wg: "store_step d (snd (update_channels_wg p wgs d))"
| set_killswitch: "store_step d (set_killswitch b d)"
| set_lan_direct: "store_step d (set_lan_direct b d)"
| set_tun: "store_step d (set_tun b d)"
| update_geodata: "store_step d (update_geodata k s cm fs b d)"
| set_geodata_source: "store_step d (set_geodata_source k d)"
| set_backup: "store_step d (snd (set_backup bo so ro io d))"
| record_service_offer: "store_step d (record_service_offer d)"
| reallocate_channel_ports: "reallocate_channel_ports qs e d = Inr (mh, e', d') \<Longrightarrow> store_step d d'"
| restore_home_ports: "restore_home_ports free snap d = (hs, d') \<Longrightarrow> store_step d d'"
| ensure_router_port: "ensure_router_port e d = Inr (q, e', d') \<Longrightarrow> store_step d d'"
| create_ruleset: "create_ruleset name t ms d = Inr (bl, d') \<Longrightarrow> store_step d d'"
| add_ruleset_matchers: "add_ruleset_matchers i ms d = Inr (bl, d') \<Longrightarrow> store_step d d'"
| remove_ruleset: "remove_ruleset i d = Inr (gone, d') \<Longrightarrow> store_step d d'"
| rename_ruleset: "rename_ruleset i name d = Inr (bl, d') \<Longrightarrow> store_step d d'"
| retarget_ruleset: "retarget_ruleset i t d = Inr (bl, d') \<Longrightarrow> store_step d d'"
| update_ruleset: "update_ruleset dg i name t ms exo d = Inr (bl, d') \<Longrightarrow> store_step d d'"
| remove_rules: "remove_rules is d = (gone, d') \<Longrightarrow> store_step d d'"
| move_rules: "move_rules is i d = Inr (res, d') \<Longrightarrow> store_step d d'"
| reorder_rules: "reorder_rules is d = Inr ((rows, ch), d') \<Longrightarrow> store_step d d'"
| reorder_rulesets: "reorder_rulesets dg is exo d = Inr ((bls, ch), d') \<Longrightarrow> store_step d d'"
| merge_setup: "merge_setup e ps rss ks ld port d = Inr (s, e', d') \<Longrightarrow> specs_wf ps \<Longrightarrow> store_step d d'"
| sync_setup: "sync_setup e ps rss ks ld port d = Inr (s, e', d') \<Longrightarrow> specs_wf ps \<Longrightarrow> store_step d d'"
| restore_setup: "restore_setup e ps rss k l port d = Inr (e', d') \<Longrightarrow> specs_wf ps \<Longrightarrow> targets_declared ps rss
    \<Longrightarrow> store_step d d'"

inductive reachable :: "data \<Rightarrow> bool" where
  start: "reachable blank"
| step: "reachable d \<Longrightarrow> store_step d d' \<Longrightarrow> reachable d'"

inductive_cases reachableE: "reachable d"

lemma store_step_ok: "store_step d d' \<Longrightarrow> store_ok d \<Longrightarrow> store_ok d'"
  by (induction rule: store_step.induct) (auto intro: inv_intros)

lemma store_ok_blank: "store_ok blank"
proof (rule store_okI)
  show "data_wf blank" by (simp add: data_wf_def blank_def)
  have "port_at blank x = 0" for x
    by (auto simp: port_at_def blank_def router_blank_def get_chan_def channels_of_def split: option.split)
  then show "distinct_ports (port_at blank)" by (simp add: distinct_ports_def)
  show "table_ok (rules_of blank)"
    by (simp add: table_ok_def blank_def router_blank_def ruleset_blocks_def nums_ok_def)
  show "restrict_only blank" by (simp add: restrict_only_def blank_def router_blank_def)
qed

lemma reachable_ok: "reachable d \<Longrightarrow> store_ok d"
  by (induction rule: reachable.induct) (auto intro: store_ok_blank store_step_ok)

end
