(* ===== verification/Converge.thy ===== *)
theory Converge
  imports SetupInv
begin

text \<open>
  What a bundle commit leaves behind (\<open>merge_setup\<close>, \<open>sync_setup\<close>): every declared channel stands
  with the declared content; what the bundle leaves open stays as it was; channels the bundle
  does not name are left alone by a merge, and a sync prunes the managed ones no rule needs.
\<close>

section \<open>One channel\<close>

text \<open>A channel stands as declared: place, server, parameters (equal as Python's dictionaries are), and where
  the declaration leaves something open, the channel that was there before decides.\<close>

definition stands_as :: "bool \<Rightarrow> spec \<Rightarrow> chan option \<Rightarrow> chan \<Rightarrow> bool" where
  "stands_as sync sp old ch = (ch_country ch = sp_country sp \<and> ch_city ch = sp_city sp \<and> ch_server ch = sp_server sp
     \<and> obj_eq (ch_wg ch) (case sp_wg sp of None \<Rightarrow> [] | Some w \<Rightarrow> w)
     \<and> ch_label ch = (if sp_label sp \<noteq> [] then sp_label sp else case old of None \<Rightarrow> [] | Some o' \<Rightarrow> ch_label o')
     \<and> ch_enabled ch = (case sp_enabled sp of Some b \<Rightarrow> b | None \<Rightarrow> (case old of None \<Rightarrow> True | Some o' \<Rightarrow> ch_enabled o'))
     \<and> (sp_port sp \<noteq> 0 \<longrightarrow> ch_port ch = sp_port sp \<and> ch_port_explicit ch)
     \<and> (sp_port sp = 0 \<longrightarrow> (case old of None \<Rightarrow> \<not> ch_port_explicit ch
          | Some o' \<Rightarrow> ch_port ch = ch_port o' \<and> ch_port_explicit ch = (\<not> sync \<and> ch_port_explicit o')))
     \<and> ch_managed ch = (case old of None \<Rightarrow> sync | Some o' \<Rightarrow> ch_managed o'))"

lemma repoint_port:
  assumes "repoint p c port ch d = Inr ch1"
  shows "ch1 = ch\<lparr>ch_port := (if port \<noteq> 0 then port else ch_port ch)\<rparr>"
  using assms by (auto simp: repoint_def claim_port_def Let_def split: if_splits option.splits)

lemma spec_update_stands:
  assumes "spec_update sync p c sp ch d = Inr ch'"
  shows "stands_as sync sp (Some ch) ch'"
proof -
  from assms obtain ch1 where r: "repoint p c (sp_port sp) (ch\<lparr>ch_country := sp_country sp, ch_city := sp_city sp,
       ch_server := sp_server sp, ch_wg := spec_wg sp\<rparr>) d = Inr ch1"
    and e: "ch' = (let ch2 = ch1\<lparr>ch_port_explicit :=
                 (if sp_port sp \<noteq> 0 then True else if sync then False else ch_port_explicit ch1)\<rparr>;
         ch3 = (if sp_label sp \<noteq> [] then ch2\<lparr>ch_label := sp_label sp\<rparr> else ch2);
         ch4 = (if spec_enabled sp (Some ch) then ch3\<lparr>ch_enabled := True\<rparr>
                else ch3\<lparr>ch_enabled := False, ch_probe := None\<rparr>) in
       ch4\<lparr>ch_reconnect := None\<rparr>)"
    by (auto simp only: spec_update_def bindR_eq_Inr Let_def sum.inject)
  show ?thesis unfolding stands_as_def e Let_def repoint_port[OF r]
    by (cases "spec_enabled sp (Some ch)"; cases "sp_enabled sp") (auto simp: spec_enabled_def spec_wg_def)
qed

lemma spec_entry_stands:
  assumes "port_or_free e d (sp_port sp) = Inr (q, e')"
  shows "stands_as sync sp None (spec_entry sync sp q)"
proof -
  have "sp_port sp \<noteq> 0 \<longrightarrow> q = sp_port sp"
    using assms by (auto simp: port_or_free_def claim_port_def Let_def split: if_splits option.splits)
  then show ?thesis
    by (cases "sp_enabled sp") (auto simp: stands_as_def spec_entry_def spec_enabled_def spec_wg_def)
qed

text \<open>A channel that is skipped as unchanged stood as declared already.\<close>

lemma unchanged_stands:
  assumes "if sync then sync_unchanged sp ch else merge_unchanged sp ch"
  shows "stands_as sync sp (Some ch) ch"
  using assms by (cases "sp_enabled sp"; cases sync)
    (auto simp: stands_as_def sync_unchanged_def merge_unchanged_def same_content_def spec_enabled_def spec_wg_def)

lemma apply_spec_outcome:
  assumes "apply_spec sync p (c, sp) (s, e, d) = Inr (s', e', d')" "dget (d_providers d) p \<noteq> None"
  shows "\<exists>ch. get_chan d' p c = Some ch \<and> stands_as sync sp (get_chan d p c) ch"
    and "\<And>q k. (q, k) \<noteq> (p, c) \<Longrightarrow> get_chan d' q k = get_chan d q k"
    and "keys (d_providers d') = keys (d_providers d)"
proof -
  have "(\<exists>ch. get_chan d' p c = Some ch \<and> stands_as sync sp (get_chan d p c) ch)
    \<and> (\<forall>q k. (q, k) \<noteq> (p, c) \<longrightarrow> get_chan d' q k = get_chan d q k) \<and> keys (d_providers d') = keys (d_providers d)"
  proof (cases "get_chan d p c")
    case None
    with assms(1) obtain q where q: "port_or_free e d (sp_port sp) = Inr (q, e')"
      and d': "d' = put_chan p c (spec_entry sync sp q) d"
      by (auto simp: apply_spec_def)
    with spec_entry_stands[OF q] assms(2) None show ?thesis by (auto simp: state_simps)
  next
    case (Some ch)
    show ?thesis
    proof (cases "if sync then sync_unchanged sp ch else merge_unchanged sp ch")
      case True
      have "apply_spec sync p (c, sp) (s, e, d) = Inr (s\<lparr>s_unchanged := s_unchanged s @ [ref_str (p, c)]\<rparr>, e, d)"
        unfolding apply_spec_def prod.case Some option.case if_P[OF True] ..
      with assms(1) have "d' = d" by simp
      with Some unchanged_stands[OF True] show ?thesis by simp
    next
      case False
      with assms(1) Some obtain ch' where u: "spec_update sync p c sp ch d = Inr ch'"
        and d': "d' = put_chan p c ch' d"
        unfolding apply_spec_def by auto
      with spec_update_stands[OF u] assms(2) Some show ?thesis by (auto simp: state_simps)
    qed
  qed
  then show "\<exists>ch. get_chan d' p c = Some ch \<and> stands_as sync sp (get_chan d p c) ch"
    "\<And>q k. (q, k) \<noteq> (p, c) \<Longrightarrow> get_chan d' q k = get_chan d q k"
    "keys (d_providers d') = keys (d_providers d)" by blast+
qed

section \<open>All channels of a bundle\<close>

lemma apply_specs_outcome:
  assumes "foldR (apply_spec sync p) cs (s, e, d) = Inr (s', e', d')" "dget (d_providers d) p \<noteq> None"
    "distinct (keys cs)"
  shows "(\<forall>(c, sp) \<in> set cs. \<exists>ch. get_chan d' p c = Some ch \<and> stands_as sync sp (get_chan d p c) ch)
    \<and> (\<forall>q k. q \<noteq> p \<or> k \<notin> set (keys cs) \<longrightarrow> get_chan d' q k = get_chan d q k)
    \<and> keys (d_providers d') = keys (d_providers d)"
  using assms
proof (induction cs arbitrary: s e d)
  case (Cons x cs)
  obtain c sp where x: "x = (c, sp)" by force
  from Cons.prems(1) x obtain s1 e1 d1 where a: "apply_spec sync p (c, sp) (s, e, d) = Inr (s1, e1, d1)"
    and f: "foldR (apply_spec sync p) cs (s1, e1, d1) = Inr (s', e', d')" by (auto simp: split_paired_Ex)
  note o = apply_spec_outcome[OF a Cons.prems(2)]
  have k: "dget (d_providers d1) p \<noteq> None" using o(3) Cons.prems(2) by (metis map_of_eq_None_iff set_map)
  have "distinct (keys cs)" "c \<notin> set (keys cs)" using Cons.prems(3) x by auto
  have "\<exists>ch. get_chan d' p c' = Some ch \<and> stands_as sync sp' (get_chan d p c') ch" if "(c', sp') \<in> set cs" for c' sp'
  proof -
    have "c' \<noteq> c" using that \<open>c \<notin> set (keys cs)\<close> by force
    then have "get_chan d1 p c' = get_chan d p c'" using o(2) by blast
    with Cons.IH[OF f k \<open>distinct (keys cs)\<close>] that show ?thesis by fastforce
  qed
  moreover have "get_chan d' p c = get_chan d1 p c" using Cons.IH[OF f k \<open>distinct (keys cs)\<close>] \<open>c \<notin> set (keys cs)\<close> by blast
  moreover have "\<forall>q k. q \<noteq> p \<or> k \<notin> set (keys (x # cs)) \<longrightarrow> get_chan d' q k = get_chan d q k"
    using Cons.IH[OF f k \<open>distinct (keys cs)\<close>] o(2) by (auto simp: x)
  ultimately show ?case using o(1,3) Cons.IH[OF f k \<open>distinct (keys cs)\<close>] by (auto simp: x)
qed simp

lemma open_provider_outcome:
  assumes "open_provider sync p (s, e, d) = (s', e', d')"
  shows "get_chan d' = get_chan d" "dget (d_providers d') p \<noteq> None"
proof -
  have "get_chan d' = get_chan d \<and> dget (d_providers d') p \<noteq> None"
  proof (cases "dget (d_providers d) p")
    case None
    let ?pv = "\<lparr>pv_channels = [], pv_managed = sync\<rparr>"
    have "d' = d\<lparr>d_providers := dset p ?pv (d_providers d)\<rparr>" using assms None by (simp add: open_provider_def)
    with get_chan_new_provider[OF None, of ?pv] show ?thesis by simp
  qed (use assms in \<open>simp add: open_provider_def\<close>)
  then show "get_chan d' = get_chan d" "dget (d_providers d') p \<noteq> None" by auto
qed

lemma apply_provider_outcome:
  assumes "apply_provider sync (p, cs) (s, e, d) = Inr (s', e', d')" "distinct (keys cs)"
  shows "(\<forall>(c, sp) \<in> set cs. \<exists>ch. get_chan d' p c = Some ch \<and> stands_as sync sp (get_chan d p c) ch)
    \<and> (\<forall>q k. q \<noteq> p \<or> k \<notin> set (keys cs) \<longrightarrow> get_chan d' q k = get_chan d q k)"
proof -
  obtain s1 e1 d1 where o: "open_provider sync p (s, e, d) = (s1, e1, d1)" by (metis prod.exhaust)
  with assms(1) have f: "foldR (apply_spec sync p) cs (s1, e1, d1) = Inr (s', e', d')" by (simp add: apply_provider_def)
  from apply_specs_outcome[OF f open_provider_outcome(2)[OF o] assms(2)] open_provider_outcome(1)[OF o]
  show ?thesis by simp
qed

lemma apply_all_outcome:
  assumes "foldR (apply_provider sync) ps (s, e, d) = Inr (s', e', d')" "specs_wf ps"
  shows "(\<forall>(p, cs) \<in> set ps. \<forall>(c, sp) \<in> set cs. \<exists>ch. get_chan d' p c = Some ch \<and> stands_as sync sp (get_chan d p c) ch)
    \<and> (\<forall>q k. (q, k) \<notin> set (spec_refs ps) \<longrightarrow> get_chan d' q k = get_chan d q k)"
  using assms
proof (induction ps arbitrary: s e d)
  case (Cons x ps)
  obtain p cs where x: "x = (p, cs)" by force
  from Cons.prems(1) x obtain s1 e1 d1 where a: "apply_provider sync (p, cs) (s, e, d) = Inr (s1, e1, d1)"
    and f: "foldR (apply_provider sync) ps (s1, e1, d1) = Inr (s', e', d')" by (auto simp: split_paired_Ex)
  have wf: "specs_wf ps" "distinct (keys cs)" "p \<notin> set (keys ps)" using Cons.prems(2) x by (auto simp: specs_wf_def)
  note o = apply_provider_outcome[OF a wf(2)]
  note ih = Cons.IH[OF f wf(1)]
  have "(p, k) \<notin> set (spec_refs ps)" for k using wf(3) by (force simp: spec_refs_def)
  then have same: "get_chan d' p k = get_chan d1 p k" for k using ih by blast
  show ?case
  proof (intro conjI ballI allI impI)
    fix y assume "y \<in> set (x # ps)"
    then consider "y = (p, cs)" | "y \<in> set ps" using x by auto
    then show "case y of (p, cs) \<Rightarrow> \<forall>(c, sp) \<in> set cs. \<exists>ch. get_chan d' p c = Some ch \<and> stands_as sync sp (get_chan d p c) ch"
    proof cases
      case 1
      with o same show ?thesis by auto
    next
      case 2
      obtain p' cs' where y: "y = (p', cs')" by force
      have "p' \<noteq> p" using 2 y wf(3) by force
      then have "get_chan d1 p' c = get_chan d p' c" for c using o by blast
      with ih 2 y show ?thesis by fastforce
    qed
  next
    fix q k assume n: "(q, k) \<notin> set (spec_refs (x # ps))"
    then have "(q, k) \<notin> set (spec_refs ps)" and "q \<noteq> p \<or> k \<notin> set (keys cs)"
      by (force simp: spec_refs_def x)+
    with ih o show "get_chan d' q k = get_chan d q k" by auto
  qed
qed simp

section \<open>The commits\<close>

lemma append_rulesets_providers:
  "foldR append_ruleset rss (s, e, d) = Inr (s', e', d') \<Longrightarrow> d_providers d' = d_providers d"
proof (induction rss arbitrary: s e d)
  case (Cons b rss)
  from Cons.prems obtain s1 e1 d1 where a: "append_ruleset b (s, e, d) = Inr (s1, e1, d1)"
    and f: "foldR append_ruleset rss (s1, e1, d1) = Inr (s', e', d')" by (auto simp: split_paired_Ex)
  from a have "d_providers d1 = d_providers d" by (auto simp: append_ruleset_def set_rules_simps)
  with Cons.IH[OF f] show ?case by simp
qed simp

lemma router_settings_providers: "router_settings sync ks ld port d = Inr d' \<Longrightarrow> get_chan d' = get_chan d"
  by (auto simp: router_settings_def Let_def get_chan_router)

lemma merge_outcome:
  assumes "merge_setup e ps rss ks ld port d = Inr (s, e', d')" "specs_wf ps"
  shows "(\<forall>(p, cs) \<in> set ps. \<forall>(c, sp) \<in> set cs. \<exists>ch. get_chan d' p c = Some ch \<and> stands_as False sp (get_chan d p c) ch)
    \<and> (\<forall>q k. (q, k) \<notin> set (spec_refs ps) \<longrightarrow> get_chan d' q k = get_chan d q k)"
proof -
  from assms(1) obtain s1 e1 d1 s2 e2 d2 where
    mc: "foldR (apply_provider False) ps (no_summary, e, d) = Inr (s1, e1, d1)" and
    ar: "foldR append_ruleset rss (s1, e1, d1) = Inr (s2, e2, d2)" and
    rs: "router_settings False ks ld port d2 = Inr d'"
    by (auto simp: merge_setup_def merge_channels_def split_paired_Ex)
  have "get_chan d' = get_chan d1"
    using router_settings_providers[OF rs] get_chan_cong[OF append_rulesets_providers[OF ar]] by simp
  with apply_all_outcome[OF mc assms(2)] show ?thesis by simp
qed

section \<open>Pruning\<close>

lemma note_ref_only:
  "dget (fold (note_ref refs) rs out) k \<noteq> None \<Longrightarrow>
   dget out k \<noteq> None \<or> (\<exists>r \<in> referenced rs. r \<in> refs \<and> k = ref_str r)"
proof (induction rs arbitrary: out)
  case (Cons x rs)
  from Cons.IH[of "note_ref refs x out"] Cons.prems
  consider "dget (note_ref refs x out) k \<noteq> None" | "\<exists>r \<in> referenced rs. r \<in> refs \<and> k = ref_str r" by auto
  then show ?case
  proof cases
    case 1
    then show ?thesis
    proof (cases "target_ref (rtarget x)")
      case (Some pc)
      then have "pc \<in> referenced (x # rs)" by (auto simp: referenced_def)
      with 1 Some show ?thesis by (auto simp: note_ref_def simp del: split_paired_Ex split: if_splits)
    qed (use 1 in \<open>simp add: note_ref_def\<close>)
  qed (auto simp: referenced_def)
qed simp

lemma rules_referencing_only:
  assumes "dget (rules_referencing d refs) (ref_str (p, c)) \<noteq> None" "CHR ''/'' \<notin> set p"
  shows "(p, c) \<in> referenced (rules_of d)"
proof -
  from note_ref_only[OF assms(1)[unfolded rules_referencing_def]]
  obtain q k where r: "(q, k) \<in> referenced (rules_of d)" "ref_str (p, c) = ref_str (q, k)" by auto
  then obtain x :: rule where "target_ref (rtarget x) = Some (q, k)" by (auto simp: referenced_def)
  from target_ref_Some[OF this] have "CHR ''/'' \<notin> set q" by simp
  from ref_str_inj[OF assms(2) this, of c k] r show ?thesis by simp
qed

definition prune_candidates :: "specs \<Rightarrow> data \<Rightarrow> cref list" where
  "prune_candidates ps d = concat (map (\<lambda>(p, pv). map (\<lambda>(c, _). (p, c))
     (filter (\<lambda>(c, ch). ch_managed ch \<and> (p, c) \<notin> set (spec_refs ps)) (pv_channels pv))) (d_providers d))"

lemma prune_candidate:
  assumes "get_chan d p c = Some ch" "ch_managed ch" "(p, c) \<notin> set (spec_refs ps)"
  shows "(p, c) \<in> set (prune_candidates ps d)"
proof -
  from assms(1) obtain pv where pv: "(p, pv) \<in> set (d_providers d)" "(c, ch) \<in> set (pv_channels pv)"
    by (auto simp: get_chan_def channels_of_def split: option.splits dest!: map_of_SomeD)
  with assms(2,3) have "(c, ch) \<in> set (filter (\<lambda>(c, ch). ch_managed ch \<and> (p, c) \<notin> set (spec_refs ps)) (pv_channels pv))"
    by simp
  with pv(1) show ?thesis unfolding prune_candidates_def by (fastforce simp del: set_filter)
qed

lemma prune_fold:
  "get_chan (snd (fold (prune_step bl) rs (s, d))) p c =
     (if (p, c) \<in> set rs \<and> dget bl (ref_str (p, c)) = None then None else get_chan d p c)"
proof (induction rs arbitrary: s d)
  case (Cons r rs)
  obtain s1 d1 where st: "prune_step bl r (s, d) = (s1, d1)" by force
  have "get_chan d1 p c = (if r = (p, c) \<and> dget bl (ref_str r) = None then None else get_chan d p c)"
    using st by (cases r) (auto simp: prune_step_def get_chan_pop split: option.splits)
  with Cons.IH[of s1 d1] st show ?case by auto
qed simp

text \<open>The declared channels come through the pruning as they were.\<close>

lemma dget_pops: "dget (fold dpop xs m) k = (if k \<in> set xs then None else dget m k)"
  by (induction xs arbitrary: m) auto

lemma prune_keeps_declared:
  assumes "prune_providers ps (prune_channels ps (s, d)) = (s', d')" "(p, c) \<in> set (spec_refs ps)"
  shows "get_chan d' p c = get_chan d p c"
proof -
  obtain s1 d1 where pc: "prune_channels ps (s, d) = (s1, d1)" by force
  have "(p, c) \<notin> set (prune_candidates ps d)" using assms(2) by (auto simp: prune_candidates_def)
  moreover have "d1 = snd (fold (prune_step (rules_referencing d (set (prune_candidates ps d)))) (prune_candidates ps d) (s, d))"
    using pc by (simp add: prune_channels_def Let_def prune_candidates_def)
  ultimately have c: "get_chan d1 p c = get_chan d p c" by (simp add: prune_fold)
  have k: "p \<in> set (keys ps)" using assms(2) by (force simp: spec_refs_def)
  define xs where "xs = map fst (filter (\<lambda>(p, pv). p \<notin> set (keys ps) \<and> pv_managed pv \<and> pv_channels pv = []) (d_providers d1))"
  have "d' = d1\<lparr>d_providers := fold dpop xs (d_providers d1)\<rparr>"
    using assms(1) pc by (auto simp: prune_providers_def Let_def xs_def)
  moreover have "p \<notin> set xs" using k unfolding xs_def by force
  ultimately have "d' = d1\<lparr>d_providers := fold dpop xs (d_providers d1)\<rparr>" "p \<notin> set xs" by blast+
  then have "dget (d_providers d') p = dget (d_providers d1) p" by (simp add: dget_pops)
  with c show ?thesis by (simp add: get_chan_def channels_of_def)
qed

lemma sync_outcome:
  assumes "sync_setup e ps rss ks ld port d = Inr (s, e', d')" "specs_wf ps" "(p, cs) \<in> set ps" "(c, sp) \<in> set cs"
  shows "\<exists>ch. get_chan d' p c = Some ch \<and> stands_as True sp (get_chan d p c) ch"
proof -
  from assms(1) obtain y where cr: "converge_rules rss (rules_of d) = Inr y"
    by (auto simp: sync_setup_def Let_def)
  obtain sb db where pp: "prune_providers ps (prune_channels ps (y_summary y, set_rules (y_rules y) d)) = (sb, db)" by force
  from assms(1) cr pp obtain s2 e2 d2 where
    sc: "foldR (apply_provider True) ps (sb, e, db) = Inr (s2, e2, d2)" and
    rs: "router_settings True ks ld port d2 = Inr d'"
    by (auto simp: sync_setup_def Let_def sync_channels_def split_paired_Ex)
  have "(p, c) \<in> set (spec_refs ps)" using assms(3,4) by (force simp: spec_refs_def)
  from prune_keeps_declared[OF pp this] have "get_chan db p c = get_chan d p c" by (simp add: get_chan_def channels_of_def set_rules_simps)
  with apply_all_outcome[OF sc assms(2)] assms(3,4) router_settings_providers[OF rs] show ?thesis by fastforce
qed

lemma prune_channels_left:
  assumes "prune_channels ps (s, d) = (s', d')" "data_wf d" "get_chan d' p c = Some ch" "ch_managed ch"
    "(p, c) \<notin> set (spec_refs ps)"
  shows "(p, c) \<in> referenced (rules_of d)"
proof -
  define bl where "bl = rules_referencing d (set (prune_candidates ps d))"
  have d': "d' = snd (fold (prune_step bl) (prune_candidates ps d) (s, d))"
    using assms(1) by (simp add: prune_channels_def Let_def prune_candidates_def bl_def)
  have g: "get_chan d p c = Some ch" "\<not> ((p, c) \<in> set (prune_candidates ps d) \<and> dget bl (ref_str (p, c)) = None)"
    using assms(3) unfolding d' prune_fold by (auto split: if_splits)
  have "dget bl (ref_str (p, c)) \<noteq> None" using prune_candidate[OF g(1) assms(4,5)] g(2) by simp
  then show ?thesis unfolding bl_def
    by (rule rules_referencing_only) (use data_wf_provider[OF assms(2)] g(1) in auto)
qed

lemma sync_left:
  assumes "sync_setup e ps rss ks ld port d = Inr (s, e', d')" "store_ok d" "specs_wf ps"
    and "get_chan d' p c = Some ch" "ch_managed ch" "(p, c) \<notin> set (spec_refs ps)"
  shows "(p, c) \<in> referenced (rules_of d')"
proof -
  from assms(1) obtain y where cr: "converge_rules rss (rules_of d) = Inr y"
    by (auto simp: sync_setup_def Let_def)
  obtain sa da where pc: "prune_channels ps (y_summary y, set_rules (y_rules y) d) = (sa, da)" by force
  obtain sb db where pp: "prune_providers ps (sa, da) = (sb, db)" by force
  from assms(1) cr pc pp obtain s2 e2 d2 where
    sc: "foldR (apply_provider True) ps (sb, e, db) = Inr (s2, e2, d2)" and
    rs: "router_settings True ks ld port d2 = Inr d'"
    by (auto simp: sync_setup_def Let_def sync_channels_def split_paired_Ex)
  note ok = store_okD[OF assms(2)]
  let ?d0 = "set_rules (y_rules y) d"
  have "port_at ?d0 = port_at d" by (rule port_at_cong) (simp_all add: set_rules_simps)
  then have b0: "base_ok ?d0" using ok converge_rules_ok[OF cr ok(3)] by (simp add: base_ok_def set_rules_simps)
  note p1 = prune_channels_ok[OF pc b0]
  then have ba: "base_ok da" by simp
  note p2 = prune_providers_ok[OF pp ba]
  then have bb: "base_ok db" by simp
  have r: "rules_of d' = y_rules y"
    using apply_all_keeps[OF sc bb assms(3)] p1 p2 rs
    by (auto simp: keeps_on_def set_rules_simps router_settings_def Let_def)
  have "get_chan da p c = Some ch"
    using assms(4,6) router_settings_providers[OF rs] apply_all_outcome[OF sc assms(3)] p2 by metis
  from prune_channels_left[OF pc base_okD(1)[OF b0] this assms(5,6)] r show ?thesis
    by (simp add: set_rules_simps)
qed

end
