(* ===== verification/StoreProps.thy ===== *)
theory StoreProps
  imports Store Converge begin

text \<open>
  The promises of the store, each for every state reachable by any sequence of its operations, and
  what its commits do. The concrete store of the first section is the one the witnesses run on.
\<close>

section \<open>A concrete store\<close>

definition demo_os :: os where
  "demo_os = \<lparr>os_base = None, os_free = (\<lambda>_. True), os_eph = (\<lambda>n. 40000 + int n), os_pos = 0\<rparr>"

definition demo_provider :: data where
  "demo_provider = add_provider ''mullvad'' blank"

definition demo_add :: "(store_error, channel \<times> os \<times> data) result" where
  "demo_add = add_channel (\<lambda>_. ''de'') demo_os ''mullvad'' ''Germany'' ''Berlin'' [] [] 4001 [] demo_provider"

definition demo_channel :: data where
  "demo_channel = (case demo_add of Inr (_, _, d) \<Rightarrow> d | Inl _ \<Rightarrow> blank)"

definition demo_rule :: "(store_error, block \<times> data) result" where
  "demo_rule = create_ruleset ''Video'' ''mullvad/wg_de_berlin_1'' [(''domain'', ''example.org''), (''domain'', ''example.net'')]
     demo_channel"

definition demo_store :: data where
  "demo_store = (case demo_rule of Inr (_, d) \<Rightarrow> d | Inl _ \<Rightarrow> blank)"

lemma demo_add_returned: "returned demo_add"
  by code_simp

lemma demo_rule_returned: "returned demo_rule"
  by code_simp

lemma demo_reachable: "reachable demo_store"
proof -
  have p: "reachable demo_provider"
    unfolding demo_provider_def by (rule reachable.step[OF reachable.start store_step.add_provider]) simp
  from demo_add_returned obtain v e d where a: "demo_add = Inr (v, e, d)"
    by (metis returnedE prod.exhaust)
  then have c: "reachable demo_channel"
    unfolding demo_channel_def demo_add_def by (auto intro: reachable.step[OF p] store_step.add_channel)
  from demo_rule_returned obtain b d' where r: "demo_rule = Inr (b, d')"
    by (metis returnedE prod.exhaust)
  then show ?thesis
    unfolding demo_store_def demo_rule_def by (auto intro: reachable.step[OF c] store_step.create_ruleset)
qed

definition demo_chan :: chan where
  "demo_chan = \<lparr>ch_country = ''Germany'', ch_city = ''Berlin'', ch_port = 4001, ch_wg = [], ch_probe = Some [],
     ch_reconnect = None, ch_label = [], ch_server = [], ch_enabled = True, ch_port_explicit = True,
     ch_port_home = None, ch_managed = False\<rparr>"

lemma demo_get: "get_chan demo_store ''mullvad'' ''wg_de_berlin_1'' = Some demo_chan"
  by code_simp

lemma demo_targets: "map rtarget (rules_of demo_store) = [''mullvad/wg_de_berlin_1'', ''mullvad/wg_de_berlin_1'']"
  by code_simp

lemma demo_entry: "rt_port (d_router demo_store) = 0"
  by code_simp

section \<open>Invariants\<close>

text \<open>C1: The restrict-only rule. In every state the store can reach, a rule that names a channel
  names one that exists and is enabled: no operation removes or disables a channel a rule needs.\<close>

theorem reachable_targets_resolve:
  assumes "reachable d" "x \<in> set (rules_of d)" "target_ref (rtarget x) = Some (p, c)"
  shows "\<exists>ch. get_chan d p c = Some ch \<and> ch_enabled ch"
  using store_ok_target[OF reachable_ok[OF assms(1)] assms(2)] assms(3)
  by (auto simp: ensure_channel_target_def split: option.splits if_splits)

theorem reachable_targets_resolve_witness:
  "\<exists>ch. get_chan demo_store ''mullvad'' ''wg_de_berlin_1'' = Some ch \<and> ch_enabled ch"
proof (rule reachable_targets_resolve[OF demo_reachable, of "hd (rules_of demo_store)"])
  show "hd (rules_of demo_store) \<in> set (rules_of demo_store)" using demo_targets by (cases "rules_of demo_store") auto
  show "target_ref (rtarget (hd (rules_of demo_store))) = Some (''mullvad'', ''wg_de_berlin_1'')" by code_simp
qed

text \<open>C5: No local port is held twice. In every reachable state two channels, or a channel and the
  router entrypoint, never hold the same assigned port.\<close>

theorem reachable_ports_distinct:
  assumes "reachable d" "get_chan d p c = Some ch" "ch_port ch \<noteq> 0"
  shows "ch_port ch \<noteq> rt_port (d_router d)
    \<and> (\<forall>q k ch'. get_chan d q k = Some ch' \<longrightarrow> ch_port ch' = ch_port ch \<longrightarrow> (q, k) = (p, c))"
proof -
  have d: "distinct_ports (port_at d)" by (rule store_okD(2)[OF reachable_ok[OF assms(1)]])
  have a: "port_at d (Some (p, c)) = ch_port ch" using assms(2) by (simp add: port_at_def)
  have "ch_port ch \<noteq> rt_port (d_router d)"
    using d[unfolded distinct_ports_def, rule_format, of "Some (p, c)" None] a assms(3) by (auto simp: port_at_def)
  moreover have "(q, k) = (p, c)" if "get_chan d q k = Some ch'" "ch_port ch' = ch_port ch" for q k ch'
    using d[unfolded distinct_ports_def, rule_format, of "Some (q, k)" "Some (p, c)"] a assms(3) that
    by (simp add: port_at_def)
  ultimately show ?thesis by blast
qed

theorem reachable_ports_distinct_witness: "(4001::int) \<noteq> rt_port (d_router demo_store)"
  using reachable_ports_distinct[OF demo_reachable demo_get] by (simp add: demo_chan_def)

text \<open>C6: The flat rule table of every reachable state reads back as rulesets: it has no row outside
  a ruleset, each ruleset is one contiguous run with one target and one name, and no rule id occurs
  twice.\<close>

theorem reachable_rules_grouped:
  assumes "reachable d"
  shows "(\<exists>bs. ruleset_blocks (rules_of d) = Inr bs \<and> flat bs = rules_of d
      \<and> distinct (map b_id bs) \<and> list_all block_ok bs) \<and> distinct (map rid (rules_of d))"
proof -
  have "table_ok (rules_of d)" by (rule store_okD(3)[OF reachable_ok[OF assms]])
  then show ?thesis by (auto elim!: table_okE simp: blocks_ok_def)
qed

theorem reachable_rules_grouped_witness:
  "(\<exists>bs. ruleset_blocks (rules_of demo_store) = Inr bs \<and> flat bs = rules_of demo_store
      \<and> distinct (map b_id bs) \<and> list_all block_ok bs) \<and> distinct (map rid (rules_of demo_store))
   \<and> length (rules_of demo_store) = 2"
  using reachable_rules_grouped[OF demo_reachable] arg_cong[OF demo_targets, of length] by simp

section \<open>What the commits do\<close>

definition demo_spec :: spec where
  "demo_spec = \<lparr>sp_country = ''Germany'', sp_city = ''Berlin'', sp_label = ''video'', sp_server = [],
     sp_wg = Some [(''public_key'', JStr ''k'')], sp_port = 4002, sp_enabled = None\<rparr>"

definition demo_specs :: specs where
  "demo_specs = [(''mullvad'', [(''wg_de_berlin_1'', demo_spec), (''wg_de_berlin_2'', demo_spec\<lparr>sp_port := 0\<rparr>)])]"

definition demo_sync :: "(store_error, apply_state) result" where
  "demo_sync = sync_setup demo_os demo_specs [] (Some True) None 0 demo_store"

definition demo_merge :: "(store_error, apply_state) result" where
  "demo_merge = merge_setup demo_os demo_specs [] (Some True) None 0 demo_store"

lemma demo_specs_wf: "specs_wf demo_specs"
  by (simp add: specs_wf_def demo_specs_def)

lemma demo_sync_returned: "returned demo_sync"
  by code_simp

lemma demo_merge_returned: "returned demo_merge"
  by code_simp

text \<open>C10: A sync converges on what the bundle declares. After it returns, every declared channel has the
  declared place, server and WireGuard parameters; the label, the switch and the port are the declared
  ones, or, where the bundle leaves them open, those the channel had before (on for a new channel); a
  declared port is marked explicit and any other automatic; only a channel that the sync created is
  marked managed, an existing one keeps its mark.\<close>

theorem sync_reaches_declaration:
  assumes "sync_setup e ps rss ks ld port d = Inr (s, e', d')" "specs_wf ps" "(p, cs) \<in> set ps" "(c, sp) \<in> set cs"
  shows "\<exists>ch. get_chan d' p c = Some ch
    \<and> ch_country ch = sp_country sp \<and> ch_city ch = sp_city sp \<and> ch_server ch = sp_server sp
    \<and> obj_eq (ch_wg ch) (case sp_wg sp of None \<Rightarrow> [] | Some w \<Rightarrow> w)
    \<and> ch_label ch = (if sp_label sp \<noteq> [] then sp_label sp else case get_chan d p c of None \<Rightarrow> [] | Some old \<Rightarrow> ch_label old)
    \<and> ch_enabled ch = (case sp_enabled sp of Some b \<Rightarrow> b
         | None \<Rightarrow> (case get_chan d p c of None \<Rightarrow> True | Some old \<Rightarrow> ch_enabled old))
    \<and> (sp_port sp \<noteq> 0 \<longrightarrow> ch_port ch = sp_port sp) \<and> ch_port_explicit ch = (sp_port sp \<noteq> 0)
    \<and> (\<forall>old. sp_port sp = 0 \<longrightarrow> get_chan d p c = Some old \<longrightarrow> ch_port ch = ch_port old)
    \<and> ch_managed ch = (case get_chan d p c of None \<Rightarrow> True | Some old \<Rightarrow> ch_managed old)"
proof -
  obtain ch where "get_chan d' p c = Some ch" "stands_as True sp (get_chan d p c) ch"
    using sync_outcome[OF assms] by blast
  then show ?thesis unfolding stands_as_def by (cases "sp_port sp = 0"; cases "get_chan d p c") auto
qed

theorem sync_reaches_declaration_witness:
  "\<exists>s e' d' ch. demo_sync = Inr (s, e', d') \<and> get_chan d' ''mullvad'' ''wg_de_berlin_1'' = Some ch
    \<and> ch_port ch = 4002 \<and> ch_label ch = ''video'' \<and> obj_eq (ch_wg ch) [(''public_key'', JStr ''k'')]"
proof -
  from demo_sync_returned obtain s e' d' where r: "demo_sync = Inr (s, e', d')" by (metis returnedE prod.exhaust)
  have m: "(''mullvad'', snd (hd demo_specs)) \<in> set demo_specs" "(''wg_de_berlin_1'', demo_spec) \<in> set (snd (hd demo_specs))"
    by (simp_all add: demo_specs_def)
  from sync_reaches_declaration[OF r[unfolded demo_sync_def] demo_specs_wf m] r
  show ?thesis by (auto simp: demo_spec_def)
qed

text \<open>C11: A sync prunes. A channel the bundle manages but no longer declares survives a sync only
  when a rule of the resulting table still targets it.\<close>

theorem sync_prunes_unneeded:
  assumes "reachable d" "sync_setup e ps rss ks ld port d = Inr (s, e', d')" "specs_wf ps"
    and "get_chan d' p c = Some ch" "ch_managed ch" "(p, c) \<notin> set (spec_refs ps)"
  shows "\<exists>x \<in> set (rules_of d'). target_ref (rtarget x) = Some (p, c)"
  using sync_left[OF assms(2) reachable_ok[OF assms(1)] assms(3-6)] by (auto simp: referenced_def)

definition demo_managed :: "(store_error, apply_state) result" where
  "demo_managed = sync_setup demo_os demo_specs [] None None 0 demo_provider"

definition demo_kept :: "(store_error, block \<times> data) result" where
  "demo_kept = (case demo_managed of
     Inr (_, _, d) \<Rightarrow> create_ruleset ''mine'' ''mullvad/wg_de_berlin_1'' [(''domain'', ''a.org'')] d | Inl e \<Rightarrow> Inl e)"

definition demo_pruned :: "(store_error, apply_state) result" where
  "demo_pruned = (case demo_kept of
     Inr (_, d) \<Rightarrow> sync_setup demo_os [] [] None None 0 d | Inl e \<Rightarrow> Inl e)"

definition kept_managed :: "data \<Rightarrow> bool" where
  "kept_managed d = (case get_chan d ''mullvad'' ''wg_de_berlin_1'' of None \<Rightarrow> False | Some ch \<Rightarrow> ch_managed ch)"

lemma demo_pruned_runs:
  "returned demo_managed \<and> returned demo_kept \<and> (case demo_pruned of Inr (_, _, d) \<Rightarrow>
     kept_managed d \<and> get_chan d ''mullvad'' ''wg_de_berlin_2'' = None | Inl _ \<Rightarrow> False)"
  by code_simp

theorem sync_prunes_unneeded_witness:
  "\<exists>s e' d'. demo_pruned = Inr (s, e', d') \<and> (\<exists>x \<in> set (rules_of d'). target_ref (rtarget x) = Some (''mullvad'', ''wg_de_berlin_1''))"
proof -
  from demo_pruned_runs obtain s1 e1 d1 where m: "demo_managed = Inr (s1, e1, d1)" by (metis returnedE prod.exhaust)
  from demo_pruned_runs obtain b d2 where k: "demo_kept = Inr (b, d2)" by (metis returnedE prod.exhaust)
  from demo_pruned_runs obtain s e' d' where p: "demo_pruned = Inr (s, e', d')" "kept_managed d'"
    by (auto split: sum.splits)
  have "reachable demo_provider"
    unfolding demo_provider_def by (rule reachable.step[OF reachable.start store_step.add_provider]) simp
  then have "reachable d1"
    by (rule reachable.step[OF _ store_step.sync_setup[OF m[unfolded demo_managed_def] demo_specs_wf]])
  moreover have "create_ruleset ''mine'' ''mullvad/wg_de_berlin_1'' [(''domain'', ''a.org'')] d1 = Inr (b, d2)"
    using k unfolding demo_kept_def m by simp
  ultimately have r: "reachable d2" by (rule reachable.step[OF _ store_step.create_ruleset])
  have y: "sync_setup demo_os [] [] None None 0 d2 = Inr (s, e', d')" using p(1) unfolding demo_pruned_def k by simp
  from p(2) obtain ch where ch: "get_chan d' ''mullvad'' ''wg_de_berlin_1'' = Some ch" "ch_managed ch"
    by (auto simp: kept_managed_def split: option.splits)
  have "\<exists>x \<in> set (rules_of d'). target_ref (rtarget x) = Some (''mullvad'', ''wg_de_berlin_1'')"
    by (rule sync_prunes_unneeded[OF r y _ ch]) (simp_all add: specs_wf_def spec_refs_def)
  with p(1) show ?thesis by blast
qed

text \<open>C12: A merge never touches a channel the bundle does not name, and brings every channel it names to the
  declared place, server and WireGuard parameters; label, switch and port are the declared ones, or those
  the channel had before. A declared port becomes explicit; one that is not declared keeps its mark. What
  a merge creates is not managed.\<close>

theorem merge_frame:
  assumes "merge_setup e ps rss ks ld port d = Inr (s, e', d')" "specs_wf ps"
  shows "(\<forall>q k. (q, k) \<notin> set (spec_refs ps) \<longrightarrow> get_chan d' q k = get_chan d q k)
    \<and> (\<forall>(p, cs) \<in> set ps. \<forall>(c, sp) \<in> set cs. \<exists>ch. get_chan d' p c = Some ch
       \<and> ch_country ch = sp_country sp \<and> ch_city ch = sp_city sp \<and> ch_server ch = sp_server sp
       \<and> obj_eq (ch_wg ch) (case sp_wg sp of None \<Rightarrow> [] | Some w \<Rightarrow> w)
       \<and> ch_label ch = (if sp_label sp \<noteq> [] then sp_label sp else case get_chan d p c of None \<Rightarrow> [] | Some old \<Rightarrow> ch_label old)
       \<and> ch_enabled ch = (case sp_enabled sp of Some b \<Rightarrow> b
            | None \<Rightarrow> (case get_chan d p c of None \<Rightarrow> True | Some old \<Rightarrow> ch_enabled old))
       \<and> (sp_port sp \<noteq> 0 \<longrightarrow> ch_port ch = sp_port sp \<and> ch_port_explicit ch)
       \<and> (sp_port sp = 0 \<longrightarrow> (case get_chan d p c of None \<Rightarrow> \<not> ch_port_explicit ch
            | Some old \<Rightarrow> ch_port ch = ch_port old \<and> ch_port_explicit ch = ch_port_explicit old))
       \<and> ch_managed ch = (case get_chan d p c of None \<Rightarrow> False | Some old \<Rightarrow> ch_managed old))"
proof
  show "\<forall>q k. (q, k) \<notin> set (spec_refs ps) \<longrightarrow> get_chan d' q k = get_chan d q k" by (rule merge_outcome[OF assms, THEN conjunct2])
qed (rule merge_outcome[OF assms, THEN conjunct1, unfolded stands_as_def not_False_eq_True simp_thms])

theorem merge_frame_witness:
  "\<exists>s e' d'. demo_merge = Inr (s, e', d') \<and> get_chan d' ''other'' ''x'' = get_chan demo_store ''other'' ''x''
    \<and> (\<exists>ch. get_chan d' ''mullvad'' ''wg_de_berlin_1'' = Some ch \<and> ch_port ch = 4002 \<and> ch_label ch = ''video'')"
proof -
  from demo_merge_returned obtain s e' d' where r: "demo_merge = Inr (s, e', d')" by (metis returnedE prod.exhaust)
  from merge_frame[OF r[unfolded demo_merge_def] demo_specs_wf]
  have "get_chan d' ''other'' ''x'' = get_chan demo_store ''other'' ''x''
    \<and> (\<exists>ch. get_chan d' ''mullvad'' ''wg_de_berlin_1'' = Some ch \<and> ch_port ch = 4002 \<and> ch_label ch = ''video'')"
    by (auto simp: demo_specs_def spec_refs_def demo_spec_def)
  with r show ?thesis by blast
qed

lemma fold_remove:
  "get_chan (snd (fold remove_step refs (res, d))) p c = (if (p, c) \<in> set refs then None else get_chan d p c)"
proof (induction refs arbitrary: res d)
  case (Cons r refs)
  obtain res1 d1 where r: "remove_step r (res, d) = (res1, d1)" by force
  have "get_chan d1 p c = (if r = (p, c) then None else get_chan d p c)"
    using r by (cases r) (auto simp: remove_step_def get_chan_pop split: if_splits)
  with Cons.IH[of res1 d1] r show ?case by auto
qed simp

text \<open>C38: Channels that a rule needs cannot be removed, and nothing else stops a removal: the call
  raises exactly when some rule targets a named channel, and otherwise the named channels that
  exist are gone and every other channel is untouched.\<close>

theorem remove_channels_outcome:
  "remove_channels refs d = Inl (Referenced (rules_referencing d (set refs))) \<and> set refs \<inter> referenced (rules_of d) \<noteq> {}
   \<or> (\<exists>rs d'. remove_channels refs d = Inr (rs, d') \<and> set refs \<inter> referenced (rules_of d) = {}
        \<and> (\<forall>p c. get_chan d' p c = (if (p, c) \<in> set refs then None else get_chan d p c)))"
proof (cases "set refs \<inter> referenced (rules_of d) = {}")
  case True
  then have "rules_referencing d (set refs) = []" by (auto simp: rules_referencing_empty)
  then have "remove_channels refs d = Inr (fold remove_step refs ([], d))" by (simp add: remove_channels_def)
  then show ?thesis using True fold_remove[of refs "[]" d] by (cases "fold remove_step refs ([], d)") auto
next
  case False
  then have "rules_referencing d (set refs) \<noteq> []" by (auto simp: rules_referencing_empty)
  with False show ?thesis by (simp add: remove_channels_def)
qed

lemma fingerprint_probe: "fingerprint_raw dg (ch\<lparr>ch_probe := x\<rparr>) = fingerprint_raw dg ch"
  by (simp add: fingerprint_raw_def)

lemma fold_probe_step:
  assumes "get_chan d p c = Some ch"
  shows "\<exists>x. get_chan (snd (fold (probe_step dg) us (ap, d))) p c = Some (ch\<lparr>ch_probe := x\<rparr>)
    \<and> (x = ch_probe ch \<or> (\<exists>res. x = Some res \<and> ((p, c), fingerprint_raw dg ch, res) \<in> set us))"
  using assms
proof (induction us arbitrary: ap d ch)
  case Nil
  then show ?case by (intro exI[of _ "ch_probe ch"]) simp
next
  case (Cons u us)
  obtain ap1 d1 where u: "probe_step dg u (ap, d) = (ap1, d1)" by force
  obtain q k fp res where ue: "u = ((q, k), fp, res)" by (metis prod.exhaust)
  have "\<exists>y. get_chan d1 p c = Some (ch\<lparr>ch_probe := y\<rparr>)
    \<and> (y = ch_probe ch \<or> (\<exists>res. y = Some res \<and> ((p, c), fingerprint_raw dg ch, res) = u))"
  proof (cases "(q, k) = (p, c) \<and> fingerprint_raw dg ch = fp")
    case True
    then have "d1 = put_chan p c (ch\<lparr>ch_probe := Some res\<rparr>) d" using u Cons.prems by (simp add: probe_step_def ue)
    then show ?thesis using get_chan_provider[OF Cons.prems] True by (auto simp: state_simps ue)
  next
    case False
    then have "get_chan d1 p c = get_chan d p c"
      using u Cons.prems by (auto simp: probe_step_def ue state_simps split: option.splits if_splits)
    then show ?thesis using Cons.prems by (intro exI[of _ "ch_probe ch"]) simp
  qed
  then obtain y where y: "get_chan d1 p c = Some (ch\<lparr>ch_probe := y\<rparr>)"
    "y = ch_probe ch \<or> (\<exists>res. y = Some res \<and> ((p, c), fingerprint_raw dg ch, res) = u)" by blast
  from Cons.IH[OF y(1), of ap1] u y(2) show ?case by (auto simp: fingerprint_probe)
qed

text \<open>C34: A probe result is only written to the configuration it measured. \<open>set_probes\<close> never
  changes anything but the probe of a channel, and only of one whose fingerprint is still the one
  the result was taken for.\<close>

theorem set_probes_only_fresh:
  assumes "get_chan d p c = Some ch"
  shows "\<exists>x. get_chan (snd (set_probes dg us d)) p c = Some (ch\<lparr>ch_probe := x\<rparr>)
    \<and> (x = ch_probe ch \<or> (\<exists>res. x = Some res \<and> ((p, c), fingerprint_raw dg ch, res) \<in> set us))"
  unfolding set_probes_def by (rule fold_probe_step[OF assms])

theorem set_probes_only_fresh_witness:
  "\<exists>x. get_chan (snd (set_probes (\<lambda>_. ''f'') [((''mullvad'', ''wg_de_berlin_1''), ''f'', [(''ok'', JBool True)])] demo_store))
      ''mullvad'' ''wg_de_berlin_1'' = Some (demo_chan\<lparr>ch_probe := x\<rparr>)
    \<and> (x = ch_probe demo_chan \<or> (\<exists>res. x = Some res \<and> res = [(''ok'', JBool True)]))"
  using set_probes_only_fresh[OF demo_get, of "\<lambda>_. ''f''" "[((''mullvad'', ''wg_de_berlin_1''), ''f'', [(''ok'', JBool True)])]"]
  by auto

section \<open>The configuration signature\<close>

lemma insort_key_map: "(\<And>x. h (g x) = f x) \<Longrightarrow> map g (insort_key f x xs) = insort_key h (g x) (map g xs)"
  by (induction xs) simp_all

lemma sort_key_map: "(\<And>x. h (g x) = f x) \<Longrightarrow> map g (sort_key f xs) = sort_key h (map g xs)"
  by (induction xs) (simp_all add: insort_key_map[where h = h])

lemma map_update_same: "dget xs k = Some w \<Longrightarrow> g (k, v) = g (k, w) \<Longrightarrow> map g (dset k v xs) = map g xs"
  by (induction xs) (auto split: if_splits)

definition prov_relevant :: "string \<times> prov \<Rightarrow> string \<times> (string \<times> json) list" where
  "prov_relevant x = (fst x, sort_key fst (map chan_relevant (pv_channels (snd x))))"

lemma chan_relevant_fst [simp]: "fst (chan_relevant x) = fst x"
  by (simp add: chan_relevant_def case_prod_beta)

lemma providers_relevant_alt:
  "providers_relevant d = map (\<lambda>(p, l). (p, JObj l)) (filter (\<lambda>(p, l). l \<noteq> [])
     (sort_key fst (map prov_relevant (d_providers d))))"
proof -
  have f: "fst (prov_relevant x) = fst x" for x by (simp add: prov_relevant_def)
  have e: "snd (prov_relevant x) = [] \<longleftrightarrow> pv_channels (snd x) = []" for x
    by (simp add: prov_relevant_def) (metis length_0_conv length_map length_sort)
  have r: "map (\<lambda>(p, l). (p, JObj l)) (filter (\<lambda>(p, l). l \<noteq> []) (map prov_relevant xs))
      = map (\<lambda>(p, pv). (p, JObj (map chan_relevant (sorted_items (pv_channels pv))))) (filter (\<lambda>(p, pv). pv_channels pv \<noteq> []) xs)" for xs
  proof (induction xs)
    case (Cons x xs)
    have "JObj (snd (prov_relevant x)) = JObj (map chan_relevant (sorted_items (pv_channels (snd x))))"
      using sort_key_map[of fst chan_relevant fst "pv_channels (snd x)"] by (simp add: prov_relevant_def sorted_items_def)
    with Cons e[of x] f[of x] show ?case by (simp add: case_prod_beta)
  qed simp
  show ?thesis using r[of "sorted_items (d_providers d)"] sort_key_map[of fst prov_relevant fst "d_providers d", OF f]
    by (simp add: providers_relevant_def sorted_items_def)
qed

lemma providers_relevant_mod:
  assumes "\<And>ch. ch_port (f ch) = ch_port ch \<and> ch_wg (f ch) = ch_wg ch \<and> ch_enabled (f ch) = ch_enabled ch"
  shows "providers_relevant (mod_chan p c f d) = providers_relevant d"
proof (cases "get_chan d p c")
  case (Some ch)
  then obtain pv where pv: "dget (d_providers d) p = Some pv" "dget (pv_channels pv) c = Some ch"
    by (auto simp: get_chan_def channels_of_def split: option.splits)
  have "map chan_relevant (dset c (f ch) (pv_channels pv)) = map chan_relevant (pv_channels pv)"
    by (rule map_update_same[OF pv(2)]) (use assms in \<open>simp add: chan_relevant_def\<close>)
  then have "prov_relevant (p, pv\<lparr>pv_channels := dset c (f ch) (pv_channels pv)\<rparr>) = prov_relevant (p, pv)"
    by (simp add: prov_relevant_def)
  from map_update_same[of "d_providers d" p pv prov_relevant, OF pv(1) this] pv(1) Some
  show ?thesis by (simp add: providers_relevant_alt mod_chan_def put_chan_def set_channels_def channels_of_def)
qed (simp add: mod_chan_def)

lemma signature_mod:
  assumes "\<And>ch. ch_port (f ch) = ch_port ch \<and> ch_wg (f ch) = ch_wg ch \<and> ch_enabled (f ch) = ch_enabled ch"
  shows "config_signature dg (mod_chan p c f d) = config_signature dg d"
proof -
  have "d_geodata (mod_chan p c f d) = d_geodata d" "d_router (mod_chan p c f d) = d_router d"
    by (simp_all add: mod_chan_def put_chan_def set_channels_def split: option.split)
  with providers_relevant_mod[of f p c d, OF assms] show ?thesis by (simp add: config_signature_def)
qed

text \<open>Health bookkeeping never restarts the engine: recording a probe, a reconnect record or a
  label leaves the configuration signature, which decides whether a reload is needed, as it was.\<close>

theorem signature_ignores_health:
  "config_signature dg (set_probe p c x d) = config_signature dg d
   \<and> config_signature dg (set_reconnect p c x d) = config_signature dg d
   \<and> config_signature dg (snd (set_label p c l d)) = config_signature dg d"
  by (simp add: set_probe_def set_reconnect_def set_label_def store_reconnect_def signature_mod)

text \<open>Editing what a tunnel is made of always moves the fingerprint that probes and reconnect
  records are tied to, as far as the digest tells inputs apart: two channels have one fingerprint
  exactly when switch, port and parameters agree.\<close>

theorem fingerprint_exact:
  assumes "inj dg"
  shows "fingerprint_raw dg a = fingerprint_raw dg b \<longleftrightarrow>
    ch_enabled a = ch_enabled b \<and> ch_port a = ch_port b \<and> obj_eq (ch_wg a) (ch_wg b)"
  using inj_eq[OF assms] by (auto simp: fingerprint_raw_def obj_eq_def jeq_def)

theorem fingerprint_exact_witness:
  "fingerprint_raw id demo_chan \<noteq> fingerprint_raw id (demo_chan\<lparr>ch_port := 4002\<rparr>)
   \<and> fingerprint_raw id demo_chan = fingerprint_raw id (demo_chan\<lparr>ch_label := ''x''\<rparr>)"
  using fingerprint_exact[of id demo_chan "demo_chan\<lparr>ch_port := 4002\<rparr>"]
    fingerprint_exact[of id demo_chan "demo_chan\<lparr>ch_label := ''x''\<rparr>"]
  by (simp add: demo_chan_def)

section \<open>Rule tables\<close>

text \<open>C35: \<open>_ruleset_blocks\<close> is the exact reading of a flat rule list. It returns the blocks \<open>bs\<close>
  exactly when \<open>bs\<close> are well-formed blocks with distinct ids whose rows, in order, are the list; so a
  list that is not one contiguous run per ruleset with one target is always refused.\<close>

theorem ruleset_blocks_reads:
  "ruleset_blocks rs = Inr bs \<longleftrightarrow> blocks_ok bs \<and> concat (map b_rules bs) = rs"
  using ruleset_blocks_iff[of rs bs] by (simp add: flat_def)

text \<open>C36: Reordering rulesets is a permutation and nothing else: the blocks of the new table are the
  old ones, whole, in exactly the requested order.\<close>

theorem reorder_rulesets_permutes:
  assumes "reorder_rulesets dg ids e d = Inr ((ordered, changed), d')" "ruleset_blocks (rules_of d) = Inr bs"
  shows "map b_id ordered = ids \<and> mset ordered = mset bs \<and> ruleset_blocks (rules_of d') = Inr ordered"
  using reorder_rulesets_spec[OF assms] ruleset_blocks_flat[of ordered] by (simp add: set_rules_simps)

definition demo_two :: data where
  "demo_two = (case create_ruleset ''Mail'' ''direct'' [(''domain'', ''mail.org'')] demo_store of
     Inr (_, d) \<Rightarrow> d | Inl _ \<Rightarrow> blank)"

lemma demo_reorder: "case reorder_rulesets (\<lambda>_. []) [''rs2'', ''rs1''] None demo_two of
    Inr ((o', c), d') \<Rightarrow> map b_name o' = [''Mail'', ''Video''] | Inl _ \<Rightarrow> False"
  by code_simp

lemma demo_two_blocks: "returned (ruleset_blocks (rules_of demo_two))"
  by code_simp

theorem reorder_rulesets_permutes_witness:
  "\<exists>ordered c d'. reorder_rulesets (\<lambda>_. []) [''rs2'', ''rs1''] None demo_two = Inr ((ordered, c), d')
    \<and> map b_id ordered = [''rs2'', ''rs1''] \<and> ruleset_blocks (rules_of d') = Inr ordered"
proof -
  from demo_reorder obtain o' c d' where r: "reorder_rulesets (\<lambda>_. []) [''rs2'', ''rs1''] None demo_two = Inr ((o', c), d')"
    by (auto split: sum.splits)
  from demo_two_blocks obtain bs where b: "ruleset_blocks (rules_of demo_two) = Inr bs" by blast
  from reorder_rulesets_permutes[OF r b] r show ?thesis by auto
qed

text \<open>C37: Migration of legacy rules. On rows written before rulesets existed, \<open>_normalize_rulesets\<close>
  always succeeds, keeps every rule's id, value and target in order, and yields a table that reads
  back as rulesets.\<close>

theorem normalize_migrates_legacy:
  assumes "\<forall>r \<in> set rs. rruleset r = []"
  shows "\<exists>rs' bs. normalize_rulesets rs = Inr rs' \<and> ruleset_blocks rs' = Inr bs
    \<and> map (\<lambda>r. (rid r, rvalue r, rtarget r)) rs' = map (\<lambda>r. (rid r, rvalue r, rtarget r)) rs"
  by (rule normalize_legacy[OF assms])

definition demo_legacy :: "rule list" where
  "demo_legacy = [\<lparr>rid = ''r1'', rtype = ''domain'', rvalue = ''a.org'', rtarget = ''direct'', rruleset = [], rname = None, rmanaged = False\<rparr>,
     \<lparr>rid = ''r2'', rtype = ''domain'', rvalue = ''b.org'', rtarget = ''block'', rruleset = [], rname = None, rmanaged = False\<rparr>]"

theorem normalize_migrates_legacy_witness:
  "\<exists>rs' bs. normalize_rulesets demo_legacy = Inr rs' \<and> ruleset_blocks rs' = Inr bs
    \<and> map (\<lambda>r. (rid r, rvalue r, rtarget r)) rs' =
      [(''r1'', ''a.org'', ''direct''), (''r2'', ''b.org'', ''block'')]"
  using normalize_migrates_legacy[of demo_legacy] by (simp add: demo_legacy_def)

text \<open>A generated channel id is always new: \<open>_next_id\<close> returns an id outside the given ones, for
  every country table, place and hint, however many are taken.\<close>

theorem next_id_is_new: "next_id country_code taken country city hint \<notin> set taken"
  by (rule next_suffix_fresh)

text \<open>A declared port never moves. Reassigning ports lost to other programs leaves every channel
  whose port is explicit exactly as it was.\<close>

theorem reallocate_keeps_declared:
  assumes "reallocate_channel_ports ports e d = Inr (res, e', d')" "get_chan d p c = Some ch" "ch_port_explicit ch"
  shows "get_chan d' p c = Some ch"
  by (rule reallocate_explicit[OF assms])

lemma demo_realloc: "case reallocate_channel_ports {4001} demo_os demo_store of
    Inr ((moved, held), _, _) \<Rightarrow> held = [(''mullvad'', ''wg_de_berlin_1'', 4001)] | Inl _ \<Rightarrow> False"
  by code_simp

theorem reallocate_keeps_declared_witness:
  "\<exists>res e' d'. reallocate_channel_ports {4001} demo_os demo_store = Inr (res, e', d')
    \<and> get_chan d' ''mullvad'' ''wg_de_berlin_1'' = Some demo_chan"
proof -
  from demo_realloc obtain res e' d' where r: "reallocate_channel_ports {4001} demo_os demo_store = Inr (res, e', d')"
    by (auto split: sum.splits)
  from reallocate_keeps_declared[OF r demo_get] r show ?thesis by (simp add: demo_chan_def)
qed

end
