(* ===== verification/Routes.thy ===== *)
theory Routes
  imports Srs State
begin

text \<open>
  The routing rules (\<open>anyhop/routes.py\<close>): reading what a user typed into one matcher, whether a rule
  matches a destination, and the shadow lint with its cover index. \<open>None\<close> and the empty matcher
  type are one value. Geo rule-sets are the parsed rules of theory \<open>Srs\<close>; the regular-expression
  search inside them is the argument \<open>se\<close>.
\<close>

unbundle bit_operations_syntax

section \<open>Matchers\<close>

datatype rule_error =
    Wildcard string
  | BadDomain string
  | BadGeo string string
  | BadCidr string
  | UnknownType string
  | BadTarget string
  | BadNetwork string

definition lan_direct_cidrs :: "string list" where
  "lan_direct_cidrs = [''10.0.0.0/8'', ''172.16.0.0/12'', ''192.168.0.0/16'', ''169.254.0.0/16'', ''127.0.0.0/8'',
     ''224.0.0.0/4'', ''255.255.255.255/32'', ''::1/128'', ''fe80::/10'', ''fc00::/7'', ''ff00::/8'']"

definition lan_direct_udp_ports :: "int list" where
  "lan_direct_udp_ports = [67, 68, 1900, 5353]"

definition geo_types :: "string list" where
  "geo_types = [''geosite'', ''geoip'']"

definition lower_alnum :: "char \<Rightarrow> bool" where
  "lower_alnum c = (is_digit c \<or> (97 \<le> (of_char c :: nat) \<and> (of_char c :: nat) \<le> 122))"

definition label_ok :: "string \<Rightarrow> bool" where
  "label_ok w = (w \<noteq> [] \<and> length w \<le> 63 \<and> (\<forall>c \<in> set w. lower_alnum c \<or> c = CHR ''_'' \<or> c = CHR ''-'')
     \<and> hd w \<noteq> CHR ''-'' \<and> last w \<noteq> CHR ''-'')"

text \<open>\<open>$\<close> also stands before a final line feed.\<close>

definition before_newline :: "(string \<Rightarrow> bool) \<Rightarrow> string \<Rightarrow> bool" where
  "before_newline P s = (P s \<or> (s \<noteq> [] \<and> last s = char_of (10 :: nat) \<and> P (butlast s)))"

definition domain_re :: "string \<Rightarrow> bool" where
  "domain_re = before_newline (\<lambda>s. length (split_on CHR ''.'' s) \<ge> 2 \<and> (\<forall>w \<in> set (split_on CHR ''.'' s). label_ok w))"

definition geo_name_re :: "string \<Rightarrow> bool" where
  "geo_name_re = before_newline (\<lambda>s. s \<noteq> [] \<and> length s \<le> 128 \<and> lower_alnum (hd s)
     \<and> (\<forall>c \<in> set s. lower_alnum c \<or> c \<in> set ''._@!+-''))"

definition normalize_domain :: "string \<Rightarrow> (rule_error, string) result" where
  "normalize_domain value =
     (let v = rstrip_chars {CHR ''.''} (lower (strip value)) in
      bindR (guardR (startswith v ''*.'') (Wildcard (drop 2 v))) (\<lambda>_.
      bindR (guardR (v = [] \<or> \<not> domain_re v) (BadDomain value)) (\<lambda>_. Inr v)))"

definition normalize_geo :: "string \<Rightarrow> string \<Rightarrow> (rule_error, string) result" where
  "normalize_geo kind value =
     (let v0 = lower (strip value);
          prefix = kind @ ''-'';
          v1 = (if startswith v0 prefix then drop (length prefix) v0 else v0);
          v2 = (if endswith v1 ''.srs'' then take (length v1 - 4) v1 else v1) in
      bindR (guardR (\<not> geo_name_re v2) (BadGeo kind value)) (\<lambda>_. Inr v2))"

definition normalize_value :: "string \<Rightarrow> string \<Rightarrow> (rule_error, string) result" where
  "normalize_value t value =
     (if t = ''all'' then Inr []
      else if t \<in> set geo_types then normalize_geo t value
      else if t = ''domain_suffix'' then normalize_domain value
      else if t = ''ip_cidr'' then
        (case ip_network False (strip value) of None \<Rightarrow> Inl (BadCidr value) | Some n \<Rightarrow> Inr (net_str n))
      else Inl (UnknownType t))"

definition infer_matcher :: "string \<Rightarrow> string \<Rightarrow> (rule_error, string \<times> string) result" where
  "infer_matcher value t0 =
     (let raw = strip value; t = (if t0 = ''domain'' then ''domain_suffix'' else t0) in
      if t \<noteq> [] then bindR (normalize_value t raw) (\<lambda>v. Inr (t, v))
      else if lower raw = ''all'' then Inr (''all'', [])
      else (case str_partition CHR '':'' raw of (kind, _, rest) \<Rightarrow>
        if lower kind \<in> set geo_types \<and> rest \<noteq> []
        then bindR (normalize_geo (lower kind) rest) (\<lambda>v. Inr (lower kind, v))
        else (case ip_network False raw of
            Some n \<Rightarrow> Inr (''ip_cidr'', net_str n)
          | None \<Rightarrow> bindR (normalize_domain raw) (\<lambda>v. Inr (''domain_suffix'', v)))))"

datatype target =
    Direct
  | Block
  | ToChannel string string

definition parse_target :: "string \<Rightarrow> (rule_error, target) result" where
  "parse_target t0 =
     (let t = strip t0 in
      if t = ''direct'' then Inr Direct
      else if t = ''block'' then Inr Block
      else (case str_partition CHR ''/'' t of (p, _, c) \<Rightarrow>
        if p \<noteq> [] \<and> c \<noteq> [] \<and> CHR ''/'' \<notin> set c then Inr (ToChannel p c) else Inl (BadTarget t0)))"

definition describe :: "rule \<Rightarrow> string" where
  "describe r = (if rtype r = ''all'' then ''all traffic'' else rtype r @ '' '' @ rvalue r)"

definition matcher_token :: "rule \<Rightarrow> string" where
  "matcher_token r = (if rtype r = ''all'' then ''all traffic''
     else if rtype r \<in> set geo_types then rtype r @ '':'' @ rvalue r
     else rvalue r)"

section \<open>Matching a destination\<close>

definition domain_suffix_matches :: "string \<Rightarrow> string \<Rightarrow> bool" where
  "domain_suffix_matches s d = (d = s \<or> endswith d (CHR ''.'' # s))"

type_synonym geo_sets = "(string \<times> string, srs_rule list) dict"

definition match_destination :: "(string \<Rightarrow> string \<Rightarrow> bool) \<Rightarrow> geo_sets \<Rightarrow> string option \<Rightarrow> ip_addr list \<Rightarrow> rule
    \<Rightarrow> (srs_error, bool) result" where
  "match_destination se geo domain ips r =
     (if rtype r = ''all'' then Inr True
      else if rtype r = ''domain_suffix'' then
        Inr (case domain of None \<Rightarrow> False | Some d \<Rightarrow> domain_suffix_matches (rvalue r) d)
      else if rtype r = ''ip_cidr'' then
        Inr (case ip_network True (rvalue r) of None \<Rightarrow> False | Some n \<Rightarrow> list_ex (\<lambda>ip. ip_in_net ip n) ips)
      else if rtype r \<in> set geo_types then
        (case dget geo (rtype r, rvalue r) of
           None \<Rightarrow> Inr False
         | Some rs \<Rightarrow>
             if rtype r = ''geosite'' then
               (case domain of None \<Rightarrow> Inr False
                | Some d \<Rightarrow> if d = [] then Inr False else ruleset_match se rs domain [])
             else if ips = [] then Inr False else ruleset_match se rs None ips)
      else Inr False)"

section \<open>The shadow lint\<close>

definition same_family_subnet :: "ip_net \<Rightarrow> ip_net \<Rightarrow> bool" where
  "same_family_subnet inner outer = (in_fam inner = in_fam outer \<and> subnet_of inner outer)"

definition network_of :: "string \<Rightarrow> (rule_error, ip_net) result" where
  "network_of v = (case ip_network True v of None \<Rightarrow> Inl (BadNetwork v) | Some n \<Rightarrow> Inr n)"

text \<open>\<open>covers\<close> raises on a network it cannot parse: the second rule's is parsed first.\<close>

definition covers :: "rule \<Rightarrow> rule \<Rightarrow> (rule_error, bool) result" where
  "covers a b =
     (if rtype a = ''all'' then Inr True
      else if rtype b = ''all'' then Inr False
      else if rtype a \<in> set geo_types \<or> rtype b \<in> set geo_types then
        Inr (rtype a = rtype b \<and> rvalue a = rvalue b)
      else if rtype a = ''domain_suffix'' \<and> rtype b = ''domain_suffix'' then
        Inr (domain_suffix_matches (rvalue a) (rvalue b))
      else if rtype a = ''ip_cidr'' \<and> rtype b = ''ip_cidr'' then
        bindR (network_of (rvalue b)) (\<lambda>nb. bindR (network_of (rvalue a)) (\<lambda>na. Inr (same_family_subnet nb na)))
      else Inr False)"

definition parse_network :: "string \<Rightarrow> (family \<times> nat \<times> nat) option" where
  "parse_network v = map_option (\<lambda>n. (in_fam n, in_plen n, in_addr n)) (ip_network True v)"

subsection \<open>The cover index\<close>

datatype labels = Labels (l_index: "nat option") (l_children: "(string \<times> labels) list")

definition earliest :: "nat option \<Rightarrow> nat option \<Rightarrow> nat option" where
  "earliest cur cand = (case cand of None \<Rightarrow> cur
     | Some n \<Rightarrow> (case cur of None \<Rightarrow> Some n | Some m \<Rightarrow> if n < m then Some n else Some m))"

fun trie_add :: "string list \<Rightarrow> nat \<Rightarrow> labels \<Rightarrow> labels" where
  "trie_add [] pos (Labels i cs) = Labels (case i of None \<Rightarrow> Some pos | Some _ \<Rightarrow> i) cs"
| "trie_add (w # ws) pos (Labels i cs) =
     Labels i (dset w (trie_add ws pos (case dget cs w of None \<Rightarrow> Labels None [] | Some c \<Rightarrow> c)) cs)"

fun trie_walk :: "string list \<Rightarrow> labels \<Rightarrow> nat option \<Rightarrow> nat option" where
  "trie_walk [] t best = best"
| "trie_walk (w # ws) t best = (case dget (l_children t) w of
     None \<Rightarrow> best | Some c \<Rightarrow> trie_walk ws c (earliest best (l_index c)))"

record cover_index =
  ix_all :: "nat option"
  ix_geo :: "(string \<times> string, nat) dict"
  ix_domains :: labels
  ix_networks :: "(family \<times> nat \<times> nat, nat) dict"
  ix_plens :: "(family \<times> nat) list"

definition empty_index :: cover_index where
  "empty_index = \<lparr>ix_all = None, ix_geo = [], ix_domains = Labels None [], ix_networks = [], ix_plens = []\<rparr>"

definition rev_labels :: "string \<Rightarrow> string list" where
  "rev_labels d = rev (split_on CHR ''.'' d)"

definition index_add :: "nat \<Rightarrow> rule \<Rightarrow> cover_index \<Rightarrow> cover_index" where
  "index_add pos r ix =
     (if rtype r = ''all'' then (case ix_all ix of None \<Rightarrow> ix\<lparr>ix_all := Some pos\<rparr> | Some _ \<Rightarrow> ix)
      else if rtype r \<in> set geo_types then ix\<lparr>ix_geo := setdefault (rtype r, rvalue r) pos (ix_geo ix)\<rparr>
      else if rtype r = ''domain_suffix'' then
        ix\<lparr>ix_domains := trie_add (rev_labels (rvalue r)) pos (ix_domains ix)\<rparr>
      else if rtype r = ''ip_cidr'' then
        (case parse_network (rvalue r) of None \<Rightarrow> ix
         | Some (f, p, a) \<Rightarrow> ix\<lparr>ix_networks := setdefault (f, p, a) pos (ix_networks ix),
             ix_plens := List.insert (f, p) (ix_plens ix)\<rparr>)
      else ix)"

definition probe_length :: "cover_index \<Rightarrow> family \<times> nat \<times> nat \<Rightarrow> family \<times> nat \<Rightarrow> nat option \<Rightarrow> nat option" where
  "probe_length ix n l best = (case n of (f, p, a) \<Rightarrow> case l of (g, q) \<Rightarrow>
     if g \<noteq> f \<or> q > p then best
     else earliest best (dget (ix_networks ix) (f, q, a AND push_bit (bits f - q) (mask q))))"

definition first_cover :: "rule \<Rightarrow> cover_index \<Rightarrow> nat option" where
  "first_cover r ix =
     (let best = ix_all ix in
      if best = Some 0 then Some 0
      else if rtype r \<in> set geo_types then earliest best (dget (ix_geo ix) (rtype r, rvalue r))
      else if rtype r = ''domain_suffix'' then trie_walk (rev_labels (rvalue r)) (ix_domains ix) best
      else if rtype r = ''ip_cidr'' then
        (case parse_network (rvalue r) of None \<Rightarrow> best
         | Some n \<Rightarrow> fold (probe_length ix n) (ix_plens ix) best)
      else best)"

definition shadow_step :: "rule list \<Rightarrow> nat \<times> rule \<Rightarrow> (string, string) dict \<times> cover_index
    \<Rightarrow> (string, string) dict \<times> cover_index" where
  "shadow_step rules x st = (case x of (pos, r) \<Rightarrow> case st of (out, ix) \<Rightarrow>
     ((case first_cover r ix of None \<Rightarrow> out | Some i \<Rightarrow> dset (rid r) (rid (rules ! i)) out), index_add pos r ix))"

definition shadowed_by :: "rule list \<Rightarrow> (string, string) dict" where
  "shadowed_by rules = fst (fold (shadow_step rules) (enumerate 0 rules) ([], empty_index))"

definition lan_direct_shadow :: string where
  "lan_direct_shadow = ''lan-direct''"

definition shadowed_by_lan_direct :: "rule \<Rightarrow> bool" where
  "shadowed_by_lan_direct r =
     (rtype r = ''ip_cidr'' \<and> (case ip_network True (rvalue r) of None \<Rightarrow> False
        | Some n \<Rightarrow> list_ex (\<lambda>c. case ip_network True c of None \<Rightarrow> False | Some m \<Rightarrow> same_family_subnet n m) lan_direct_cidrs))"

definition shadow_label :: "string \<Rightarrow> string" where
  "shadow_label s = (if s = lan_direct_shadow then ''the built-in LAN-direct rule'' else ''earlier rule '' @ s)"

end
