(* ===== verification/Shadow.thy ===== *)
theory Shadow
  imports Routes "HOL-Library.Code_Target_Nat"
begin

text \<open>
  The shadow lint is right: the cover index answers what a scan of \<open>covers\<close> over the earlier rules
  would, and a rule it reports can never be the first to match. The interface between the lint and
  its index is a locale, interpreted on the model's index.
\<close>

section \<open>First-match indexes\<close>

text \<open>An index over the rules added so far, at positions 0, 1, ..: looking a rule up gives the
  earliest position whose rule is related to it.\<close>

locale first_match =
  fixes empty :: 'ix
    and add :: "nat \<Rightarrow> 'r \<Rightarrow> 'ix \<Rightarrow> 'ix"
    and lookup :: "'r \<Rightarrow> 'ix \<Rightarrow> nat option"
    and rel :: "'r \<Rightarrow> 'r \<Rightarrow> bool"
    and ok :: "'r \<Rightarrow> bool"
    and valid :: "nat \<Rightarrow> 'ix \<Rightarrow> bool"
  assumes valid_empty: "valid 0 empty"
    and valid_add: "valid n ix \<Longrightarrow> ok a \<Longrightarrow> valid (Suc n) (add n a ix)"
    and lookup_empty: "lookup b empty = None"
    and lookup_bound: "valid n ix \<Longrightarrow> lookup b ix = Some m \<Longrightarrow> m < n"
    and lookup_add: "valid n ix \<Longrightarrow> ok a \<Longrightarrow> ok b \<Longrightarrow>
      lookup b (add n a ix) = (case lookup b ix of Some m \<Rightarrow> Some m | None \<Rightarrow> if rel a b then Some n else None)"
begin

definition index_of :: "'r list \<Rightarrow> 'ix" where
  "index_of rs = fold (\<lambda>(i, r) ix. add i r ix) (enumerate 0 rs) empty"

lemma index_of_snoc: "index_of (rs @ [r]) = add (length rs) r (index_of rs)"
  by (simp add: index_of_def enumerate_append_eq)

lemma valid_index: "\<forall>r \<in> set rs. ok r \<Longrightarrow> valid (length rs) (index_of rs)"
proof (induction rs rule: rev_induct)
  case Nil
  then show ?case using valid_empty by (simp add: index_of_def)
next
  case (snoc r rs)
  then show ?case by (simp add: index_of_snoc valid_add)
qed

lemma lookup_index:
  assumes "\<forall>r \<in> set rs. ok r" "ok b"
  shows "lookup b (index_of rs) = find (\<lambda>i. rel (rs ! i) b) [0..<length rs]"
  using assms(1)
proof (induction rs rule: rev_induct)
  case Nil
  then show ?case using lookup_empty by (simp add: index_of_def)
next
  case (snoc r rs)
  have c: "find (\<lambda>i. rel ((rs @ [r]) ! i) b) [0..<length rs] = find (\<lambda>i. rel (rs ! i) b) [0..<length rs]"
    by (rule find_cong) (simp_all add: nth_append)
  have f: "find P (xs @ [x]) = (case find P xs of Some y \<Rightarrow> Some y | None \<Rightarrow> if P x then Some x else None)" for P xs and x :: nat
    by (induction xs) auto
  have "lookup b (index_of (rs @ [r])) = (case lookup b (index_of rs) of Some m \<Rightarrow> Some m
      | None \<Rightarrow> if rel r b then Some (length rs) else None)"
    unfolding index_of_snoc by (rule lookup_add[OF valid_index]) (use snoc.prems assms(2) in auto)
  also have "lookup b (index_of rs) = find (\<lambda>i. rel ((rs @ [r]) ! i) b) [0..<length rs]"
    unfolding c by (rule snoc.IH) (use snoc.prems in simp)
  finally show ?case by (simp add: f split: option.split)
qed

end

section \<open>Suffixes on a dot boundary\<close>

lemma suffix_join: "ws \<noteq> [] \<Longrightarrow> vs \<noteq> [] \<Longrightarrow> join [c] (ws @ vs) = join [c] ws @ c # join [c] vs"
  by (induction ws rule: induct_list012) (auto simp: join_Cons)

lemma domain_suffix_labels: "domain_suffix_matches s d \<longleftrightarrow> prefix (rev_labels s) (rev_labels d)"
proof
  assume "domain_suffix_matches s d"
  then consider "d = s" | q where "d = q @ CHR ''.'' # s"
    by (auto simp: domain_suffix_matches_def endswith_iff)
  then show "prefix (rev_labels s) (rev_labels d)"
    by cases (simp_all add: rev_labels_def split_on_append)
next
  assume "prefix (rev_labels s) (rev_labels d)"
  then obtain zs where "rev (split_on CHR ''.'' d) = rev (split_on CHR ''.'' s) @ zs"
    by (auto simp: rev_labels_def prefix_def)
  then have e: "split_on CHR ''.'' d = rev zs @ split_on CHR ''.'' s" by (metis rev_append rev_rev_ident)
  show "domain_suffix_matches s d"
  proof (cases zs)
    case Nil
    with e show ?thesis by (simp add: split_on_inj domain_suffix_matches_def)
  next
    case (Cons z zs')
    have "d = join ''.'' (rev zs @ split_on CHR ''.'' s)" using e join_split_on[of "CHR ''.''" d] by simp
    also have "\<dots> = join ''.'' (rev zs) @ CHR ''.'' # join ''.'' (split_on CHR ''.'' s)"
      by (rule suffix_join) (simp_all add: Cons)
    finally show ?thesis by (auto simp: domain_suffix_matches_def endswith_iff join_split_on)
  qed
qed

section \<open>The domain trie\<close>

lemma earliest_simps [simp]:
  "earliest None x = x" "earliest x None = x" "earliest (Some m) (Some n) = Some (min m n)"
  by (auto simp: earliest_def split: option.split)

lemma earliest_assoc: "earliest (earliest a b) c = earliest a (earliest b c)"
  by (cases a; cases b; cases c) (simp_all add: min.assoc)

lemma earliest_comm: "earliest a b = earliest b a"
  by (cases a; cases b) (simp_all add: min.commute)

lemma walk_best: "trie_walk ws t best = earliest best (trie_walk ws t None)"
proof (induction ws arbitrary: t best)
  case (Cons w ws)
  show ?case
  proof (cases "dget (l_children t) w")
    case (Some c)
    have "trie_walk ws c (earliest best (l_index c)) = earliest (earliest best (l_index c)) (trie_walk ws c None)"
      by (rule Cons.IH)
    moreover have "trie_walk ws c (l_index c) = earliest (l_index c) (trie_walk ws c None)" by (rule Cons.IH)
    ultimately show ?thesis using Some by (simp add: earliest_assoc)
  qed simp
qed simp

text \<open>The positions on the path of a word below the root, and the root's own.\<close>

definition root_walk :: "string list \<Rightarrow> labels \<Rightarrow> nat option" where
  "root_walk ws t = earliest (l_index t) (trie_walk ws t None)"

lemma walk_root: "trie_walk (w # ws) t None = (case dget (l_children t) w of None \<Rightarrow> None | Some c \<Rightarrow> root_walk ws c)"
proof (cases "dget (l_children t) w")
  case (Some c)
  then show ?thesis using walk_best[of ws c "l_index c"] by (simp only: root_walk_def trie_walk.simps option.case earliest_simps)
qed simp

lemma root_walk_empty [simp]: "root_walk ws (Labels None []) = None"
  by (cases ws) (simp_all add: root_walk_def)

lemma root_walk_Cons:
  "root_walk (w # ws) t = earliest (l_index t) (case dget (l_children t) w of None \<Rightarrow> None | Some c \<Rightarrow> root_walk ws c)"
  by (simp only: root_walk_def[of "w # ws"] walk_root)

fun idx_below :: "nat \<Rightarrow> labels \<Rightarrow> bool" where
  "idx_below n (Labels i cs) = ((\<forall>m. i = Some m \<longrightarrow> m < n) \<and> (\<forall>x \<in> set cs. idx_below n (snd x)))"

lemma idx_below_child: "idx_below n t \<Longrightarrow> dget (l_children t) w = Some c \<Longrightarrow> idx_below n c"
  by (cases t) (auto dest!: map_of_SomeD)

lemma idx_below_mono: "idx_below n t \<Longrightarrow> n \<le> m \<Longrightarrow> idx_below m t"
proof (induction n t rule: idx_below.induct)
  case (1 n i cs)
  then show ?case by (auto intro: order_less_le_trans)
qed

lemma idx_below_add: "idx_below n t \<Longrightarrow> idx_below (Suc n) (trie_add ks n t)"
proof (induction ks n t rule: trie_add.induct)
  case (1 pos i cs)
  then show ?case using idx_below_mono[of pos _ "Suc pos"] by (auto split: option.split)
next
  case (2 w ws pos i cs)
  let ?c = "case dget cs w of None \<Rightarrow> Labels None [] | Some c \<Rightarrow> c"
  have "idx_below pos ?c" using 2(2) by (auto split: option.split dest!: map_of_SomeD)
  then have a: "idx_below (Suc pos) (trie_add ws pos ?c)" by (rule 2(1))
  have "idx_below (Suc pos) (snd x)" if "x \<in> set (dset w (trie_add ws pos ?c) cs)" for x
    using dset_mem[OF that] a 2(2) idx_below_mono[of pos "snd x" "Suc pos"] by auto
  then show ?case using 2(2) by (auto simp: less_Suc_eq)
qed

lemma root_walk_bound: "idx_below n t \<Longrightarrow> root_walk ws t = Some m \<Longrightarrow> m < n"
proof (induction ws arbitrary: t m)
  case Nil
  then show ?case by (cases t) (simp add: root_walk_def)
next
  case (Cons w ws)
  obtain i cs where t: "t = Labels i cs" by (cases t)
  show ?case
  proof (cases "dget cs w")
    case None
    with Cons.prems t show ?thesis by (simp add: root_walk_Cons)
  next
    case (Some c)
    from idx_below_child[OF Cons.prems(1)] Some t have "idx_below n c" by simp
    with Cons.IH[of c] Cons.prems Some t show ?thesis
      by (cases i; cases "root_walk ws c") (auto simp: root_walk_Cons min_def split: if_splits)
  qed
qed

lemma root_walk_add:
  assumes "idx_below n t"
  shows "root_walk ws (trie_add ks n t) = (if prefix ks ws then earliest (root_walk ws t) (Some n) else root_walk ws t)"
  using assms
proof (induction ks arbitrary: ws t)
  case Nil
  obtain i cs where t: "t = Labels i cs" by (cases t)
  have w: "trie_walk ws (Labels (Some m) cs) None = trie_walk ws (Labels i cs) None" for m by (cases ws) simp_all
  show ?case
  proof (cases i)
    case None
    then show ?thesis using t w by (simp add: root_walk_def earliest_comm)
  next
    case (Some m)
    with Nil t have "m < n" by simp
    then show ?thesis using Some t by (cases "trie_walk ws t None") (simp_all add: root_walk_def min_def)
  qed
next
  case (Cons k ks)
  obtain i cs where t: "t = Labels i cs" by (cases t)
  define c where "c = (case dget cs k of None \<Rightarrow> Labels None [] | Some c \<Rightarrow> c)"
  have e: "trie_add (k # ks) n t = Labels i (dset k (trie_add ks n c) cs)" by (simp add: t c_def)
  have "idx_below n c" using Cons.prems t by (auto simp: c_def split: option.split dest!: map_of_SomeD)
  note ih = Cons.IH[OF this]
  show ?case
  proof (cases ws)
    case Nil
    then show ?thesis by (simp add: e t root_walk_def)
  next
    case (Cons w vs)
    show ?thesis
    proof (cases "w = k")
      case False
      then show ?thesis by (simp add: e t Cons root_walk_Cons)
    next
      case True
      have "root_walk (k # vs) t = earliest i (root_walk vs c)"
        by (simp add: t root_walk_Cons c_def split: option.split)
      with True ih show ?thesis by (simp add: e Cons root_walk_Cons earliest_assoc)
    qed
  qed
qed

section \<open>Networks by prefix length\<close>

lemma probe_earliest: "probe_length ix n l best = earliest best (probe_length ix n l None)"
  by (simp add: probe_length_def split: prod.split)

lemma fold_probe_earliest: "fold (probe_length ix n) ls best = earliest best (fold (probe_length ix n) ls None)"
proof (induction ls arbitrary: best)
  case (Cons l ls)
  have "fold (probe_length ix n) ls (probe_length ix n l best)
      = earliest (probe_length ix n l best) (fold (probe_length ix n) ls None)" by (rule Cons.IH)
  also have "\<dots> = earliest best (earliest (probe_length ix n l None) (fold (probe_length ix n) ls None))"
    using probe_earliest[of ix n l best] by (simp add: earliest_assoc)
  also have "earliest (probe_length ix n l None) (fold (probe_length ix n) ls None)
      = fold (probe_length ix n) ls (probe_length ix n l None)" using Cons.IH by metis
  finally show ?case by simp
qed simp

text \<open>The fold as a minimum: its value is a stored position, and below every stored one.\<close>

definition net_hit :: "cover_index \<Rightarrow> family \<times> nat \<times> nat \<Rightarrow> family \<times> nat \<Rightarrow> nat option" where
  "net_hit ix n l = probe_length ix n l None"

lemma fold_probe_Some:
  "fold (probe_length ix n) ls None = Some m \<Longrightarrow> \<exists>l \<in> set ls. net_hit ix n l = Some m"
proof (induction ls)
  case (Cons l ls)
  have "fold (probe_length ix n) (l # ls) None = earliest (net_hit ix n l) (fold (probe_length ix n) ls None)"
    using fold_probe_earliest[of ix n ls "probe_length ix n l None"] by (simp add: net_hit_def)
  with Cons show ?case
    by (cases "net_hit ix n l"; cases "fold (probe_length ix n) ls None") (auto simp: min_def split: if_splits)
qed simp

lemma fold_probe_le:
  "l \<in> set ls \<Longrightarrow> net_hit ix n l = Some k \<Longrightarrow> \<exists>m \<le> k. fold (probe_length ix n) ls None = Some m"
proof (induction ls)
  case (Cons x ls)
  have e: "fold (probe_length ix n) (x # ls) None = earliest (net_hit ix n x) (fold (probe_length ix n) ls None)"
    using fold_probe_earliest[of ix n ls "probe_length ix n x None"] by (simp add: net_hit_def)
  show ?case
  proof (cases "x = l")
    case True
    with e Cons.prems show ?thesis by (cases "fold (probe_length ix n) ls None") auto
  next
    case False
    with Cons obtain m where "m \<le> k" "fold (probe_length ix n) ls None = Some m" by auto
    with e show ?thesis by (cases "net_hit ix n x") auto
  qed
qed simp

definition net_hits :: "cover_index \<Rightarrow> family \<times> nat \<times> nat \<Rightarrow> nat set" where
  "net_hits ix n = {m. \<exists>l \<in> set (ix_plens ix). net_hit ix n l = Some m}"

lemma finite_net_hits: "finite (net_hits ix n)"
proof -
  have "net_hits ix n \<subseteq> (\<lambda>l. case net_hit ix n l of None \<Rightarrow> 0 | Some m \<Rightarrow> m) ` set (ix_plens ix)"
    by (force simp: net_hits_def)
  then show ?thesis by (rule finite_subset) simp
qed

lemma fold_probe_Min:
  "fold (probe_length ix n) (ix_plens ix) None = (if net_hits ix n = {} then None else Some (Min (net_hits ix n)))"
proof (cases "fold (probe_length ix n) (ix_plens ix) None")
  case None
  have "net_hits ix n = {}"
  proof (rule ccontr)
    assume "net_hits ix n \<noteq> {}"
    then obtain l k where "l \<in> set (ix_plens ix)" "net_hit ix n l = Some k" by (auto simp: net_hits_def)
    from fold_probe_le[OF this] None show False by simp
  qed
  with None show ?thesis by simp
next
  case (Some m)
  then have m: "m \<in> net_hits ix n" using fold_probe_Some by (auto simp: net_hits_def)
  have "m \<le> k" if "k \<in> net_hits ix n" for k
    using that fold_probe_le[of _ "ix_plens ix" ix n k] Some by (auto simp: net_hits_def)
  with m have "Min (net_hits ix n) = m" by (intro Min_eqI finite_net_hits) auto
  with m Some show ?thesis by auto
qed

lemma net_hit_Some:
  "net_hit ix (f, p, a) (g, q) = Some m \<longleftrightarrow> g = f \<and> q \<le> p \<and> dget (ix_networks ix) (f, q, a AND netmask f q) = Some m"
  by (auto simp: net_hit_def probe_length_def netmask_def)

lemma net_hits_iff:
  assumes "\<forall>f p a. dget (ix_networks ix) (f, p, a) \<noteq> None \<longrightarrow> (f, p) \<in> set (ix_plens ix)"
  shows "m \<in> net_hits ix (f, p, a) \<longleftrightarrow> (\<exists>q \<le> p. dget (ix_networks ix) (f, q, a AND netmask f q) = Some m)"
proof
  assume "m \<in> net_hits ix (f, p, a)"
  then show "\<exists>q \<le> p. dget (ix_networks ix) (f, q, a AND netmask f q) = Some m"
    by (auto simp: net_hits_def net_hit_Some)
next
  assume "\<exists>q \<le> p. dget (ix_networks ix) (f, q, a AND netmask f q) = Some m"
  then obtain q where q: "q \<le> p" "dget (ix_networks ix) (f, q, a AND netmask f q) = Some m" by blast
  with assms have "(f, q) \<in> set (ix_plens ix)" by blast
  with q show "m \<in> net_hits ix (f, p, a)"
    unfolding net_hits_def using net_hit_Some[of ix f p a f q m] by blast
qed

section \<open>The cover index as a first-match index\<close>

definition lint_ok :: "rule \<Rightarrow> bool" where
  "lint_ok r = (rtype r = ''ip_cidr'' \<longrightarrow> (\<exists>n. ip_network True (rvalue r) = Some n \<and> in_scope n = None))"

definition covered :: "rule \<Rightarrow> rule \<Rightarrow> bool" where
  "covered a b = (covers a b = Inr True)"

definition index_valid :: "nat \<Rightarrow> cover_index \<Rightarrow> bool" where
  "index_valid n ix = ((\<forall>m. ix_all ix = Some m \<longrightarrow> m < n)
     \<and> (\<forall>k m. dget (ix_geo ix) k = Some m \<longrightarrow> m < n)
     \<and> idx_below n (ix_domains ix) \<and> l_index (ix_domains ix) = None
     \<and> (\<forall>k m. dget (ix_networks ix) k = Some m \<longrightarrow> m < n)
     \<and> (\<forall>f p a. dget (ix_networks ix) (f, p, a) \<noteq> None \<longrightarrow> (f, p) \<in> set (ix_plens ix)))"

definition family_cover :: "rule \<Rightarrow> cover_index \<Rightarrow> nat option" where
  "family_cover r ix =
     (if rtype r \<in> set geo_types then dget (ix_geo ix) (rtype r, rvalue r)
      else if rtype r = ''domain_suffix'' then root_walk (rev_labels (rvalue r)) (ix_domains ix)
      else if rtype r = ''ip_cidr'' then
        (case parse_network (rvalue r) of None \<Rightarrow> None | Some n \<Rightarrow> fold (probe_length ix n) (ix_plens ix) None)
      else None)"

lemma rev_labels_nonempty [simp]: "rev_labels d \<noteq> []"
  by (simp add: rev_labels_def)

lemma first_cover_split:
  "l_index (ix_domains ix) = None \<Longrightarrow> first_cover r ix = earliest (ix_all ix) (family_cover r ix)"
  using walk_best[of "rev_labels (rvalue r)" "ix_domains ix" "ix_all ix"]
    fold_probe_earliest[of ix _ "ix_plens ix" "ix_all ix"]
  by (cases "family_cover r ix")
    (auto simp: first_cover_def family_cover_def Let_def root_walk_def split: option.split)

lemma family_cover_bound: "index_valid n ix \<Longrightarrow> family_cover r ix = Some m \<Longrightarrow> m < n"
proof (cases "rtype r = ''ip_cidr''")
  case True
  assume v: "index_valid n ix" and f: "family_cover r ix = Some m"
  from f True obtain k where k: "fold (probe_length ix k) (ix_plens ix) None = Some m"
    by (auto simp: family_cover_def geo_types_def split: option.splits)
  from fold_probe_Some[OF this] obtain g q where h: "net_hit ix k (g, q) = Some m" by auto
  obtain f p a where "k = (f, p, a)" by (metis prod.exhaust)
  with h have "dget (ix_networks ix) (f, q, a AND netmask f q) = Some m" by (simp add: net_hit_Some)
  with v show "m < n" unfolding index_valid_def by blast
next
  case False
  assume "index_valid n ix" "family_cover r ix = Some m"
  with False show "m < n"
    using root_walk_bound[of n "ix_domains ix"] by (auto simp: family_cover_def index_valid_def split: if_splits)
qed

lemma valid_empty: "index_valid 0 empty_index"
  by (simp add: index_valid_def empty_index_def)

lemma trie_add_root: "ks \<noteq> [] \<Longrightarrow> l_index (trie_add ks n t) = l_index t"
  by (cases ks; cases t) simp_all

lemma setdefault_None: "dget d k = None \<Longrightarrow> setdefault k v d = dset k v d"
  by (simp add: setdefault_def)

lemma setdefault_Some: "dget d k = Some w \<Longrightarrow> setdefault k v d = d"
  by (simp add: setdefault_def)

lemma valid_add:
  assumes "index_valid n ix"
  shows "index_valid (Suc n) (index_add n a ix)"
proof -
  note v = assms[unfolded index_valid_def]
  have all: "\<forall>m. ix_all ix = Some m \<longrightarrow> m < Suc n" and geo: "\<forall>k m. dget (ix_geo ix) k = Some m \<longrightarrow> m < Suc n"
    and trie: "idx_below (Suc n) (ix_domains ix)" and net: "\<forall>k m. dget (ix_networks ix) k = Some m \<longrightarrow> m < Suc n"
    using v idx_below_mono[of n "ix_domains ix" "Suc n"] less_SucI by (metis le_SucI order_refl)+
  consider "rtype a = ''all''" | "rtype a \<in> set geo_types" | "rtype a = ''domain_suffix''" | "rtype a = ''ip_cidr''"
    | "rtype a \<notin> {''all'', ''domain_suffix'', ''ip_cidr''} \<union> set geo_types" by blast
  then show ?thesis
  proof cases
    case 1
    then show ?thesis using v all geo trie net by (simp add: index_add_def index_valid_def split: option.split)
  next
    case 2
    then have "rtype a \<noteq> ''all''" by (auto simp: geo_types_def)
    moreover have "\<forall>k m. dget (setdefault (rtype a, rvalue a) n (ix_geo ix)) k = Some m \<longrightarrow> m < Suc n"
      using geo by (auto simp: dget_setdefault split: option.split)
    ultimately show ?thesis using 2 v all trie net by (simp add: index_add_def index_valid_def)
  next
    case 3
    with v all geo net idx_below_add trie_add_root show ?thesis
      by (simp add: index_add_def index_valid_def geo_types_def)
  next
    case 4
    show ?thesis
    proof (cases "parse_network (rvalue a)")
      case None
      with 4 v all geo trie net show ?thesis by (simp add: index_add_def index_valid_def geo_types_def)
    next
      case (Some k)
      obtain f p x where k: "k = (f, p, x)" by (metis prod.exhaust)
      have "\<forall>k m. dget (setdefault (f, p, x) n (ix_networks ix)) k = Some m \<longrightarrow> m < Suc n"
        using net by (auto simp: dget_setdefault split: option.split)
      moreover have "(g, q) \<in> set (List.insert (f, p) (ix_plens ix))"
        if "dget (setdefault (f, p, x) n (ix_networks ix)) (g, q, y) \<noteq> None" for g q y
      proof (cases "(g, q, y) = (f, p, x)")
        case False
        with that have "dget (ix_networks ix) (g, q, y) \<noteq> None" by (simp only: dget_setdefault if_False) simp
        with v have "(g, q) \<in> set (ix_plens ix)" by blast
        then show ?thesis by simp
      qed simp
      ultimately show ?thesis using 4 Some k v all geo trie by (simp add: index_add_def index_valid_def geo_types_def)
    qed
  next
    case 5
    then show ?thesis using v all geo trie net by (simp add: index_add_def index_valid_def)
  qed
qed

lemma lint_ok_net:
  assumes "lint_ok r" "rtype r = ''ip_cidr''"
  obtains n where "ip_network True (rvalue r) = Some n" "in_scope n = None" "net_ok n"
    "parse_network (rvalue r) = Some (in_fam n, in_plen n, in_addr n)"
  using assms ip_network_ok by (fastforce simp: lint_ok_def parse_network_def)

lemma covered_nets:
  assumes "rtype a = ''ip_cidr''" "rtype b = ''ip_cidr''"
    and "ip_network True (rvalue a) = Some na" "in_scope na = None" "net_ok na"
    and "ip_network True (rvalue b) = Some nb" "in_scope nb = None" "net_ok nb"
  shows "covered a b \<longleftrightarrow> in_fam nb = in_fam na \<and> in_plen na \<le> in_plen nb
    \<and> in_addr nb AND netmask (in_fam na) (in_plen na) = in_addr na"
  using assms subnet_of_iff[of nb na]
  by (auto simp: covered_def covers_def network_of_def same_family_subnet_def geo_types_def)

lemma updated_hits:
  fixes m n p :: nat
  shows "d K = None \<Longrightarrow> (\<exists>q \<le> p. (if g q = K then Some n else d (g q)) = Some m)
    \<longleftrightarrow> (\<exists>q \<le> p. d (g q) = Some m) \<or> ((\<exists>q \<le> p. g q = K) \<and> m = n)"
  by (auto split: if_splits)

lemma network_cover_add:
  assumes v: "index_valid n ix" and t: "rtype a = ''ip_cidr''" "rtype b = ''ip_cidr''" and o: "lint_ok a" "lint_ok b"
  shows "family_cover b (index_add n a ix) = (if covered a b then earliest (family_cover b ix) (Some n) else family_cover b ix)"
proof -
  obtain na where na: "ip_network True (rvalue a) = Some na" "in_scope na = None" "net_ok na"
    "parse_network (rvalue a) = Some (in_fam na, in_plen na, in_addr na)" by (rule lint_ok_net[OF o(1) t(1)])
  obtain nb where nb: "ip_network True (rvalue b) = Some nb" "in_scope nb = None" "net_ok nb"
    "parse_network (rvalue b) = Some (in_fam nb, in_plen nb, in_addr nb)" by (rule lint_ok_net[OF o(2) t(2)])
  let ?K = "(in_fam na, in_plen na, in_addr na)" and ?B = "(in_fam nb, in_plen nb, in_addr nb)"
  let ?ix = "index_add n a ix"
  have ix: "?ix = ix\<lparr>ix_networks := setdefault ?K n (ix_networks ix),
      ix_plens := List.insert (in_fam na, in_plen na) (ix_plens ix)\<rparr>"
    using t(1) na(4) by (simp add: index_add_def geo_types_def)
  have sup: "\<forall>f p a. dget (ix_networks ix) (f, p, a) \<noteq> None \<longrightarrow> (f, p) \<in> set (ix_plens ix)"
    using v by (simp add: index_valid_def)
  have sup': "\<forall>f p a. dget (ix_networks ?ix) (f, p, a) \<noteq> None \<longrightarrow> (f, p) \<in> set (ix_plens ?ix)"
    using valid_add[OF v, of a] by (simp add: index_valid_def)
  have fam: "family_cover b i = (if net_hits i ?B = {} then None else Some (Min (net_hits i ?B)))" for i
    using t(2) nb(4) fold_probe_Min by (simp add: family_cover_def geo_types_def)
  have cov: "covered a b \<longleftrightarrow> in_fam nb = in_fam na \<and> in_plen na \<le> in_plen nb
      \<and> in_addr nb AND netmask (in_fam na) (in_plen na) = in_addr na"
    by (rule covered_nets[OF t na(1-3) nb(1-3)])
  have below: "m < n" if "m \<in> net_hits ix ?B" for m
    using that v unfolding net_hits_iff[OF sup] index_valid_def by blast
  show ?thesis
  proof (cases "dget (ix_networks ix) ?K")
    case (Some m)
    then have "(in_fam na, in_plen na) \<in> set (ix_plens ix)" using sup by blast
    then have same: "?ix = ix" using ix setdefault_Some[OF Some] by simp
    show ?thesis
    proof (cases "covered a b")
      case True
      with Some cov have h: "m \<in> net_hits ix ?B" unfolding net_hits_iff[OF sup] by auto
      then have "Min (net_hits ix ?B) < n" using below[OF h] finite_net_hits by (meson Min_le le_less_trans)
      with h True show ?thesis by (auto simp: same fam min_def)
    qed (simp add: same)
  next
    case None
    have nets: "dget (ix_networks ?ix) k = (if k = ?K then Some n else dget (ix_networks ix) k)" for k
      unfolding ix using None by (simp add: setdefault_None)
    have hits: "net_hits ?ix ?B = (if covered a b then insert n (net_hits ix ?B) else net_hits ix ?B)"
    proof -
      have "m \<in> net_hits ?ix ?B \<longleftrightarrow> m \<in> net_hits ix ?B \<or> covered a b \<and> m = n" for m
      proof -
        have "m \<in> net_hits ?ix ?B \<longleftrightarrow> (\<exists>q \<le> in_plen nb. (if (in_fam nb, q, in_addr nb AND netmask (in_fam nb) q) = ?K
            then Some n else dget (ix_networks ix) (in_fam nb, q, in_addr nb AND netmask (in_fam nb) q)) = Some m)"
          unfolding net_hits_iff[OF sup'] nets by simp
        also have "\<dots> \<longleftrightarrow> (\<exists>q \<le> in_plen nb. dget (ix_networks ix) (in_fam nb, q, in_addr nb AND netmask (in_fam nb) q) = Some m)
            \<or> (\<exists>q \<le> in_plen nb. (in_fam nb, q, in_addr nb AND netmask (in_fam nb) q) = ?K) \<and> m = n"
          by (rule updated_hits[where d = "dget (ix_networks ix)" and K = ?K, OF None])
        also have "(\<exists>q \<le> in_plen nb. (in_fam nb, q, in_addr nb AND netmask (in_fam nb) q) = ?K) \<longleftrightarrow> covered a b"
          using cov by auto
        finally show ?thesis unfolding net_hits_iff[OF sup] .
      qed
      then show ?thesis by auto
    qed
    show ?thesis
    proof (cases "covered a b")
      case True
      have "Min (insert n (net_hits ix ?B)) = min n (Min (net_hits ix ?B))" if "net_hits ix ?B \<noteq> {}"
        using Min_insert[OF finite_net_hits that] .
      with True hits show ?thesis by (simp add: fam min.commute)
    qed (simp add: fam hits)
  qed
qed

lemma probe_length_frame [simp]:
  "probe_length (ix\<lparr>ix_all := x\<rparr>) = probe_length ix" "probe_length (ix\<lparr>ix_geo := g\<rparr>) = probe_length ix"
  "probe_length (ix\<lparr>ix_domains := t\<rparr>) = probe_length ix"
  by (simp_all add: probe_length_def fun_eq_iff)

lemma first_cover_bound:
  assumes "index_valid n ix" "first_cover b ix = Some m"
  shows "m < n"
proof -
  have "first_cover b ix = earliest (ix_all ix) (family_cover b ix)"
    by (rule first_cover_split) (use assms(1) in \<open>simp add: index_valid_def\<close>)
  then have "ix_all ix = Some m \<or> family_cover b ix = Some m"
    using assms(2) by (cases "ix_all ix"; cases "family_cover b ix") (auto simp: min_def split: if_splits)
  then show ?thesis
    using assms(1) family_cover_bound[OF assms(1), of b m] unfolding index_valid_def by blast
qed

lemma family_cover_add:
  assumes v: "index_valid n ix" and o: "lint_ok a" "lint_ok b" and na: "rtype a \<noteq> ''all''"
  shows "family_cover b (index_add n a ix) = (if covered a b then earliest (family_cover b ix) (Some n) else family_cover b ix)"
proof -
  have geo: "rtype r \<in> set geo_types \<Longrightarrow> rtype r \<noteq> ''all'' \<and> rtype r \<noteq> ''domain_suffix'' \<and> rtype r \<noteq> ''ip_cidr''" for r :: rule
    by (auto simp: geo_types_def)
  consider "rtype a \<in> set geo_types" | "rtype a = ''domain_suffix''" | "rtype a = ''ip_cidr''"
    | "rtype a \<notin> {''all'', ''domain_suffix'', ''ip_cidr''} \<union> set geo_types" using na by blast
  then show ?thesis
  proof cases
    case 1
    have c: "covered a b \<longleftrightarrow> rtype a = rtype b \<and> rvalue a = rvalue b"
      using 1 geo[OF 1] na by (auto simp: covered_def covers_def)
    have ix: "index_add n a ix = ix\<lparr>ix_geo := setdefault (rtype a, rvalue a) n (ix_geo ix)\<rparr>"
      using 1 na by (simp add: index_add_def)
    have b: "m < n" if "dget (ix_geo ix) k = Some m" for k m
      using v that unfolding index_valid_def by blast
    show ?thesis
    proof (cases "rtype b \<in> set geo_types")
      case True
      then show ?thesis using b[of "(rtype b, rvalue b)"]
        by (cases "dget (ix_geo ix) (rtype b, rvalue b)") (auto simp: family_cover_def ix c dget_setdefault)
    next
      case False
      then have "\<not> covered a b" using 1 c by auto
      with False show ?thesis by (simp add: family_cover_def ix split: option.split prod.split)
    qed
  next
    case 2
    have c: "covered a b \<longleftrightarrow> rtype b = ''domain_suffix'' \<and> prefix (rev_labels (rvalue a)) (rev_labels (rvalue b))"
      using 2 by (auto simp: covered_def covers_def geo_types_def domain_suffix_labels)
    have ix: "index_add n a ix = ix\<lparr>ix_domains := trie_add (rev_labels (rvalue a)) n (ix_domains ix)\<rparr>"
      using 2 by (simp add: index_add_def geo_types_def)
    have "idx_below n (ix_domains ix)" using v by (simp add: index_valid_def)
    note w = root_walk_add[OF this]
    show ?thesis
    proof (cases "rtype b = ''domain_suffix''")
      case True
      then show ?thesis by (simp add: family_cover_def ix c w geo_types_def)
    next
      case False
      then show ?thesis by (simp add: family_cover_def ix c split: option.split prod.split)
    qed
  next
    case 3
    show ?thesis
    proof (cases "rtype b = ''ip_cidr''")
      case True
      show ?thesis by (rule network_cover_add[OF v 3 True o])
    next
      case False
      then have "\<not> covered a b" using 3 by (auto simp: covered_def covers_def geo_types_def)
      with False 3 show ?thesis
        by (simp add: family_cover_def index_add_def geo_types_def split: option.split prod.split)
    qed
  next
    case 4
    then have "index_add n a ix = ix" by (simp add: index_add_def)
    moreover have "\<not> covered a b" using 4 na geo[of b] by (auto simp: covered_def covers_def)
    ultimately show ?thesis by simp
  qed
qed

lemma first_cover_add:
  assumes v: "index_valid n ix" and o: "lint_ok a" "lint_ok b"
  shows "first_cover b (index_add n a ix) =
    (case first_cover b ix of Some m \<Rightarrow> Some m | None \<Rightarrow> if covered a b then Some n else None)"
proof -
  have r: "l_index (ix_domains ix) = None" "l_index (ix_domains (index_add n a ix)) = None"
    using v valid_add[OF v, of a] by (simp_all add: index_valid_def)
  note s = first_cover_split[OF r(1)] first_cover_split[OF r(2)]
  have fb: "m < n" if "family_cover b ix = Some m" for m using family_cover_bound[OF v that] .
  have ab: "m < n" if "ix_all ix = Some m" for m using v that by (simp add: index_valid_def)
  show ?thesis
  proof (cases "rtype a = ''all''")
    case True
    then have "covered a b" by (simp add: covered_def covers_def)
    moreover have "family_cover b (index_add n a ix) = family_cover b ix"
      using True by (simp add: index_add_def family_cover_def split: option.split prod.split)
    moreover have "ix_all (index_add n a ix) = (case ix_all ix of None \<Rightarrow> Some n | Some m \<Rightarrow> Some m)"
      using True by (simp add: index_add_def split: option.split)
    ultimately show ?thesis using fb ab
      by (cases "family_cover b ix"; cases "ix_all ix") (simp_all add: s min_def less_imp_le)
  next
    case False
    then have "ix_all (index_add n a ix) = ix_all ix"
      by (simp add: index_add_def split: option.split prod.split)
    with family_cover_add[OF v o False] show ?thesis using fb ab
      by (cases "family_cover b ix"; cases "ix_all ix") (auto simp: s min_def)
  qed
qed

interpretation lint: first_match empty_index index_add first_cover covered lint_ok index_valid
proof
  show "index_valid 0 empty_index" by (rule valid_empty)
  show "index_valid n ix \<Longrightarrow> lint_ok a \<Longrightarrow> index_valid (Suc n) (index_add n a ix)" for n ix a by (rule valid_add)
  show "first_cover b empty_index = None" for b
    by (simp add: first_cover_split family_cover_def empty_index_def split: option.split)
  show "index_valid n ix \<Longrightarrow> first_cover b ix = Some m \<Longrightarrow> m < n" for n ix b m
    by (rule first_cover_bound)
  show "index_valid n ix \<Longrightarrow> lint_ok a \<Longrightarrow> lint_ok b \<Longrightarrow> first_cover b (index_add n a ix) =
      (case first_cover b ix of Some m \<Rightarrow> Some m | None \<Rightarrow> if covered a b then Some n else None)" for n ix a b
    by (rule first_cover_add)
qed

section \<open>The lint against the pairwise scan\<close>

definition scan_step :: "rule list \<Rightarrow> nat \<times> rule \<Rightarrow> (string, string) dict \<Rightarrow> (string, string) dict" where
  "scan_step rules x out = (case x of (pos, r) \<Rightarrow>
     (case find (\<lambda>i. covered (rules ! i) r) [0..<pos] of None \<Rightarrow> out | Some i \<Rightarrow> dset (rid r) (rid (rules ! i)) out))"

definition shadow_scan :: "rule list \<Rightarrow> (string, string) dict" where
  "shadow_scan rules = fold (scan_step rules) (enumerate 0 rules) []"

lemma shadow_fold:
  assumes "\<forall>r \<in> set rules. lint_ok r"
  shows "rules = pre @ post \<Longrightarrow>
    fold (shadow_step rules) (enumerate (length pre) post) (out, lint.index_of pre)
      = (fold (scan_step rules) (enumerate (length pre) post) out, lint.index_of rules)"
proof (induction post arbitrary: pre out)
  case Nil
  then show ?case by simp
next
  case (Cons r post)
  have "first_cover r (lint.index_of pre) = find (\<lambda>i. covered (pre ! i) r) [0..<length pre]"
    by (rule lint.lookup_index) (use assms Cons.prems in auto)
  also have "\<dots> = find (\<lambda>i. covered (rules ! i) r) [0..<length pre]"
    by (rule find_cong) (simp_all add: Cons.prems nth_append)
  finally have f: "first_cover r (lint.index_of pre) = find (\<lambda>i. covered (rules ! i) r) [0..<length pre]" .
  have "shadow_step rules (length pre, r) (out, lint.index_of pre)
      = (scan_step rules (length pre, r) out, lint.index_of (pre @ [r]))"
    by (simp add: shadow_step_def scan_step_def f lint.index_of_snoc)
  with Cons.IH[of "pre @ [r]"] Cons.prems show ?case by simp
qed

lemma shadowed_by_scan: "\<forall>r \<in> set rules. lint_ok r \<Longrightarrow> shadowed_by rules = shadow_scan rules"
  using shadow_fold[of rules "[]" rules "[]"] by (simp add: shadowed_by_def shadow_scan_def lint.index_of_def)

lemma scan_keys:
  "k \<in> set (keys (fold (scan_step rules) xs out)) \<Longrightarrow>
   k \<in> set (keys out) \<or> (\<exists>(pos, r) \<in> set xs. rid r = k \<and> (\<exists>i < pos. covered (rules ! i) r))"
proof (induction xs arbitrary: out)
  case (Cons x xs)
  obtain pos r where x: "x = (pos, r)" by force
  from Cons.IH[of "scan_step rules x out"] Cons.prems
  consider "k \<in> set (keys (scan_step rules x out))"
    | "\<exists>(pos, r) \<in> set xs. rid r = k \<and> (\<exists>i < pos. covered (rules ! i) r)" by auto
  then show ?case
  proof cases
    case 1
    then have "k \<in> set (keys out) \<or> k = rid r \<and> find (\<lambda>i. covered (rules ! i) r) [0..<pos] \<noteq> None"
      by (cases "find (\<lambda>i. covered (rules ! i) r) [0..<pos]") (auto simp only: scan_step_def x prod.case option.case keys_dset)
    then show ?thesis by (auto simp: x find_None_iff)
  qed auto
qed simp

section \<open>Coverage is sound\<close>

lemma covers_sound:
  assumes "covers a b = Inr True" "match_destination se geo dm ips b = Inr True" "\<forall>ip \<in> set ips. addr_ok ip"
  shows "match_destination se geo dm ips a = Inr True"
proof (cases "rtype a = ''all''")
  case False
  note na = this
  with assms(1) have nb: "rtype b \<noteq> ''all''" by (auto simp: covers_def)
  show ?thesis
  proof (cases "rtype a \<in> set geo_types \<or> rtype b \<in> set geo_types")
    case True
    with assms(1) na nb have "rtype a = rtype b" "rvalue a = rvalue b" by (auto simp: covers_def)
    then have "match_destination se geo dm ips a = match_destination se geo dm ips b"
      by (simp only: match_destination_def)
    with assms(2) show ?thesis by simp
  next
    case ng: False
    show ?thesis
    proof (cases "rtype a = ''domain_suffix'' \<and> rtype b = ''domain_suffix''")
      case True
      with assms(1) ng have "prefix (rev_labels (rvalue a)) (rev_labels (rvalue b))"
        by (simp add: covers_def domain_suffix_labels)
      moreover from True assms(2) obtain d where "dm = Some d" "prefix (rev_labels (rvalue b)) (rev_labels d)"
        by (auto simp: match_destination_def domain_suffix_labels split: option.splits)
      ultimately show ?thesis using True prefix_order.trans
        by (auto simp: match_destination_def domain_suffix_labels)
    next
      case nd: False
      with assms(1) na nb ng obtain nb' na' where t: "rtype a = ''ip_cidr''" "rtype b = ''ip_cidr''"
        and n: "network_of (rvalue b) = Inr nb'" "network_of (rvalue a) = Inr na'" "same_family_subnet nb' na'"
        by (auto simp: covers_def split: if_splits)
      then have i: "ip_network True (rvalue b) = Some nb'" "ip_network True (rvalue a) = Some na'"
        by (auto simp: network_of_def split: option.splits)
      from assms(2) t i(1) obtain ip where ip: "ip \<in> set ips" "ip_in_net ip nb'"
        by (auto simp: match_destination_def list_ex_iff)
      have "ip_in_net ip na'"
        by (rule subnet_of_sound[of nb' na']) (use n(3) i assms(3) ip ip_network_ok in \<open>auto simp: same_family_subnet_def\<close>)
      with ip(1) show ?thesis using t i(2) by (auto simp: match_destination_def list_ex_iff)
    qed
  qed
qed (simp add: match_destination_def)

text \<open>The rule a destination is routed by.\<close>

definition first_matching :: "(string \<Rightarrow> string \<Rightarrow> bool) \<Rightarrow> geo_sets \<Rightarrow> string option \<Rightarrow> ip_addr list \<Rightarrow> rule list \<Rightarrow> rule option" where
  "first_matching se geo dm ips rules = find (\<lambda>r. match_destination se geo dm ips r = Inr True) rules"

definition sample_rules :: "rule list" where
  "sample_rules = [\<lparr>rid = ''r1'', rtype = ''domain_suffix'', rvalue = ''example.org'', rtarget = ''direct'', rruleset = ''rs1'', rname = None, rmanaged = False\<rparr>,
     \<lparr>rid = ''r2'', rtype = ''ip_cidr'', rvalue = ''10.0.0.0/8'', rtarget = ''direct'', rruleset = ''rs1'', rname = None, rmanaged = False\<rparr>,
     \<lparr>rid = ''r3'', rtype = ''domain_suffix'', rvalue = ''a.example.org'', rtarget = ''block'', rruleset = ''rs2'', rname = None, rmanaged = False\<rparr>,
     \<lparr>rid = ''r4'', rtype = ''ip_cidr'', rvalue = ''10.1.0.0/16'', rtarget = ''block'', rruleset = ''rs2'', rname = None, rmanaged = False\<rparr>]"

lemma sample_lint: "\<forall>r \<in> set sample_rules. lint_ok r"
proof -
  have "list_all (\<lambda>r. rtype r = ''ip_cidr'' \<longrightarrow> (case ip_network True (rvalue r) of None \<Rightarrow> False | Some n \<Rightarrow> in_scope n = None)) sample_rules"
    by code_simp
  then show ?thesis by (auto simp: lint_ok_def list_all_iff split: option.splits)
qed

lemma sample_shadow: "shadowed_by sample_rules = [(''r3'', ''r1''), (''r4'', ''r2'')]"
  by code_simp

text \<open>C8: The cover index changes nothing. On a table whose networks parse (as every stored one does,
  without a zone id), the lint reports exactly what testing \<open>covers\<close> on every earlier rule would:
  the same rules, each with the earliest rule covering it.\<close>

theorem lint_is_pairwise_scan:
  assumes "\<forall>r \<in> set rules. lint_ok r"
  shows "shadowed_by rules = shadow_scan rules"
  by (rule shadowed_by_scan[OF assms])

theorem lint_is_pairwise_scan_witness: "shadow_scan sample_rules = [(''r3'', ''r1''), (''r4'', ''r2'')]"
  using lint_is_pairwise_scan[OF sample_lint] sample_shadow by simp

text \<open>C9: A reported rule is dead. Whatever the destination, the first rule of the table that matches
  it is never one the lint reports as shadowed.\<close>

theorem shadowed_never_decides:
  assumes "\<forall>r \<in> set rules. lint_ok r" "distinct (map rid rules)" "\<forall>ip \<in> set ips. addr_ok ip"
    and "first_matching se geo dm ips rules = Some r"
  shows "rid r \<notin> set (keys (shadowed_by rules))"
proof
  assume "rid r \<in> set (keys (shadowed_by rules))"
  then obtain pos r' where r': "(pos, r') \<in> set (enumerate 0 rules)" "rid r' = rid r" "\<exists>i < pos. covered (rules ! i) r'"
    using scan_keys[of "rid r" rules "enumerate 0 rules" "[]"] by (auto simp: shadowed_by_scan[OF assms(1)] shadow_scan_def)
  then have pos: "pos < length rules" "r' = rules ! pos" by (auto simp: in_set_enumerate_eq)
  from find_Some_split[OF assms(4)[unfolded first_matching_def]] obtain as cs where s: "rules = as @ r # cs"
    "match_destination se geo dm ips r = Inr True" "\<forall>y \<in> set as. match_destination se geo dm ips y \<noteq> Inr True"
    by blast
  have "r \<in> set rules" "r' \<in> set rules" using s(1) pos nth_mem[OF pos(1)] by simp_all
  with assms(2) r'(2) have "r' = r" by (meson distinct_map inj_on_def)
  then have "pos = length as" using assms(2) s(1) pos
    by (metis distinct_map length_append less_add_Suc1 list.size(4) nth_append_length nth_eq_iff_index_eq add_Suc_right)
  with r'(3) obtain i where i: "i < length as" "covered (rules ! i) r" using \<open>r' = r\<close> by auto
  then have "as ! i \<in> set as" "covered (as ! i) r" using s(1) by (simp_all add: nth_append)
  with covers_sound[of "as ! i" r se geo dm ips] s(2,3) assms(3) show False by (auto simp: covered_def)
qed

theorem shadowed_never_decides_witness:
  "(''r1'' :: string) \<notin> set (keys (shadowed_by sample_rules)) \<and> ''r3'' \<in> set (keys (shadowed_by sample_rules))"
proof -
  have "case first_matching (\<lambda>_ _. False) [] (Some ''a.example.org'') [] sample_rules of None \<Rightarrow> False | Some r \<Rightarrow> rid r = ''r1''"
    by code_simp
  then obtain r where r: "first_matching (\<lambda>_ _. False) [] (Some ''a.example.org'') [] sample_rules = Some r" "rid r = ''r1''"
    by (auto split: option.splits)
  have "distinct (map rid sample_rules)" by code_simp
  from shadowed_never_decides[OF sample_lint this _ r(1)] r(2) sample_shadow show ?thesis by simp
qed

definition zone_rules :: "rule list" where
  "zone_rules = [\<lparr>rid = ''r1'', rtype = ''ip_cidr'', rvalue = ''fe80::1/128'', rtarget = ''direct'', rruleset = ''rs1'', rname = None, rmanaged = False\<rparr>,
     \<lparr>rid = ''r2'', rtype = ''ip_cidr'', rvalue = ''fe80::1%eth0/128'', rtarget = ''block'', rruleset = ''rs2'', rname = None, rmanaged = False\<rparr>]"

text \<open>The index and \<open>covers\<close> part on networks with a zone id: the index compares the number
  alone and reports the second rule as shadowed, \<open>covers\<close> compares address and zone and says it is
  not, though the index is documented to leave the semantics unchanged.\<close>

theorem zone_ids_split_lint:
  "shadowed_by zone_rules = [(''r2'', ''r1'')] \<and> covers (zone_rules ! 0) (zone_rules ! 1) = Inr False"
  by code_simp

text \<open>A line feed survives the domain check. The pattern ends in \<open>$\<close>, which also stands before a
  final line feed, and the trailing dot is stripped after the blanks: \<open>a.org\<close>, line feed, dot is
  accepted as a domain that ends in a line feed, which no destination matches.\<close>

theorem domain_check_accepts_newline:
  "normalize_domain (''a.org'' @ [char_of (10 :: nat)] @ ''.'') = Inr (''a.org'' @ [char_of (10 :: nat)])
   \<and> normalize_domain (''a.org'' @ [char_of (10 :: nat)]) = Inr ''a.org''"
  by code_simp

end
