(* ===== verification/Metrics.thy ===== *)
theory Metrics
  imports State
begin

text \<open>
  Traffic counters (\<open>anyhop/metrics.py\<close>): the two SQLite tables as dictionaries keyed by their primary
  keys, each function a transaction on them, and the accumulator that turns snapshots of live
  connections into deltas. Totals are unbounded integers; the columns of SQLite hold 64 bits. The clock is the argument \<open>now\<close>; \<open>up\<close> says whether the database takes the
  write.
\<close>

section \<open>The tables\<close>

record row =
  m_sent :: int
  m_received :: int
  m_updated :: int

record db =
  rows :: "(cref, row) dict"
  dead :: "(cref, int) dict"

definition fresh_db :: db where
  "fresh_db = \<lparr>rows = [], dead = []\<rparr>"

definition whole :: string where
  "whole = ''*''"

definition tombstoned :: "db \<Rightarrow> string \<Rightarrow> string \<Rightarrow> bool" where
  "tombstoned b p c = (dget (dead b) (p, c) \<noteq> None \<or> dget (dead b) (p, whole) \<noteq> None)"

section \<open>Adding\<close>

definition clamp_deltas :: "(cref, int \<times> int) dict \<Rightarrow> (cref, int \<times> int) dict" where
  "clamp_deltas ds = map (\<lambda>(r, s, v). (r, max 0 s, max 0 v)) (filter (\<lambda>(r, s, v). s > 0 \<or> v > 0) ds)"

definition upsert :: "int \<Rightarrow> cref \<times> int \<times> int \<Rightarrow> db \<Rightarrow> db" where
  "upsert now x b = (case x of ((p, c), s, v) \<Rightarrow>
     if tombstoned b p c then b
     else b\<lparr>rows := dset (p, c) (case dget (rows b) (p, c) of
         None \<Rightarrow> \<lparr>m_sent = s, m_received = v, m_updated = now\<rparr>
       | Some r \<Rightarrow> \<lparr>m_sent = m_sent r + s, m_received = m_received r + v, m_updated = now\<rparr>) (rows b)\<rparr>)"

text \<open>\<open>None\<close>: SQLite raised and nothing was written.\<close>

definition add_deltas :: "bool \<Rightarrow> int \<Rightarrow> (cref, int \<times> int) dict \<Rightarrow> db \<Rightarrow> db option" where
  "add_deltas up now ds b =
     (let cs = clamp_deltas ds in
      if cs = [] then Some b else if \<not> up then None else Some (fold (upsert now) cs b))"

definition add_delta :: "bool \<Rightarrow> int \<Rightarrow> string \<Rightarrow> string \<Rightarrow> int \<Rightarrow> int \<Rightarrow> db \<Rightarrow> db option" where
  "add_delta up now p c s v b = add_deltas up now [((p, c), (s, v))] b"

definition total :: "string \<Rightarrow> string \<Rightarrow> db \<Rightarrow> row" where
  "total p c b = (case dget (rows b) (p, c) of None \<Rightarrow> \<lparr>m_sent = 0, m_received = 0, m_updated = 0\<rparr> | Some r \<Rightarrow> r)"

definition totals :: "db \<Rightarrow> (cref, row) dict" where
  "totals b = rows b"

section \<open>Removal and revival\<close>

definition delete_rows :: "(cref \<Rightarrow> bool) \<Rightarrow> db \<Rightarrow> db" where
  "delete_rows P b = b\<lparr>rows := filter (\<lambda>x. \<not> P (fst x)) (rows b)\<rparr>"

definition delete_dead :: "(cref \<Rightarrow> bool) \<Rightarrow> db \<Rightarrow> db" where
  "delete_dead P b = b\<lparr>dead := filter (\<lambda>x. \<not> P (fst x)) (dead b)\<rparr>"

definition bury :: "int \<Rightarrow> cref \<Rightarrow> db \<Rightarrow> db" where
  "bury now r b = b\<lparr>dead := dset r now (dead b)\<rparr>"

definition remove_channel :: "int \<Rightarrow> string \<Rightarrow> string \<Rightarrow> db \<Rightarrow> db" where
  "remove_channel now p c b = bury now (p, c) (delete_rows (\<lambda>r. r = (p, c)) b)"

definition remove_provider :: "int \<Rightarrow> string \<Rightarrow> db \<Rightarrow> db" where
  "remove_provider now p b =
     bury now (p, whole) (delete_dead (\<lambda>r. fst r = p) (delete_rows (\<lambda>r. fst r = p) b))"

definition revive_channel :: "string \<Rightarrow> string \<Rightarrow> db \<Rightarrow> db" where
  "revive_channel p c b = delete_dead (\<lambda>r. r = (p, c)) b"

definition revive_provider :: "string \<Rightarrow> db \<Rightarrow> db" where
  "revive_provider p b = delete_dead (\<lambda>r. r = (p, whole)) b"

definition reconcile_tombstones :: "int \<Rightarrow> string list \<Rightarrow> cref list \<Rightarrow> string list \<Rightarrow> cref list \<Rightarrow> db \<Rightarrow> db" where
  "reconcile_tombstones now gone_p gone_c new_p new_c b =
     (let b1 = fold (remove_provider now) gone_p b;
          b2 = fold (\<lambda>(p, c) x. if p \<in> set gone_p then x else remove_channel now p c x) gone_c b1;
          b3 = fold revive_provider new_p b2 in
      fold (\<lambda>(p, c). revive_channel p c) new_c b3)"

section \<open>The accumulator\<close>

record conn =
  cn_id :: string
  cn_chains :: "string list"
  cn_up :: int
  cn_down :: int

datatype generation = Unstarted | Gen "string option"

record accum =
  a_seen :: "(string, int \<times> int) dict"
  a_gen :: generation

definition new_accum :: accum where
  "new_accum = \<lparr>a_seen = [], a_gen = Unstarted\<rparr>"

fun first_ref :: "string list \<Rightarrow> cref option" where
  "first_ref [] = None"
| "first_ref (t # ts) = (case tag_to_ref t of Some r \<Rightarrow> Some r | None \<Rightarrow> first_ref ts)"

definition conn_ref :: "conn \<Rightarrow> cref option" where
  "conn_ref k = first_ref (cn_chains k)"

definition counted :: "conn \<Rightarrow> bool" where
  "counted k = (cn_id k \<noteq> [] \<and> conn_ref k \<noteq> None)"

definition watermarks :: "conn list \<Rightarrow> (string, int \<times> int) dict" where
  "watermarks cs = fold (\<lambda>k m. if counted k then dset (cn_id k) (cn_up k, cn_down k) m else m) cs []"

definition increase :: "int \<Rightarrow> int \<Rightarrow> int" where
  "increase now_val old = (if now_val \<ge> old then now_val - old else now_val)"

definition count_conn :: "(string, int \<times> int) dict \<Rightarrow> conn \<Rightarrow> (cref, int \<times> int) dict \<Rightarrow> (cref, int \<times> int) dict" where
  "count_conn seen k ds = (case conn_ref k of
     None \<Rightarrow> ds
   | Some r \<Rightarrow> if cn_id k = [] then ds else
       (let (lu, ld) = (case dget seen (cn_id k) of None \<Rightarrow> (0, 0) | Some w \<Rightarrow> w);
            (u, v) = (case dget ds r of None \<Rightarrow> (0, 0) | Some w \<Rightarrow> w) in
        dset r (u + increase (cn_up k) lu, v + increase (cn_down k) ld) ds))"

definition sample_deltas :: "(string, int \<times> int) dict \<Rightarrow> conn list \<Rightarrow> (cref, int \<times> int) dict" where
  "sample_deltas seen cs = fold (count_conn seen) cs []"

text \<open>One snapshot: the deltas banked, the accumulator and the tables after it. When the database
  raises, the caller sees the error and the accumulator is as before.\<close>

definition observe :: "bool \<Rightarrow> int \<Rightarrow> conn list option \<Rightarrow> string option \<Rightarrow> accum \<times> db
    \<Rightarrow> (cref, int \<times> int) dict option \<times> accum \<times> db" where
  "observe up now snap g st = (case st of (a, b) \<Rightarrow> (case snap of
     None \<Rightarrow> (Some [], a, b)
   | Some cs \<Rightarrow>
       if Gen g \<noteq> a_gen a then (Some [], \<lparr>a_seen = watermarks cs, a_gen = Gen g\<rparr>, b)
       else (let banked = filter (\<lambda>(r, u, v). u \<noteq> 0 \<or> v \<noteq> 0) (sample_deltas (a_seen a) cs) in
         case add_deltas up now banked b of
           None \<Rightarrow> (None, a, b)
         | Some b' \<Rightarrow> (Some banked, a\<lparr>a_seen := watermarks cs\<rparr>, b'))))"

section \<open>Laws\<close>

lemma dget_filter_keys: "dget (filter (\<lambda>x. P (fst x)) xs) k = (if P k then dget xs k else None)"
  by (induction xs) auto

lemma tombstoned_rows [simp]: "tombstoned (b\<lparr>rows := r\<rparr>) = tombstoned b"
  by (simp add: tombstoned_def fun_eq_iff)

lemma delete_simps [simp]:
  "dget (rows (delete_rows P b)) r = (if P r then None else dget (rows b) r)"
  "dead (delete_rows P b) = dead b"
  "dget (dead (delete_dead P b)) r = (if P r then None else dget (dead b) r)"
  "rows (delete_dead P b) = rows b"
  "rows (bury now q b) = rows b"
  "dget (dead (bury now q b)) r = (if r = q then Some now else dget (dead b) r)"
  by (simp_all add: delete_rows_def delete_dead_def bury_def dget_filter_keys[of "\<lambda>k. \<not> P k"])

text \<open>A buried reference has no row.\<close>

definition buried_ok :: "db \<Rightarrow> bool" where
  "buried_ok b = (\<forall>p c. tombstoned b p c \<longrightarrow> dget (rows b) (p, c) = None)"

lemma buried_upsert: "buried_ok b \<Longrightarrow> buried_ok (upsert now x b)"
  by (auto simp: buried_ok_def upsert_def split: prod.split)

lemma buried_add: "add_deltas up now ds b = Some b' \<Longrightarrow> buried_ok b \<Longrightarrow> buried_ok b'"
proof -
  have "buried_ok b \<Longrightarrow> buried_ok (fold (upsert now) xs b)" for xs
    by (induction xs arbitrary: b) (simp_all add: buried_upsert)
  then show "add_deltas up now ds b = Some b' \<Longrightarrow> buried_ok b \<Longrightarrow> buried_ok b'"
    by (auto simp: add_deltas_def Let_def split: if_splits)
qed

lemma buried_remove_channel: "buried_ok b \<Longrightarrow> c \<noteq> whole \<Longrightarrow> buried_ok (remove_channel now p c b)"
  by (auto simp: buried_ok_def remove_channel_def tombstoned_def split: if_splits)

lemma buried_remove_provider: "buried_ok b \<Longrightarrow> buried_ok (remove_provider now p b)"
  by (auto simp: buried_ok_def remove_provider_def tombstoned_def split: if_splits)

lemma buried_delete: "buried_ok b \<Longrightarrow> buried_ok (delete_dead P b)"
  by (auto simp: buried_ok_def tombstoned_def split: if_splits)

lemma buried_reconcile:
  assumes "buried_ok b" "\<forall>(p, c) \<in> set gone_c. c \<noteq> whole"
  shows "buried_ok (reconcile_tombstones now gone_p gone_c new_p new_c b)"
proof -
  have f: "(\<And>x b. x \<in> set xs \<Longrightarrow> buried_ok b \<Longrightarrow> buried_ok (g x b)) \<Longrightarrow> buried_ok b \<Longrightarrow> buried_ok (fold g xs b)"
    for g :: "'x \<Rightarrow> db \<Rightarrow> db" and xs b
    by (induction xs arbitrary: b) simp_all
  show ?thesis unfolding reconcile_tombstones_def Let_def
    by (intro f) (use assms in \<open>auto simp: revive_channel_def revive_provider_def
        intro!: buried_remove_channel buried_remove_provider buried_delete\<close>)
qed

section \<open>Accounting\<close>

text \<open>What a snapshot adds, said over the connections themselves: for either direction \<open>f\<close>, a connection
  contributes its increase over its last entry in the snapshot before, and all of its bytes when it
  was not there or when its counter fell.\<close>

definition chan_conns :: "cref \<Rightarrow> conn list \<Rightarrow> conn list" where
  "chan_conns r cs = filter (\<lambda>k. cn_id k \<noteq> [] \<and> conn_ref k = Some r) cs"

definition grown :: "(conn \<Rightarrow> int) \<Rightarrow> conn list \<Rightarrow> conn \<Rightarrow> int" where
  "grown f old k = (case find (\<lambda>x. counted x \<and> cn_id x = cn_id k) (rev old) of
     None \<Rightarrow> f k | Some x \<Rightarrow> if f x \<le> f k then f k - f x else f k)"

definition growth :: "(conn \<Rightarrow> int) \<Rightarrow> cref \<Rightarrow> conn list \<Rightarrow> conn list \<Rightarrow> int" where
  "growth f r old cs = sum_list (map (grown f old) (chan_conns r cs))"

text \<open>Over a run of samples: a sample that failed leaves the base as it was.\<close>

fun traffic :: "(conn \<Rightarrow> int) \<Rightarrow> cref \<Rightarrow> conn list \<Rightarrow> (int \<times> conn list option) list \<Rightarrow> int" where
  "traffic f r old [] = 0"
| "traffic f r old ((now, None) # xs) = traffic f r old xs"
| "traffic f r old ((now, Some cs) # xs) = growth f r old cs + traffic f r cs xs"

text \<open>A direction, in a connection, in a pair of deltas and in a stored row.\<close>

definition same_way :: "(conn \<Rightarrow> int) \<Rightarrow> (int \<times> int \<Rightarrow> int) \<Rightarrow> (row \<Rightarrow> int) \<Rightarrow> bool" where
  "same_way f g h = (f = cn_up \<and> g = fst \<and> h = m_sent \<or> f = cn_down \<and> g = snd \<and> h = m_received)"

definition delta_of :: "(int \<times> int \<Rightarrow> int) \<Rightarrow> (cref, int \<times> int) dict \<Rightarrow> cref \<Rightarrow> int" where
  "delta_of g ds r = (case dget ds r of None \<Rightarrow> 0 | Some w \<Rightarrow> g w)"

definition seen_of :: "(int \<times> int \<Rightarrow> int) \<Rightarrow> (string, int \<times> int) dict \<Rightarrow> conn \<Rightarrow> int" where
  "seen_of g seen k = (case dget seen (cn_id k) of None \<Rightarrow> 0 | Some w \<Rightarrow> g w)"

lemma way_zero: "same_way f g h \<Longrightarrow> g (0, 0) = 0"
  by (auto simp: same_way_def)

lemma count_conn_way:
  assumes "same_way f g h"
  shows "delta_of g (count_conn seen k ds) r = delta_of g ds r
     + (if cn_id k \<noteq> [] \<and> conn_ref k = Some r then increase (f k) (seen_of g seen k) else 0)"
  using assms by (auto simp: same_way_def delta_of_def count_conn_def seen_of_def Let_def split: option.split prod.split)

lemma sample_way:
  assumes "same_way f g h"
  shows "delta_of g (fold (count_conn seen) cs ds) r = delta_of g ds r
     + sum_list (map (\<lambda>k. increase (f k) (seen_of g seen k)) (chan_conns r cs))"
  by (induction cs arbitrary: ds) (auto simp: count_conn_way[OF assms] chan_conns_def)

lemma dget_watermarks:
  "dget (watermarks cs) i = (case find (\<lambda>x. counted x \<and> cn_id x = i) (rev cs) of
     None \<Rightarrow> None | Some x \<Rightarrow> Some (cn_up x, cn_down x))"
proof (induction cs rule: rev_induct)
  case (snoc k cs)
  then show ?case by (auto simp: watermarks_def)
qed (simp add: watermarks_def)

lemma increase_grown:
  assumes "same_way f g h" "0 \<le> f k"
  shows "increase (f k) (seen_of g (watermarks old) k) = grown f old k"
  using assms by (auto simp: same_way_def increase_def seen_of_def grown_def dget_watermarks split: option.split)

lemma sample_growth:
  assumes "same_way f g h" "\<forall>k \<in> set cs. 0 \<le> f k"
  shows "delta_of g (sample_deltas (watermarks old) cs) r = growth f r old cs"
proof -
  have "map (\<lambda>k. increase (f k) (seen_of g (watermarks old) k)) (chan_conns r cs) = map (grown f old) (chan_conns r cs)"
    using assms(2) increase_grown[OF assms(1)] by (auto simp: chan_conns_def)
  then have "sum_list (map (\<lambda>k. increase (f k) (seen_of g (watermarks old) k)) (chan_conns r cs)) = growth f r old cs"
    by (simp only: growth_def)
  then show ?thesis
    using sample_way[OF assms(1), of "watermarks old" cs "[]" r] by (simp add: sample_deltas_def delta_of_def)
qed

lemma upsert_way:
  assumes "same_way f g h" "\<not> tombstoned b p c"
  shows "h (total p c (upsert now x b)) = h (total p c b) + (if fst x = (p, c) then g (snd x) else 0)"
  using assms by (auto simp: same_way_def upsert_def total_def split: prod.split option.split)

lemma upsert_tombstoned [simp]: "tombstoned (upsert now x b) = tombstoned b"
  by (simp add: upsert_def split: prod.split)

lemma fold_upsert_way:
  assumes "same_way f g h"
  shows "\<not> tombstoned b p c \<Longrightarrow> h (total p c (fold (upsert now) xs b))
     = h (total p c b) + sum_list (map (\<lambda>x. if fst x = (p, c) then g (snd x) else 0) xs)"
  by (induction xs arbitrary: b) (simp_all add: upsert_way[OF assms])

lemma sum_one_key:
  "distinct (map fst xs) \<Longrightarrow> sum_list (map (\<lambda>x. if fst x = r then g (snd x) else 0) xs) = delta_of g xs r"
proof (induction xs)
  case (Cons x xs)
  have "sum_list (map (\<lambda>y. if fst y = r then g (snd y) else 0) xs) = (0::int)" if "fst x = r"
  proof -
    have z: "map (\<lambda>y. if fst y = r then g (snd y) else 0) xs = map (\<lambda>y. 0::int) xs"
      using Cons.prems that by (auto simp: image_iff)
    show ?thesis unfolding z by simp
  qed
  with Cons show ?case by (cases x) (auto simp: delta_of_def)
qed (simp add: delta_of_def)

lemma count_conn_keys: "distinct (keys ds) \<Longrightarrow> distinct (keys (count_conn seen k ds))"
  by (auto simp: count_conn_def Let_def split: option.split prod.split)

lemma sample_distinct: "distinct (keys (sample_deltas seen cs))"
proof -
  have "distinct (keys ds) \<Longrightarrow> distinct (keys (fold (count_conn seen) cs ds))" for ds
    by (induction cs arbitrary: ds) (simp_all add: count_conn_keys)
  then show ?thesis by (simp add: sample_deltas_def)
qed

text \<open>What one sample adds to a channel's counter, when no delta is negative.\<close>

definition nonneg :: "(cref, int \<times> int) dict \<Rightarrow> bool" where
  "nonneg ds = (\<forall>(r, u, v) \<in> set ds. 0 \<le> u \<and> 0 \<le> v)"

lemma clamp_nonneg:
  assumes "nonneg ds" "distinct (keys ds)" "g (0, 0) = 0"
  shows "delta_of g (clamp_deltas (filter (\<lambda>(r, u, v). u \<noteq> 0 \<or> v \<noteq> 0) ds)) r = delta_of g ds r"
    "distinct (keys (clamp_deltas (filter (\<lambda>(r, u, v). u \<noteq> 0 \<or> v \<noteq> 0) ds)))"
proof -
  have e: "clamp_deltas (filter (\<lambda>(r, u, v). u \<noteq> 0 \<or> v \<noteq> 0) ds) = filter (\<lambda>(r, u, v). u \<noteq> 0 \<or> v \<noteq> 0) ds"
    using assms(1) by (induction ds) (auto simp: clamp_deltas_def nonneg_def)
  show "distinct (keys (clamp_deltas (filter (\<lambda>(r, u, v). u \<noteq> 0 \<or> v \<noteq> 0) ds)))"
    unfolding e using assms(2) by (rule distinct_map_filter)
  show "delta_of g (clamp_deltas (filter (\<lambda>(r, u, v). u \<noteq> 0 \<or> v \<noteq> 0) ds)) r = delta_of g ds r"
    unfolding e delta_of_def dget_filter_distinct[OF assms(2)] using assms(3) by (auto split: option.split)
qed

lemma add_deltas_way:
  assumes "nonneg ds" "distinct (keys ds)" "\<not> tombstoned b p c"
  shows "\<exists>b'. add_deltas True now (filter (\<lambda>(r, u, v). u \<noteq> 0 \<or> v \<noteq> 0) ds) b = Some b' \<and> tombstoned b' = tombstoned b
    \<and> (\<forall>f g h. same_way f g h \<longrightarrow> h (total p c b') = h (total p c b) + delta_of g ds (p, c))"
proof -
  let ?cs = "clamp_deltas (filter (\<lambda>(r, u, v). u \<noteq> 0 \<or> v \<noteq> 0) ds)"
  have t: "tombstoned (fold (upsert now) xs b) = tombstoned b" for xs by (induction xs arbitrary: b) simp_all
  have "h (total p c (fold (upsert now) ?cs b)) = h (total p c b) + delta_of g ds (p, c)" if w: "same_way f g h" for f g h
  proof -
    note z = way_zero[OF w]
    show ?thesis using fold_upsert_way[OF w assms(3), of now ?cs] sum_one_key[OF clamp_nonneg(2)[where ds = ds and g = g, OF assms(1,2) z], of "(p, c)" g]
      clamp_nonneg(1)[where ds = ds and g = g and r = "(p, c)", OF assms(1,2) z] by simp
  qed
  then show ?thesis using t by (auto simp: add_deltas_def Let_def)
qed

lemma increase_nonneg: "0 \<le> x \<Longrightarrow> 0 \<le> increase x y"
  by (simp add: increase_def)

lemma sample_nonneg:
  assumes "\<forall>k \<in> set cs. 0 \<le> cn_up k \<and> 0 \<le> cn_down k"
  shows "nonneg (sample_deltas seen cs)"
proof -
  have step: "nonneg (count_conn seen k ds)" if "nonneg ds" "0 \<le> cn_up k" "0 \<le> cn_down k" for k ds
  proof (cases "conn_ref k")
    case (Some r)
    show ?thesis
    proof (cases "cn_id k = []")
      case False
      obtain u v where uv: "(case dget ds r of None \<Rightarrow> (0, 0) | Some w \<Rightarrow> w) = (u, v)" by force
      have "0 \<le> u \<and> 0 \<le> v" using uv that(1) by (auto simp: nonneg_def split: option.splits dest!: map_of_SomeD)
      moreover obtain lu ld where "(case dget seen (cn_id k) of None \<Rightarrow> (0, 0) | Some w \<Rightarrow> w) = (lu, ld)" by force
      ultimately have e: "count_conn seen k ds = dset r (u + increase (cn_up k) lu, v + increase (cn_down k) ld) ds"
        and n: "0 \<le> u + increase (cn_up k) lu" "0 \<le> v + increase (cn_down k) ld"
        using Some False uv that(2,3) increase_nonneg by (simp_all add: count_conn_def)
      show ?thesis unfolding nonneg_def
      proof
        fix x assume x: "x \<in> set (count_conn seen k ds)"
        from dset_mem[OF x[unfolded e]] n that(1) show "case x of (r, u, v) \<Rightarrow> 0 \<le> u \<and> 0 \<le> v"
          by (auto simp: nonneg_def)
      qed
    qed (use that Some in \<open>simp add: count_conn_def\<close>)
  qed (use that in \<open>simp add: count_conn_def\<close>)
  have "nonneg ds \<Longrightarrow> nonneg (fold (count_conn seen) cs ds)" for ds
    using assms by (induction cs arbitrary: ds) (simp_all add: step)
  from this[of "[]"] show ?thesis by (simp add: sample_deltas_def nonneg_def)
qed

definition readable :: "conn list \<Rightarrow> bool" where
  "readable cs = (\<forall>k \<in> set cs. 0 \<le> cn_up k \<and> 0 \<le> cn_down k)"

lemma observe_growth:
  assumes "readable cs" "a = \<lparr>a_seen = watermarks old, a_gen = Gen gn\<rparr>" "\<not> tombstoned b p c"
  shows "\<exists>ds b'. observe True now (Some cs) gn (a, b) = (Some ds, \<lparr>a_seen = watermarks cs, a_gen = Gen gn\<rparr>, b')
    \<and> tombstoned b' = tombstoned b
    \<and> (\<forall>f g h. same_way f g h \<longrightarrow> h (total p c b') = h (total p c b) + growth f (p, c) old cs)"
proof -
  have "\<forall>k \<in> set cs. 0 \<le> f k" if "same_way f g h" for f g h
    using assms(1) that by (auto simp: readable_def same_way_def)
  with sample_growth have d: "delta_of g (sample_deltas (watermarks old) cs) (p, c) = growth f (p, c) old cs"
    if "same_way f g h" for f g h using that by blast
  have "nonneg (sample_deltas (watermarks old) cs)" using assms(1) by (intro sample_nonneg) (simp add: readable_def)
  from add_deltas_way[OF this sample_distinct assms(3), of now] obtain b' where
    b': "add_deltas True now (filter (\<lambda>(r, u, v). u \<noteq> 0 \<or> v \<noteq> 0) (sample_deltas (watermarks old) cs)) b = Some b'"
    "tombstoned b' = tombstoned b"
    "\<forall>f g h. same_way f g h \<longrightarrow> h (total p c b') = h (total p c b) + delta_of g (sample_deltas (watermarks old) cs) (p, c)"
    by blast
  have "\<forall>f g h. same_way f g h \<longrightarrow> h (total p c b') = h (total p c b) + growth f (p, c) old cs"
    using b'(3) d by metis
  then show ?thesis using b'(1,2) by (simp add: observe_def assms(2) Let_def)
qed

text \<open>A run of samples of one generation; \<open>None\<close> is one that failed.\<close>

fun observe_all :: "string option \<Rightarrow> (int \<times> conn list option) list \<Rightarrow> accum \<times> db \<Rightarrow> accum \<times> db" where
  "observe_all g [] st = st"
| "observe_all g ((now, snap) # xs) st = observe_all g xs (snd (observe True now snap g st))"

lemma observe_run:
  "\<forall>(now, snap) \<in> set xs. \<forall>cs. snap = Some cs \<longrightarrow> readable cs \<Longrightarrow> \<not> tombstoned b p c \<Longrightarrow> same_way f g h \<Longrightarrow>
   h (total p c (snd (observe_all gn xs (\<lparr>a_seen = watermarks old, a_gen = Gen gn\<rparr>, b))))
     = h (total p c b) + traffic f (p, c) old xs"
proof (induction xs arbitrary: old b)
  case (Cons x xs)
  obtain now snap where x: "x = (now, snap)" by force
  show ?case
  proof (cases snap)
    case None
    with Cons x show ?thesis by (simp add: observe_def)
  next
    case (Some cs)
    have "readable cs" using Cons.prems(1) x Some by simp
    from observe_growth[OF this refl Cons.prems(2), where now = now and gn = gn and old = old] obtain ds b' where
      o: "observe True now (Some cs) gn (\<lparr>a_seen = watermarks old, a_gen = Gen gn\<rparr>, b)
        = (Some ds, \<lparr>a_seen = watermarks cs, a_gen = Gen gn\<rparr>, b')"
      "tombstoned b' = tombstoned b" "h (total p c b') = h (total p c b) + growth f (p, c) old cs"
      using Cons.prems(3) by blast
    have "\<not> tombstoned b' p c" using o(2) Cons.prems(2) by simp
    with Cons.IH[OF _ this Cons.prems(3), of cs] Cons.prems(1) o show ?thesis by (simp add: x Some)
  qed
qed simp

text \<open>The tables as a state machine: what the daemon and the store operations do to them.\<close>

inductive metrics_step :: "db \<Rightarrow> db \<Rightarrow> bool" where
  sample: "observe up now snap g (a, b) = (res, a', b') \<Longrightarrow> metrics_step b b'"
| add: "add_deltas up now ds b = Some b' \<Longrightarrow> metrics_step b b'"
| gone_channel: "c \<noteq> whole \<Longrightarrow> metrics_step b (remove_channel now p c b)"
| gone_provider: "metrics_step b (remove_provider now p b)"
| back_channel: "metrics_step b (revive_channel p c b)"
| back_provider: "metrics_step b (revive_provider p b)"
| reconcile: "\<forall>(p, c) \<in> set gone_c. c \<noteq> whole \<Longrightarrow> metrics_step b (reconcile_tombstones now gone_p gone_c new_p new_c b)"

inductive metrics_reachable :: "db \<Rightarrow> bool" where
  fresh: "metrics_reachable fresh_db"
| step: "metrics_reachable b \<Longrightarrow> metrics_step b b' \<Longrightarrow> metrics_reachable b'"

lemma metrics_step_ok: "metrics_step b b' \<Longrightarrow> buried_ok b \<Longrightarrow> buried_ok b'"
proof (induction rule: metrics_step.induct)
  case (sample up now snap g a b res a' b')
  then show ?case by (auto simp: observe_def Let_def intro: buried_add split: option.splits if_splits)
qed (auto intro: buried_add buried_remove_channel buried_remove_provider buried_reconcile buried_delete
    simp: revive_channel_def revive_provider_def)

lemma metrics_reachable_ok: "metrics_reachable b \<Longrightarrow> buried_ok b"
proof (induction rule: metrics_reachable.induct)
  case fresh
  then show ?case by (simp add: buried_ok_def fresh_db_def)
qed (rule metrics_step_ok)

section \<open>Promises\<close>

definition demo_conn :: "int \<Rightarrow> conn" where
  "demo_conn n = \<lparr>cn_id = ''k1'', cn_chains = [''out-mullvad-de1''], cn_up = n, cn_down = 2 * n\<rparr>"

definition demo_db :: db where
  "demo_db = remove_channel 5 ''mullvad'' ''de1'' fresh_db"

lemma demo_db_reachable: "metrics_reachable demo_db"
  unfolding demo_db_def by (rule metrics_reachable.step[OF metrics_reachable.fresh metrics_step.gone_channel]) (simp add: whole_def)

text \<open>C27: No resurrection. In every state the counters can reach, by any order of samples, removals,
  revivals and bundle commits, a tombstoned channel has no row: a late sample cannot bring back the
  totals of a channel that was removed.\<close>

theorem removed_stays_removed:
  assumes "metrics_reachable b" "tombstoned b p c"
  shows "dget (rows b) (p, c) = None \<and> m_sent (total p c b) = 0"
  using metrics_reachable_ok[OF assms(1)] assms(2) by (simp add: buried_ok_def total_def)

theorem removed_stays_removed_witness:
  "\<exists>b. add_deltas True 9 [((''mullvad'', ''de1''), (100, 100))] demo_db = Some b
    \<and> dget (rows b) (''mullvad'', ''de1'') = None"
proof -
  have "(case add_deltas True 9 [((''mullvad'', ''de1''), (100, 100))] demo_db of
      None \<Rightarrow> False | Some b \<Rightarrow> tombstoned b ''mullvad'' ''de1'')" by code_simp
  then obtain b where b: "add_deltas True 9 [((''mullvad'', ''de1''), (100, 100))] demo_db = Some b" "tombstoned b ''mullvad'' ''de1''"
    by (auto split: option.splits)
  have "metrics_reachable b" by (rule metrics_reachable.step[OF demo_db_reachable metrics_step.add[OF b(1)]])
  from removed_stays_removed[OF this b(2)] b(1) show ?thesis by simp
qed

text \<open>C28: Exact accounting, in both directions. From the baseline of an engine's generation on, over any run
  of samples, failed ones among them, the stored bytes of a channel rise by exactly what the snapshots
  show: an old connection adds its increase since the last good sample, one that opened in between
  adds all its bytes, one whose counter fell starts afresh, one that closed adds nothing more. Nothing
  is banked twice and nothing that a good sample saw is lost.\<close>

theorem samples_account_exactly:
  assumes "\<forall>(now, snap) \<in> set xs. \<forall>cs. snap = Some cs \<longrightarrow> readable cs" "\<not> tombstoned b p c"
    and "observe True now (Some first) g (a, b) = (res, a', b')" "Gen g \<noteq> a_gen a"
  shows "m_sent (total p c (snd (observe_all g xs (a', b')))) = m_sent (total p c b) + traffic cn_up (p, c) first xs
    \<and> m_received (total p c (snd (observe_all g xs (a', b')))) = m_received (total p c b) + traffic cn_down (p, c) first xs"
proof -
  from assms(3,4) have a: "a' = \<lparr>a_seen = watermarks first, a_gen = Gen g\<rparr>" "b' = b"
    by (auto simp: observe_def)
  have w: "same_way cn_up fst m_sent" "same_way cn_down snd m_received" by (simp_all add: same_way_def)
  from observe_run[OF assms(1,2) w(1)] observe_run[OF assms(1,2) w(2)] show ?thesis by (simp add: a)
qed

text \<open>One connection grows, a sample fails, a second one opens, the first closes and the second's counter
  falls.\<close>

definition demo_samples :: "(int \<times> conn list option) list" where
  "demo_samples = [(2, Some [demo_conn 30]), (3, None), (4, Some [demo_conn 75, (demo_conn 7)\<lparr>cn_id := ''k2''\<rparr>]),
     (6, Some [(demo_conn 5)\<lparr>cn_id := ''k2''\<rparr>])]"

theorem samples_account_exactly_witness:
  "m_sent (total ''mullvad'' ''de1'' (snd (observe_all None demo_samples
     (snd (observe True 1 (Some [demo_conn 10]) None (new_accum, fresh_db)))))) = 77
   \<and> m_received (total ''mullvad'' ''de1'' (snd (observe_all None demo_samples
     (snd (observe True 1 (Some [demo_conn 10]) None (new_accum, fresh_db)))))) = 154"
proof -
  have g: "\<forall>(now, snap) \<in> set demo_samples. \<forall>cs. snap = Some cs \<longrightarrow> readable cs"
    by (simp add: demo_samples_def readable_def demo_conn_def)
  have t: "\<not> tombstoned fresh_db ''mullvad'' ''de1''" by (simp add: tombstoned_def fresh_db_def)
  obtain res a' b' where o: "observe True 1 (Some [demo_conn 10]) None (new_accum, fresh_db) = (res, a', b')"
    by (metis prod.exhaust)
  have n: "Gen None \<noteq> a_gen new_accum" by (simp add: new_accum_def)
  have v: "traffic cn_up (''mullvad'', ''de1'') [demo_conn 10] demo_samples = 77"
    "traffic cn_down (''mullvad'', ''de1'') [demo_conn 10] demo_samples = 154"
    "m_sent (total ''mullvad'' ''de1'' fresh_db) = 0" "m_received (total ''mullvad'' ''de1'' fresh_db) = 0" by code_simp+
  from samples_account_exactly[OF g t o n] o v show ?thesis by simp
qed

text \<open>A failed sample costs nothing. When the engine cannot be read, or the database refuses the
  write, neither the watermarks nor the tables change, so that the next good sample banks the whole
  increase.\<close>

theorem failed_sample_keeps_all:
  "observe up now None g (a, b) = (Some [], a, b)
   \<and> (fst (observe up now snap g (a, b)) = None \<longrightarrow> snd (observe up now snap g (a, b)) = (a, b))"
  by (auto simp: observe_def Let_def split: option.splits)

theorem failed_sample_keeps_all_witness:
  "snd (observe False 2 (Some [demo_conn 30]) None (\<lparr>a_seen = [(''k1'', (10, 20))], a_gen = Gen None\<rparr>, fresh_db))
     = (\<lparr>a_seen = [(''k1'', (10, 20))], a_gen = Gen None\<rparr>, fresh_db)"
proof -
  have "fst (observe False 2 (Some [demo_conn 30]) None (\<lparr>a_seen = [(''k1'', (10, 20))], a_gen = Gen None\<rparr>, fresh_db)) = None"
    by code_simp
  with failed_sample_keeps_all[of False 2 None "\<lparr>a_seen = [(''k1'', (10, 20))], a_gen = Gen None\<rparr>" fresh_db "Some [demo_conn 30]"]
  show ?thesis by (simp add: failed_sample_keeps_all)
qed

end
