(* ===== verification/Persist.thy ===== *)
theory Persist
  imports Prelude Complex_Main
begin

text \<open>
  The two files under the store: what \<open>_read_raw\<close>, \<open>_load_all\<close>, \<open>_quarantine\<close> and \<open>transaction\<close> of
  \<open>anyhop/state.py\<close> and \<open>anyhop/credentials.py\<close> do with them, the schema check, the credential
  operations, and \<open>generated_endpoint\<close> of \<open>anyhop/fsio.py\<close>. A file is its current generation
  (text and identity) or absent or unreadable; an atomic replacement is one assignment. The JSON and
  YAML readers are arguments. Decoded values are those of Python, dictionary keys included.
\<close>

section \<open>Values\<close>

datatype pyval =
    PNone
  | PBool bool
  | PInt int
  | PFloat rat
  | PStr string
  | PList "pyval list"
  | PDict "(pyval \<times> pyval) list"

type_synonym pydict = "(pyval, pyval) dict"

definition pget :: "pydict \<Rightarrow> string \<Rightarrow> pyval option" where
  "pget d k = dget d (PStr k)"

definition pget_or :: "pydict \<Rightarrow> string \<Rightarrow> pyval \<Rightarrow> pyval" where
  "pget_or d k v = (case pget d k of None \<Rightarrow> v | Some w \<Rightarrow> w)"

definition pset :: "string \<Rightarrow> pyval \<Rightarrow> pydict \<Rightarrow> pydict" where
  "pset k v d = dset (PStr k) v d"

definition psetdefault :: "string \<Rightarrow> pyval \<Rightarrow> pydict \<Rightarrow> pydict" where
  "psetdefault k v d = setdefault (PStr k) v d"

lemma pget_pset [simp]: "pget (pset k v d) j = (if j = k then Some v else pget d j)"
  by (simp add: pget_def pset_def)

fun is_pstr :: "pyval \<Rightarrow> bool" where
  "is_pstr (PStr s) = True"
| "is_pstr _ = False"

fun is_pdict :: "pyval \<Rightarrow> bool" where
  "is_pdict (PDict d) = True"
| "is_pdict _ = False"

fun is_filled_str :: "pyval option \<Rightarrow> bool" where
  "is_filled_str (Some (PStr s)) = (s \<noteq> [])"
| "is_filled_str _ = False"

section \<open>The schema check\<close>

text \<open>The error value is the container that \<open>_check_schema\<close> complains about.\<close>

datatype schema_error =
    RootShape
  | VersionShape
  | CommitShape
  | ProvidersShape
  | ProviderShape pyval
  | ChannelsShape pyval
  | ChannelShape pyval pyval
  | ChannelKeyShape pyval pyval string
  | ServerShape pyval pyval
  | RouterShape
  | RulesShape
  | RuleShape
  | RuleKeyShape string
  | NotParsed

definition check_chan_key :: "pyval \<Rightarrow> pyval \<Rightarrow> pydict \<Rightarrow> string \<Rightarrow> unit \<Rightarrow> (schema_error, unit) result" where
  "check_chan_key p c ch k u =
     guardR (case pget ch k of None \<Rightarrow> False | Some v \<Rightarrow> \<not> is_pdict v) (ChannelKeyShape p c k)"

definition check_channel :: "pyval \<Rightarrow> pyval \<times> pyval \<Rightarrow> unit \<Rightarrow> (schema_error, unit) result" where
  "check_channel p x u = (case x of (c, v) \<Rightarrow>
     bindR (guardR (\<not> is_pstr c) (ChannelShape p c)) (\<lambda>_.
     case v of
       PDict ch \<Rightarrow>
         bindR (foldR (check_chan_key p c ch) [''wg'', ''probe'', ''reconnect''] ()) (\<lambda>_.
           guardR (pget ch ''server'' \<noteq> None \<and> \<not> is_filled_str (pget ch ''server'')) (ServerShape p c))
     | _ \<Rightarrow> Inl (ChannelShape p c)))"

definition check_provider :: "pyval \<times> pyval \<Rightarrow> unit \<Rightarrow> (schema_error, unit) result" where
  "check_provider x u = (case x of (p, v) \<Rightarrow>
     bindR (guardR (\<not> is_pstr p) (ProviderShape p)) (\<lambda>_.
     case v of
       PDict prov \<Rightarrow> (case pget_or prov ''channels'' (PDict []) of
           PDict chans \<Rightarrow> foldR (check_channel p) chans ()
         | _ \<Rightarrow> Inl (ChannelsShape p))
     | _ \<Rightarrow> Inl (ProviderShape p)))"

definition check_rule_key :: "pydict \<Rightarrow> string \<Rightarrow> unit \<Rightarrow> (schema_error, unit) result" where
  "check_rule_key r k u = guardR (\<not> is_filled_str (pget r k)) (RuleKeyShape k)"

definition check_rule :: "pyval \<Rightarrow> unit \<Rightarrow> (schema_error, unit) result" where
  "check_rule v u = (case v of
       PDict r \<Rightarrow>
         bindR (foldR (check_rule_key r) [''id'', ''type'', ''target''] ()) (\<lambda>_.
           guardR (\<not> (case pget r ''value'' of Some w \<Rightarrow> is_pstr w | None \<Rightarrow> False)) (RuleKeyShape ''value''))
     | _ \<Rightarrow> Inl RuleShape)"

definition state_version :: int where
  "state_version = 1"

definition commit_key :: string where
  "commit_key = ''_setup_commit''"

definition check_schema :: "pydict \<Rightarrow> (schema_error, unit) result" where
  "check_schema d =
     bindR (guardR (case pget_or d ''version'' (PInt state_version) of PInt i \<Rightarrow> False | _ \<Rightarrow> True) VersionShape) (\<lambda>_.
     bindR (guardR (case pget d commit_key of None \<Rightarrow> False | Some v \<Rightarrow> \<not> is_pstr v) CommitShape) (\<lambda>_.
     bindR (case pget_or d ''providers'' (PDict []) of
              PDict ps \<Rightarrow> foldR check_provider ps () | _ \<Rightarrow> Inl ProvidersShape) (\<lambda>_.
     case pget_or d ''router'' (PDict []) of
       PDict r \<Rightarrow> (case pget_or r ''rules'' (PList []) of
           PList rs \<Rightarrow> foldR check_rule rs () | _ \<Rightarrow> Inl RulesShape)
     | _ \<Rightarrow> Inl RouterShape)))"

definition parse_state_text :: "(string \<Rightarrow> pyval option) \<Rightarrow> string \<Rightarrow> (schema_error, pydict) result" where
  "parse_state_text loads t = (case loads t of
     Some (PDict d) \<Rightarrow> bindR (check_schema d) (\<lambda>_. Inr d)
   | Some _ \<Rightarrow> Inl RootShape
   | None \<Rightarrow> Inl NotParsed)"

text \<open>\<open>credentials._parse\<close>; an empty document reads as no providers.\<close>

definition parse_credentials :: "(string \<Rightarrow> pyval option) \<Rightarrow> string \<Rightarrow> (schema_error, pydict) result" where
  "parse_credentials load t =
     bindR (case load t of
         None \<Rightarrow> Inl NotParsed
       | Some PNone \<Rightarrow> Inr []
       | Some (PDict d) \<Rightarrow> Inr d
       | Some _ \<Rightarrow> Inl RootShape) (\<lambda>d.
     case pget_or d ''providers'' (PDict []) of
       PDict ps \<Rightarrow> bindR (foldR (\<lambda>(p, v) _. bindR (guardR (\<not> is_pstr p) (ProviderShape p)) (\<lambda>_.
                       guardR (\<not> is_pdict v) (ProviderShape p))) ps ()) (\<lambda>_. Inr ps)
     | _ \<Rightarrow> Inl ProvidersShape)"

section \<open>Files and quarantine\<close>

record gen =
  g_text :: string
  g_ident :: "nat \<times> nat \<times> nat \<times> nat"

text \<open>\<open>Garbled\<close>: bytes that are not UTF-8, on which reading the text raises a \<open>UnicodeDecodeError\<close>.\<close>

datatype disk = Absent | Unreadable | Garbled | Got gen

text \<open>A store file and the corrupt generations preserved beside it.\<close>

record files =
  f_cur :: disk
  f_kept :: "string list"

datatype read_error = StoreReadError | NotPreserved | StateVersionError int | UnicodeDecodeError

text \<open>
  \<open>_quarantine\<close> under the writer's lock. \<open>can\<close> says whether the hard link, the unlink and the
  directory sync succeed.
\<close>

definition quarantine :: "(string \<Rightarrow> (schema_error, 'a) result) \<Rightarrow> bool \<Rightarrow> gen \<Rightarrow> files \<Rightarrow> (read_error, bool \<times> files) result" where
  "quarantine validate can failed fs = (case f_cur fs of
     Absent \<Rightarrow> Inr (False, fs)
   | Unreadable \<Rightarrow> Inl StoreReadError
   | Garbled \<Rightarrow> Inl UnicodeDecodeError
   | Got g \<Rightarrow>
       if g_ident g \<noteq> g_ident failed \<or> g_text g \<noteq> g_text failed then Inr (False, fs)
       else if returned (validate (g_text g)) then Inr (False, fs)
       else if \<not> can then Inl NotPreserved
       else Inr (True, fs\<lparr>f_cur := Absent, f_kept := f_kept fs @ [g_text g]\<rparr>))"

text \<open>
  The loop of \<open>_read_raw\<close> and \<open>_load_all\<close>. The list says what other writers do to the file between
  each read and the lock that the quarantine takes: nothing, or replace it. \<open>None\<close>: still looping
  when the list is exhausted.
\<close>

definition interfere :: "disk option \<Rightarrow> files \<Rightarrow> files" where
  "interfere c fs = (case c of None \<Rightarrow> fs | Some x \<Rightarrow> fs\<lparr>f_cur := x\<rparr>)"

fun read_store :: "(string \<Rightarrow> (schema_error, 'a) result) \<Rightarrow> 'a \<Rightarrow> bool \<Rightarrow> disk option list \<Rightarrow> files
    \<Rightarrow> (read_error, 'a \<times> files) result option" where
  "read_store parse blank can envs fs = (case f_cur fs of
     Absent \<Rightarrow> Some (Inr (blank, fs))
   | Unreadable \<Rightarrow> Some (Inl StoreReadError)
   | Garbled \<Rightarrow> Some (Inl UnicodeDecodeError)
   | Got g \<Rightarrow> (case parse (g_text g) of
       Inr d \<Rightarrow> Some (Inr (d, fs))
     | Inl e \<Rightarrow> (case envs of
         [] \<Rightarrow> None
       | c # rest \<Rightarrow> (case quarantine parse can g (interfere c fs) of
             Inl err \<Rightarrow> Some (Inl err)
           | Inr (moved, fs') \<Rightarrow>
               if moved then Some (Inr (blank, fs')) else read_store parse blank can rest fs'))))"

declare read_store.simps [simp del]

definition router_blank_raw :: pydict where
  "router_blank_raw = [(PStr ''port'', PInt 0), (PStr ''killswitch'', PBool False),
     (PStr ''lan_direct'', PBool True), (PStr ''tun'', PBool False), (PStr ''rules'', PList [])]"

definition blank_raw :: pydict where
  "blank_raw = [(PStr ''version'', PInt state_version), (PStr ''providers'', PDict []),
     (PStr ''router'', PDict router_blank_raw)]"

text \<open>The defaults and the version check after the loop; the rule migration is \<open>normalize_rulesets\<close>.\<close>

definition settle_read :: "pydict \<Rightarrow> (read_error, pydict) result" where
  "settle_read d = (let d1 = psetdefault ''version'' (PInt state_version) d in
     case pget d1 ''version'' of
       Some (PInt v) \<Rightarrow> if v > state_version then Inl (StateVersionError v)
         else Inr (psetdefault ''router'' (PDict router_blank_raw) (psetdefault ''providers'' (PDict []) d1))
     | _ \<Rightarrow> Inr d1)"

section \<open>Credential operations\<close>

fun pstrip :: "pyval \<Rightarrow> pyval" where
  "pstrip (PStr s) = PStr (strip s)"
| "pstrip v = v"

definition clean :: "pydict \<Rightarrow> pydict" where
  "clean c = map (\<lambda>(k, v). (k, pstrip v)) c"

definition set_credentials :: "string \<Rightarrow> pydict \<Rightarrow> pydict \<Rightarrow> pydict" where
  "set_credentials p c data = pset p (PDict (clean c)) data"

definition replace_all :: "(string, pydict) dict \<Rightarrow> pydict \<Rightarrow> pydict" where
  "replace_all ps data = map (\<lambda>(p, c). (PStr p, PDict (clean c))) ps"

definition remove_credentials :: "string \<Rightarrow> pydict \<Rightarrow> bool \<times> pydict" where
  "remove_credentials p data =
     ((case pget data p of None \<Rightarrow> False | Some PNone \<Rightarrow> False | Some _ \<Rightarrow> True), dpop (PStr p) data)"

definition get_credentials :: "string \<Rightarrow> pydict \<Rightarrow> pyval option" where
  "get_credentials p data = pget data p"

definition configured :: "pydict \<Rightarrow> string list" where
  "configured data = sort (concat (map (\<lambda>(k, v). case k of PStr s \<Rightarrow> [s] | _ \<Rightarrow> []) data))"

definition mask :: "string \<Rightarrow> nat \<Rightarrow> string" where
  "mask v n = (if length v \<le> n * 2 then replicate (length v) (CHR ''*'')
     else take n v @ replicate (length v - n * 2) (CHR ''*'') @ drop (length v - n) v)"

section \<open>Generated endpoints\<close>

text \<open>\<open>generated_endpoint\<close> under its lock: the value returned and the file afterwards.\<close>

definition generated_endpoint :: "(string \<Rightarrow> pyval option) \<Rightarrow> (pyval \<Rightarrow> pyval option) \<Rightarrow> (pyval \<Rightarrow> string) \<Rightarrow> pyval \<Rightarrow> string option
    \<Rightarrow> pyval \<times> string option" where
  "generated_endpoint loads validate dumps fresh file =
     (case (case file of None \<Rightarrow> None | Some t \<Rightarrow> (case loads t of None \<Rightarrow> None | Some v \<Rightarrow> validate v)) of
        Some cfg \<Rightarrow> (cfg, file)
      | None \<Rightarrow> (fresh, Some (dumps fresh)))"

section \<open>Lemmas\<close>

lemma quarantine_cases:
  assumes "quarantine validate can g fs = Inr (m, fs')"
  shows "(\<not> m \<and> fs' = fs) \<or>
    (m \<and> fs' = fs\<lparr>f_cur := Absent, f_kept := f_kept fs @ [g_text g]\<rparr> \<and> \<not> returned (validate (g_text g)))"
  using assms by (auto simp: quarantine_def split: disk.splits if_splits)

lemma interfere_kept [simp]: "f_kept (interfere c fs) = f_kept fs"
  by (simp add: interfere_def split: option.split)

end
