(* ===== verification/Txn.thy ===== *)
theory Txn
  imports Persist
begin

text \<open>
  The setup transaction of \<open>anyhop/txn.py\<close> over \<open>credentials.yaml\<close>, \<open>state.json\<close> and the journal, with
  \<open>transaction\<close> of \<open>anyhop/state.py\<close>. Every file is replaced atomically (\<open>fsio.write_durably\<close>), so an
  operation is a list of single writes and a crash keeps a prefix of the list; an exception inside a
  clean-up is such a crash too, since it leaves the journal behind. The journal holds decoded values:
  \<open>json\<close> reads back what it wrote for the string-keyed dictionaries that the files hold.
\<close>

section \<open>The files\<close>

record entry =
  e_id :: "pyval option"
  e_op :: string
  e_creds :: pyval

text \<open>\<open>Corrupt\<close>: not JSON, not an object, or without credentials.\<close>

datatype journal = NoJournal | UnreadableJournal | Corrupt | Entry entry

record world =
  w_creds :: pydict
  w_state :: pydict
  w_journal :: journal
  w_aside :: "journal list"

datatype file_write =
    PutCreds pydict
  | PutState pydict
  | PutJournal entry
  | ClearJournal
  | MoveJournal

fun apply_write :: "file_write \<Rightarrow> world \<Rightarrow> world" where
  "apply_write (PutCreds c) w = w\<lparr>w_creds := c\<rparr>"
| "apply_write (PutState s) w = w\<lparr>w_state := s\<rparr>"
| "apply_write (PutJournal e) w = w\<lparr>w_journal := Entry e\<rparr>"
| "apply_write ClearJournal w = w\<lparr>w_journal := NoJournal\<rparr>"
| "apply_write MoveJournal w = w\<lparr>w_aside := w_aside w @ [w_journal w], w_journal := NoJournal\<rparr>"

section \<open>State transactions\<close>

text \<open>\<open>json.dumps(..., sort_keys=True)\<close>; all keys are strings.\<close>

definition key_text :: "pyval \<Rightarrow> string" where
  "key_text k = (case k of PStr s \<Rightarrow> s | _ \<Rightarrow> [])"

fun sorted_dump :: "pyval \<Rightarrow> pyval" where
  "sorted_dump (PList xs) = PList (map sorted_dump xs)"
| "sorted_dump (PDict kvs) = PDict (sort_key (\<lambda>x. key_text (fst x)) (map (\<lambda>(k, v). (k, sorted_dump v)) kvs))"
| "sorted_dump v = v"

text \<open>The write that ends a state transaction: \<open>None\<close> when nothing changed and no setup is active.\<close>

definition end_transaction :: "string option \<Rightarrow> pydict \<Rightarrow> pydict \<Rightarrow> file_write option" where
  "end_transaction setup before after = (case setup of
     Some sid \<Rightarrow> Some (PutState (pset commit_key (PStr sid) after))
   | None \<Rightarrow> if sorted_dump (PDict after) = sorted_dump (PDict before) then None else Some (PutState after))"

definition state_committed :: "string \<Rightarrow> world \<Rightarrow> bool" where
  "state_committed sid w = (pget (w_state w) commit_key = Some (PStr sid))"

section \<open>Recovery, begin, commit and end\<close>

text \<open>The writes of \<open>_recover_locked\<close>, and what it returns.\<close>

definition recover_locked :: "world \<Rightarrow> bool \<times> file_write list" where
  "recover_locked w = (case w_journal w of
     NoJournal \<Rightarrow> (False, [])
   | UnreadableJournal \<Rightarrow> (False, [])
   | Corrupt \<Rightarrow> (False, [MoveJournal])
   | Entry en \<Rightarrow> (case e_creds en of
       PDict snap \<Rightarrow> (case (case e_id en of None \<Rightarrow> Some [] | Some PNone \<Rightarrow> Some [] | Some (PStr s) \<Rightarrow> Some s | Some _ \<Rightarrow> None) of
           None \<Rightarrow> (False, [MoveJournal])
         | Some sid \<Rightarrow>
             if sid \<noteq> [] \<and> state_committed sid w then (False, [ClearJournal])
             else (True, [PutCreds snap, ClearJournal]))
     | _ \<Rightarrow> (False, [MoveJournal])))"

definition recover :: "world \<Rightarrow> world" where
  "recover w = fold apply_write (snd (recover_locked w)) w"

text \<open>\<open>setup_transaction\<close> up to the \<open>yield\<close>, once the recovery has run.\<close>

definition begin_write :: "string \<Rightarrow> string \<Rightarrow> world \<Rightarrow> file_write" where
  "begin_write sid op w = PutJournal \<lparr>e_id = Some (PStr sid), e_op = op, e_creds = PDict (w_creds w)\<rparr>"

text \<open>\<open>SetupTxn.commit\<close>.\<close>

definition commit_writes :: "string \<Rightarrow> world \<Rightarrow> file_write list" where
  "commit_writes sid w =
     (if state_committed sid w then []
      else [PutState (pset commit_key (PStr sid) (w_state w))]) @ [ClearJournal]"

text \<open>After the body, on an exception and on a normal return alike.\<close>

definition exit_writes :: "string \<Rightarrow> pydict \<Rightarrow> bool \<Rightarrow> world \<Rightarrow> file_write list" where
  "exit_writes sid snap committed w =
     (if committed \<or> state_committed sid w then [ClearJournal] else [PutCreds snap, ClearJournal])"

section \<open>One transaction, step by step\<close>

text \<open>
  Where the transaction stands: in its body, having called \<open>commit\<close> or not; with single writes of
  \<open>commit\<close> or of the exit left to do; or ended, by its exit or by a crash.
\<close>

datatype phase = Running bool | Writing "file_write list" phase | Ended

text \<open>\<open>commit\<close> writes the state under the state lock, which it takes when it reads it.\<close>

fun holds_state_lock :: "phase \<Rightarrow> bool" where
  "holds_state_lock (Writing (PutState s # xs) ph) = True"
| "holds_state_lock _ = False"

text \<open>
  \<open>txn_step sid snap (ph, staged, w) (ph', staged', w')\<close>: \<open>staged\<close> is the credentials as the body wrote
  them. Other processes write the state meanwhile; their transactions are outside any setup and keep
  the stamp they read.
\<close>

inductive txn_step :: "string \<Rightarrow> pydict \<Rightarrow> phase \<times> pydict \<times> world \<Rightarrow> phase \<times> pydict \<times> world \<Rightarrow> bool"
  for sid :: string and snap :: pydict where
  creds: "txn_step sid snap (Running b, staged, w) (Running b, c, apply_write (PutCreds c) w)"
| publish: "end_transaction (Some sid) (w_state w) after = Some x
    \<Longrightarrow> txn_step sid snap (Running b, staged, w) (Running b, staged, apply_write x w)"
| commit: "txn_step sid snap (Running b, staged, w) (Writing (commit_writes sid w) (Running True), staged, w)"
| exit: "txn_step sid snap (Running b, staged, w) (Writing (exit_writes sid snap b w) Ended, staged, w)"
| single: "txn_step sid snap (Writing (x # xs) ph, staged, w) (Writing xs ph, staged, apply_write x w)"
| resume: "txn_step sid snap (Writing [] ph, staged, w) (ph, staged, w)"
| crash: "txn_step sid snap (ph, staged, w) (Ended, staged, w)"
| foreign: "end_transaction None (w_state w) after = Some x \<Longrightarrow> pget after commit_key = pget (w_state w) commit_key
    \<Longrightarrow> \<not> holds_state_lock ph \<Longrightarrow> txn_step sid snap (ph, staged, w) (ph, staged, apply_write x w)"

inductive txn_run :: "string \<Rightarrow> string \<Rightarrow> world \<Rightarrow> phase \<times> pydict \<times> world \<Rightarrow> bool"
  for sid :: string and op :: string and w0 :: world where
  start: "txn_run sid op w0 (Running False, w_creds w0, apply_write (begin_write sid op w0) w0)"
| step: "txn_run sid op w0 s \<Longrightarrow> txn_step sid (w_creds w0) s t \<Longrightarrow> txn_run sid op w0 t"

inductive_cases publishE: "txn_step sid snap (Running b, staged, w) (Running b, staged, w')"

section \<open>The logical credentials\<close>

text \<open>
  The abstraction: what the credentials are once the journal is taken into account. A transaction
  changes them in one step, the one that stamps the state.
\<close>

definition logical_creds :: "world \<Rightarrow> pydict" where
  "logical_creds w = w_creds (recover w)"

definition good_journal :: "world \<Rightarrow> bool" where
  "good_journal w = (case w_journal w of NoJournal \<Rightarrow> True
     | Entry en \<Rightarrow> (\<exists>s c. s \<noteq> [] \<and> e_id en = Some (PStr s) \<and> e_creds en = PDict c) | _ \<Rightarrow> False)"

lemma recover_entry:
  assumes "w_journal w = Entry en" "e_id en = Some (PStr s)" "s \<noteq> []" "e_creds en = PDict c"
  shows "recover w = (if state_committed s w then w\<lparr>w_journal := NoJournal\<rparr>
      else w\<lparr>w_creds := c, w_journal := NoJournal\<rparr>)"
  using assms by (simp add: recover_def recover_locked_def)

lemma recover_none: "w_journal w = NoJournal \<Longrightarrow> recover w = w"
  by (simp add: recover_def recover_locked_def)

lemma commit_key_pset [simp]:
  "state_committed sid (w\<lparr>w_state := pset commit_key (PStr sid) s\<rparr>)"
  "state_committed sid (w\<lparr>w_creds := c\<rparr>) = state_committed sid w"
  "state_committed sid (w\<lparr>w_journal := j\<rparr>) = state_committed sid w"
  by (simp_all add: state_committed_def)

lemma logical_creds_eq:
  assumes "good_journal w"
  shows "w_journal (recover w) = NoJournal" "w_state (recover w) = w_state w" "recover (recover w) = recover w"
  using assms
  by (auto simp: good_journal_def recover_entry recover_none split: journal.splits)

text \<open>
  What every configuration of a run satisfies. While the body runs, the journal of this transaction
  is there and the credentials are the staged ones; once the transaction is settled, the state is
  stamped and they are the staged ones, or it is not and they are the old ones. The writes that are
  still pending say which of these is next.
\<close>

definition own_journal :: "string \<Rightarrow> string \<Rightarrow> pydict \<Rightarrow> world \<Rightarrow> bool" where
  "own_journal sid op snap w = (w_journal w = Entry \<lparr>e_id = Some (PStr sid), e_op = op, e_creds = PDict snap\<rparr>)"

definition settled_ok :: "string \<Rightarrow> pydict \<Rightarrow> pydict \<Rightarrow> world \<Rightarrow> bool" where
  "settled_ok sid snap staged w = (w_creds w = (if state_committed sid w then staged else snap))"

definition published :: "string \<Rightarrow> pydict \<Rightarrow> world \<Rightarrow> bool" where
  "published sid staged w = (state_committed sid w \<and> w_creds w = staged)"

fun phase_ok :: "string \<Rightarrow> string \<Rightarrow> pydict \<Rightarrow> phase \<Rightarrow> pydict \<Rightarrow> world \<Rightarrow> bool" where
  "phase_ok sid op snap (Running False) staged w = (own_journal sid op snap w \<and> w_creds w = staged)"
| "phase_ok sid op snap (Running True) staged w = (w_journal w = NoJournal \<and> published sid staged w)"
| "phase_ok sid op snap (Writing [] (Running True)) staged w = (w_journal w = NoJournal \<and> published sid staged w)"
| "phase_ok sid op snap (Writing [ClearJournal] (Running True)) staged w =
     ((own_journal sid op snap w \<or> w_journal w = NoJournal) \<and> published sid staged w)"
| "phase_ok sid op snap (Writing [PutState s, ClearJournal] (Running True)) staged w =
     (own_journal sid op snap w \<and> w_creds w = staged \<and> pget s commit_key = Some (PStr sid))"
| "phase_ok sid op snap (Writing [] Ended) staged w = (w_journal w = NoJournal \<and> settled_ok sid snap staged w)"
| "phase_ok sid op snap (Writing [ClearJournal] Ended) staged w =
     ((own_journal sid op snap w \<or> w_journal w = NoJournal) \<and> settled_ok sid snap staged w)"
| "phase_ok sid op snap (Writing [PutCreds c, ClearJournal] Ended) staged w =
     (own_journal sid op snap w \<and> c = snap \<and> \<not> state_committed sid w)"
| "phase_ok sid op snap Ended staged w =
     ((w_journal w = NoJournal \<and> settled_ok sid snap staged w)
      \<or> (own_journal sid op snap w \<and> (state_committed sid w \<longrightarrow> w_creds w = staged)))"
| "phase_ok sid op snap (Writing _ _) staged w = False"

lemma phase_ok_Ended: "phase_ok sid op snap ph staged w \<Longrightarrow> phase_ok sid op snap Ended staged w"
  by (induction sid op snap ph staged w rule: phase_ok.induct)
     (auto simp: settled_ok_def published_def own_journal_def)

lemma phase_ok_state:
  assumes "phase_ok sid op snap ph staged w" "state_committed sid (w\<lparr>w_state := s\<rparr>) = state_committed sid w" "\<not> holds_state_lock ph"
  shows "phase_ok sid op snap ph staged (w\<lparr>w_state := s\<rparr>)"
  using assms
  by (induction sid op snap ph staged w rule: phase_ok.induct)
     (auto simp: settled_ok_def published_def own_journal_def)

lemma txn_step_ok:
  assumes "txn_step sid snap (ph, staged, w) (ph', staged', w')" "phase_ok sid op snap ph staged w"
  shows "phase_ok sid op snap ph' staged' w'"
  using assms
proof (cases rule: txn_step.cases)
  case (creds b)
  with assms(2) show ?thesis by (cases b) (auto simp: own_journal_def published_def)
next
  case (publish after x b)
  with assms(2) show ?thesis by (cases b) (auto simp: own_journal_def published_def end_transaction_def)
next
  case (commit b)
  with assms(2) show ?thesis
    by (cases b) (auto simp: own_journal_def published_def commit_writes_def)
next
  case (exit b)
  with assms(2) show ?thesis
    by (cases b) (auto simp: own_journal_def published_def exit_writes_def settled_ok_def)
next
  case (single x xs)
  with assms(2) show ?thesis
    by (induction sid op snap ph staged w rule: phase_ok.induct)
       (auto simp: settled_ok_def published_def own_journal_def state_committed_def)
next
  case resume
  with assms(2) show ?thesis
    by (induction sid op snap ph staged w rule: phase_ok.induct)
       (auto simp: settled_ok_def published_def own_journal_def)
next
  case crash
  with assms(2) phase_ok_Ended show ?thesis by blast
next
  case (foreign after x)
  then show ?thesis using phase_ok_state[OF assms(2), of after]
    by (auto simp: end_transaction_def state_committed_def split: if_splits)
qed

lemma txn_run_ok: "txn_run sid op w0 s \<Longrightarrow> (case s of (ph, staged, w) \<Rightarrow> phase_ok sid op (w_creds w0) ph staged w)"
proof (induction rule: txn_run.induct)
  case start
  show ?case by (simp add: begin_write_def own_journal_def)
next
  case (step s t)
  then show ?case using txn_step_ok by (cases s; cases t) auto
qed

lemma ended_recovers:
  assumes "phase_ok sid op snap Ended staged w" "sid \<noteq> []"
  shows "good_journal w" "w_creds (recover w) = (if state_committed sid w then staged else snap)"
  using assms by (auto simp: good_journal_def own_journal_def recover_entry recover_none settled_ok_def)

section \<open>Histories\<close>

text \<open>
  \<open>setups c w\<close>: the files \<open>w\<close> after any number of compound operations, one at a time under the setup
  lock, each of which may crash anywhere, with recoveries (which may crash as well) and state writes of
  other processes between them; \<open>c\<close> is the credentials of the last operation that published.
\<close>

inductive setups :: "pydict \<Rightarrow> world \<Rightarrow> bool" where
  fresh: "w_journal w = NoJournal \<Longrightarrow> setups (w_creds w) w"
| operation: "setups c w \<Longrightarrow> sid \<noteq> [] \<Longrightarrow> \<not> state_committed sid (recover w)
    \<Longrightarrow> txn_run sid op (recover w) (Ended, staged, w')
    \<Longrightarrow> setups (if state_committed sid w' then staged else c) w'"
| recovery: "setups c w \<Longrightarrow> setups c (fold apply_write (take k (snd (recover_locked w))) w)"
| other: "setups c w \<Longrightarrow> end_transaction None (w_state w) after = Some x
    \<Longrightarrow> pget after commit_key = pget (w_state w) commit_key \<Longrightarrow> setups c (apply_write x w)"

lemma recovery_prefix:
  assumes "good_journal w" and w': "w' = fold apply_write (take k (snd (recover_locked w))) w"
  shows "good_journal w' \<and> w_creds (recover w') = w_creds (recover w)"
proof (cases "w_journal w")
  case NoJournal
  with assms show ?thesis by (simp add: recover_locked_def)
next
  case (Entry en)
  with assms(1) obtain s c where e: "s \<noteq> []" "e_id en = Some (PStr s)" "e_creds en = PDict c"
    by (auto simp: good_journal_def)
  show ?thesis
  proof (cases "state_committed s w")
    case True
    then have "snd (recover_locked w) = [ClearJournal]" using Entry e by (simp add: recover_locked_def)
    with w' have "w' = w \<or> w' = w\<lparr>w_journal := NoJournal\<rparr>" by (cases k) auto
    then show ?thesis using assms(1) True Entry e by (auto simp: good_journal_def recover_none recover_entry)
  next
    case False
    then have "snd (recover_locked w) = [PutCreds c, ClearJournal]" using Entry e by (simp add: recover_locked_def)
    moreover obtain n where "k = 0 \<or> k = 1 \<or> k = Suc (Suc n)" by (metis One_nat_def nat.exhaust)
    ultimately have "w' = w \<or> w' = w\<lparr>w_creds := c\<rparr> \<or> w' = w\<lparr>w_creds := c, w_journal := NoJournal\<rparr>"
      using w' by auto
    then show ?thesis using assms(1) False Entry e by (auto simp: good_journal_def recover_none recover_entry)
  qed
qed (use assms(1) in \<open>auto simp: good_journal_def\<close>)

lemma setups_ok: "setups c w \<Longrightarrow> good_journal w \<and> w_creds (recover w) = c"
proof (induction rule: setups.induct)
  case (fresh w)
  then show ?case by (simp add: good_journal_def recover_none)
next
  case (operation c w sid op staged w')
  from txn_run_ok[OF operation.hyps(4)] have "phase_ok sid op c Ended staged w'"
    using operation.IH by simp
  with ended_recovers[OF this operation.hyps(2)] show ?case by simp
next
  case (recovery c w k)
  then show ?case using recovery_prefix[OF _ refl] by simp
next
  case (other c w after x)
  from other.hyps have x: "apply_write x w = w\<lparr>w_state := after\<rparr>" by (auto simp: end_transaction_def split: if_splits)
  have s: "state_committed s (w\<lparr>w_state := after\<rparr>) = state_committed s w" for s
    using other.hyps(3) by (simp add: state_committed_def)
  have "w_creds (recover (w\<lparr>w_state := after\<rparr>)) = w_creds (recover w) \<and> good_journal (w\<lparr>w_state := after\<rparr>)"
  proof (cases "w_journal w")
    case NoJournal
    then show ?thesis by (simp add: recover_none good_journal_def)
  next
    case (Entry en)
    with other.IH obtain t c' where e: "t \<noteq> []" "e_id en = Some (PStr t)" "e_creds en = PDict c'"
      by (auto simp: good_journal_def)
    have "w_journal (w\<lparr>w_state := after\<rparr>) = Entry en" using Entry by simp
    from recover_entry[OF this e(2,1,3)] recover_entry[OF Entry e(2,1,3)] s[of t] e Entry
    show ?thesis by (auto simp: good_journal_def)
  qed (use other.IH in \<open>auto simp: good_journal_def\<close>)
  with other.IH x show ?case by simp
qed

definition demo_world :: world where
  "demo_world = \<lparr>w_creds = [(PStr ''nord'', PDict [])], w_state = blank_raw, w_journal = NoJournal, w_aside = []\<rparr>"

text \<open>C13: Compound setup changes are all or nothing. Crash a setup transaction at any write, or let
  its body raise or return, with other processes writing the state meanwhile: after recovery the
  journal is gone, the state file is as it was found, and the credentials are the staged ones exactly
  when the state carries the transaction's stamp, otherwise those from before the transaction.\<close>

theorem compound_all_or_nothing:
  assumes "txn_run sid op w0 (ph, staged, w)" "sid \<noteq> []"
  shows "w_creds (recover w) = (if state_committed sid w then staged else w_creds w0)
    \<and> w_journal (recover w) = NoJournal \<and> w_state (recover w) = w_state w \<and> recover (recover w) = recover w"
proof -
  from txn_run_ok[OF assms(1)] have "phase_ok sid op (w_creds w0) Ended staged w"
    by (auto dest: phase_ok_Ended)
  note ok = ended_recovers[OF this assms(2)]
  show ?thesis using ok(2) logical_creds_eq[OF ok(1)] by simp
qed

theorem compound_all_or_nothing_witness:
  "\<exists>w. txn_run ''t1'' ''token'' demo_world (Ended, [(PStr ''pia'', PDict [])], w)
     \<and> w_creds w = [(PStr ''pia'', PDict [])] \<and> w_creds (recover w) = [(PStr ''nord'', PDict [])]"
proof -
  let ?c = "[(PStr ''pia'', PDict [])]"
  let ?w1 = "apply_write (begin_write ''t1'' ''token'' demo_world) demo_world"
  let ?w = "apply_write (PutCreds ?c) ?w1"
  have "txn_run ''t1'' ''token'' demo_world (Running False, ?c, ?w)"
    by (rule txn_run.step[OF txn_run.start txn_step.creds])
  then have run: "txn_run ''t1'' ''token'' demo_world (Ended, ?c, ?w)"
    by (rule txn_run.step[OF _ txn_step.crash])
  have "\<not> state_committed ''t1'' ?w" by code_simp
  with compound_all_or_nothing[OF run] have "w_creds (recover ?w) = w_creds demo_world" by simp
  with run show ?thesis by (intro exI[of _ ?w]) (simp add: demo_world_def)
qed

text \<open>C14: No history loses a published credential. Whatever sequence of setup operations, crashes,
  recoveries that crash in turn and writes of other processes has happened, one recovery brings back
  the credentials of the last operation that published, and leaves no journal.\<close>

theorem recovery_restores_published:
  assumes "setups c w"
  shows "w_creds (recover w) = c \<and> w_journal (recover w) = NoJournal"
  using setups_ok[OF assms] logical_creds_eq(1) by blast

theorem recovery_restores_published_witness:
  "\<exists>w. setups [(PStr ''nord'', PDict [])] w \<and> w_journal w \<noteq> NoJournal \<and> w_creds (recover w) = [(PStr ''nord'', PDict [])]"
proof -
  let ?c = "[(PStr ''pia'', PDict [])]"
  let ?w1 = "apply_write (begin_write ''t1'' ''token'' demo_world) demo_world"
  let ?w = "apply_write (PutCreds ?c) ?w1"
  have rec: "recover demo_world = demo_world" by (rule recover_none) (simp add: demo_world_def)
  have "txn_run ''t1'' ''token'' demo_world (Running False, ?c, ?w)"
    by (rule txn_run.step[OF txn_run.start txn_step.creds])
  then have run: "txn_run ''t1'' ''token'' (recover demo_world) (Ended, ?c, ?w)"
    unfolding rec by (rule txn_run.step[OF _ txn_step.crash])
  have f: "setups (w_creds demo_world) demo_world" by (rule setups.fresh) (simp add: demo_world_def)
  have n: "\<not> state_committed ''t1'' (recover demo_world)" "\<not> state_committed ''t1'' ?w"
    unfolding rec by code_simp+
  have "setups (if state_committed ''t1'' ?w then ?c else w_creds demo_world) ?w"
    by (rule setups.operation[OF f _ n(1) run]) simp
  then have s: "setups (w_creds demo_world) ?w" using n(2) by simp
  have "w_creds (recover ?w) = w_creds demo_world" using recovery_restores_published[OF s] by simp
  with s show ?thesis by (intro exI[of _ ?w]) (simp add: demo_world_def begin_write_def)
qed

text \<open>C15: A blank view never hides data. Reading a store file that other writers may replace at any
  moment ends as soon as they leave it alone for one round; if it ends in a blank view, either the
  file is absent or exactly one corrupt text has been preserved beside it, and a text that parses is
  never moved away.\<close>

theorem blank_view_preserves:
  assumes "None \<in> set envs"
  shows "(case read_store parse blank can envs fs of
      None \<Rightarrow> False
    | Some (Inl e) \<Rightarrow> True
    | Some (Inr (v, fs')) \<Rightarrow>
        (f_kept fs' = f_kept fs \<and> (f_cur fs' = Absent \<and> v = blank
            \<or> (\<exists>g. f_cur fs' = Got g \<and> parse (g_text g) = Inr v)))
        \<or> (\<exists>t. f_kept fs' = f_kept fs @ [t] \<and> \<not> returned (parse t) \<and> f_cur fs' = Absent \<and> v = blank))"
  using assms
proof (induction envs arbitrary: fs)
  case (Cons c rest)
  show ?case
  proof (cases "f_cur fs")
    case (Got g)
    show ?thesis
    proof (cases "parse (g_text g)")
      case (Inl e)
      show ?thesis
      proof (cases "quarantine parse can g (interfere c fs)")
        case q: (Inr r)
        obtain m fs' where r: "r = (m, fs')" by force
        from quarantine_cases[OF q[unfolded r]]
        have alt: "(\<not> m \<and> fs' = interfere c fs) \<or> (m \<and> f_cur fs' = Absent \<and> f_kept fs' = f_kept fs @ [g_text g])" by auto
        show ?thesis
        proof (cases m)
          case True
          with alt show ?thesis using Got Inl q r by (subst read_store.simps) auto
        next
          case False
          with alt have fs': "fs' = interfere c fs" by auto
          have "None \<in> set rest"
          proof (rule ccontr)
            assume "None \<notin> set rest"
            with Cons.prems have "c = None" by simp
            with q r False Got Inl show False by (auto simp: quarantine_def interfere_def split: if_splits)
          qed
          note n = this
          have k: "f_kept fs' = f_kept fs" using fs' by simp
          from Cons.IH[OF n, of fs', unfolded k] show ?thesis using Got Inl q r False fs'
            by (subst read_store.simps) simp
        qed
      qed (use Got Inl in \<open>subst read_store.simps, simp\<close>)
    qed (use Got in \<open>subst read_store.simps, simp\<close>)
  qed (subst read_store.simps, simp)+
qed simp

theorem blank_view_preserves_witness:
  "\<exists>g'. read_store (parse_state_text (\<lambda>t. None)) blank_raw True [None] \<lparr>f_cur = Got g', f_kept = []\<rparr> \<noteq> None
     \<and> read_store (parse_state_text (\<lambda>t. None)) blank_raw True [None] \<lparr>f_cur = Got g', f_kept = []\<rparr>
         = Some (Inr (blank_raw, \<lparr>f_cur = Absent, f_kept = [g_text g']\<rparr>))"
proof -
  let ?g = "\<lparr>g_text = ''{'', g_ident = (1, 2, 3, 4)\<rparr>"
  let ?r = "read_store (parse_state_text (\<lambda>t. None)) blank_raw True [None] \<lparr>f_cur = Got ?g, f_kept = []\<rparr>"
  have "?r \<noteq> None"
    using blank_view_preserves[where envs = "[None]" and fs = "\<lparr>f_cur = Got ?g, f_kept = []\<rparr>" and parse = "parse_state_text (\<lambda>t. None)" and blank = blank_raw and can = True]
    by (auto split: option.splits)
  moreover have "?r = Some (Inr (blank_raw, \<lparr>f_cur = Absent, f_kept = [''{'']\<rparr>))"
    by (subst read_store.simps) (simp add: parse_state_text_def quarantine_def interfere_def)
  ultimately show ?thesis by (intro exI[of _ ?g]) simp
qed

end
