(* ===== verification/Auth.thy ===== *)
theory Auth
  imports Persist
begin

text \<open>
  The credentials of the control API: \<open>anyhop/api/auth.py\<close> and the revocation record of
  \<open>anyhop/api/server.py\<close>. HMAC-SHA256 in base64 is the argument \<open>sign\<close>, the SHA-256 hex digest the
  argument \<open>digest\<close>; the clock and the random nonce are arguments too. Base64, UTF-8 and \<open>int\<close> on
  strings are written out for the code points below 256 that a string of the model has: a decoded
  text with another code point counts as undecodable, which no minted token has.
\<close>

section \<open>Encodings\<close>

definition utf8 :: "string \<Rightarrow> nat list" where
  "utf8 s = concat (map (\<lambda>c. let n = of_char c in if n < 128 then [n] else [192 + n div 64, 128 + n mod 64]) s)"

fun utf8_decode :: "nat list \<Rightarrow> string option" where
  "utf8_decode [] = Some []"
| "utf8_decode (a # bs) =
     (if a < 128 then map_option (\<lambda>s. char_of a # s) (utf8_decode bs)
      else (case bs of
          b # cs \<Rightarrow> if 194 \<le> a \<and> a \<le> 195 \<and> 128 \<le> b \<and> b < 192
            then map_option (\<lambda>s. char_of ((a - 192) * 64 + (b - 128)) # s) (utf8_decode cs) else None
        | [] \<Rightarrow> None))"

definition b64_alphabet :: string where
  "b64_alphabet = ''ABCDEFGHIJKLMNOPQRSTUVWXYZabcdefghijklmnopqrstuvwxyz0123456789-_''"

definition b64_char :: "nat \<Rightarrow> char" where
  "b64_char n = b64_alphabet ! n"

text \<open>\<open>urlsafe_b64encode(...).rstrip("=")\<close>.\<close>

fun b64_encode :: "nat list \<Rightarrow> string" where
  "b64_encode [] = []"
| "b64_encode [a] = [b64_char (a div 4), b64_char (a mod 4 * 16)]"
| "b64_encode [a, b] = [b64_char (a div 4), b64_char (a mod 4 * 16 + b div 16), b64_char (b mod 16 * 4)]"
| "b64_encode (a # b # c # r) = b64_char (a div 4) # b64_char (a mod 4 * 16 + b div 16)
     # b64_char (b mod 16 * 4 + c div 64) # b64_char (c mod 64) # b64_encode r"

fun index_of :: "'a \<Rightarrow> 'a list \<Rightarrow> nat option" where
  "index_of x [] = None"
| "index_of x (y # ys) = (if x = y then Some 0 else map_option Suc (index_of x ys))"

definition b64_value :: "char \<Rightarrow> nat option" where
  "b64_value c = (if c = CHR ''+'' then Some 62 else if c = CHR ''/'' then Some 63 else index_of c b64_alphabet)"

text \<open>
  \<open>urlsafe_b64decode\<close>, which is lenient: characters outside the alphabet are skipped, and a pad ends the
  input once the quantum is complete. The arguments are the position in the quantum, the bits left
  over and the pads seen.
\<close>

fun b64_decode :: "nat \<Rightarrow> nat \<Rightarrow> nat \<Rightarrow> string \<Rightarrow> nat list option" where
  "b64_decode q left pads [] = (if q = 0 then Some [] else None)"
| "b64_decode q left pads (c # cs) =
     (if c = CHR ''='' then
        (if 2 \<le> q then (if q + (pads + 1) \<ge> 4 then Some [] else b64_decode q left (pads + 1) cs)
         else b64_decode q left pads cs)
      else (case b64_value c of
          None \<Rightarrow> b64_decode q left pads cs
        | Some v \<Rightarrow>
            if q = 0 then b64_decode 1 v 0 cs
            else if q = 1 then map_option (\<lambda>r. (left * 4 + v div 16) # r) (b64_decode 2 (v mod 16) 0 cs)
            else if q = 2 then map_option (\<lambda>r. (left * 16 + v div 4) # r) (b64_decode 3 (v mod 4) 0 cs)
            else map_option (\<lambda>r. (left * 64 + v) # r) (b64_decode 0 0 0 cs)))"

definition b64 :: "string \<Rightarrow> string" where
  "b64 s = b64_encode (utf8 s)"

definition unb64 :: "string \<Rightarrow> string option" where
  "unb64 s = (let n = (4 - length s mod 4) mod 4 in
     if list_all (\<lambda>c. (of_char c :: nat) < 128) s
     then (case b64_decode 0 0 0 (s @ replicate n (CHR ''='')) of None \<Rightarrow> None | Some bs \<Rightarrow> utf8_decode bs)
     else None)"

section \<open>One-time login tokens\<close>

definition login_ttl :: int where
  "login_ttl = 120"

definition mint_login_token :: "(string \<Rightarrow> string \<Rightarrow> string) \<Rightarrow> string \<Rightarrow> int \<Rightarrow> string \<Rightarrow> string" where
  "mint_login_token sign secret now nonce = (let payload = ''login:'' @ int_str now @ '':'' @ nonce in
     b64 payload @ ''.'' @ sign secret payload)"

definition check_login_token :: "(string \<Rightarrow> string \<Rightarrow> string) \<Rightarrow> string \<Rightarrow> string \<Rightarrow> int \<Rightarrow> (string \<times> int) option" where
  "check_login_token sign secret token now = (case str_partition (CHR ''.'') token of (body, dot, sig) \<Rightarrow>
     if \<not> dot then None
     else (case unb64 body of
       None \<Rightarrow> None
     | Some payload \<Rightarrow> (case split_on (CHR '':'') payload of
         [w, since, nonce] \<Rightarrow>
           if w \<noteq> ''login'' then None
           else (case py_int since of
               None \<Rightarrow> None
             | Some issued \<Rightarrow> (let canonical = b64 payload @ ''.'' @ sign secret payload in
                 if token \<noteq> canonical then None
                 else if \<bar>now - issued\<bar> > login_ttl then None
                 else Some (canonical, issued)))
       | _ \<Rightarrow> None)))"

definition verify_login_token :: "(string \<Rightarrow> string \<Rightarrow> string) \<Rightarrow> string \<Rightarrow> string \<Rightarrow> int \<Rightarrow> bool" where
  "verify_login_token sign secret token now = (check_login_token sign secret token now \<noteq> None)"

text \<open>The file of consumed tokens; \<open>Content None\<close> is text that is not JSON.\<close>

datatype consumed_file = NoFile | FileError | Content "pyval option"

definition is_hex :: "char \<Rightarrow> bool" where
  "is_hex c = (is_digit c \<or> c \<in> set ''abcdef'')"

definition hex64 :: "string \<Rightarrow> bool" where
  "hex64 s = (length s = 64 \<and> list_all is_hex s)"

definition read_entry :: "pyval \<times> pyval \<Rightarrow> (string, int) dict \<Rightarrow> (unit, (string, int) dict) result" where
  "read_entry x acc = (case x of (PStr k, PInt v) \<Rightarrow> if hex64 k then Inr (acc @ [(k, v)]) else Inl () | _ \<Rightarrow> Inl ())"

definition load_consumed :: "consumed_file \<Rightarrow> (unit, (string, int) dict) result" where
  "load_consumed file = (case file of
     NoFile \<Rightarrow> Inr []
   | Content (Some (PDict d)) \<Rightarrow> foldR read_entry d []
   | _ \<Rightarrow> Inl ())"

definition store_consumed :: "(string, int) dict \<Rightarrow> consumed_file" where
  "store_consumed d = Content (Some (PDict (map (\<lambda>(k, v). (PStr k, PInt v)) d)))"

definition pruned :: "int \<Rightarrow> (string, int) dict \<Rightarrow> (string, int) dict" where
  "pruned now d = filter (\<lambda>(k, ex). ex > now) d"

text \<open>\<open>verify_and_consume\<close>: \<open>movable\<close> says whether a corrupt file can be moved or removed, \<open>writable\<close>
  whether the new file can be written.\<close>

definition verify_and_consume :: "(string \<Rightarrow> string \<Rightarrow> string) \<Rightarrow> (string \<Rightarrow> string) \<Rightarrow> bool \<Rightarrow> bool \<Rightarrow> string \<Rightarrow> string \<Rightarrow> int
    \<Rightarrow> consumed_file \<Rightarrow> bool \<times> consumed_file" where
  "verify_and_consume sign digest movable writable secret token now file =
     (case check_login_token sign secret token now of
        None \<Rightarrow> (False, file)
      | Some (canonical, issued) \<Rightarrow>
          (let d = digest canonical; expiry = issued + login_ttl + 1;
               loaded = load_consumed file;
               consumed = (case loaded of Inr c \<Rightarrow> pruned now c | Inl u \<Rightarrow> []);
               file1 = (case loaded of Inr c \<Rightarrow> file | Inl u \<Rightarrow> if movable then NoFile else file) in
           if dget consumed d \<noteq> None then (False, file1)
           else if \<not> writable then (False, file1)
           else (True, store_consumed (dset d expiry consumed))))"

section \<open>Sessions\<close>

definition session_idle :: int where
  "session_idle = 30 * 60"

definition session_max :: int where
  "session_max = 12 * 3600"

definition session_payload :: "int \<Rightarrow> int \<Rightarrow> string" where
  "session_payload issued expiry = ''session:'' @ int_str issued @ '':'' @ int_str expiry"

definition make_session :: "(string \<Rightarrow> string \<Rightarrow> string) \<Rightarrow> string \<Rightarrow> int \<Rightarrow> int option \<Rightarrow> string" where
  "make_session sign secret now issued0 = (let issued = (case issued0 of None \<Rightarrow> now | Some i \<Rightarrow> i);
       expiry = min (now + session_idle) (issued + session_max) in
     int_str issued @ ''.'' @ int_str expiry @ ''.'' @ sign secret (session_payload issued expiry))"

definition parse_session :: "string \<Rightarrow> (int \<times> int \<times> string) option" where
  "parse_session cookie = (case str_partition (CHR ''.'') cookie of (a, dot, r) \<Rightarrow>
     if \<not> dot then None
     else (case str_partition (CHR ''.'') r of (b, dot2, sig) \<Rightarrow>
       if \<not> dot2 then None
       else (case (py_int a, py_int b) of (Some i, Some e) \<Rightarrow> Some (i, e, sig) | _ \<Rightarrow> None)))"

definition verify_session :: "(string \<Rightarrow> string \<Rightarrow> string) \<Rightarrow> string \<Rightarrow> string option \<Rightarrow> int \<Rightarrow> int \<Rightarrow> bool" where
  "verify_session sign secret cookie now revoked = (case cookie of
     None \<Rightarrow> False
   | Some c \<Rightarrow> if c = [] then False
       else (case parse_session c of
           None \<Rightarrow> False
         | Some (issued, expiry, sig) \<Rightarrow>
             if expiry < now \<or> issued > expiry \<or> expiry - issued > session_max then False
             else if revoked \<noteq> 0 \<and> issued \<le> revoked then False
             else sig = sign secret (session_payload issued expiry)))"

definition refresh_session :: "(string \<Rightarrow> string \<Rightarrow> string) \<Rightarrow> string \<Rightarrow> string \<Rightarrow> int \<Rightarrow> string option" where
  "refresh_session sign secret cookie now = (case parse_session cookie of
     None \<Rightarrow> None
   | Some (issued, expiry, sig) \<Rightarrow>
       if expiry - now > session_idle div 2 then None
       else if now + session_idle div 2 \<ge> issued + session_max then None
       else Some (make_session sign secret now (Some issued)))"

section \<open>Revocation\<close>

text \<open>The revocation file: absent, unreadable or unparsable, or a decoded value.\<close>

definition read_revoked_at :: "consumed_file \<Rightarrow> int option" where
  "read_revoked_at file = (case file of
     NoFile \<Rightarrow> Some 0
   | Content (Some (PDict d)) \<Rightarrow> (case pget_or d ''revoked_at'' (PInt 0) of PInt i \<Rightarrow> Some i | _ \<Rightarrow> None)
   | _ \<Rightarrow> None)"

definition revoked_at :: "int \<Rightarrow> consumed_file \<Rightarrow> int" where
  "revoked_at now file = (case read_revoked_at file of None \<Rightarrow> now | Some i \<Rightarrow> i)"

definition revoke_sessions :: "int \<Rightarrow> consumed_file" where
  "revoke_sessions now = Content (Some (PDict [(PStr ''revoked_at'', PInt now)]))"

text \<open>\<open>_set_session_cookie\<close>: the cookie of a sign-in, and the file, healed when it was unreadable.\<close>

definition sign_in :: "(string \<Rightarrow> string \<Rightarrow> string) \<Rightarrow> string \<Rightarrow> int \<Rightarrow> consumed_file \<Rightarrow> string \<times> consumed_file" where
  "sign_in sign secret now file = (let file1 = (if read_revoked_at file = None then revoke_sessions now else file) in
     (make_session sign secret now (Some (max now (revoked_at now file1 + 1))), file1))"

section \<open>Bearer and readiness\<close>

definition health_proof :: "(string \<Rightarrow> string \<Rightarrow> string) \<Rightarrow> string \<Rightarrow> string \<Rightarrow> string" where
  "health_proof sign secret nonce = sign secret (''health:'' @ nonce)"

definition check_bearer :: "string \<Rightarrow> string option \<Rightarrow> bool" where
  "check_bearer secret header = (case header of
     None \<Rightarrow> False
   | Some h \<Rightarrow> if h = [] \<or> \<not> startswith h ''Bearer '' then False else strip (drop 7 h) = secret)"

definition secret_matches :: "string \<Rightarrow> string option \<Rightarrow> bool" where
  "secret_matches secret v = ((case v of None \<Rightarrow> [] | Some s \<Rightarrow> s) = secret)"

section \<open>Numbers and cookies\<close>

lemma parse_make_session:
  "parse_session (make_session sign secret now (Some i)) =
     Some (i, min (now + session_idle) (i + session_max), sign secret (session_payload i (min (now + session_idle) (i + session_max))))"
  using int_str_no_dot by (simp add: parse_session_def make_session_def Let_def str_partition_found)

text \<open>The cookies that one sign-in with issue time \<open>i\<close> leads to, and when each was handed out.\<close>

inductive session_of :: "(string \<Rightarrow> string \<Rightarrow> string) \<Rightarrow> string \<Rightarrow> int \<Rightarrow> string \<Rightarrow> int \<Rightarrow> bool"
  for sign :: "string \<Rightarrow> string \<Rightarrow> string" and secret :: string and i :: int where
  issue: "i \<le> now + session_idle \<Longrightarrow> session_of sign secret i (make_session sign secret now (Some i)) now"
| refresh: "session_of sign secret i c t \<Longrightarrow> refresh_session sign secret c now = Some c' \<Longrightarrow> session_of sign secret i c' now"

lemma session_of_shape:
  "session_of sign secret i c t \<Longrightarrow> c = make_session sign secret t (Some i) \<and> i \<le> t + session_idle"
proof (induction rule: session_of.induct)
  case (refresh c t now c')
  then have "parse_session c = Some (i, min (t + session_idle) (i + session_max),
      sign secret (session_payload i (min (t + session_idle) (i + session_max))))"
    using parse_make_session by simp
  with refresh show ?case
    by (auto simp: refresh_session_def session_idle_def session_max_def split: if_splits)
qed simp

text \<open>C29: A session lives exactly as long as it should. Every cookie that a sign-in leads to, through any
  number of rolling refreshes, verifies until 30 minutes after it was handed out and never later than
  12 hours after the sign-in, and not at all once a logout at or after the sign-in is recorded.\<close>

theorem session_lifetime:
  assumes "session_of sign secret i c t"
  shows "verify_session sign secret (Some c) now revoked \<longleftrightarrow>
    now \<le> t + 1800 \<and> now \<le> i + 43200 \<and> (revoked = 0 \<or> revoked < i)"
proof -
  from session_of_shape[OF assms] have c: "c = make_session sign secret t (Some i)" and i: "i \<le> t + session_idle" by auto
  have "c \<noteq> []" unfolding c by (simp add: make_session_def Let_def)
  with i show ?thesis
    by (auto simp: verify_session_def c parse_make_session session_idle_def session_max_def)
qed

theorem session_lifetime_witness:
  "session_of (\<lambda>s m. ''x'') ''k'' 1000 (make_session (\<lambda>s m. ''x'') ''k'' 2200 (Some 1000)) 2200
   \<and> verify_session (\<lambda>s m. ''x'') ''k'' (Some (make_session (\<lambda>s m. ''x'') ''k'' 2200 (Some 1000))) 4000 999
   \<and> \<not> verify_session (\<lambda>s m. ''x'') ''k'' (Some (make_session (\<lambda>s m. ''x'') ''k'' 2200 (Some 1000))) 4000 1000"
proof -
  have "session_of (\<lambda>s m. ''x'') ''k'' 1000 (make_session (\<lambda>s m. ''x'') ''k'' 1000 (Some 1000)) 1000"
    by (rule session_of.issue) (simp add: session_idle_def)
  moreover have "refresh_session (\<lambda>s m. ''x'') ''k'' (make_session (\<lambda>s m. ''x'') ''k'' 1000 (Some 1000)) 2200
      = Some (make_session (\<lambda>s m. ''x'') ''k'' 2200 (Some 1000))"
    by (simp add: refresh_session_def parse_make_session session_idle_def session_max_def)
  ultimately have s: "session_of (\<lambda>s m. ''x'') ''k'' 1000 (make_session (\<lambda>s m. ''x'') ''k'' 2200 (Some 1000)) 2200"
    by (rule session_of.refresh)
  from session_lifetime[OF s] s show ?thesis by simp
qed

section \<open>Single use\<close>

lemma load_store: "\<forall>x \<in> set d. hex64 (fst x) \<Longrightarrow> load_consumed (store_consumed d) = Inr d"
proof -
  have "foldR read_entry (map (\<lambda>(k, v). (PStr k, PInt v)) d) acc = Inr (acc @ d)" if "\<forall>x \<in> set d. hex64 (fst x)" for acc
    using that by (induction d arbitrary: acc) (auto simp: read_entry_def)
  then show "\<forall>x \<in> set d. hex64 (fst x) \<Longrightarrow> ?thesis" by (simp add: load_consumed_def store_consumed_def)
qed

lemma foldR_read_hex:
  assumes "foldR read_entry xs acc = Inr d" "\<forall>x \<in> set acc. hex64 (fst x)"
  shows "\<forall>x \<in> set d. hex64 (fst x)"
  by (rule foldR_keeps[where P = "\<lambda>d. \<forall>x \<in> set d. hex64 (fst x)", OF assms])
     (auto simp: read_entry_def split: prod.splits pyval.splits if_splits)

lemma loaded_hex: "load_consumed st = Inr d \<Longrightarrow> \<forall>x \<in> set d. hex64 (fst x)"
  using foldR_read_hex by (auto simp: load_consumed_def split: consumed_file.splits option.splits pyval.splits)

record login =
  lg_token :: string
  lg_now :: int
  lg_writable :: bool

text \<open>The answers to a sequence of sign-ins with tokens, in the order of the store's lock.\<close>

fun logins :: "(string \<Rightarrow> string \<Rightarrow> string) \<Rightarrow> (string \<Rightarrow> string) \<Rightarrow> string \<Rightarrow> login list \<Rightarrow> consumed_file \<Rightarrow> bool list" where
  "logins sign digest secret [] st = []"
| "logins sign digest secret (x # xs) st =
     (case verify_and_consume sign digest True (lg_writable x) secret (lg_token x) (lg_now x) st of
        (ok, st') \<Rightarrow> ok # logins sign digest secret xs st')"

definition spent :: "(string \<Rightarrow> string) \<Rightarrow> string \<Rightarrow> int \<Rightarrow> int \<Rightarrow> consumed_file \<Rightarrow> bool" where
  "spent digest token expiry now st = (\<exists>d. load_consumed st = Inr d \<and> distinct (keys d)
     \<and> (now < expiry \<longrightarrow> dget d (digest token) = Some expiry))"

definition good_file :: "consumed_file \<Rightarrow> bool" where
  "good_file st = (\<exists>d. load_consumed st = Inr d \<and> distinct (keys d))"

lemma pruned_keys: "distinct (keys d) \<Longrightarrow> distinct (keys (pruned now d))"
  by (simp add: pruned_def distinct_map_filter case_prod_beta)

lemma pruned_get: "distinct (keys d) \<Longrightarrow> dget (pruned now d) k = (case dget d k of None \<Rightarrow> None | Some ex \<Rightarrow> if ex > now then Some ex else None)"
  unfolding pruned_def by (rule dget_filter_distinct)

lemma check_token_shape:
  "check_login_token sign secret token now = Some (c, issued) \<Longrightarrow> c = token \<and> \<bar>now - issued\<bar> \<le> login_ttl"
  by (auto simp: check_login_token_def Let_def split: prod.splits option.splits list.splits if_splits)


lemma consume_cases:
  assumes hex: "\<And>s. hex64 (digest s)" and d: "load_consumed st = Inr d" "distinct (keys d)"
    and v: "verify_and_consume sign digest True w secret token now st = (ok, st')"
  shows "(\<not> ok \<and> st' = st) \<or> (\<exists>i. ok \<and> check_login_token sign secret token now = Some (token, i)
      \<and> dget (pruned now d) (digest token) = None
      \<and> load_consumed st' = Inr (dset (digest token) (i + login_ttl + 1) (pruned now d)))"
proof (cases "check_login_token sign secret token now")
  case None
  with v show ?thesis by (simp add: verify_and_consume_def)
next
  case (Some r)
  obtain i where r: "r = (token, i)" using Some check_token_shape by (cases r) blast
  let ?d = "dset (digest token) (i + login_ttl + 1) (pruned now d)"
  have "\<forall>x \<in> set ?d. hex64 (fst x)"
    using loaded_hex[OF d(1)] hex by (auto simp: pruned_def dest!: dset_mem)
  from load_store[OF this] v Some r d(1) show ?thesis
    by (auto simp: verify_and_consume_def Let_def split: if_splits option.splits)
qed

lemma dget_pruned_None:
  "distinct (keys d) \<Longrightarrow> dget (pruned now d) k = None \<Longrightarrow> dget d k = Some ex \<Longrightarrow> ex \<le> now"
  by (simp add: pruned_get split: if_splits)

lemma consume_keeps:
  assumes hex: "\<And>s. hex64 (digest s)" and sp: "spent digest token ex t st" "t \<le> now"
    and v: "verify_and_consume sign digest True w secret token' now st = (ok, st')"
  shows "spent digest token ex now st' \<and> (ok \<and> now < ex \<longrightarrow> digest token' \<noteq> digest token)"
proof -
  obtain d where d: "load_consumed st = Inr d" "distinct (keys d)"
    and e: "t < ex \<longrightarrow> dget d (digest token) = Some ex" using sp(1) by (auto simp: spent_def)
  from consume_cases[OF hex d v] show ?thesis
  proof (elim disjE exE conjE)
    assume "\<not> ok" "st' = st"
    then show ?thesis using d e sp(2) by (auto simp: spent_def)
  next
    fix i assume "dget (pruned now d) (digest token') = None"
      and l: "load_consumed st' = Inr (dset (digest token') (i + login_ttl + 1) (pruned now d))"
    then have n: "now < ex \<longrightarrow> digest token' \<noteq> digest token"
      using dget_pruned_None[OF d(2), of now "digest token" ex] e sp(2) by auto
    moreover have "spent digest token ex now st'"
      unfolding spent_def using l n e sp(2) d(2) by (auto simp: pruned_keys pruned_get)
    ultimately show ?thesis by simp
  qed
qed

lemma token_issue:
  "check_login_token sign secret token now = Some (c, i) \<Longrightarrow> check_login_token sign secret token now' = Some (c', i') \<Longrightarrow> i = i'"
  by (auto simp: check_login_token_def Let_def split: prod.splits option.splits list.splits if_splits)

lemma consume_good:
  assumes hex: "\<And>s. hex64 (digest s)" and g: "good_file st"
    and v: "verify_and_consume sign digest True w secret token now st = (ok, st')"
  shows "good_file st' \<and> (ok \<longrightarrow> (\<exists>i. check_login_token sign secret token now = Some (token, i)
     \<and> spent digest token (i + login_ttl + 1) now st'))"
proof -
  obtain d where d: "load_consumed st = Inr d" "distinct (keys d)" using g by (auto simp: good_file_def)
  from consume_cases[OF hex d v] show ?thesis using d
    by (auto simp: good_file_def spent_def pruned_keys)
qed

lemma spent_never_again:
  assumes hex: "\<And>s. hex64 (digest s)" and i: "check_login_token sign secret token t0 = Some (token, i)"
    and sp: "spent digest token (i + login_ttl + 1) t st"
    and xs: "sorted (map lg_now xs)" "\<forall>x \<in> set xs. t \<le> lg_now x"
    and j: "j < length xs" "lg_token (xs ! j) = token"
  shows "\<not> logins sign digest secret xs st ! j"
  using sp xs j
proof (induction xs arbitrary: t st j)
  case (Cons x xs)
  obtain ok st' where v: "verify_and_consume sign digest True (lg_writable x) secret (lg_token x) (lg_now x) st = (ok, st')" by force
  have le: "t \<le> lg_now x" using Cons.prems(3) by simp
  note k = consume_keeps[OF hex Cons.prems(1) le v]
  show ?case
  proof (cases j)
    case 0
    have "\<not> ok"
    proof
      assume ok: "ok"
      then obtain c i' where c: "check_login_token sign secret (lg_token x) (lg_now x) = Some (c, i')"
        using v by (auto simp: verify_and_consume_def split: option.splits)
      have tk: "lg_token x = token" using Cons.prems(5) 0 by simp
      have "i' = i" using token_issue[OF c[unfolded tk] i] by simp
      then have "\<bar>lg_now x - i\<bar> \<le> login_ttl" using check_token_shape[OF c] by simp
      then have "lg_now x < i + login_ttl + 1" by linarith
      with k ok tk show False by simp
    qed
    then show ?thesis using v 0 by simp
  next
    case (Suc n)
    have "\<not> logins sign digest secret xs st' ! n"
      by (rule Cons.IH[where t = "lg_now x"]) (use k Cons.prems Suc in auto)
    then show ?thesis using v Suc by simp
  qed
qed simp

text \<open>C30: A login token works once. In any sequence of sign-in attempts with any tokens, at times that do
  not run backwards and whether or not the record can be written, a token that was accepted is refused
  ever after; a digest is 64 hexadecimal digits, as SHA-256's is.\<close>

theorem login_token_single_use:
  assumes "\<forall>s. hex64 (digest s)" "good_file st" "sorted (map lg_now xs)"
    and "i < j" "j < length xs" "lg_token (xs ! i) = lg_token (xs ! j)" "logins sign digest secret xs st ! i"
  shows "\<not> logins sign digest secret xs st ! j"
  using assms(2-)
proof (induction xs arbitrary: st i j)
  case (Cons x xs)
  obtain ok st' where v: "verify_and_consume sign digest True (lg_writable x) secret (lg_token x) (lg_now x) st = (ok, st')" by force
  have hex: "\<And>s. hex64 (digest s)" using assms(1) by blast
  note g = consume_good[OF hex Cons.prems(1) v]
  obtain n where n: "j = Suc n" using Cons.prems(3) by (cases j) auto
  show ?case
  proof (cases i)
    case 0
    with Cons.prems(6) v have ok: "ok" by simp
    with g obtain i0 where i0: "check_login_token sign secret (lg_token x) (lg_now x) = Some (lg_token x, i0)"
      "spent digest (lg_token x) (i0 + login_ttl + 1) (lg_now x) st'" by blast
    have "\<not> logins sign digest secret xs st' ! n"
      by (rule spent_never_again[OF hex i0]) (use Cons.prems 0 n in auto)
    then show ?thesis using v n by simp
  next
    case (Suc m)
    have "\<not> logins sign digest secret xs st' ! n"
      by (rule Cons.IH[where i = m]) (use g Cons.prems Suc n v in auto)
    then show ?thesis using v n by simp
  qed
qed simp


section \<open>Base64 and UTF-8 read back\<close>

lemma b64_table:
  "\<forall>n \<in> set [0..<64]. b64_value (b64_char n) = Some n \<and> b64_char n \<noteq> CHR ''='' \<and> b64_char n \<noteq> CHR ''.'' \<and> (of_char (b64_char n) :: nat) < 128"
  by code_simp

lemma b64_char_facts:
  assumes "n < 64"
  shows "b64_value (b64_char n) = Some n" "b64_char n \<noteq> CHR ''=''" "b64_char n \<noteq> CHR ''.''" "(of_char (b64_char n) :: nat) < 128"
  using b64_table assms by auto

lemma b64_decode_char:
  assumes "v < 64"
  shows "b64_decode 0 left pads (b64_char v # cs) = b64_decode 1 v 0 cs"
    and "b64_decode 1 left pads (b64_char v # cs) = map_option (\<lambda>r. (left * 4 + v div 16) # r) (b64_decode 2 (v mod 16) 0 cs)"
    and "b64_decode 2 left pads (b64_char v # cs) = map_option (\<lambda>r. (left * 16 + v div 4) # r) (b64_decode 3 (v mod 4) 0 cs)"
    and "b64_decode 3 left pads (b64_char v # cs) = map_option (\<lambda>r. (left * 64 + v) # r) (b64_decode 0 0 0 cs)"
  using b64_char_facts[OF assms] by simp_all

definition pad_for :: "string \<Rightarrow> string" where
  "pad_for s = replicate ((4 - length s mod 4) mod 4) (CHR ''='')"

lemma b64_bounds:
  assumes "a < (256 :: nat)" "b < 256" "c < 256"
  shows "a div 4 < 64" "a mod 4 * 16 + b div 16 < 64" "b mod 16 * 4 + c div 64 < 64" "c mod 64 < 64"
    "a mod 4 * 16 < 64" "b mod 16 * 4 < 64"
  using assms by auto

lemma low_part: "y < (n :: nat) \<Longrightarrow> (x * n + y) div n = x" "y < n \<Longrightarrow> (x * n + y) mod n = y"
  by auto

lemma b64_quantum:
  assumes "a < (256 :: nat)" "b < 256" "c < 256"
  shows "a div 4 * 4 + (a mod 4 * 16 + b div 16) div 16 = a"
    and "(a mod 4 * 16 + b div 16) mod 16 * 16 + (b mod 16 * 4 + c div 64) div 4 = b"
    and "(b mod 16 * 4 + c div 64) mod 4 * 64 + c mod 64 = c"
    and "a div 4 * 4 + (a mod 4 * 16) div 16 = a"
    and "(a mod 4 * 16 + b div 16) mod 16 * 16 + (b mod 16 * 4) div 4 = b"
proof -
  have l: "b div 16 < 16" "c div 64 < 4" using assms by auto
  show "a div 4 * 4 + (a mod 4 * 16 + b div 16) div 16 = a" "a div 4 * 4 + (a mod 4 * 16) div 16 = a"
    "(a mod 4 * 16 + b div 16) mod 16 * 16 + (b mod 16 * 4 + c div 64) div 4 = b"
    "(b mod 16 * 4 + c div 64) mod 4 * 64 + c mod 64 = c"
    "(a mod 4 * 16 + b div 16) mod 16 * 16 + (b mod 16 * 4) div 4 = b"
    by (simp_all only: low_part[OF l(1)] low_part[OF l(2)] div_mult_mod_eq nonzero_mult_div_cancel_right[of 16] nonzero_mult_div_cancel_right[of 4]
        zero_neq_numeral not_False_eq_True simp_thms)
qed

lemma b64_decode_encode:
  "list_all (\<lambda>n. n < 256) bs \<Longrightarrow> b64_decode 0 0 0 (b64_encode bs @ pad_for (b64_encode bs)) = Some bs"
proof (induction bs rule: b64_encode.induct)
  case (4 a b c r)
  then have l: "a < 256" "b < 256" "c < 256" "list_all (\<lambda>n. n < 256) r" by auto
  let ?r = "b64_encode r @ pad_for (b64_encode r)"
  have "b64_encode (a # b # c # r) @ pad_for (b64_encode (a # b # c # r))
      = b64_char (a div 4) # b64_char (a mod 4 * 16 + b div 16) # b64_char (b mod 16 * 4 + c div 64) # b64_char (c mod 64) # ?r"
    by (simp add: pad_for_def)
  also have "b64_decode 0 0 0 \<dots> = map_option (\<lambda>r. a # b # c # r) (b64_decode 0 0 0 ?r)"
    by (simp only: b64_decode_char(1)[OF b64_bounds(1)[OF l(1-3)]] b64_decode_char(2)[OF b64_bounds(2)[OF l(1-3)]]
        b64_decode_char(3)[OF b64_bounds(3)[OF l(1-3)]] b64_decode_char(4)[OF b64_bounds(4)[OF l(1-3)]]
        b64_quantum[OF l(1-3)] option.map_comp comp_def)
  finally show ?case using "4.IH" l(4) by simp
next
  case (2 a)
  then have l: "a < 256" by simp
  have e: "b64_encode [a] @ pad_for (b64_encode [a]) = [b64_char (a div 4), b64_char (a mod 4 * 16), CHR ''='', CHR ''='']"
    by (simp add: pad_for_def numeral_2_eq_2)
  show ?case
    by (simp only: e b64_decode_char(1)[OF b64_bounds(1)[OF l l l]] b64_decode_char(2)[OF b64_bounds(5)[OF l l l]]
        b64_quantum(4)[OF l l l]) simp
next
  case (3 a b)
  then have l: "a < 256" "b < 256" by auto
  have e: "b64_encode [a, b] @ pad_for (b64_encode [a, b]) = [b64_char (a div 4), b64_char (a mod 4 * 16 + b div 16), b64_char (b mod 16 * 4), CHR ''='']"
    by (simp add: pad_for_def)
  show ?case
    by (simp only: e b64_decode_char(1)[OF b64_bounds(1)[OF l l(1)]] b64_decode_char(2)[OF b64_bounds(2)[OF l l(1)]]
        b64_decode_char(3)[OF b64_bounds(6)[OF l l(1)]] b64_quantum(1,5)[OF l l(1)]) simp
qed (simp add: pad_for_def)

lemma b64_encode_chars: "list_all (\<lambda>n. n < 256) bs \<Longrightarrow> list_all (\<lambda>x. x \<noteq> CHR ''.'' \<and> (of_char x :: nat) < 128) (b64_encode bs)"
  using b64_char_facts by (induction bs rule: b64_encode.induct) (auto simp: b64_bounds)

lemma utf8_bytes: "list_all (\<lambda>n. n < 256) (utf8 s)"
proof -
  have "192 + of_char c div 64 < (256 :: nat)" for c :: char
  proof -
    have "of_char c div 64 < (4 :: nat)" using nat_of_char_less_256[of c] by (intro less_mult_imp_div_less) simp
    then show ?thesis by linarith
  qed
  then show ?thesis by (auto simp: utf8_def Let_def list_all_iff)
qed

lemma utf8_decode_utf8: "utf8_decode (utf8 s) = Some s"
proof (induction s)
  case (Cons c s)
  let ?n = "of_char c :: nat"
  show ?case
  proof (cases "?n < 128")
    case True
    then show ?thesis using Cons by (simp add: utf8_def)
  next
    case False
    have l: "?n < 256" by simp
    have "194 \<le> 192 + ?n div 64" "192 + ?n div 64 \<le> 195" using False div_le_mono[of 128 ?n 64] less_mult_imp_div_less[of ?n 4 64] l by simp_all
    moreover have "(192 + ?n div 64 - 192) * 64 + (128 + ?n mod 64 - 128) = ?n" by simp
    moreover have "utf8 (c # s) = (192 + ?n div 64) # (128 + ?n mod 64) # utf8 s"
      using False by (simp add: utf8_def Let_def)
    ultimately show ?thesis using Cons by simp
  qed
qed (simp add: utf8_def)

lemma unb64_b64: "unb64 (b64 s) = Some s"
proof -
  have "list_all (\<lambda>c. (of_char c :: nat) < 128) (b64 s)" "CHR ''.'' \<notin> set (b64 s)"
    using b64_encode_chars[OF utf8_bytes[of s]] by (auto simp: b64_def list_all_iff)
  then show ?thesis using b64_decode_encode[OF utf8_bytes[of s]] utf8_decode_utf8[of s]
    by (simp add: unb64_def b64_def pad_for_def)
qed

lemma b64_no_dot: "CHR ''.'' \<notin> set (b64 s)"
  using b64_encode_chars[OF utf8_bytes[of s]] by (auto simp: b64_def list_all_iff)

text \<open>A minted login token is good for two minutes. Whatever the secret and the signing function, the
  token that \<open>mint_login_token\<close> makes verifies exactly while the clock is within 120 seconds of its issue
  time, through base64, UTF-8 and the decimal issue time and back.\<close>

theorem minted_token_verifies:
  assumes "CHR '':'' \<notin> set nonce"
  shows "verify_login_token sign secret (mint_login_token sign secret issued nonce) now \<longleftrightarrow> \<bar>now - issued\<bar> \<le> 120"
proof -
  let ?p = "''login:'' @ int_str issued @ '':'' @ nonce"
  have "split_on (CHR '':'') (''login'' @ CHR '':'' # (int_str issued @ CHR '':'' # nonce)) = [''login'', int_str issued, nonce]"
    using assms int_str_no_dot(2)[of issued] by (simp only: split_on_append) (simp add: split_on_no_sep)
  then have sp: "split_on (CHR '':'') ?p = [''login'', int_str issued, nonce]" by simp
  have "str_partition (CHR ''.'') (b64 ?p @ CHR ''.'' # sign secret ?p) = (b64 ?p, True, sign secret ?p)"
    by (rule str_partition_found[OF b64_no_dot])
  then show ?thesis using sp
    by (simp add: verify_login_token_def check_login_token_def mint_login_token_def unb64_b64 login_ttl_def Let_def)
qed

definition demo_sign :: "string \<Rightarrow> string \<Rightarrow> string" where
  "demo_sign secret m = secret @ m"

theorem minted_token_verifies_witness:
  "verify_login_token demo_sign ''k'' (mint_login_token demo_sign ''k'' 1000 ''nonce'') 1120
   \<and> \<not> verify_login_token demo_sign ''k'' (mint_login_token demo_sign ''k'' 1000 ''nonce'') 1121"
  by (simp add: minted_token_verifies)

definition demo_token :: string where
  "demo_token = mint_login_token demo_sign ''k'' 1000 ''nonce''"

definition demo_logins :: "login list" where
  "demo_logins = [\<lparr>lg_token = demo_token, lg_now = 1010, lg_writable = True\<rparr>, \<lparr>lg_token = demo_token, lg_now = 1020, lg_writable = True\<rparr>]"

theorem login_token_single_use_witness:
  "logins demo_sign (\<lambda>s. replicate 64 (CHR ''a'')) ''k'' demo_logins NoFile ! 0
   \<and> \<not> logins demo_sign (\<lambda>s. replicate 64 (CHR ''a'')) ''k'' demo_logins NoFile ! 1"
proof -
  have "hex64 (replicate 64 (CHR ''a''))" by code_simp
  then have h: "\<forall>s. hex64 ((\<lambda>s. replicate 64 (CHR ''a'')) (s :: string))" by simp
  have g: "good_file NoFile" by (simp add: good_file_def load_consumed_def)
  have first: "logins demo_sign (\<lambda>s. replicate 64 (CHR ''a'')) ''k'' demo_logins NoFile ! 0" by code_simp
  have "\<not> logins demo_sign (\<lambda>s. replicate 64 (CHR ''a'')) ''k'' demo_logins NoFile ! 1"
    by (rule login_token_single_use[OF h g _ _ _ _ first]) (simp_all add: demo_logins_def)
  with first show ?thesis by simp
qed

end
