(* ===== verification/Geodata.thy ===== *)
theory Geodata
  imports Channels Routes Persist "HOL-Library.Code_Target_Nat"
begin

text \<open>
  The geo rule-set cache of \<open>anyhop/geodata.py\<close>: fetching at a pinned commit, the content-addressed
  files, the digest check at every use, refresh and pruning. A file of the cache directory is its
  bytes and its age; \<open>digest\<close> is SHA-256 in hexadecimal, \<open>http\<close> the network, \<open>loads\<close> the JSON reader,
  \<open>now\<close> the clock. Suggestions and log lines are not modelled.
\<close>

section \<open>Sources\<close>

record geo_spec =
  gs_repo :: string
  gs_branch :: string
  gs_head :: string
  gs_tail :: string
  gs_dirs :: "string list"

text \<open>The path template \<open>dirs/head{name}tail\<close>.\<close>

definition sources :: "(string, (string, geo_spec) dict) dict" where
  "sources =
    [(''sagernet'', [(''geosite'', \<lparr>gs_repo = ''SagerNet/sing-geosite'', gs_branch = ''rule-set'', gs_head = ''geosite-'', gs_tail = ''.srs'', gs_dirs = []\<rparr>),
                     (''geoip'', \<lparr>gs_repo = ''SagerNet/sing-geoip'', gs_branch = ''rule-set'', gs_head = ''geoip-'', gs_tail = ''.srs'', gs_dirs = []\<rparr>)]),
     (''metacubex'', [(''geosite'', \<lparr>gs_repo = ''MetaCubeX/meta-rules-dat'', gs_branch = ''sing'', gs_head = [], gs_tail = ''.srs'', gs_dirs = [''geo'', ''geosite'']\<rparr>),
                      (''geoip'', \<lparr>gs_repo = ''MetaCubeX/meta-rules-dat'', gs_branch = ''sing'', gs_head = [], gs_tail = ''.srs'', gs_dirs = [''geo'', ''geoip'']\<rparr>)])]"

definition default_source :: string where
  "default_source = ''sagernet''"

datatype geo_error =
    UnknownSource string
  | RateLimited
  | HttpStatus int string
  | NotFetched string
  | TooLarge string
  | BadResponse string
  | BadCommit string
  | NoCategory string string
  | BadHeader string
  | GeoPyError

definition source_name :: "data \<Rightarrow> (geo_error, string) result" where
  "source_name d = (let s = (if gd_source (d_geodata d) = [] then default_source else gd_source (d_geodata d)) in
     if dget sources s = None then Inl (UnknownSource s) else Inr s)"

definition empty_record :: geo_entry where
  "empty_record = \<lparr>ge_commit = [], ge_source = [], ge_files = []\<rparr>"

definition record_of :: "data \<Rightarrow> string \<Rightarrow> geo_entry" where
  "record_of d kind = (case dget (gd_kinds (d_geodata d)) kind of None \<Rightarrow> empty_record | Some en \<Rightarrow> en)"

definition spec_of :: "string \<Rightarrow> string \<Rightarrow> (geo_error, geo_spec) result" where
  "spec_of source kind = (case dget sources source of
     None \<Rightarrow> Inl GeoPyError
   | Some ks \<Rightarrow> (case dget ks kind of None \<Rightarrow> Inl GeoPyError | Some s \<Rightarrow> Inr s))"

definition referenced :: "data \<Rightarrow> string \<Rightarrow> string list" where
  "referenced d kind = remdups (map rvalue (filter (\<lambda>r. rtype r = kind) (rules_of d)))"

section \<open>The cache\<close>

record cache_file =
  cf_bytes :: string
  cf_mtime :: int

type_synonym cache = "(string, cache_file) dict"

definition max_bytes :: nat where
  "max_bytes = 32 * 1024 * 1024"

definition file_name :: "string \<Rightarrow> string \<Rightarrow> string \<Rightarrow> string" where
  "file_name kind name sha = kind @ ''-'' @ name @ ''.'' @ take 12 sha @ ''.srs''"

definition sha_of :: "jobj \<Rightarrow> string" where
  "sha_of entry = (case dget entry ''sha256'' of Some (JStr s) \<Rightarrow> s | _ \<Rightarrow> ''None'')"

text \<open>\<open>verified\<close>: the file's name and its checked bytes.\<close>

definition verified :: "(string \<Rightarrow> string) \<Rightarrow> cache \<Rightarrow> data \<Rightarrow> string \<Rightarrow> string \<Rightarrow> (string \<times> string) option" where
  "verified digest cache d kind name = (case dget (ge_files (record_of d kind)) name of
     None \<Rightarrow> None
   | Some entry \<Rightarrow> if entry = [] then None else
       (let sha = sha_of entry; path = file_name kind name sha in
        case dget cache path of
          None \<Rightarrow> None
        | Some f \<Rightarrow> (let data = take (max_bytes + 1) (cf_bytes f) in
            if length data > max_bytes \<or> digest data \<noteq> sha then None else Some (path, data))))"

definition cached_path :: "(string \<Rightarrow> string) \<Rightarrow> cache \<Rightarrow> data \<Rightarrow> string \<Rightarrow> string \<Rightarrow> string option" where
  "cached_path digest cache d kind name = map_option fst (verified digest cache d kind name)"

text \<open>A file that is there under its content address is not written again.\<close>

definition write_cache :: "(string \<Rightarrow> string) \<Rightarrow> int \<Rightarrow> string \<Rightarrow> string \<Rightarrow> string \<Rightarrow> cache \<Rightarrow> jobj \<times> cache" where
  "write_cache digest now kind name data cache =
     (let sha = digest data; path = file_name kind name sha in
      ([(''sha256'', JStr sha), (''size'', JNum (of_nat (length data))), (''fetched_at'', JNum (of_int now))],
       if dget cache path = None then dset path \<lparr>cf_bytes = data, cf_mtime = now\<rparr> cache else cache))"

section \<open>Fetching\<close>

datatype geo_reply = ReplyStatus int bool | NoReply | Bytes string

type_synonym http = "string \<Rightarrow> bool \<Rightarrow> geo_reply"

text \<open>The flag of \<open>ReplyStatus\<close>: the rate-limit header says that nothing remains. The flag of a request:
  it asks for the API's media type.\<close>

definition http_get :: "http \<Rightarrow> string \<Rightarrow> bool \<Rightarrow> (geo_error, string) result" where
  "http_get http url accept = (case http url accept of
     ReplyStatus code exhausted \<Rightarrow> if code = 403 \<and> exhausted then Inl RateLimited else Inl (HttpStatus code url)
   | NoReply \<Rightarrow> Inl (NotFetched url)
   | Bytes b \<Rightarrow> (let data = take (max_bytes + 1) b in if length data > max_bytes then Inl (TooLarge url) else Inr data))"

definition github_api :: string where
  "github_api = ''https://api.github.com''"

definition github_raw :: string where
  "github_raw = ''https://raw.githubusercontent.com''"

definition hex40 :: "string \<Rightarrow> bool" where
  "hex40 s = (length s = 40 \<and> list_all (\<lambda>c. is_digit c \<or> c \<in> set ''abcdef'') s)"

fun sub :: "pyval \<Rightarrow> string \<Rightarrow> pyval option" where
  "sub (PDict d) k = pget d k"
| "sub _ k = None"

fun sha_text :: "pyval \<Rightarrow> string" where
  "sha_text (PStr s) = s"
| "sha_text (PInt i) = int_str i"
| "sha_text _ = []"

definition head_commit :: "http \<Rightarrow> (string \<Rightarrow> pyval option) \<Rightarrow> string \<Rightarrow> string \<Rightarrow> (geo_error, string) result" where
  "head_commit http loads repo branch =
     bindR (http_get http (github_api @ ''/repos/'' @ repo @ ''/branches/'' @ branch) True) (\<lambda>data.
     case Option.bind (Option.bind (loads data) (\<lambda>v. sub v ''commit'')) (\<lambda>v. sub v ''sha'') of
       None \<Rightarrow> Inl (BadResponse repo)
     | Some v \<Rightarrow> if hex40 (sha_text v) then Inr (sha_text v) else Inl (BadCommit repo))"

definition raw_url :: "geo_spec \<Rightarrow> string \<Rightarrow> string \<Rightarrow> string" where
  "raw_url spec commit name = github_raw @ ''/'' @ gs_repo spec @ ''/'' @ commit @ ''/''
     @ join ''/'' (gs_dirs spec @ [gs_head spec @ name @ gs_tail spec])"

definition fetch_file :: "http \<Rightarrow> geo_spec \<Rightarrow> string \<Rightarrow> string \<Rightarrow> string \<Rightarrow> (geo_error, string) result" where
  "fetch_file http spec commit kind name = (let url = raw_url spec commit name in
     case http_get http url False of
       Inl (HttpStatus code u) \<Rightarrow> if code = 404 then Inl (NoCategory kind name) else Inl (HttpStatus code u)
     | Inl e \<Rightarrow> Inl e
     | Inr data \<Rightarrow> if startswith data ''SRS'' then Inr data else Inl (BadHeader url))"

section \<open>Operations\<close>

text \<open>What the operations change: the store and the cache directory.\<close>

record geo_world =
  gw_data :: data
  gw_cache :: cache

text \<open>\<open>prune\<close>: files that no record names, and temporary files that are old enough.\<close>

definition manifest_name :: string where
  "manifest_name = ''manifest.json''"

definition tmp_grace :: int where
  "tmp_grace = 300"

definition kept_names :: "data \<Rightarrow> string list" where
  "kept_names d = manifest_name # concat (map (\<lambda>kind. map (\<lambda>(n, en). file_name kind n (sha_of en)) (ge_files (record_of d kind))) geo_types)"

definition suffix_of :: "string \<Rightarrow> string" where
  "suffix_of s = (case rpartition (CHR ''.'') s of (a, dot, b) \<Rightarrow> if dot \<and> a \<noteq> [] \<and> b \<noteq> [] then CHR ''.'' # b else [])"

definition sweeps :: "int \<Rightarrow> data \<Rightarrow> string \<times> cache_file \<Rightarrow> bool" where
  "sweeps now d x = (case x of (n, f) \<Rightarrow>
     n \<notin> set (kept_names d) \<and> suffix_of n \<in> {''.srs'', ''.tmp''}
     \<and> (suffix_of n = ''.tmp'' \<longrightarrow> now - cf_mtime f \<ge> tmp_grace))"

definition prune :: "int \<Rightarrow> geo_world \<Rightarrow> string list \<times> geo_world" where
  "prune now w = (sort (map fst (filter (sweeps now (gw_data w)) (gw_cache w))),
     w\<lparr>gw_cache := filter (\<lambda>x. \<not> sweeps now (gw_data w) x) (gw_cache w)\<rparr>)"

text \<open>One category of \<open>ensure_matchers\<close>; the commits resolved so far are carried along. A raise keeps
  what the categories before it recorded.\<close>

record ensure_state =
  es_world :: geo_world
  es_commits :: "(string, string) dict"
  es_fetched :: "string list"

definition pick_commit :: "http \<Rightarrow> (string \<Rightarrow> pyval option) \<Rightarrow> string \<Rightarrow> geo_spec \<Rightarrow> string option \<Rightarrow> geo_entry \<Rightarrow> (geo_error, string) result" where
  "pick_commit http loads source spec seen record =
     (let commit = (case seen of Some c \<Rightarrow> if c \<noteq> [] then c else ge_commit record | None \<Rightarrow> ge_commit record) in
      if commit = [] \<or> ge_source record \<noteq> source then head_commit http loads (gs_repo spec) (gs_branch spec) else Inr commit)"

definition ensure_one :: "http \<Rightarrow> (string \<Rightarrow> pyval option) \<Rightarrow> (string \<Rightarrow> string) \<Rightarrow> int \<Rightarrow> string \<Rightarrow> string \<times> string \<Rightarrow> ensure_state
    \<Rightarrow> (geo_error, ensure_state) result" where
  "ensure_one http loads digest now source x s = (case x of (kind, name) \<Rightarrow>
     let d = gw_data (es_world s); cache = gw_cache (es_world s) in
     if cached_path digest cache d kind name \<noteq> None then Inr s
     else bindR (spec_of source kind) (\<lambda>spec.
       bindR (pick_commit http loads source spec (dget (es_commits s) kind) (record_of d kind)) (\<lambda>commit.
       bindR (fetch_file http spec commit kind name) (\<lambda>data.
       case write_cache digest now kind name data cache of (entry, cache') \<Rightarrow>
         Inr \<lparr>es_world = \<lparr>gw_data = update_geodata kind source commit [(name, entry)] False d, gw_cache = cache'\<rparr>,
              es_commits = dset kind commit (es_commits s),
              es_fetched = es_fetched s @ [kind @ '':'' @ name]\<rparr>))))"

fun ensure_all :: "http \<Rightarrow> (string \<Rightarrow> pyval option) \<Rightarrow> (string \<Rightarrow> string) \<Rightarrow> int \<Rightarrow> string \<Rightarrow> (string \<times> string) list \<Rightarrow> ensure_state
    \<Rightarrow> geo_error option \<times> ensure_state" where
  "ensure_all http loads digest now source [] s = (None, s)"
| "ensure_all http loads digest now source (x # xs) s = (case ensure_one http loads digest now source x s of
     Inl e \<Rightarrow> (Some e, s)
   | Inr s' \<Rightarrow> ensure_all http loads digest now source xs s')"

definition first_occurrences :: "'a list \<Rightarrow> 'a list" where
  "first_occurrences xs = rev (remdups (rev xs))"

definition ensure_matchers :: "http \<Rightarrow> (string \<Rightarrow> pyval option) \<Rightarrow> (string \<Rightarrow> string) \<Rightarrow> int \<Rightarrow> (string \<times> string) list \<Rightarrow> geo_world
    \<Rightarrow> (geo_error, string list) result \<times> geo_world" where
  "ensure_matchers http loads digest now ms w =
     (let wanted = first_occurrences (filter (\<lambda>(t, v). t \<in> set geo_types) ms) in
      if wanted = [] then (Inr [], w)
      else (case source_name (gw_data w) of
          Inl e \<Rightarrow> (Inl e, w)
        | Inr source \<Rightarrow> (case ensure_all http loads digest now source wanted \<lparr>es_world = w, es_commits = [], es_fetched = []\<rparr> of
            (Some e, s) \<Rightarrow> (Inl e, es_world s)
          | (None, s) \<Rightarrow> if es_fetched s = [] then (Inr [], es_world s)
              else (Inr (es_fetched s), snd (prune now (es_world s))))))"

text \<open>\<open>refresh\<close>: one kind at a time; a failing fetch leaves the kinds before it re-pinned and the files
  fetched so far in the cache.\<close>

fun fetch_files :: "http \<Rightarrow> (string \<Rightarrow> string) \<Rightarrow> int \<Rightarrow> geo_spec \<Rightarrow> string \<Rightarrow> string \<Rightarrow> string list \<Rightarrow> (string, jobj) dict \<times> cache
    \<Rightarrow> geo_error option \<times> (string, jobj) dict \<times> cache" where
  "fetch_files http digest now spec commit kind [] st = (None, st)"
| "fetch_files http digest now spec commit kind (n # ns) st = (case fetch_file http spec commit kind n of
     Inl e \<Rightarrow> (Some e, st)
   | Inr data \<Rightarrow> (case write_cache digest now kind n data (snd st) of (entry, cache') \<Rightarrow>
       fetch_files http digest now spec commit kind ns (dset n entry (fst st), cache')))"

definition refresh_kind :: "http \<Rightarrow> (string \<Rightarrow> pyval option) \<Rightarrow> (string \<Rightarrow> string) \<Rightarrow> int \<Rightarrow> string \<Rightarrow> (string \<Rightarrow> string list) \<Rightarrow> string
    \<Rightarrow> geo_world \<Rightarrow> geo_error option \<times> geo_world" where
  "refresh_kind http loads digest now source refs kind w =
     (case bindR (spec_of source kind) (\<lambda>spec. bindR (head_commit http loads (gs_repo spec) (gs_branch spec)) (\<lambda>c. Inr (spec, c))) of
        Inl e \<Rightarrow> (Some e, w)
      | Inr (spec, commit) \<Rightarrow> (case fetch_files http digest now spec commit kind (sort (refs kind)) ([], gw_cache w) of
          (Some e, files, cache') \<Rightarrow> (Some e, w\<lparr>gw_cache := cache'\<rparr>)
        | (None, files, cache') \<Rightarrow>
            (None, \<lparr>gw_data = update_geodata kind source commit files True (gw_data w), gw_cache = cache'\<rparr>)))"

fun refresh_kinds :: "http \<Rightarrow> (string \<Rightarrow> pyval option) \<Rightarrow> (string \<Rightarrow> string) \<Rightarrow> int \<Rightarrow> string \<Rightarrow> (string \<Rightarrow> string list) \<Rightarrow> string list
    \<Rightarrow> geo_world \<Rightarrow> geo_error option \<times> geo_world" where
  "refresh_kinds http loads digest now source refs [] w = (None, w)"
| "refresh_kinds http loads digest now source refs (k # ks) w = (case refresh_kind http loads digest now source refs k w of
     (Some e, w') \<Rightarrow> (Some e, w')
   | (None, w') \<Rightarrow> refresh_kinds http loads digest now source refs ks w')"

definition refresh :: "http \<Rightarrow> (string \<Rightarrow> pyval option) \<Rightarrow> (string \<Rightarrow> string) \<Rightarrow> int \<Rightarrow> geo_world
    \<Rightarrow> (geo_error, string list) result \<times> geo_world" where
  "refresh http loads digest now w = (case source_name (gw_data w) of
     Inl e \<Rightarrow> (Inl e, w)
   | Inr source \<Rightarrow> (case refresh_kinds http loads digest now source (referenced (gw_data w)) geo_types w of
       (Some e, w') \<Rightarrow> (Inl e, w')
     | (None, w') \<Rightarrow> (case prune now w' of (gone, w'') \<Rightarrow> (Inr gone, w''))))"

section \<open>The manifest\<close>

fun tree_of :: "pyval \<Rightarrow> pyval list" where
  "tree_of (PDict d) = (case pget d ''tree'' of Some (PList xs) \<Rightarrow> xs | _ \<Rightarrow> [])"
| "tree_of _ = []"

fun entry_path :: "pyval \<Rightarrow> string" where
  "entry_path (PDict d) = (case pget d ''path'' of Some (PStr s) \<Rightarrow> s | _ \<Rightarrow> [])"
| "entry_path _ = []"

definition category_of :: "geo_spec \<Rightarrow> pyval \<Rightarrow> string list" where
  "category_of spec v = (let p = entry_path v in
     if is_pdict v \<and> startswith p (gs_head spec) \<and> endswith p (gs_tail spec)
     then [drop (length (gs_head spec)) (take (length p - length (gs_tail spec)) p)] else [])"

definition listed_categories :: "geo_spec \<Rightarrow> pyval \<Rightarrow> string list" where
  "listed_categories spec listing = sort (concat (map (category_of spec) (tree_of listing)))"

text \<open>Offline listing: \<open>man\<close> gives the recorded names of a kind, in lower case comparison.\<close>

definition contains :: "string \<Rightarrow> string \<Rightarrow> bool" where
  "contains q s = list_ex (\<lambda>i. take (length q) (drop i s) = q) [0..<Suc (length s)]"

definition categories :: "(string \<Rightarrow> string list) \<Rightarrow> string option \<Rightarrow> string \<Rightarrow> (string, string list) dict" where
  "categories man kind query =
     map (\<lambda>k. (k, filter (\<lambda>n. lower query = [] \<or> contains (lower query) (lower n)) (man k)))
       (case kind of None \<Rightarrow> geo_types | Some k \<Rightarrow> if k = [] then geo_types else [k])"

section \<open>What a fetch leaves behind\<close>

lemma record_after_update:
  "ge_files (record_of (update_geodata kind source commit [(name, en)] False d) kind) = dset name en (ge_files (record_of d kind))"
  by (auto simp: record_of_def update_geodata_def Let_def empty_record_def split: option.split)

lemma file_of_write:
  "write_cache digest now kind name data cache = (en, cache') \<Longrightarrow>
     sha_of en = digest data \<and> en \<noteq> []
     \<and> dget cache' (file_name kind name (digest data)) = Some (case dget cache (file_name kind name (digest data)) of
         None \<Rightarrow> \<lparr>cf_bytes = data, cf_mtime = now\<rparr> | Some f \<Rightarrow> f)"
  by (auto simp: write_cache_def Let_def sha_of_def split: option.split)

lemma fetched_length: "fetch_file http spec commit kind name = Inr data \<Longrightarrow> length data \<le> max_bytes"
  by (auto simp: fetch_file_def http_get_def Let_def split: sum.splits geo_error.splits geo_reply.splits if_splits)

definition sound_file :: "(string \<Rightarrow> string) \<Rightarrow> string \<Rightarrow> cache_file \<Rightarrow> bool" where
  "sound_file digest sha f = (length (take (max_bytes + 1) (cf_bytes f)) \<le> max_bytes \<and> digest (take (max_bytes + 1) (cf_bytes f)) = sha)"

lemma ensure_one_fetch:
  assumes "ensure_one http loads digest now source (kind, name) s = Inr s'"
    and "cached_path digest (gw_cache (es_world s)) (gw_data (es_world s)) kind name = None"
  obtains spec commit data en cache' where "spec_of source kind = Inr spec" "fetch_file http spec commit kind name = Inr data"
    "write_cache digest now kind name data (gw_cache (es_world s)) = (en, cache')"
    "es_world s' = \<lparr>gw_data = update_geodata kind source commit [(name, en)] False (gw_data (es_world s)), gw_cache = cache'\<rparr>"
proof -
  from assms obtain spec commit data where f: "spec_of source kind = Inr spec" "fetch_file http spec commit kind name = Inr data"
    and r: "(case write_cache digest now kind name data (gw_cache (es_world s)) of (entry, cache') \<Rightarrow>
         Inr \<lparr>es_world = \<lparr>gw_data = update_geodata kind source commit [(name, entry)] False (gw_data (es_world s)), gw_cache = cache'\<rparr>,
              es_commits = dset kind commit (es_commits s),
              es_fetched = es_fetched s @ [kind @ '':'' @ name]\<rparr>) = (Inr s' :: (geo_error, ensure_state) result)"
    unfolding ensure_one_def Let_def by auto
  obtain en cache' where "write_cache digest now kind name data (gw_cache (es_world s)) = (en, cache')" by force
  with f r that show thesis by auto
qed

text \<open>C40: A fetch heals a missing file, not a damaged one. After \<open>ensure_matchers\<close> has fetched and recorded
  a category, the compile can use it exactly when no file, or an intact one, stood at its content address
  before: a damaged file there is never rewritten, so the category stays blocked although the
  fetch reports success.\<close>

theorem fetch_heals_only_missing:
  assumes "ensure_one http loads digest now source (kind, name) s = Inr s'"
    and "cached_path digest (gw_cache (es_world s)) (gw_data (es_world s)) kind name = None"
  shows "\<exists>spec commit data. fetch_file http spec commit kind name = Inr data
    \<and> (cached_path digest (gw_cache (es_world s')) (gw_data (es_world s')) kind name \<noteq> None \<longleftrightarrow>
      (case dget (gw_cache (es_world s)) (file_name kind name (digest data)) of
         None \<Rightarrow> True | Some f \<Rightarrow> sound_file digest (digest data) f))"
proof -
  obtain spec commit data en cache' where f: "fetch_file http spec commit kind name = Inr data"
    and w: "write_cache digest now kind name data (gw_cache (es_world s)) = (en, cache')"
    and s': "es_world s' = \<lparr>gw_data = update_geodata kind source commit [(name, en)] False (gw_data (es_world s)), gw_cache = cache'\<rparr>"
    using ensure_one_fetch[OF assms] by metis
  have l: "take (max_bytes + 1) data = data" using fetched_length[OF f] by simp
  note n = file_of_write[OF w]
  have "cached_path digest cache' (update_geodata kind source commit [(name, en)] False (gw_data (es_world s))) kind name \<noteq> None
     \<longleftrightarrow> (case dget cache' (file_name kind name (digest data)) of None \<Rightarrow> False | Some g \<Rightarrow> sound_file digest (digest data) g)"
    using n by (auto simp: cached_path_def verified_def record_after_update Let_def sound_file_def split: option.split)
  also have "\<dots> \<longleftrightarrow> (case dget (gw_cache (es_world s)) (file_name kind name (digest data)) of
         None \<Rightarrow> True | Some g \<Rightarrow> sound_file digest (digest data) g)"
    using n l fetched_length[OF f] by (auto simp: sound_file_def split: option.split)
  finally show ?thesis using f s' by (intro exI[of _ spec] exI[of _ commit] exI[of _ data]) simp
qed

definition demo_hash :: "string \<Rightarrow> string" where
  "demo_hash s = (if s = ''SRS1'' then ''aaaaaaaaaaaa1'' else ''bbbbbbbbbbbb2'')"

definition demo_http :: http where
  "demo_http url accept = (if accept then Bytes ''head'' else Bytes ''SRS1'')"

definition demo_branch :: "string \<Rightarrow> pyval option" where
  "demo_branch t = Some (PDict [(PStr ''commit'', PDict [(PStr ''sha'', PStr (replicate 40 (CHR ''c'')))])])"

text \<open>The cache holds a damaged file under the address of the upstream content.\<close>

definition demo_ensure :: ensure_state where
  "demo_ensure = \<lparr>es_world = \<lparr>gw_data = blank, gw_cache = [(''geosite-cn.aaaaaaaaaaaa.srs'', \<lparr>cf_bytes = ''SRSx'', cf_mtime = 0\<rparr>)]\<rparr>,
     es_commits = [], es_fetched = []\<rparr>"

theorem fetch_heals_only_missing_witness:
  "\<exists>s'. ensure_one demo_http demo_branch demo_hash 5 ''sagernet'' (''geosite'', ''cn'') demo_ensure = Inr s'
    \<and> cached_path demo_hash (gw_cache (es_world s')) (gw_data (es_world s')) ''geosite'' ''cn'' = None"
proof -
  let ?r = "ensure_one demo_http demo_branch demo_hash 5 ''sagernet'' (''geosite'', ''cn'') demo_ensure"
  have "returned ?r" by code_simp
  then obtain s' where r: "?r = Inr s'" by (rule returnedE)
  have c: "cached_path demo_hash (gw_cache (es_world demo_ensure)) (gw_data (es_world demo_ensure)) ''geosite'' ''cn'' = None" by code_simp
  from fetch_heals_only_missing[OF r c] obtain spec commit data where
    f: "fetch_file demo_http spec commit ''geosite'' ''cn'' = Inr data"
    and i: "cached_path demo_hash (gw_cache (es_world s')) (gw_data (es_world s')) ''geosite'' ''cn'' \<noteq> None \<longleftrightarrow>
      (case dget (gw_cache (es_world demo_ensure)) (file_name ''geosite'' ''cn'' (demo_hash data)) of
         None \<Rightarrow> True | Some g \<Rightarrow> sound_file demo_hash (demo_hash data) g)" by blast
  from f have d: "data = ''SRS1''"
    by (auto simp: fetch_file_def http_get_def demo_http_def Let_def max_bytes_def split: if_splits)
  have "dget (gw_cache (es_world demo_ensure)) (file_name ''geosite'' ''cn'' (demo_hash ''SRS1'')) = Some \<lparr>cf_bytes = ''SRSx'', cf_mtime = 0\<rparr>"
    "\<not> sound_file demo_hash (demo_hash ''SRS1'') \<lparr>cf_bytes = ''SRSx'', cf_mtime = 0\<rparr>" by code_simp+
  with i d r show ?thesis by auto
qed

section \<open>Pruning\<close>

lemma recorded_name_kept:
  assumes "dget (ge_files (record_of d kind)) name = Some en" "kind \<in> set geo_types"
  shows "file_name kind name (sha_of en) \<in> set (kept_names d)"
  using map_of_SomeD[OF assms(1)] assms(2) by (force simp: kept_names_def)

lemma dget_filter_name: "(\<And>f. P (k, f)) \<Longrightarrow> dget (filter P xs) k = dget xs k"
  by (induction xs) auto

text \<open>Pruning never takes a file in use. Every category that passes its digest check before a prune
  passes it afterwards with the same bytes.\<close>

theorem prune_keeps_verified:
  assumes "kind \<in> set geo_types"
  shows "verified digest (gw_cache (snd (prune now w))) (gw_data (snd (prune now w))) kind name
    = verified digest (gw_cache w) (gw_data w) kind name"
proof (cases "dget (ge_files (record_of (gw_data w) kind)) name")
  case None
  then show ?thesis by (simp add: verified_def prune_def)
next
  case (Some en)
  from recorded_name_kept[OF this assms] have "\<not> sweeps now (gw_data w) (file_name kind name (sha_of en), f)" for f
    by (simp add: sweeps_def)
  with Some show ?thesis by (simp add: verified_def prune_def dget_filter_name)
qed

theorem prune_keeps_verified_witness:
  "verified demo_hash (gw_cache (snd (prune 1000 (es_world demo_ensure)))) (gw_data (snd (prune 1000 (es_world demo_ensure)))) ''geosite'' ''cn''
    = verified demo_hash (gw_cache (es_world demo_ensure)) (gw_data (es_world demo_ensure)) ''geosite'' ''cn''"
  by (rule prune_keeps_verified) (simp add: geo_types_def)

end
