(* ===== verification/Providers.thy ===== *)
theory Providers
  imports Persist State "HOL-Library.Product_Lexorder" "HOL-Library.Code_Target_Nat"
begin

text \<open>
  The provider registry and the NordVPN client of \<open>anyhop/providers.py\<close>. The network is the argument
  \<open>net\<close> (address and \<open>Authorization\<close> header to reply), \<open>loads\<close> the JSON reader, \<open>b64\<close> the base64 of
  the standard library, \<open>now\<close> the monotonic clock; the module caches are passed and returned. An
  error keeps its class; its message keeps the fixed words only. \<open>PyError\<close> is an exception outside
  the \<open>ProviderError\<close> classes.
\<close>

section \<open>Errors and replies\<close>

datatype provider_error =
    ProviderErr string
  | AuthErr string
  | Unreachable string
  | Unavailable string
  | ApiErr string "int option"
  | PyError

datatype reply = Status int | NetError string | Body string

type_synonym net = "string \<Rightarrow> string \<Rightarrow> reply"

definition max_response_bytes :: nat where
  "max_response_bytes = 8 * 1024 * 1024"

definition get_json :: "net \<Rightarrow> (string \<Rightarrow> pyval option) \<Rightarrow> string \<Rightarrow> string \<Rightarrow> (provider_error, pyval) result" where
  "get_json net loads url auth = (case net url auth of
     Status code \<Rightarrow> Inl (ApiErr ''provider API failed'' (Some code))
   | NetError e \<Rightarrow> Inl (Unreachable e)
   | Body b \<Rightarrow> (let body = take (max_response_bytes + 1) b in
       if length body > max_response_bytes then Inl (ApiErr ''response exceeds the limit'' None)
       else (case loads body of
           None \<Rightarrow> Inl (ApiErr ''invalid JSON'' None)
         | Some v \<Rightarrow> Inr v)))"

text \<open>\<open>raise type(e)(context + str(e))\<close>: the class stays, an HTTP status does not.\<close>

fun with_context :: "string \<Rightarrow> provider_error \<Rightarrow> provider_error" where
  "with_context s (ProviderErr m) = ProviderErr (s @ m)"
| "with_context s (AuthErr m) = AuthErr (s @ m)"
| "with_context s (Unreachable m) = Unreachable (s @ m)"
| "with_context s (Unavailable m) = Unavailable (s @ m)"
| "with_context s (ApiErr m st) = ApiErr (s @ m) None"
| "with_context s PyError = PyError"

definition in_context :: "string \<Rightarrow> (provider_error, 'a) result \<Rightarrow> (provider_error, 'a) result" where
  "in_context s r = (case r of Inl e \<Rightarrow> Inl (with_context s e) | Inr x \<Rightarrow> Inr x)"

section \<open>Reading untyped payloads\<close>

fun ptruthy :: "pyval \<Rightarrow> bool" where
  "ptruthy PNone = False"
| "ptruthy (PBool b) = b"
| "ptruthy (PInt i) = (i \<noteq> 0)"
| "ptruthy (PFloat q) = (q \<noteq> 0)"
| "ptruthy (PStr s) = (s \<noteq> [])"
| "ptruthy (PList xs) = (xs \<noteq> [])"
| "ptruthy (PDict d) = (d \<noteq> [])"

text \<open>\<open>d.get(k)\<close> on a value that is a dictionary, with \<open>None\<close> for an absent key.\<close>

fun pfield :: "pyval \<Rightarrow> string \<Rightarrow> pyval" where
  "pfield (PDict d) k = pget_or d k PNone"
| "pfield _ k = PNone"

fun pstr :: "pyval \<Rightarrow> string" where
  "pstr (PStr s) = s"
| "pstr _ = []"

fun is_int :: "pyval \<Rightarrow> bool" where
  "is_int (PInt i) = True"
| "is_int (PBool b) = True"
| "is_int _ = False"

definition or_empty :: "pyval \<Rightarrow> pyval" where
  "or_empty v = (if ptruthy v then v else PStr [])"

text \<open>\<open>for x in v or []\<close>.\<close>

fun items_or_empty :: "pyval \<Rightarrow> (provider_error, pyval list) result" where
  "items_or_empty (PList xs) = Inr xs"
| "items_or_empty (PDict d) = Inr (keys d)"
| "items_or_empty (PStr s) = Inr (map (\<lambda>c. PStr [c]) s)"
| "items_or_empty v = (if ptruthy v then Inl PyError else Inr [])"

section \<open>The registry\<close>

record provider_spec =
  ps_name :: string
  ps_kind :: string
  ps_functional :: bool
  ps_ipv6 :: bool
  ps_named :: bool
  ps_servers :: bool
  ps_fields :: "(string \<times> string \<times> bool) list"

definition registry :: "(string, provider_spec) dict" where
  "registry =
    [(''nordvpn'', \<lparr>ps_name = ''NordVPN'', ps_kind = ''token'', ps_functional = True, ps_ipv6 = False,
        ps_named = False, ps_servers = True, ps_fields = [(''token'', ''Access token'', True)]\<rparr>),
     (''protonvpn'', \<lparr>ps_name = ''Proton VPN'', ps_kind = ''config'', ps_functional = False, ps_ipv6 = True,
        ps_named = False, ps_servers = False, ps_fields = []\<rparr>),
     (''customized'', \<lparr>ps_name = ''Customized'', ps_kind = ''config'', ps_functional = False, ps_ipv6 = True,
        ps_named = True, ps_servers = False, ps_fields = []\<rparr>)]"

definition functional_providers :: "(string, provider_spec) dict" where
  "functional_providers = filter (\<lambda>(k, v). ps_functional v) registry"

definition known :: "string list" where
  "known = sort_key provider_order (keys registry)"

definition supported :: "string list" where
  "supported = sort (keys functional_providers)"

definition kind :: "string \<Rightarrow> string" where
  "kind p = (case dget registry p of None \<Rightarrow> ''token'' | Some s \<Rightarrow> ps_kind s)"

definition is_functional :: "string \<Rightarrow> bool" where
  "is_functional p = (case dget registry p of None \<Rightarrow> False | Some s \<Rightarrow> ps_functional s)"

definition supports_ipv6 :: "string \<Rightarrow> bool" where
  "supports_ipv6 p = (case dget registry p of None \<Rightarrow> False | Some s \<Rightarrow> ps_ipv6 s)"

definition names_channels :: "string \<Rightarrow> bool" where
  "names_channels p = (case dget registry p of None \<Rightarrow> False | Some s \<Rightarrow> ps_named s)"

definition display_name :: "string \<Rightarrow> string" where
  "display_name p = (case dget registry p of None \<Rightarrow> p | Some s \<Rightarrow> ps_name s)"

definition auth_fields :: "string \<Rightarrow> (string \<times> string \<times> bool) list" where
  "auth_fields p = (case dget registry p of None \<Rightarrow> [] | Some s \<Rightarrow> ps_fields s)"

definition preview :: "string \<Rightarrow> (string, string) dict \<Rightarrow> string" where
  "preview p creds = (case find (\<lambda>(k, l, s). s) (auth_fields p) of
     None \<Rightarrow> [] | Some (k, l, s) \<Rightarrow> mask (case dget creds k of None \<Rightarrow> [] | Some v \<Rightarrow> v) 4)"

definition supports_servers :: "string \<Rightarrow> bool" where
  "supports_servers p = (case dget functional_providers p of None \<Rightarrow> False | Some s \<Rightarrow> ps_servers s)"

definition match_provider :: "string \<Rightarrow> string option" where
  "match_provider name = (let low = lower (strip name) in
     find (\<lambda>p. low = p \<or> low = lower (display_name p)) (keys registry))"

section \<open>NordVPN: countries\<close>

definition nord_api :: string where
  "nord_api = ''https://api.nordvpn.com/v1''"

definition is_rejection :: "int option \<Rightarrow> bool" where
  "is_rejection st = (st = Some 401 \<or> st = Some 403)"

definition nordvpn_derive_key :: "net \<Rightarrow> (string \<Rightarrow> pyval option) \<Rightarrow> (string \<Rightarrow> string) \<Rightarrow> string \<Rightarrow> (provider_error, string) result" where
  "nordvpn_derive_key net loads b64 token0 =
     (let token = strip token0 in
      if token = [] then Inl (AuthErr ''nordvpn access token is missing'')
      else (case get_json net loads (nord_api @ ''/users/services/credentials'') (''Basic '' @ b64 (''token:'' @ token)) of
          Inl (ApiErr m st) \<Rightarrow> if is_rejection st then Inl (AuthErr ''nordvpn token rejected by API'') else Inl (ApiErr m st)
        | Inl e \<Rightarrow> Inl e
        | Inr data \<Rightarrow> (case pfield data ''nordlynx_private_key'' of
            PStr s \<Rightarrow> if s = [] then Inl (ApiErr ''nordvpn API did not return nordlynx_private_key'' None) else Inr s
          | _ \<Rightarrow> Inl (ApiErr ''nordvpn API did not return nordlynx_private_key'' None))))"

definition named_with_id :: "pyval \<Rightarrow> bool" where
  "named_with_id v = (is_pdict v \<and> pstr (pfield v ''name'') \<noteq> [] \<and> is_int (pfield v ''id''))"

fun cities_of :: "pyval \<Rightarrow> pyval" where
  "cities_of (PDict d) = pget_or d ''cities'' (PList [])"
| "cities_of _ = PList []"

fun list_items :: "pyval \<Rightarrow> pyval list" where
  "list_items (PList xs) = xs"
| "list_items _ = []"

fun is_plist :: "pyval \<Rightarrow> bool" where
  "is_plist (PList xs) = True"
| "is_plist _ = False"

definition country_ok :: "pyval \<Rightarrow> bool" where
  "country_ok c = (named_with_id c \<and> is_plist (cities_of c) \<and> list_all named_with_id (list_items (cities_of c)))"

definition check_nord_countries :: "pyval \<Rightarrow> (provider_error, pyval list) result" where
  "check_nord_countries data = (case data of
     PList cs \<Rightarrow> if list_all country_ok cs then Inr cs
       else Inl (ApiErr ''nordvpn country list has an unexpected shape'' None)
   | _ \<Rightarrow> Inl (ApiErr ''nordvpn country list is not a list'' None))"

type_synonym countries_cache = "(rat \<times> pyval list) option"

definition nord_cache_ttl :: rat where
  "nord_cache_ttl = 3600"

definition nord_countries :: "net \<Rightarrow> (string \<Rightarrow> pyval option) \<Rightarrow> rat \<Rightarrow> countries_cache
    \<Rightarrow> (provider_error, pyval list) result \<times> countries_cache" where
  "nord_countries net loads now cached =
     (if (case cached of None \<Rightarrow> False | Some (t, cs) \<Rightarrow> now - t < nord_cache_ttl) then (Inr (snd (the cached)), cached)
      else (case bindR (get_json net loads (nord_api @ ''/servers/countries'') []) check_nord_countries of
          Inl PyError \<Rightarrow> (Inl PyError, cached)
        | Inl e \<Rightarrow> (case cached of
              Some (t, cs) \<Rightarrow> (Inr cs, cached)
            | None \<Rightarrow> (Inl (with_context ''could not fetch nordvpn country list: '' e), cached))
        | Inr cs \<Rightarrow> (Inr cs, Some (now, cs))))"

definition nordvpn_locations :: "pyval list \<Rightarrow> (string, string list) dict" where
  "nordvpn_locations cs =
     fold (\<lambda>c out. dset (pstr (pfield c ''name'')) (sort (map (\<lambda>ci. pstr (pfield ci ''name'')) (list_items (cities_of c)))) out) cs []"

definition same_name :: "string \<Rightarrow> pyval \<Rightarrow> bool" where
  "same_name s v = (lower (pstr (pfield v ''name'')) = lower s)"

text \<open>\<open>_nord_ids\<close>; an id is kept as the payload has it.\<close>

definition nord_ids :: "pyval list \<Rightarrow> string \<Rightarrow> string \<Rightarrow> (provider_error, pyval \<times> pyval option) result" where
  "nord_ids cs country city = (case find (same_name country) cs of
     None \<Rightarrow> Inl (ProviderErr ''country is not a nordvpn location'')
   | Some c \<Rightarrow>
       if city = [] then Inr (pfield c ''id'', None)
       else (case find (same_name city) (list_items (cities_of c)) of
           None \<Rightarrow> Inl (ProviderErr ''city is not a nordvpn location'')
         | Some ci \<Rightarrow> Inr (pfield c ''id'', Some (pfield ci ''id''))))"

section \<open>NordVPN: server records\<close>

text \<open>The first public key of a \<open>wireguard_udp\<close> technology.\<close>

definition key_of_meta :: "pyval \<Rightarrow> string option" where
  "key_of_meta m = (if is_pdict m \<and> pfield m ''name'' = PStr ''public_key'' \<and> pstr (pfield m ''value'') \<noteq> []
     then Some (pstr (pfield m ''value'')) else None)"

fun first_some :: "('a \<Rightarrow> 'b option) \<Rightarrow> 'a list \<Rightarrow> 'b option" where
  "first_some f [] = None"
| "first_some f (x # xs) = (case f x of None \<Rightarrow> first_some f xs | Some y \<Rightarrow> Some y)"

fun first_key :: "pyval list \<Rightarrow> (provider_error, string option) result" where
  "first_key [] = Inr None"
| "first_key (t # ts) =
     (if is_pdict t \<and> pfield t ''identifier'' = PStr ''wireguard_udp'' then
        bindR (items_or_empty (pfield t ''metadata'')) (\<lambda>ms.
          case first_some key_of_meta ms of None \<Rightarrow> first_key ts | Some k \<Rightarrow> Inr (Some k))
      else first_key ts)"

definition nord_pubkey :: "pyval \<Rightarrow> (provider_error, string) result" where
  "nord_pubkey s =
     bindR (items_or_empty (pfield s ''technologies'')) (\<lambda>ts.
     bindR (first_key ts) (\<lambda>k. case k of
       None \<Rightarrow> Inl (ApiErr ''nordvpn server has no WireGuard public key'' None)
     | Some v \<Rightarrow> Inr v))"

fun first_dict :: "pyval \<Rightarrow> pyval" where
  "first_dict (PList (PDict d # xs)) = PDict d"
| "first_dict _ = PNone"

definition nord_server_host :: "pyval \<Rightarrow> string option" where
  "nord_server_host s =
     (let ip = pstr (pfield (pfield (first_dict (pfield s ''ips'')) ''ip'') ''ip'');
          station = pstr (pfield s ''station'') in
      if ip \<noteq> [] then Some ip else if station \<noteq> [] then Some station else None)"

definition check_nord_servers :: "pyval \<Rightarrow> (provider_error, pyval list) result" where
  "check_nord_servers data = (case data of
     PList xs \<Rightarrow> if list_all is_pdict xs then Inr xs else Inl (ApiErr ''unexpected shape'' None)
   | _ \<Rightarrow> Inl (ApiErr ''unexpected shape'' None))"

fun id_text :: "pyval \<Rightarrow> string" where
  "id_text (PInt i) = int_str i"
| "id_text (PBool b) = (if b then ''True'' else ''False'')"
| "id_text v = []"

definition wg_filter :: string where
  "wg_filter = ''filters[servers_technologies][identifier]=wireguard_udp''"

definition location_filter :: "pyval \<Rightarrow> pyval option \<Rightarrow> string" where
  "location_filter country city = (case city of
     Some ci \<Rightarrow> if ptruthy ci then ''filters[country_city_id]='' @ id_text ci else ''filters[country_id]='' @ id_text country
   | None \<Rightarrow> ''filters[country_id]='' @ id_text country)"

record peer_params =
  pp_host :: string
  pp_port :: int
  pp_key :: string
  pp_hostname :: pyval

definition wg_port :: int where
  "wg_port = 51820"

text \<open>Picking among the recommended servers.\<close>

definition pick_candidate :: "pyval list \<Rightarrow> string \<Rightarrow> pyval option" where
  "pick_candidate servers avoid =
     (let others = filter (\<lambda>s. pfield s ''hostname'' \<noteq> PStr avoid) servers;
          candidates = (if others \<noteq> [] then others else servers) in
      case candidates of [] \<Rightarrow> None | s # _ \<Rightarrow> Some s)"

definition peer_of_server :: "pyval \<Rightarrow> (provider_error, peer_params) result" where
  "peer_of_server s = (case nord_server_host s of
     None \<Rightarrow> Inl (ApiErr ''nordvpn server has no usable IP'' None)
   | Some host \<Rightarrow> bindR (nord_pubkey s) (\<lambda>k.
       Inr \<lparr>pp_host = host, pp_port = wg_port, pp_key = k, pp_hostname = or_empty (pfield s ''hostname'')\<rparr>))"

definition nordvpn_resolve :: "net \<Rightarrow> (string \<Rightarrow> pyval option) \<Rightarrow> rat \<Rightarrow> string \<Rightarrow> string \<Rightarrow> string \<Rightarrow> countries_cache
    \<Rightarrow> (provider_error, peer_params) result \<times> countries_cache" where
  "nordvpn_resolve net loads now country city avoid cache = (case nord_countries net loads now cache of
     (r, cache') \<Rightarrow>
       (bindR r (\<lambda>cs. bindR (nord_ids cs country city) (\<lambda>(ci, to).
          bindR (in_context ''could not resolve a nordvpn server: ''
            (bindR (get_json net loads (nord_api @ ''/servers/recommendations?'' @ location_filter ci to @ ''&'' @ wg_filter
                @ ''&limit='' @ (if avoid \<noteq> [] then ''5'' else ''1'')) []) check_nord_servers)) (\<lambda>servers.
          case pick_candidate servers avoid of
            None \<Rightarrow> Inl (ProviderErr ''nordvpn has no WireGuard server available'')
          | Some s \<Rightarrow> peer_of_server s))), cache'))"

section \<open>NordVPN: listing and pinning servers\<close>

definition is_az :: "char \<Rightarrow> bool" where
  "is_az c = (97 \<le> (of_char c :: nat) \<and> (of_char c :: nat) \<le> 122)"

definition nord_suffix :: string where
  "nord_suffix = ''.nordvpn.com''"

text \<open>\<open>\d+(?:\.nordvpn\.com)?\<close> to the end: the digits.\<close>

definition numbered_tail :: "string \<Rightarrow> string option" where
  "numbered_tail s = (let d = takeWhile is_digit s; rest = dropWhile is_digit s in
     if d \<noteq> [] \<and> (rest = [] \<or> rest = nord_suffix) then Some d else None)"

definition nord_host_match :: "string \<Rightarrow> (string \<times> string) option" where
  "nord_host_match s = (if length (take 2 s) = 2 \<and> list_all is_az (take 2 s)
     then map_option (\<lambda>d. (take 2 s, d)) (numbered_tail (drop 2 s)) else None)"

definition nord_specialty_match :: "string \<Rightarrow> bool" where
  "nord_specialty_match s = (let a = takeWhile is_az s in
     case dropWhile is_az s of
       [] \<Rightarrow> False
     | c # rest \<Rightarrow> a \<noteq> [] \<and> c = CHR ''-'' \<and> takeWhile is_az rest \<noteq> [] \<and> numbered_tail (dropWhile is_az rest) \<noteq> None)"

definition nordvpn_server_name :: "string \<Rightarrow> (provider_error, string) result" where
  "nordvpn_server_name text = (let name = lower (strip text) in
     case nord_host_match name of
       Some (a, d) \<Rightarrow> Inr (a @ d @ nord_suffix)
     | None \<Rightarrow> if nord_specialty_match name then Inl (ProviderErr ''specialty server; only standard servers can be pinned'')
         else Inl (ProviderErr ''not a NordVPN server name''))"

definition short_name :: "string \<Rightarrow> string" where
  "short_name h = hd (split_on (CHR ''.'') h)"

definition host_prefix :: "string \<Rightarrow> string" where
  "host_prefix h = rstrip_chars (set ''0123456789'') (short_name h)"

definition prefix_code :: "string \<Rightarrow> string" where
  "prefix_code p = (if p = ''uk'' then ''gb'' else p)"

text \<open>\<open>str(c.get("code") or "").lower()\<close>; only a string can equal a country code.\<close>

definition nord_server_country :: "pyval list \<Rightarrow> string \<Rightarrow> (provider_error, pyval) result" where
  "nord_server_country cs h = (case find (\<lambda>c. lower (pstr (or_empty (pfield c ''code''))) = prefix_code (host_prefix h)) cs of
     None \<Rightarrow> Inl (ProviderErr ''no NordVPN country uses the server prefix'')
   | Some c \<Rightarrow> Inr c)"

record server_entry =
  se_hostname :: string
  se_country :: string
  se_city :: string
  se_load :: "int option"
  se_host :: string
  se_key :: string

fun plain_int :: "pyval \<Rightarrow> int option" where
  "plain_int (PInt i) = Some i"
| "plain_int _ = None"

definition nord_server_entry :: "pyval \<Rightarrow> (provider_error, server_entry option) result" where
  "nord_server_entry s = (let h = pstr (pfield s ''hostname'') in
     case nord_server_host s of
       None \<Rightarrow> Inr None
     | Some host \<Rightarrow>
         if h = [] then Inr None
         else if (case s of PDict d \<Rightarrow> pget_or d ''status'' (PStr ''online'') \<noteq> PStr ''online'' | _ \<Rightarrow> False) then Inr None
         else (case nord_pubkey s of
             Inl (ApiErr m st) \<Rightarrow> Inr None
           | Inl e \<Rightarrow> Inl e
           | Inr k \<Rightarrow> (let c = pfield (first_dict (pfield s ''locations'')) ''country'' in
               Inr (Some \<lparr>se_hostname = lower h, se_country = pstr (pfield c ''name''),
                 se_city = pstr (pfield (pfield c ''city'') ''name''), se_load = plain_int (pfield s ''load''),
                 se_host = host, se_key = k\<rparr>))))"

text \<open>\<open>_server_sort_key\<close>: \<open>None\<close> where \<open>int\<close> refuses what \<open>isdigit\<close> accepts.\<close>

definition server_sort_key :: "server_entry \<Rightarrow> (int \<times> string \<times> nat) option" where
  "server_sort_key e = (let name = short_name (se_hostname e);
       digits = dropWhile (\<lambda>c. is_az c \<or> c = CHR ''-'') name in
     map_option (\<lambda>n. (case se_load e of None \<Rightarrow> 101 | Some l \<Rightarrow> l, take (length name - length digits) name, n))
       (if isdigit digits then int_of_digits digits else Some 0))"

definition sort_entries :: "server_entry list \<Rightarrow> (provider_error, server_entry list) result" where
  "sort_entries es = (if list_all (\<lambda>e. server_sort_key e \<noteq> None) es
     then Inr (sort_key (\<lambda>e. the (server_sort_key e)) es) else Inl PyError)"

definition keep_entry :: "pyval \<Rightarrow> server_entry list \<Rightarrow> (provider_error, server_entry list) result" where
  "keep_entry s acc = bindR (nord_server_entry s) (\<lambda>e. Inr (case e of None \<Rightarrow> acc | Some x \<Rightarrow> acc @ [x]))"

definition read_entries :: "pyval list \<Rightarrow> (provider_error, server_entry list) result" where
  "read_entries raw = bindR (foldR keep_entry raw []) sort_entries"

type_synonym servers_cache = "(pyval \<times> pyval option, rat \<times> server_entry list) dict"

definition nord_servers_ttl :: rat where
  "nord_servers_ttl = 60"

definition servers_url :: "pyval \<Rightarrow> pyval option \<Rightarrow> string" where
  "servers_url ci to = nord_api @ ''/servers?'' @ location_filter ci to @ ''&'' @ wg_filter
     @ ''&filters[servers_groups][identifier]=legacy_standard&limit=10000&''
     @ join ''&'' (map (\<lambda>n. ''fields[servers.'' @ n @ '']'') [''hostname'', ''load'', ''status'', ''station'', ''ips.ip.ip'',
         ''technologies.identifier'', ''technologies.metadata'', ''locations.country.name'', ''locations.country.city.name''])"

definition fetch_entries :: "net \<Rightarrow> (string \<Rightarrow> pyval option) \<Rightarrow> pyval \<Rightarrow> pyval option \<Rightarrow> (provider_error, server_entry list) result" where
  "fetch_entries net loads ci to =
     bindR (bindR (get_json net loads (servers_url ci to) []) check_nord_servers) read_entries"

definition nord_servers :: "net \<Rightarrow> (string \<Rightarrow> pyval option) \<Rightarrow> rat \<Rightarrow> rat \<Rightarrow> pyval \<Rightarrow> pyval option \<Rightarrow> servers_cache
    \<Rightarrow> (provider_error, server_entry list) result \<times> servers_cache" where
  "nord_servers net loads now later ci to cache =
     (case dget cache (ci, to) of
        Some (t, es) \<Rightarrow> if now - t < nord_servers_ttl then (Inr es, cache) else
          (case fetch_entries net loads ci to of
             Inl e \<Rightarrow> (Inl e, cache) | Inr fresh \<Rightarrow> (Inr fresh, dset (ci, to) (later, fresh) cache))
      | None \<Rightarrow>
          (case fetch_entries net loads ci to of
             Inl e \<Rightarrow> (Inl e, cache) | Inr fresh \<Rightarrow> (Inr fresh, dset (ci, to) (later, fresh) cache)))"

record public_server =
  pub_server :: string
  pub_hostname :: string
  pub_country :: string
  pub_city :: string
  pub_load :: "int option"

definition public_of :: "server_entry \<Rightarrow> public_server" where
  "public_of e = \<lparr>pub_server = short_name (se_hostname e), pub_hostname = se_hostname e,
     pub_country = se_country e, pub_city = se_city e, pub_load = se_load e\<rparr>"

text \<open>The client's state and surroundings, for the operations that use both caches.\<close>

record nord =
  nd_countries :: countries_cache
  nd_servers :: servers_cache

definition nordvpn_servers :: "net \<Rightarrow> (string \<Rightarrow> pyval option) \<Rightarrow> rat \<Rightarrow> rat \<Rightarrow> string \<Rightarrow> string \<Rightarrow> nord
    \<Rightarrow> (provider_error, public_server list) result \<times> nord" where
  "nordvpn_servers net loads now later country city nd =
     (case nord_countries net loads now (nd_countries nd) of (r, cc) \<Rightarrow>
       (case bindR r (\<lambda>cs. nord_ids cs country city) of
          Inl e \<Rightarrow> (Inl e, nd\<lparr>nd_countries := cc\<rparr>)
        | Inr (ci, to) \<Rightarrow> (case nord_servers net loads now later ci to (nd_servers nd) of (rs, sc) \<Rightarrow>
            (in_context ''could not list nordvpn servers: '' (bindR rs (\<lambda>es. Inr (map public_of es))),
             \<lparr>nd_countries = cc, nd_servers = sc\<rparr>))))"

definition nord_dedicated_ip :: "net \<Rightarrow> (string \<Rightarrow> pyval option) \<Rightarrow> string \<Rightarrow> pyval \<Rightarrow> bool" where
  "nord_dedicated_ip net loads h cid =
     (case bindR (get_json net loads (nord_api @ ''/servers?filters[country_id]='' @ id_text cid @ ''&'' @ wg_filter
          @ ''&limit=0&fields[servers.hostname]&fields[servers.groups.identifier]'') []) check_nord_servers of
        Inl e \<Rightarrow> False
      | Inr ss \<Rightarrow> (case find (\<lambda>s. pfield s ''hostname'' = PStr h) ss of
          None \<Rightarrow> False
        | Some s \<Rightarrow> list_ex (\<lambda>g. is_pdict g \<and> pfield g ''identifier'' = PStr ''legacy_dedicated_ip'') (list_items (pfield s ''groups''))))"

definition nord_lookup :: "net \<Rightarrow> (string \<Rightarrow> pyval option) \<Rightarrow> rat \<Rightarrow> rat \<Rightarrow> string \<Rightarrow> nord
    \<Rightarrow> (provider_error, server_entry) result \<times> nord" where
  "nord_lookup net loads now later server nd =
     (case nordvpn_server_name server of
        Inl e \<Rightarrow> (Inl e, nd)
      | Inr h \<Rightarrow> (case nord_countries net loads now (nd_countries nd) of (r, cc) \<Rightarrow>
          (case bindR r (\<lambda>cs. nord_server_country cs h) of
             Inl e \<Rightarrow> (Inl e, nd\<lparr>nd_countries := cc\<rparr>)
           | Inr c \<Rightarrow> (case nord_servers net loads now later (pfield c ''id'') None (nd_servers nd) of (rs, sc) \<Rightarrow>
               (bindR (in_context ''could not look up nordvpn server: '' rs) (\<lambda>es.
                  case find (\<lambda>e. se_hostname e = h) es of
                    Some e \<Rightarrow> Inr e
                  | None \<Rightarrow> Inl (Unavailable (if nord_dedicated_ip net loads h (pfield c ''id'')
                      then ''a NordVPN Dedicated IP server'' else ''not an available NordVPN WireGuard server''))),
                \<lparr>nd_countries = cc, nd_servers = sc\<rparr>)))))"

definition nordvpn_lookup_server :: "net \<Rightarrow> (string \<Rightarrow> pyval option) \<Rightarrow> rat \<Rightarrow> rat \<Rightarrow> string \<Rightarrow> nord
    \<Rightarrow> (provider_error, public_server) result \<times> nord" where
  "nordvpn_lookup_server net loads now later server nd =
     (case nord_lookup net loads now later server nd of (r, nd') \<Rightarrow> (bindR r (\<lambda>e. Inr (public_of e)), nd'))"

definition nordvpn_resolve_server :: "net \<Rightarrow> (string \<Rightarrow> pyval option) \<Rightarrow> rat \<Rightarrow> rat \<Rightarrow> string \<Rightarrow> nord
    \<Rightarrow> (provider_error, peer_params) result \<times> nord" where
  "nordvpn_resolve_server net loads now later server nd =
     (case nord_lookup net loads now later server nd of (r, nd') \<Rightarrow>
       (bindR r (\<lambda>e. Inr \<lparr>pp_host = se_host e, pp_port = wg_port, pp_key = se_key e, pp_hostname = PStr (se_hostname e)\<rparr>), nd'))"

section \<open>Resolving a channel\<close>

text \<open>What \<open>resolve\<close> is told about the server: one to take, one to avoid, or nothing.\<close>

datatype hint = Pin string | Avoid string | AnyServer

fun json_of_pyval :: "pyval \<Rightarrow> json" where
  "json_of_pyval PNone = JNull"
| "json_of_pyval (PBool b) = JBool b"
| "json_of_pyval (PInt i) = JNum (of_int i)"
| "json_of_pyval (PFloat q) = JNum q"
| "json_of_pyval (PStr s) = JStr s"
| "json_of_pyval (PList xs) = JArr (map json_of_pyval xs)"
| "json_of_pyval (PDict kvs) = JObj (map (\<lambda>(k, v). (pstr k, json_of_pyval v)) kvs)"

definition nordvpn_wg_address :: "string list" where
  "nordvpn_wg_address = [''10.5.0.2/32'']"

definition wg_of_peer :: "string \<Rightarrow> peer_params \<Rightarrow> jobj" where
  "wg_of_peer key p =
     [(''private_key'', JStr key), (''address'', JArr (map JStr nordvpn_wg_address)),
      (''peer'', JObj ([(''public_key'', JStr (pp_key p)), (''endpoint_host'', JStr (pp_host p)),
          (''endpoint_port'', JNum (of_int (pp_port p))), (''preshared_key'', JNull),
          (''allowed_ips'', JArr [JStr ''0.0.0.0/0'', JStr ''::/0'']), (''keepalive'', JNum 25)]
        @ (if ptruthy (pp_hostname p) then [(''hostname'', json_of_pyval (pp_hostname p))] else [])))]"

text \<open>\<open>provider_resolver\<close>: the account key once, or the error; and the resolver that uses it.\<close>

definition provider_resolver :: "net \<Rightarrow> (string \<Rightarrow> pyval option) \<Rightarrow> (string \<Rightarrow> string) \<Rightarrow> string \<Rightarrow> (string, string) dict
    \<Rightarrow> (provider_error, string) result" where
  "provider_resolver net loads b64 p creds = (case dget functional_providers p of
     None \<Rightarrow> Inl (ProviderErr ''cannot resolve locations from an API'')
   | Some spec \<Rightarrow> if creds = [] then Inl (AuthErr ''has no credential'')
       else nordvpn_derive_key net loads b64 (case dget creds ''token'' of None \<Rightarrow> [] | Some t \<Rightarrow> t))"

definition resolve_with :: "net \<Rightarrow> (string \<Rightarrow> pyval option) \<Rightarrow> rat \<Rightarrow> rat \<Rightarrow> string \<Rightarrow> string \<Rightarrow> string \<Rightarrow> hint \<Rightarrow> nord
    \<Rightarrow> (provider_error, jobj) result \<times> nord" where
  "resolve_with net loads now later key country city h nd = (case (case h of
       Pin s \<Rightarrow> nordvpn_resolve_server net loads now later s nd
     | Avoid s \<Rightarrow> (case nordvpn_resolve net loads now country city s (nd_countries nd) of (r, cc) \<Rightarrow> (r, nd\<lparr>nd_countries := cc\<rparr>))
     | AnyServer \<Rightarrow> (case nordvpn_resolve net loads now country city [] (nd_countries nd) of (r, cc) \<Rightarrow> (r, nd\<lparr>nd_countries := cc\<rparr>)))
   of (r, nd') \<Rightarrow> (bindR r (\<lambda>p. Inr (wg_of_peer key p)), nd'))"

definition provider_wg :: "net \<Rightarrow> (string \<Rightarrow> pyval option) \<Rightarrow> (string \<Rightarrow> string) \<Rightarrow> rat \<Rightarrow> rat \<Rightarrow> (string, (string, string) dict) dict
    \<Rightarrow> string \<Rightarrow> string \<Rightarrow> string \<Rightarrow> string \<Rightarrow> nord \<Rightarrow> (provider_error, jobj) result \<times> nord" where
  "provider_wg net loads b64 now later creds p country city server nd =
     (if dget functional_providers p = None then (Inl (ProviderErr ''cannot resolve locations from an API''), nd)
      else (case dget creds p of
          None \<Rightarrow> (Inl (AuthErr ''is not authenticated''), nd)
        | Some c \<Rightarrow> if c = [] then (Inl (AuthErr ''is not authenticated''), nd)
            else (case provider_resolver net loads b64 p c of
                Inl e \<Rightarrow> (Inl e, nd)
              | Inr key \<Rightarrow> resolve_with net loads now later key country city (if server \<noteq> [] then Pin server else AnyServer) nd)))"

section \<open>Server names\<close>

lemma az_plain: "is_az c \<Longrightarrow> lower_char c = c \<and> \<not> is_space c \<and> c \<noteq> CHR ''.''"
  by (auto simp: is_az_def lower_char_def is_space_def Let_def)

lemma suffix_plain: "lower nord_suffix = nord_suffix" "\<not> is_space (last nord_suffix)"
  "takeWhile is_digit nord_suffix = []" "dropWhile is_digit nord_suffix = nord_suffix" "nord_suffix \<noteq> []"
  by code_simp+

lemma numbered_tail_Some: "numbered_tail s = Some d \<Longrightarrow> list_all is_digit d \<and> d \<noteq> []"
  by (auto simp: numbered_tail_def Let_def list_all_iff split: if_splits dest: set_takeWhileD)

lemma numbered_tail_digits:
  assumes "list_all is_digit d" "d \<noteq> []"
  shows "numbered_tail d = Some d" "numbered_tail (d @ nord_suffix) = Some d"
proof -
  have a: "takeWhile is_digit (d @ x) = d @ takeWhile is_digit x" "dropWhile is_digit (d @ x) = dropWhile is_digit x" for x
    using assms(1) by (auto simp: list_all_iff takeWhile_append2 dropWhile_append2)
  have b: "takeWhile is_digit d = d" "dropWhile is_digit d = []"
    using assms(1) by (simp_all add: takeWhile_eq_all_conv dropWhile_eq_Nil_conv list_all_iff)
  show "numbered_tail d = Some d" "numbered_tail (d @ nord_suffix) = Some d"
    unfolding numbered_tail_def a b suffix_plain Let_def using assms(2) by simp_all
qed

text \<open>The canonical form: two letters, digits, the suffix.\<close>

lemma server_name_canonical:
  assumes "length a = 2" "list_all is_az a" "list_all is_digit d" "d \<noteq> []"
  shows "nordvpn_server_name (a @ d @ nord_suffix) = Inr (a @ d @ nord_suffix)"
    and "nordvpn_server_name (a @ d) = Inr (a @ d @ nord_suffix)"
    and "short_name (a @ d @ nord_suffix) = a @ d"
proof -
  have ne: "a \<noteq> []" using assms(1) by auto
  have low: "lower a = a" "lower d = d"
    using assms(2,3) az_plain digit_plain by (auto simp: lower_def list_all_iff intro!: map_idI)
  have hd: "\<not> is_space (hd a)" using assms(2) ne az_plain by (auto simp: list_all_iff)
  have ld: "\<not> is_space (last d)" using assms(3,4) digit_plain by (auto simp: list_all_iff)
  have st: "strip (a @ d @ nord_suffix) = a @ d @ nord_suffix" "strip (a @ d) = a @ d"
    using hd ne ld suffix_plain assms(4) by (auto intro!: strip_id)
  have lw: "lower (a @ d @ nord_suffix) = a @ d @ nord_suffix" "lower (a @ d) = a @ d"
    using low suffix_plain(1) by (auto simp: lower_def)
  have m: "nord_host_match (a @ x) = map_option (\<lambda>d. (a, d)) (numbered_tail x)" for x
    using assms(1,2) by (simp add: nord_host_match_def)
  show "nordvpn_server_name (a @ d @ nord_suffix) = Inr (a @ d @ nord_suffix)"
    "nordvpn_server_name (a @ d) = Inr (a @ d @ nord_suffix)"
    using st lw m numbered_tail_digits[OF assms(3,4)] by (simp_all add: nordvpn_server_name_def Let_def)
  have "CHR ''.'' \<notin> set (a @ d)" using assms(2,3) az_plain digit_plain by (auto simp: list_all_iff)
  then have "split_on (CHR ''.'') ((a @ d) @ CHR ''.'' # ''nordvpn.com'') = [a @ d] @ split_on (CHR ''.'') ''nordvpn.com''"
    by (simp only: split_on_append split_on_no_sep simp_thms)
  then show "short_name (a @ d @ nord_suffix) = a @ d" by (simp add: short_name_def nord_suffix_def)
qed

lemma server_name_shape:
  assumes "nordvpn_server_name text = Inr h"
  obtains a d where "h = a @ d @ nord_suffix" "length a = 2" "list_all is_az a" "list_all is_digit d" "d \<noteq> []"
proof -
  let ?n = "lower (strip text)"
  from assms obtain a d where m: "nord_host_match ?n = Some (a, d)" and h: "h = a @ d @ nord_suffix"
    by (auto simp: nordvpn_server_name_def Let_def split: option.splits if_splits)
  from m have "length a = 2" "list_all is_az a" "numbered_tail (drop 2 ?n) = Some d"
    by (auto simp: nord_host_match_def split: if_splits)
  with h numbered_tail_Some that show thesis by blast
qed

lemma nord_lookup_name:
  assumes "nord_lookup net loads now later server nd = (Inr e, nd')"
  shows "nordvpn_server_name server = Inr (se_hostname e)"
  using assms
  by (auto simp: nord_lookup_def in_context_def find_Some_iff split: sum.splits prod.splits option.splits if_splits)

lemma pick_candidate_avoids:
  assumes "pick_candidate servers avoid = Some s" "\<exists>t \<in> set servers. pfield t ''hostname'' \<noteq> PStr avoid"
  shows "s \<in> set servers \<and> pfield s ''hostname'' \<noteq> PStr avoid"
proof -
  have "filter (\<lambda>t. pfield t ''hostname'' \<noteq> PStr avoid) servers \<noteq> []" using assms(2) by (auto simp: filter_empty_conv)
  with assms(1) have "s \<in> set (filter (\<lambda>t. pfield t ''hostname'' \<noteq> PStr avoid) servers)"
    by (auto simp: pick_candidate_def Let_def simp del: set_filter split: list.splits)
  then show ?thesis by simp
qed

definition demo_server :: "string \<Rightarrow> pyval" where
  "demo_server h = PDict [(PStr ''hostname'', PStr h), (PStr ''station'', PStr ''1.2.3.4''),
     (PStr ''technologies'', PList [PDict [(PStr ''identifier'', PStr ''wireguard_udp''),
        (PStr ''metadata'', PList [PDict [(PStr ''name'', PStr ''public_key''), (PStr ''value'', PStr ''k'')]])]])]"

definition demo_country :: pyval where
  "demo_country = PDict [(PStr ''id'', PInt 81), (PStr ''name'', PStr ''Germany''), (PStr ''code'', PStr ''DE''), (PStr ''cities'', PList [])]"

text \<open>The demonstration network answers every request with the text of its kind.\<close>

definition demo_net :: net where
  "demo_net url auth = (if endswith url ''/servers/countries'' then Body ''c'' else Body ''s'')"

definition demo_loads :: "string \<Rightarrow> pyval option" where
  "demo_loads t = Some (if t = ''c'' then PList [demo_country]
     else PList [demo_server ''de7.nordvpn.com'', demo_server ''de9.nordvpn.com''])"

text \<open>C31: A reconnect moves away from a dead server. When the recommendations contain any server other
  than the one to avoid, \<open>nordvpn_resolve\<close> never returns that one.\<close>

theorem resolve_avoids_server:
  assumes "nordvpn_resolve net loads now country city avoid cache = (Inr p, cache')" "avoid \<noteq> []"
    and "nord_countries net loads now cache = (Inr cs, cache')" "nord_ids cs country city = Inr (ci, to)"
    and "get_json net loads (nord_api @ ''/servers/recommendations?'' @ location_filter ci to @ ''&'' @ wg_filter @ ''&limit=5'') []
      = Inr (PList servers)"
    and "s \<in> set servers" "pfield s ''hostname'' \<noteq> PStr avoid"
  shows "pp_hostname p \<noteq> PStr avoid"
proof -
  from assms(1-5) obtain t where t: "pick_candidate servers avoid = Some t" "peer_of_server t = Inr p"
    by (auto simp: nordvpn_resolve_def in_context_def check_nord_servers_def split: sum.splits option.splits if_splits)
  have "pfield t ''hostname'' \<noteq> PStr avoid" using pick_candidate_avoids[OF t(1)] assms(6,7) by blast
  with t(2) assms(2) show ?thesis by (auto simp: peer_of_server_def or_empty_def split: option.splits if_splits)
qed

theorem resolve_avoids_server_witness:
  "\<exists>p. fst (nordvpn_resolve demo_net demo_loads 0 ''germany'' [] ''de7.nordvpn.com'' None) = Inr p \<and> pp_hostname p \<noteq> PStr ''de7.nordvpn.com''"
proof -
  let ?r = "nordvpn_resolve demo_net demo_loads 0 ''germany'' [] ''de7.nordvpn.com'' None"
  have "returned (fst ?r)" by code_simp
  then obtain p c where r: "?r = (Inr p, c)" by (metis returnedE prod.exhaust_sel)
  have c: "nord_countries demo_net demo_loads 0 None = (Inr [demo_country], snd ?r)" by code_simp
  have i: "nord_ids [demo_country] ''germany'' [] = Inr (PInt 81, None)" by code_simp
  have g: "get_json demo_net demo_loads (nord_api @ ''/servers/recommendations?'' @ location_filter (PInt 81) None @ ''&'' @ wg_filter @ ''&limit=5'') []
      = Inr (PList [demo_server ''de7.nordvpn.com'', demo_server ''de9.nordvpn.com''])"
    by code_simp
  have h: "pfield (demo_server ''de9.nordvpn.com'') ''hostname'' \<noteq> PStr ''de7.nordvpn.com''" by code_simp
  from resolve_avoids_server[OF r _ c[unfolded r snd_conv] i g _ h] r show ?thesis by simp
qed

text \<open>A pin names one server. What \<open>_nord_lookup\<close> returns is exactly the server whose name was
  typed, in any accepted spelling, and the short name that a listing shows resolves to it again.\<close>

theorem lookup_is_named_server:
  assumes "nord_lookup net loads now later server nd = (Inr e, nd')"
  shows "nordvpn_server_name server = Inr (se_hostname e)
    \<and> nordvpn_server_name (se_hostname e) = Inr (se_hostname e)
    \<and> nordvpn_server_name (pub_server (public_of e)) = Inr (se_hostname e)"
proof -
  have n: "nordvpn_server_name server = Inr (se_hostname e)" by (rule nord_lookup_name[OF assms])
  obtain a d where h: "se_hostname e = a @ d @ nord_suffix" "length a = 2" "list_all is_az a" "list_all is_digit d" "d \<noteq> []"
    by (rule server_name_shape[OF n])
  from server_name_canonical[OF h(2-5)] n h(1) show ?thesis by (simp add: public_of_def)
qed

theorem lookup_is_named_server_witness:
  "\<exists>e. fst (nord_lookup demo_net demo_loads 0 0 '' DE9'' \<lparr>nd_countries = None, nd_servers = []\<rparr>) = Inr e
     \<and> nordvpn_server_name '' DE9'' = Inr (se_hostname e)"
proof -
  let ?r = "nord_lookup demo_net demo_loads 0 0 '' DE9'' \<lparr>nd_countries = None, nd_servers = []\<rparr>"
  have "returned (fst ?r)" by code_simp
  then obtain e n where r: "?r = (Inr e, n)" by (metis returnedE prod.exhaust_sel)
  from lookup_is_named_server[OF r] r show ?thesis by simp
qed

end
