(* ===== verification/Engine.thy ===== *)
theory Engine
  imports Geodata Providers
begin

text \<open>
  The configuration compiler and the reconcile step of \<open>anyhop/engine.py\<close>. A route rule of the
  generated configuration is a record whose empty fields are the absent ones. The engine process, the
  owner of a port and the environment variables are arguments; so is \<open>glob\<close>, whether an IPv6 address
  is global (a table of Python's \<open>ipaddress\<close> that changes between its versions). Lists inside the
  WireGuard parameters are lists, as \<open>wgconf\<close> and the resolvers write them.
\<close>

section \<open>Settings\<close>

definition loopback :: string where
  "loopback = ''127.0.0.1''"

definition listen_addr :: "string option \<Rightarrow> string" where
  "listen_addr env = (let v = strip (case env of None \<Rightarrow> [] | Some s \<Rightarrow> s) in
     if v = [] then loopback else if ip_address v = None then loopback else v)"

definition wg_mtu_default :: int where
  "wg_mtu_default = 1280"

definition wg_mtu :: "string option \<Rightarrow> int" where
  "wg_mtu env = (let v = strip (case env of None \<Rightarrow> [] | Some s \<Rightarrow> s) in
     if v = [] then wg_mtu_default
     else (case py_int v of
         None \<Rightarrow> wg_mtu_default
       | Some m \<Rightarrow> if 1280 \<le> m \<and> m \<le> 9000 then m else wg_mtu_default))"

section \<open>IPv6 capability\<close>

fun json_list :: "json \<Rightarrow> json list" where
  "json_list (JArr xs) = xs"
| "json_list _ = []"

definition net_of_json :: "json \<Rightarrow> ip_net option" where
  "net_of_json v = (case v of JStr s \<Rightarrow> ip_network False s | _ \<Rightarrow> None)"

definition v4_only :: "json list \<Rightarrow> json list" where
  "v4_only vs = filter (\<lambda>v. case net_of_json v of None \<Rightarrow> False | Some n \<Rightarrow> in_fam n = V4) vs"

definition has_global_v6 :: "(nat \<Rightarrow> bool) \<Rightarrow> json list \<Rightarrow> bool" where
  "has_global_v6 glob vs = list_ex (\<lambda>v. case net_of_json v of None \<Rightarrow> False | Some n \<Rightarrow> in_fam n = V6 \<and> glob (in_addr n)) vs"

definition channel_ipv6 :: "(nat \<Rightarrow> bool) \<Rightarrow> channel \<Rightarrow> bool" where
  "channel_ipv6 glob ch = (supports_ipv6 (c_provider ch)
     \<and> has_global_v6 glob (json_list (case dget (c_wg ch) ''address'' of None \<Rightarrow> JNull | Some v \<Rightarrow> v)))"

section \<open>Endpoints\<close>

datatype build_error = NoWireGuard cref | MissingKey string

definition need :: "jobj \<Rightarrow> string \<Rightarrow> (build_error, json) result" where
  "need d k = (case dget d k of None \<Rightarrow> Inl (MissingKey k) | Some v \<Rightarrow> Inr v)"

definition ref_inbound :: "cref \<Rightarrow> string" where
  "ref_inbound r = inbound_tag (fst r) (snd r)"

definition ref_outbound :: "cref \<Rightarrow> string" where
  "ref_outbound r = outbound_tag (fst r) (snd r)"

definition chan_ref :: "channel \<Rightarrow> cref" where
  "chan_ref ch = (c_provider ch, c_id ch)"

definition endpoint :: "(nat \<Rightarrow> bool) \<Rightarrow> int \<Rightarrow> channel \<Rightarrow> (build_error, jobj) result" where
  "endpoint glob mtu ch = (let wg = c_wg ch in
     if wg = [] \<or> dget wg ''peer'' = None then Inl (NoWireGuard (chan_ref ch))
     else (let peer = get_obj wg ''peer''; v6 = channel_ipv6 glob ch in
       bindR (need wg ''address'') (\<lambda>address0.
       bindR (need peer ''allowed_ips'') (\<lambda>allowed0.
       bindR (need peer ''endpoint_host'') (\<lambda>host.
       bindR (need peer ''endpoint_port'') (\<lambda>port.
       bindR (need peer ''public_key'') (\<lambda>key.
       bindR (need peer ''keepalive'') (\<lambda>keepalive.
       bindR (need wg ''private_key'') (\<lambda>private.
         let address = (if v6 then address0 else JArr (v4_only (json_list address0)));
             allowed = (if v6 then allowed0 else JArr (v4_only (json_list allowed0)));
             allowed' = (if truthy allowed then allowed else JArr [JStr ''0.0.0.0/0'']);
             psk = (case dget peer ''preshared_key'' of Some v \<Rightarrow> if truthy v then [(''pre_shared_key'', v)] else [] | None \<Rightarrow> []) in
         Inr [(''type'', JStr ''wireguard''), (''tag'', JStr (ref_outbound (chan_ref ch))), (''system'', JBool False),
              (''address'', address), (''mtu'', JNum (of_int mtu)), (''private_key'', private),
              (''peers'', JArr [JObj ([(''address'', host), (''port'', port), (''public_key'', key),
                 (''allowed_ips'', allowed'), (''persistent_keepalive_interval'', keepalive)] @ psk)])])))))))))"

section \<open>Route rules\<close>

record route_rule =
  rr_inbound :: "string list"
  rr_network :: "string list"
  rr_port :: "int list"
  rr_protocol :: string
  rr_suffix :: "string list"
  rr_cidr :: "string list"
  rr_set :: "string list"
  rr_version :: "int option"
  rr_action :: string
  rr_outbound :: string

definition on :: "string list \<Rightarrow> route_rule" where
  "on entry = \<lparr>rr_inbound = entry, rr_network = [], rr_port = [], rr_protocol = [], rr_suffix = [], rr_cidr = [],
     rr_set = [], rr_version = None, rr_action = [], rr_outbound = []\<rparr>"

definition reject :: "route_rule \<Rightarrow> route_rule" where
  "reject r = r\<lparr>rr_action := ''reject''\<rparr>"

definition router_inbound :: string where
  "router_inbound = ''in-router''"

definition tun_inbound_tag :: string where
  "tun_inbound_tag = ''in-tun''"

text \<open>An inbound of the configuration: its tag, kind, and what it listens on.\<close>

datatype inbound = Mixed string string int | Tun string bool

definition tun_inbound :: "string \<Rightarrow> inbound" where
  "tun_inbound platform = Tun (if platform = ''darwin'' then ''utun225'' else ''anyhop-tun'') (platform = ''linux'')"

datatype ref_error =
    RouterPortHeld int
  | PortHeld cref int
  | NotBuilt cref build_error
  | NotCached string string string
  | UnknownMatcher string string
  | UnusableTarget string string

section \<open>The rule table\<close>

text \<open>What a stored rule's matcher compiles to.\<close>

datatype matcher = Fields route_rule | Uncached | UnknownType

definition set_tag :: "string \<Rightarrow> string \<Rightarrow> string" where
  "set_tag k name = k @ ''-'' @ name"

definition compile_matcher :: "(string \<Rightarrow> string \<Rightarrow> string option) \<Rightarrow> string list \<Rightarrow> rule \<Rightarrow> matcher" where
  "compile_matcher cached entry r =
     (if rtype r = ''domain_suffix'' then Fields ((on entry)\<lparr>rr_suffix := [rvalue r]\<rparr>)
      else if rtype r = ''ip_cidr'' then Fields ((on entry)\<lparr>rr_cidr := [rvalue r]\<rparr>)
      else if rtype r \<in> set geo_types then
        (case cached (rtype r) (rvalue r) of
           None \<Rightarrow> Uncached
         | Some path \<Rightarrow> Fields ((on entry)\<lparr>rr_set := [set_tag (rtype r) (rvalue r)]\<rparr>))
      else if rtype r = ''all'' then Fields (on entry)
      else UnknownType)"

definition target_ref :: "string \<Rightarrow> cref" where
  "target_ref t = (case str_partition (CHR ''/'') t of (p, _, c) \<Rightarrow> (p, c))"

text \<open>One rule of the table: the route rules it compiles to and what it reports.\<close>

definition compile_rule :: "(string \<Rightarrow> string \<Rightarrow> string option) \<Rightarrow> string list \<Rightarrow> bool \<Rightarrow> cref set \<Rightarrow> cref set \<Rightarrow> rule
    \<Rightarrow> route_rule list \<times> ref_error list" where
  "compile_rule cached entry tun built v6 r = (case compile_matcher cached entry r of
     UnknownType \<Rightarrow> ([], [UnknownMatcher (rid r) (rtype r)])
   | Uncached \<Rightarrow> ([reject (on entry)], [NotCached (rid r) (rtype r) (rvalue r)])
   | Fields c \<Rightarrow>
       if rtarget r = ''direct'' then ([c\<lparr>rr_outbound := ''direct''\<rparr>], [])
       else if rtarget r = ''block'' then ([reject c], [])
       else (let t = target_ref (rtarget r) in
         if t \<notin> built then ([reject c], [UnusableTarget (rid r) (rtarget r)])
         else ((if v6 \<noteq> {} \<and> t \<notin> v6 \<and> tun then [reject (c\<lparr>rr_version := Some 6\<rparr>)] else [])
                 @ [c\<lparr>rr_outbound := ref_outbound t\<rparr>], [])))"

text \<open>The local rule-set files that the table refers to, by tag, sorted and without repetition.\<close>

definition rule_set_entry :: "(string \<Rightarrow> string \<Rightarrow> string option) \<Rightarrow> rule \<Rightarrow> (string \<times> string) list" where
  "rule_set_entry cached r = (if rtype r \<in> set geo_types
     then (case cached (rtype r) (rvalue r) of None \<Rightarrow> [] | Some path \<Rightarrow> [(set_tag (rtype r) (rvalue r), path)]) else [])"

definition rule_sets :: "(string \<Rightarrow> string \<Rightarrow> string option) \<Rightarrow> rule list \<Rightarrow> (string, string) dict" where
  "rule_sets cached rs = sorted_items (fold (\<lambda>(t, p) d. dset t p d) (concat (map (rule_set_entry cached) rs)) [])"

definition v6_reject :: route_rule where
  "v6_reject = reject ((on [tun_inbound_tag])\<lparr>rr_cidr := [''::/0'']\<rparr>)"

definition preamble :: "string list \<Rightarrow> bool \<Rightarrow> bool \<Rightarrow> bool \<Rightarrow> route_rule list" where
  "preamble entry tun lan some_v6 =
     [(on entry)\<lparr>rr_action := ''sniff''\<rparr>]
     @ (if lan then [(on entry)\<lparr>rr_network := [''udp''], rr_port := lan_direct_udp_ports, rr_outbound := ''direct''\<rparr>] else [])
     @ (if tun then [(on [tun_inbound_tag])\<lparr>rr_protocol := ''dns'', rr_action := ''hijack-dns''\<rparr>] else [])
     @ (if lan then [(on entry)\<lparr>rr_cidr := lan_direct_cidrs, rr_outbound := ''direct''\<rparr>] else [])
     @ (if tun \<and> \<not> some_v6 then [v6_reject] else [])"

definition postamble :: "string list \<Rightarrow> bool \<Rightarrow> bool \<Rightarrow> bool \<Rightarrow> route_rule list" where
  "postamble entry tun kill some_v6 =
     (if tun \<and> some_v6 then [v6_reject] else []) @ (if kill then [reject (on entry)] else [])"

record router_build =
  rb_inbounds :: "inbound list"
  rb_rules :: "route_rule list"
  rb_errors :: "ref_error list"
  rb_sets :: "(string, string) dict"

definition router_config :: "(string \<Rightarrow> string \<Rightarrow> string option) \<Rightarrow> string \<Rightarrow> string \<Rightarrow> int set \<Rightarrow> router \<Rightarrow> cref set \<Rightarrow> cref set \<Rightarrow> router_build" where
  "router_config cached listen platform held rt built v6 =
     (let blocked = (rt_port rt \<noteq> 0 \<and> rt_port rt \<in> held);
          port = (if blocked then 0 else rt_port rt);
          errs = (if blocked then [RouterPortHeld (rt_port rt)] else []);
          tun = rt_tun rt;
          entry = (if port \<noteq> 0 then [router_inbound] else []) @ (if tun then [tun_inbound_tag] else []);
          ins = (if port \<noteq> 0 then [Mixed router_inbound listen port] else []) @ (if tun then [tun_inbound platform] else []) in
      if entry = [] then \<lparr>rb_inbounds = ins, rb_rules = [], rb_errors = errs, rb_sets = []\<rparr>
      else (let cs = map (compile_rule cached entry tun built v6) (rt_rules rt) in
        \<lparr>rb_inbounds = ins,
         rb_rules = preamble entry tun (rt_lan_direct rt) (v6 \<noteq> {}) @ concat (map fst cs) @ postamble entry tun (rt_killswitch rt) (v6 \<noteq> {}),
         rb_errors = errs @ concat (map snd cs),
         rb_sets = rule_sets cached (rt_rules rt)\<rparr>))"

section \<open>The configuration\<close>

record channel_build =
  cb_inbounds :: "inbound list"
  cb_endpoints :: "jobj list"
  cb_rules :: "route_rule list"
  cb_errors :: "ref_error list"
  cb_built :: "cref list"
  cb_v6 :: "cref list"

definition build_channel :: "(nat \<Rightarrow> bool) \<Rightarrow> string \<Rightarrow> int \<Rightarrow> int set \<Rightarrow> channel \<Rightarrow> channel_build \<Rightarrow> (build_error, channel_build) result" where
  "build_channel glob listen mtu held ch b =
     (if \<not> c_enabled ch then Inr b
      else if c_port ch \<in> held then Inr (b\<lparr>cb_errors := cb_errors b @ [PortHeld (chan_ref ch) (c_port ch)]\<rparr>)
      else (case endpoint glob mtu ch of
          Inl (NoWireGuard r) \<Rightarrow> Inr (b\<lparr>cb_errors := cb_errors b @ [NotBuilt (chan_ref ch) (NoWireGuard r)]\<rparr>)
        | Inl (MissingKey k) \<Rightarrow> Inl (MissingKey k)
        | Inr ep \<Rightarrow> Inr \<lparr>cb_inbounds = cb_inbounds b @ [Mixed (ref_inbound (chan_ref ch)) listen (c_port ch)],
             cb_endpoints = cb_endpoints b @ [ep],
             cb_rules = cb_rules b @ [(on [ref_inbound (chan_ref ch)])\<lparr>rr_outbound := ref_outbound (chan_ref ch)\<rparr>],
             cb_errors = cb_errors b,
             cb_built = cb_built b @ [chan_ref ch],
             cb_v6 = (if channel_ipv6 glob ch then cb_v6 b @ [chan_ref ch] else cb_v6 b)\<rparr>))"

record sb_config =
  sc_inbounds :: "inbound list"
  sc_endpoints :: "jobj list"
  sc_rules :: "route_rule list"
  sc_sets :: "(string, string) dict"
  sc_api :: "string \<times> string"
  sc_dns :: "string option"

record engine_env =
  en_listen :: string
  en_mtu :: int
  en_platform :: string
  en_cached :: "string \<Rightarrow> string \<Rightarrow> string option"
  en_global :: "nat \<Rightarrow> bool"

definition build_config :: "engine_env \<Rightarrow> string \<times> string \<Rightarrow> int set \<Rightarrow> data \<Rightarrow> (build_error, sb_config \<times> ref_error list) result" where
  "build_config en api held d =
     bindR (foldR (build_channel (en_global en) (en_listen en) (en_mtu en) held) (channels d) \<lparr>cb_inbounds = [], cb_endpoints = [],
        cb_rules = [], cb_errors = [], cb_built = [], cb_v6 = []\<rparr>) (\<lambda>b.
     let rb = router_config (en_cached en) (en_listen en) (en_platform en) held (d_router d) (set (cb_built b)) (set (cb_v6 b)) in
     Inr (\<lparr>sc_inbounds = cb_inbounds b @ rb_inbounds rb, sc_endpoints = cb_endpoints b, sc_rules = cb_rules b @ rb_rules rb,
           sc_sets = rb_sets rb, sc_api = api,
           sc_dns = (if rt_tun (d_router d) then Some (if cb_v6 b \<noteq> [] then ''prefer_ipv4'' else ''ipv4_only'') else None)\<rparr>,
          cb_errors b @ rb_errors rb))"

end
