(* ===== verification/Policy.thy ===== *)
theory Policy
  imports Engine
begin

text \<open>
  What the generated rule table makes the engine do. The matching engine is an argument \<open>sb\<close>; what is
  relied on is its documented behaviour: the rules are tried in order, a rule matches when every field
  it has matches, its destination fields (domain suffixes, networks, rule sets) counting as one that any
  of their entries meets, \<open>sniff\<close> does not end the search, and unmatched connections take the final outbound.
  How a single field matches a connection is a further argument. The table is then compared with a
  policy written over the stored rules.
\<close>

section \<open>Verdicts of a route table\<close>

datatype verdict = Rejected | Hijacked | Out string

record 'c fields =
  fl_inbound :: "'c \<Rightarrow> string"
  fl_network :: "'c \<Rightarrow> string"
  fl_port :: "'c \<Rightarrow> int"
  fl_protocol :: "'c \<Rightarrow> string"
  fl_version :: "'c \<Rightarrow> int"
  fl_suffix :: "string \<Rightarrow> 'c \<Rightarrow> bool"
  fl_cidr :: "string \<Rightarrow> 'c \<Rightarrow> bool"
  fl_set :: "string \<Rightarrow> 'c \<Rightarrow> bool"

definition rule_holds :: "'c fields \<Rightarrow> 'c \<Rightarrow> route_rule \<Rightarrow> bool" where
  "rule_holds f c r =
     ((rr_inbound r = [] \<or> fl_inbound f c \<in> set (rr_inbound r))
      \<and> (rr_network r = [] \<or> fl_network f c \<in> set (rr_network r))
      \<and> (rr_port r = [] \<or> fl_port f c \<in> set (rr_port r))
      \<and> (rr_protocol r = [] \<or> fl_protocol f c = rr_protocol r)
      \<and> (rr_suffix r = [] \<and> rr_cidr r = [] \<and> rr_set r = []
         \<or> list_ex (\<lambda>s. fl_suffix f s c) (rr_suffix r) \<or> list_ex (\<lambda>s. fl_cidr f s c) (rr_cidr r) \<or> list_ex (\<lambda>s. fl_set f s c) (rr_set r))
      \<and> (case rr_version r of None \<Rightarrow> True | Some v \<Rightarrow> fl_version f c = v))"

definition outcome :: "route_rule \<Rightarrow> verdict" where
  "outcome r = (if rr_action r = ''reject'' then Rejected
     else if rr_action r = ''hijack-dns'' then Hijacked else Out (rr_outbound r))"

text \<open>The first rule that matches and ends the search.\<close>

definition first_rule :: "'c fields \<Rightarrow> route_rule list \<Rightarrow> 'c \<Rightarrow> verdict option" where
  "first_rule f rules c = map_option outcome (find (\<lambda>r. rule_holds f c r \<and> rr_action r \<noteq> ''sniff'') rules)"

text \<open>The documented behaviour of the matching engine.\<close>

definition obeys :: "'c fields \<Rightarrow> (route_rule list \<Rightarrow> string \<Rightarrow> 'c \<Rightarrow> verdict) \<Rightarrow> bool" where
  "obeys f sb = (\<forall>rules final c. sb rules final c = (case first_rule f rules c of None \<Rightarrow> Out final | Some v \<Rightarrow> v))"

lemma first_rule_Nil [simp]: "first_rule f [] c = None"
  by (simp add: first_rule_def)

lemma first_rule_Cons:
  "first_rule f (r # rs) c = (if rule_holds f c r \<and> rr_action r \<noteq> ''sniff'' then Some (outcome r) else first_rule f rs c)"
  by (simp add: first_rule_def)

lemma first_rule_append:
  "first_rule f (as @ bs) c = (case first_rule f as c of None \<Rightarrow> first_rule f bs c | Some v \<Rightarrow> Some v)"
  by (induction as) (auto simp: first_rule_Cons)

lemma first_rule_None: "\<forall>r \<in> set rs. \<not> rule_holds f c r \<Longrightarrow> first_rule f rs c = None"
  by (induction rs) (auto simp: first_rule_Cons)

section \<open>The policy over the stored rules\<close>

definition from_tun :: "'c fields \<Rightarrow> 'c \<Rightarrow> bool" where
  "from_tun f c = (fl_inbound f c = tun_inbound_tag)"

definition to_v6 :: "'c fields \<Rightarrow> 'c \<Rightarrow> bool" where
  "to_v6 f c = fl_cidr f ''::/0'' c"

definition stored_matches :: "'c fields \<Rightarrow> 'c \<Rightarrow> rule \<Rightarrow> bool" where
  "stored_matches f c r =
     (if rtype r = ''domain_suffix'' then fl_suffix f (rvalue r) c
      else if rtype r = ''ip_cidr'' then fl_cidr f (rvalue r) c
      else if rtype r \<in> set geo_types then fl_set f (set_tag (rtype r) (rvalue r)) c
      else rtype r = ''all'')"

definition uncached :: "(string \<Rightarrow> string \<Rightarrow> string option) \<Rightarrow> rule \<Rightarrow> bool" where
  "uncached cached r = (rtype r \<in> set geo_types \<and> cached (rtype r) (rvalue r) = None)"

definition rule_applies :: "(string \<Rightarrow> string \<Rightarrow> string option) \<Rightarrow> 'c fields \<Rightarrow> 'c \<Rightarrow> rule \<Rightarrow> bool" where
  "rule_applies cached f c r = (uncached cached r \<or> stored_matches f c r)"

definition rule_verdict :: "(string \<Rightarrow> string \<Rightarrow> string option) \<Rightarrow> 'c fields \<Rightarrow> bool \<Rightarrow> cref set \<Rightarrow> cref set \<Rightarrow> 'c \<Rightarrow> rule \<Rightarrow> verdict" where
  "rule_verdict cached f tun built v6 c r =
     (if uncached cached r then Rejected
      else if rtarget r = ''direct'' then Out ''direct''
      else if rtarget r = ''block'' then Rejected
      else (let t = target_ref (rtarget r) in
        if t \<notin> built then Rejected
        else if tun \<and> v6 \<noteq> {} \<and> t \<notin> v6 \<and> fl_version f c = 6 then Rejected
        else Out (ref_outbound t)))"

definition unmatched :: "'c fields \<Rightarrow> router \<Rightarrow> cref set \<Rightarrow> 'c \<Rightarrow> verdict" where
  "unmatched f rt v6 c =
     (if rt_tun rt \<and> v6 \<noteq> {} \<and> from_tun f c \<and> to_v6 f c then Rejected
      else if rt_killswitch rt then Rejected else Out ''direct'')"

definition policy :: "(string \<Rightarrow> string \<Rightarrow> string option) \<Rightarrow> 'c fields \<Rightarrow> router \<Rightarrow> cref set \<Rightarrow> cref set \<Rightarrow> 'c \<Rightarrow> verdict" where
  "policy cached f rt built v6 c =
     (if rt_lan_direct rt \<and> fl_network f c = ''udp'' \<and> fl_port f c \<in> set lan_direct_udp_ports then Out ''direct''
      else if rt_tun rt \<and> from_tun f c \<and> fl_protocol f c = ''dns'' then Hijacked
      else if rt_lan_direct rt \<and> list_ex (\<lambda>n. fl_cidr f n c) lan_direct_cidrs then Out ''direct''
      else if rt_tun rt \<and> v6 = {} \<and> from_tun f c \<and> to_v6 f c then Rejected
      else (case find (rule_applies cached f c) (rt_rules rt) of
          Some r \<Rightarrow> rule_verdict cached f (rt_tun rt) built v6 c r
        | None \<Rightarrow> unmatched f rt v6 c))"

section \<open>The compiled table implements the policy\<close>

lemma rule_holds_on [simp]:
  "rule_holds f c (on entry) \<longleftrightarrow> entry = [] \<or> fl_inbound f c \<in> set entry"
  by (simp add: rule_holds_def on_def)

lemma on_select [simp]:
  "rr_action (on e) = []" "rr_outbound (on e) = []" "rr_inbound (on e) = e"
  by (simp_all add: on_def)

lemma outcome_reject [simp]: "outcome (reject r) = Rejected" "rr_action (reject r) = ''reject''"
  by (simp_all add: outcome_def reject_def)

lemma rule_holds_reject [simp]: "rule_holds f c (reject r) = rule_holds f c r"
  by (simp add: rule_holds_def reject_def)

lemma rule_holds_outbound [simp]:
  "rule_holds f c (r\<lparr>rr_outbound := t\<rparr>) = rule_holds f c r"
  "rule_holds f c (r\<lparr>rr_action := a\<rparr>) = rule_holds f c r"
  by (simp_all add: rule_holds_def)

lemma geo_type_names: "''domain_suffix'' \<notin> set geo_types" "''ip_cidr'' \<notin> set geo_types" "''all'' \<notin> set geo_types"
  by (simp_all add: geo_types_def)

lemma compile_cases:
  obtains (suffix) "rtype r = ''domain_suffix''" "compile_matcher cached entry r = Fields ((on entry)\<lparr>rr_suffix := [rvalue r]\<rparr>)"
  | (cidr) "rtype r = ''ip_cidr''" "compile_matcher cached entry r = Fields ((on entry)\<lparr>rr_cidr := [rvalue r]\<rparr>)"
  | (geo) path where "rtype r \<in> set geo_types" "cached (rtype r) (rvalue r) = Some path"
      "compile_matcher cached entry r = Fields ((on entry)\<lparr>rr_set := [set_tag (rtype r) (rvalue r)]\<rparr>)"
  | (lost) "rtype r \<in> set geo_types" "cached (rtype r) (rvalue r) = None" "compile_matcher cached entry r = Uncached"
  | (all) "rtype r = ''all''" "compile_matcher cached entry r = Fields (on entry)"
  | (unknown) "rtype r \<noteq> ''domain_suffix''" "rtype r \<noteq> ''ip_cidr''" "rtype r \<notin> set geo_types" "rtype r \<noteq> ''all''"
      "compile_matcher cached entry r = UnknownType"
proof -
  consider "rtype r = ''domain_suffix''" | "rtype r = ''ip_cidr''" | "rtype r \<in> set geo_types" | "rtype r = ''all''"
    | "rtype r \<noteq> ''domain_suffix''" "rtype r \<noteq> ''ip_cidr''" "rtype r \<notin> set geo_types" "rtype r \<noteq> ''all''" by blast
  then show ?thesis
  proof cases
    case 3
    then have "rtype r \<noteq> ''domain_suffix''" "rtype r \<noteq> ''ip_cidr''" using geo_type_names by metis+
    with 3 show ?thesis by (cases "cached (rtype r) (rvalue r)") (simp_all add: compile_matcher_def geo lost)
  qed (simp_all add: compile_matcher_def suffix cidr all unknown geo_type_names)
qed

lemma compiled_matcher:
  assumes "fl_inbound f c \<in> set entry"
  shows "case compile_matcher cached entry r of
      Fields m \<Rightarrow> rule_holds f c m = stored_matches f c r \<and> rr_action m = [] \<and> rr_version m = None \<and> \<not> uncached cached r
    | Uncached \<Rightarrow> uncached cached r
    | UnknownType \<Rightarrow> \<not> rule_applies cached f c r"
proof (cases rule: compile_cases[of r cached entry])
  case geo
  then have "rtype r \<noteq> ''domain_suffix''" "rtype r \<noteq> ''ip_cidr''" using geo_type_names by metis+
  with geo assms show ?thesis by (simp add: stored_matches_def uncached_def rule_holds_def on_def)
qed (use assms geo_type_names in \<open>simp_all add: stored_matches_def uncached_def rule_applies_def rule_holds_def on_def\<close>)

lemma compiled_rule:
  assumes "fl_inbound f c \<in> set entry"
  shows "first_rule f (fst (compile_rule cached entry tun built v6 r)) c =
    (if rule_applies cached f c r then Some (rule_verdict cached f tun built v6 c r) else None)"
proof (cases "compile_matcher cached entry r")
  case (Fields m)
  with compiled_matcher[OF assms, where r = r and cached = cached]
  have m: "rule_holds f c m = stored_matches f c r" "rr_action m = []" "rr_version m = None" "\<not> uncached cached r" by auto
  have g: "rule_holds f c (m\<lparr>rr_version := Some 6\<rparr>) = (rule_holds f c m \<and> fl_version f c = 6)"
    using m(3) by (auto simp: rule_holds_def)
  show ?thesis
    using m by (simp add: compile_rule_def Fields first_rule_Cons rule_applies_def rule_verdict_def g Let_def outcome_def)
next
  case Uncached
  with compiled_matcher[OF assms, where r = r and cached = cached] have "uncached cached r" by simp
  with assms Uncached show ?thesis by (simp add: compile_rule_def first_rule_Cons rule_applies_def rule_verdict_def)
next
  case UnknownType
  with compiled_matcher[OF assms, where r = r and cached = cached] have "\<not> rule_applies cached f c r" by simp
  with UnknownType show ?thesis by (simp add: compile_rule_def)
qed

lemma compiled_rules:
  assumes "fl_inbound f c \<in> set entry"
  shows "first_rule f (concat (map (fst \<circ> compile_rule cached entry tun built v6) rs)) c =
    map_option (rule_verdict cached f tun built v6 c) (find (rule_applies cached f c) rs)"
  by (induction rs) (simp_all add: first_rule_append compiled_rule[OF assms])


text \<open>The inbounds that share the rule table.\<close>

definition live_port :: "int set \<Rightarrow> router \<Rightarrow> int" where
  "live_port held rt = (if rt_port rt \<in> held then 0 else rt_port rt)"

definition shared_inbounds :: "int set \<Rightarrow> router \<Rightarrow> string list" where
  "shared_inbounds held rt = (if live_port held rt \<noteq> 0 then [router_inbound] else []) @ (if rt_tun rt then [tun_inbound_tag] else [])"

lemma router_rules:
  "rb_rules (router_config cached listen platform held rt built v6) = (let e = shared_inbounds held rt in
     if e = [] then []
     else preamble e (rt_tun rt) (rt_lan_direct rt) (v6 \<noteq> {})
       @ concat (map (fst \<circ> compile_rule cached e (rt_tun rt) built v6) (rt_rules rt))
       @ postamble e (rt_tun rt) (rt_killswitch rt) (v6 \<noteq> {}))"
  by (simp add: router_config_def shared_inbounds_def live_port_def Let_def)

lemma cidrs_nonempty: "lan_direct_cidrs \<noteq> []" "lan_direct_udp_ports \<noteq> []"
  by (simp_all add: lan_direct_cidrs_def lan_direct_udp_ports_def)

lemma v6_reject_holds: "rule_holds f c v6_reject = (from_tun f c \<and> to_v6 f c)"
  by (simp add: v6_reject_def) (simp add: rule_holds_def on_def from_tun_def to_v6_def)

lemma v6_reject_action: "rr_action v6_reject = ''reject''" "outcome v6_reject = Rejected"
  by (simp_all add: v6_reject_def)

lemma preamble_verdict:
  assumes "fl_inbound f c \<in> set e"
  shows "first_rule f (preamble e tun lan some_v6) c =
    (if lan \<and> fl_network f c = ''udp'' \<and> fl_port f c \<in> set lan_direct_udp_ports then Some (Out ''direct'')
     else if tun \<and> from_tun f c \<and> fl_protocol f c = ''dns'' then Some Hijacked
     else if lan \<and> list_ex (\<lambda>n. fl_cidr f n c) lan_direct_cidrs then Some (Out ''direct'')
     else if tun \<and> \<not> some_v6 \<and> from_tun f c \<and> to_v6 f c then Some Rejected else None)"
proof -
  have sniff: "first_rule f [(on e)\<lparr>rr_action := ''sniff''\<rparr>] c = None" by (simp add: first_rule_Cons)
  have ports: "rule_holds f c ((on e)\<lparr>rr_network := [''udp''], rr_port := lan_direct_udp_ports, rr_outbound := ''direct''\<rparr>)
      = (fl_network f c = ''udp'' \<and> fl_port f c \<in> set lan_direct_udp_ports)"
    using assms cidrs_nonempty by (simp add: rule_holds_def on_def)
  have dns: "rule_holds f c ((on [tun_inbound_tag])\<lparr>rr_protocol := ''dns'', rr_action := ''hijack-dns''\<rparr>)
      = (from_tun f c \<and> fl_protocol f c = ''dns'')"
    by (simp add: rule_holds_def on_def from_tun_def)
  have cidr: "rule_holds f c ((on e)\<lparr>rr_cidr := lan_direct_cidrs, rr_outbound := ''direct''\<rparr>)
      = list_ex (\<lambda>n. fl_cidr f n c) lan_direct_cidrs"
    using assms cidrs_nonempty by (simp add: rule_holds_def on_def)
  show ?thesis
    by (cases lan; cases tun; cases some_v6)
      (simp_all del: rule_holds_outbound add: preamble_def first_rule_append sniff first_rule_Cons ports dns cidr
        v6_reject_holds v6_reject_action, simp_all add: outcome_def)
qed

lemma postamble_verdict:
  assumes "fl_inbound f c \<in> set e"
  shows "(case first_rule f (postamble e tun kill some_v6) c of None \<Rightarrow> Out ''direct'' | Some v \<Rightarrow> v) =
    (if tun \<and> some_v6 \<and> from_tun f c \<and> to_v6 f c then Rejected else if kill then Rejected else Out ''direct'')"
  using assms by (simp add: postamble_def first_rule_append first_rule_Cons v6_reject_holds v6_reject_action)

lemma verdict_chain:
  "(case (case (if A then Some x else if B then Some y else if C then Some z else if D then Some w else None) of
      Some v \<Rightarrow> Some v | None \<Rightarrow> q) of None \<Rightarrow> w0 | Some v \<Rightarrow> v)
   = (if A then x else if B then y else if C then z else if D then w else (case q of None \<Rightarrow> w0 | Some v \<Rightarrow> v))"
  by simp

lemma verdict_find:
  "(case (case m of Some r \<Rightarrow> Some (g r) | None \<Rightarrow> p) of None \<Rightarrow> w0 | Some v \<Rightarrow> v)
   = (case m of Some r \<Rightarrow> g r | None \<Rightarrow> (case p of None \<Rightarrow> w0 | Some v \<Rightarrow> v))"
  by (cases m) simp_all

lemma table_is_policy:
  assumes "fl_inbound f c \<in> set (shared_inbounds held rt)"
  shows "(case first_rule f (rb_rules (router_config cached listen platform held rt built v6)) c of
      None \<Rightarrow> Out ''direct'' | Some v \<Rightarrow> v) = policy cached f rt built v6 c"
proof -
  let ?e = "shared_inbounds held rt"
  obtain p where p: "p = first_rule f (postamble ?e (rt_tun rt) (rt_killswitch rt) (v6 \<noteq> {})) c" by simp
  have post: "(case p of None \<Rightarrow> Out ''direct'' | Some v \<Rightarrow> v) = unmatched f rt v6 c"
    unfolding p postamble_verdict[OF assms] by (simp add: unmatched_def)
  from assms have "?e \<noteq> []" by auto
  then have "first_rule f (rb_rules (router_config cached listen platform held rt built v6)) c =
      (case first_rule f (preamble ?e (rt_tun rt) (rt_lan_direct rt) (v6 \<noteq> {})) c of Some v \<Rightarrow> Some v
       | None \<Rightarrow> (case find (rule_applies cached f c) (rt_rules rt) of
            Some r \<Rightarrow> Some (rule_verdict cached f (rt_tun rt) built v6 c r) | None \<Rightarrow> p))"
    unfolding router_rules Let_def p by (simp add: first_rule_append compiled_rules[OF assms] split: option.split)
  then show ?thesis
    unfolding policy_def by (simp only: preamble_verdict[OF assms] verdict_chain not_not, simp only: verdict_find post)
qed

section \<open>The channels' own rules\<close>

lemma inbound_tags_differ: "ref_inbound r \<noteq> router_inbound" "ref_inbound r \<noteq> tun_inbound_tag"
proof -
  have "CHR ''-'' \<in> set (drop 3 (ref_inbound r))" by (simp add: ref_inbound_def inbound_tag_def)
  moreover have "CHR ''-'' \<notin> set (drop 3 router_inbound)" "CHR ''-'' \<notin> set (drop 3 tun_inbound_tag)"
    by (simp_all add: router_inbound_def tun_inbound_tag_def)
  ultimately show "ref_inbound r \<noteq> router_inbound" "ref_inbound r \<noteq> tun_inbound_tag" by metis+
qed

text \<open>A channel that the configuration carries: enabled, on a port that is not held, with tunnel
  parameters. The IPv6 ones among them.\<close>

definition is_built :: "int set \<Rightarrow> channel \<Rightarrow> bool" where
  "is_built held ch = (c_enabled ch \<and> c_port ch \<notin> held \<and> c_wg ch \<noteq> [] \<and> dget (c_wg ch) ''peer'' \<noteq> None)"

definition built_refs :: "int set \<Rightarrow> data \<Rightarrow> cref set" where
  "built_refs held d = set (map chan_ref (filter (is_built held) (channels d)))"

definition v6_refs :: "(nat \<Rightarrow> bool) \<Rightarrow> int set \<Rightarrow> data \<Rightarrow> cref set" where
  "v6_refs glob held d = set (map chan_ref (filter (\<lambda>ch. is_built held ch \<and> channel_ipv6 glob ch) (channels d)))"

definition channel_rule :: "channel \<Rightarrow> route_rule" where
  "channel_rule ch = (on [ref_inbound (chan_ref ch)])\<lparr>rr_outbound := ref_outbound (chan_ref ch)\<rparr>"

lemma endpoint_cases:
  "endpoint glob mtu ch = Inl (NoWireGuard r) \<Longrightarrow> c_wg ch = [] \<or> dget (c_wg ch) ''peer'' = None"
  "endpoint glob mtu ch = Inr ep \<Longrightarrow> c_wg ch \<noteq> [] \<and> dget (c_wg ch) ''peer'' \<noteq> None"
  by (auto simp: endpoint_def Let_def need_def bindR_eq_Inl split: if_splits option.splits)

lemma build_channel_adds:
  assumes "build_channel glob listen mtu held ch b = Inr b'"
  shows "cb_rules b' = cb_rules b @ (if is_built held ch then [channel_rule ch] else [])
    \<and> cb_built b' = cb_built b @ (if is_built held ch then [chan_ref ch] else [])
    \<and> cb_v6 b' = cb_v6 b @ (if is_built held ch \<and> channel_ipv6 glob ch then [chan_ref ch] else [])"
proof (cases "\<not> c_enabled ch \<or> c_port ch \<in> held")
  case True
  with assms show ?thesis by (auto simp: build_channel_def is_built_def split: if_splits)
next
  case False
  show ?thesis
  proof (cases "endpoint glob mtu ch")
    case (Inl x)
    with assms False show ?thesis using endpoint_cases(1)[of glob mtu ch]
      by (cases x) (auto simp: build_channel_def is_built_def)
  next
    case (Inr ep)
    with assms False show ?thesis using endpoint_cases(2)[OF Inr]
      by (auto simp: build_channel_def is_built_def channel_rule_def)
  qed
qed

lemma build_channels:
  assumes "foldR (build_channel glob listen mtu held) chs b = Inr b'"
  shows "cb_rules b' = cb_rules b @ map channel_rule (filter (is_built held) chs)
    \<and> cb_built b' = cb_built b @ map chan_ref (filter (is_built held) chs)
    \<and> cb_v6 b' = cb_v6 b @ map chan_ref (filter (\<lambda>ch. is_built held ch \<and> channel_ipv6 glob ch) chs)"
  using assms
proof (induction chs arbitrary: b)
  case (Cons ch chs)
  from Cons.prems obtain b1 where b1: "build_channel glob listen mtu held ch b = Inr b1"
    and r: "foldR (build_channel glob listen mtu held) chs b1 = Inr b'" by (auto simp: bindR_eq_Inr)
  from build_channel_adds[OF b1] Cons.IH[OF r] show ?case by auto
qed simp

lemma built_table:
  assumes "build_config en api held d = Inr (cfg, errs)"
  shows "sc_rules cfg = map channel_rule (filter (is_built held) (channels d))
    @ rb_rules (router_config (en_cached en) (en_listen en) (en_platform en) held (d_router d)
        (built_refs held d) (v6_refs (en_global en) held d))"
proof -
  let ?b0 = "\<lparr>cb_inbounds = [], cb_endpoints = [], cb_rules = [], cb_errors = [], cb_built = [], cb_v6 = []\<rparr>"
  from assms obtain b where b: "foldR (build_channel (en_global en) (en_listen en) (en_mtu en) held) (channels d) ?b0 = Inr b"
    and c: "sc_rules cfg = cb_rules b @ rb_rules (router_config (en_cached en) (en_listen en) (en_platform en) held (d_router d)
        (set (cb_built b)) (set (cb_v6 b)))"
    by (auto simp: build_config_def Let_def bindR_eq_Inr)
  from build_channels[OF b] show ?thesis unfolding c built_refs_def v6_refs_def by simp
qed

lemma engine_table:
  assumes "obeys f sb" "build_config en api held d = Inr (cfg, errs)"
    "fl_inbound f c \<in> set (shared_inbounds held (d_router d))"
  shows "sb (sc_rules cfg) ''direct'' c =
    policy (en_cached en) f (d_router d) (built_refs held d) (v6_refs (en_global en) held d) c"
proof -
  have "fl_inbound f c = router_inbound \<or> fl_inbound f c = tun_inbound_tag"
    using assms(3) by (auto simp: shared_inbounds_def split: if_splits)
  then have "first_rule f (map channel_rule (filter (is_built held) (channels d))) c = None"
    by (intro first_rule_None) (auto simp: channel_rule_def inbound_tags_differ[symmetric])
  then show ?thesis
    using assms(1) table_is_policy[OF assms(3)] by (simp add: obeys_def built_table[OF assms(2)] first_rule_append)
qed


text \<open>C2: a connection that enters at one of the shared inbounds (router or tun) is treated by the
  engine's generated table exactly as the policy over the stored rules says: LAN and DNS built-ins
  first, then the first stored rule that applies, with IPv6 refused on channels that cannot carry it,
  unusable channels and uncached categories refused, then the IPv6 catch-all, the kill switch, and
  the direct outbound.\<close>

theorem table_refines_policy:
  assumes "obeys f sb" "build_config en api held d = Inr (cfg, errs)"
    "fl_inbound f c \<in> set (shared_inbounds held (d_router d))"
  shows "sb (sc_rules cfg) ''direct'' c =
    policy (en_cached en) f (d_router d) (built_refs held d) (v6_refs (en_global en) held d) c"
  by (rule engine_table[OF assms])

section \<open>A concrete table\<close>

definition sample_chan :: chan where
  "sample_chan = \<lparr>ch_country = ''United States'', ch_city = [], ch_port = 8888,
     ch_wg = [(''private_key'', JStr ''k''), (''address'', JArr [JStr ''10.5.0.2/32'']),
       (''peer'', JObj [(''endpoint_host'', JStr ''192.0.2.7''), (''endpoint_port'', JNum 51820), (''public_key'', JStr ''p''),
          (''allowed_ips'', JArr [JStr ''0.0.0.0/0'']), (''keepalive'', JNum 25)])],
     ch_probe = None, ch_reconnect = None, ch_label = [], ch_server = [], ch_enabled = True, ch_port_explicit = False,
     ch_port_home = None, ch_managed = False\<rparr>"

definition sample_rule :: "string \<Rightarrow> string \<Rightarrow> string \<Rightarrow> string \<Rightarrow> rule" where
  "sample_rule i t v target = \<lparr>rid = i, rtype = t, rvalue = v, rtarget = target, rruleset = ''g'', rname = None, rmanaged = False\<rparr>"

definition sample_data :: "rule list \<Rightarrow> data" where
  "sample_data rs = blank\<lparr>d_providers := [(''nordvpn'', \<lparr>pv_channels = [(''us'', sample_chan)], pv_managed = False\<rparr>)],
     d_router := \<lparr>rt_port = 0, rt_port_explicit = False, rt_port_home = None, rt_killswitch = True, rt_lan_direct = True,
       rt_tun = True, rt_rules = rs\<rparr>\<rparr>"

definition sample_env :: engine_env where
  "sample_env = \<lparr>en_listen = loopback, en_mtu = 1280, en_platform = ''linux'', en_cached = (\<lambda>t n. None), en_global = (\<lambda>a. False)\<rparr>"

text \<open>Connections given by their inbound and domain.\<close>

definition sample_fields :: "(string \<times> string) fields" where
  "sample_fields = \<lparr>fl_inbound = fst, fl_network = (\<lambda>_. ''tcp''), fl_port = (\<lambda>_. 443), fl_protocol = (\<lambda>_. ''tls''),
     fl_version = (\<lambda>_. 4), fl_suffix = (\<lambda>s c. domain_suffix_matches s (snd c)), fl_cidr = (\<lambda>_ _. False), fl_set = (\<lambda>_ _. False)\<rparr>"

definition sample_engine :: "'c fields \<Rightarrow> route_rule list \<Rightarrow> string \<Rightarrow> 'c \<Rightarrow> verdict" where
  "sample_engine f rules final c = (case first_rule f rules c of None \<Rightarrow> Out final | Some v \<Rightarrow> v)"

lemma sample_obeys: "obeys f (sample_engine f)"
  by (simp add: obeys_def sample_engine_def)

definition sample_rules :: "rule list" where
  "sample_rules = [sample_rule ''r1'' ''domain_suffix'' ''netflix.com'' ''nordvpn/us'', sample_rule ''r2'' ''geosite'' ''cn'' ''direct'']"

lemma sample_build: "\<exists>cfg errs. build_config sample_env ([], []) {} (sample_data sample_rules) = Inr (cfg, errs)"
proof -
  have "(case build_config sample_env ([], []) {} (sample_data sample_rules) of Inl _ \<Rightarrow> False | Inr _ \<Rightarrow> True)" by code_simp
  then show ?thesis by (cases "build_config sample_env ([], []) {} (sample_data sample_rules)") auto
qed

lemma table_refines_policy_witness:
  "\<exists>cfg errs. build_config sample_env ([], []) {} (sample_data sample_rules) = Inr (cfg, errs)
    \<and> sample_engine sample_fields (sc_rules cfg) ''direct'' (tun_inbound_tag, ''www.netflix.com'') = Out ''out-nordvpn-us''"
proof -
  obtain cfg errs where b: "build_config sample_env ([], []) {} (sample_data sample_rules) = Inr (cfg, errs)"
    using sample_build by blast
  have i: "fl_inbound sample_fields (tun_inbound_tag, ''www.netflix.com'') \<in> set (shared_inbounds {} (d_router (sample_data sample_rules)))"
    by code_simp
  have p: "policy (en_cached sample_env) sample_fields (d_router (sample_data sample_rules)) (built_refs {} (sample_data sample_rules))
      (v6_refs (en_global sample_env) {} (sample_data sample_rules)) (tun_inbound_tag, ''www.netflix.com'') = Out ''out-nordvpn-us''"
    by code_simp
  from table_refines_policy[OF sample_obeys b i] p b show ?thesis by auto
qed

section \<open>Nothing leaks\<close>

lemma applied_verdict:
  assumes "find (rule_applies cached f c) rs = Some r" "rule_verdict cached f tun built v6 c r = Out t"
  shows "(r \<in> set rs \<and> rtarget r = ''direct'' \<and> stored_matches f c r \<and> t = ''direct'')
    \<or> (target_ref (rtarget r) \<in> built \<and> t = ref_outbound (target_ref (rtarget r))
       \<and> (tun \<and> v6 \<noteq> {} \<and> fl_version f c = 6 \<longrightarrow> target_ref (rtarget r) \<in> v6))"
proof -
  have "r \<in> set rs" "rule_applies cached f c r" using assms(1) by (auto simp: find_Some_iff)
  then show ?thesis using assms(2) by (auto simp: rule_verdict_def rule_applies_def Let_def split: if_splits)
qed

definition lan_builtin :: "'c fields \<Rightarrow> router \<Rightarrow> 'c \<Rightarrow> bool" where
  "lan_builtin f rt c = (rt_lan_direct rt \<and> (fl_network f c = ''udp'' \<and> fl_port f c \<in> set lan_direct_udp_ports
     \<or> list_ex (\<lambda>n. fl_cidr f n c) lan_direct_cidrs))"

definition direct_rule :: "'c fields \<Rightarrow> router \<Rightarrow> 'c \<Rightarrow> bool" where
  "direct_rule f rt c = list_ex (\<lambda>r. rtarget r = ''direct'' \<and> stored_matches f c r) (rt_rules rt)"

lemma policy_out:
  assumes "policy cached f rt built v6 c = Out t"
  shows "(t = ''direct'' \<and> (lan_builtin f rt c \<or> direct_rule f rt c))
    \<or> (\<exists>ref \<in> built. t = ref_outbound ref \<and> (rt_tun rt \<and> from_tun f c \<and> to_v6 f c \<and> fl_version f c = 6 \<longrightarrow> ref \<in> v6))
    \<or> (t = ''direct'' \<and> \<not> rt_killswitch rt \<and> \<not> (rt_tun rt \<and> from_tun f c \<and> to_v6 f c))"
proof (cases "lan_builtin f rt c")
  case True
  then show ?thesis using assms by (auto simp: policy_def lan_builtin_def split: if_splits)
next
  case False
  then have l: "\<not> (rt_lan_direct rt \<and> fl_network f c = ''udp'' \<and> fl_port f c \<in> set lan_direct_udp_ports)"
    "\<not> (rt_lan_direct rt \<and> list_ex (\<lambda>n. fl_cidr f n c) lan_direct_cidrs)" by (auto simp: lan_builtin_def)
  have d: "\<not> (rt_tun rt \<and> v6 = {} \<and> from_tun f c \<and> to_v6 f c)" "\<not> (rt_tun rt \<and> from_tun f c \<and> fl_protocol f c = ''dns'')"
    using assms by (auto simp: policy_def l split: if_splits)
  show ?thesis
  proof (cases "find (rule_applies cached f c) (rt_rules rt)")
    case None
    then have "unmatched f rt v6 c = Out t" using assms l d by (simp add: policy_def)
    with d show ?thesis by (auto simp: unmatched_def split: if_splits)
  next
    case (Some r)
    then have "rule_verdict cached f (rt_tun rt) built v6 c r = Out t" using assms l d by (simp add: policy_def)
    from applied_verdict[OF Some this] d show ?thesis by (auto simp: direct_rule_def list_ex_iff)
  qed
qed

text \<open>C3: under the kill switch, and for IPv6 connections captured by the tunnel device, no connection
  at a shared inbound leaves outside a tunnel unless the LAN built-in or a stored rule with target
  direct covers it; and such an IPv6 connection never leaves by a channel that cannot carry IPv6.\<close>

theorem no_leak:
  assumes "obeys f sb" "build_config en api held d = Inr (cfg, errs)"
    "fl_inbound f c \<in> set (shared_inbounds held (d_router d))"
    "sb (sc_rules cfg) ''direct'' c = Out t"
    "rt_killswitch (d_router d) \<or> (rt_tun (d_router d) \<and> from_tun f c \<and> to_v6 f c \<and> fl_version f c = 6)"
  shows "(t = ''direct'' \<and> (lan_builtin f (d_router d) c \<or> direct_rule f (d_router d) c))
    \<or> (\<exists>ref. ref \<in> (if rt_tun (d_router d) \<and> from_tun f c \<and> to_v6 f c \<and> fl_version f c = 6
          then v6_refs (en_global en) held d else built_refs held d) \<and> t = ref_outbound ref)"
proof -
  let ?six = "rt_tun (d_router d) \<and> from_tun f c \<and> to_v6 f c \<and> fl_version f c = 6"
  have "policy (en_cached en) f (d_router d) (built_refs held d) (v6_refs (en_global en) held d) c = Out t"
    using engine_table[OF assms(1-3)] assms(4) by simp
  from policy_out[OF this] assms(5) show ?thesis by (cases ?six) auto
qed

lemma no_leak_witness:
  "\<exists>cfg errs. build_config sample_env ([], []) {} (sample_data sample_rules) = Inr (cfg, errs)
    \<and> sample_engine sample_fields (sc_rules cfg) ''direct'' (tun_inbound_tag, ''www.netflix.com'') = Out ''out-nordvpn-us''
    \<and> (\<exists>ref. ref \<in> built_refs {} (sample_data sample_rules) \<and> ''out-nordvpn-us'' = ref_outbound ref)"
proof -
  obtain cfg errs where b: "build_config sample_env ([], []) {} (sample_data sample_rules) = Inr (cfg, errs)"
    using sample_build by blast
  have i: "fl_inbound sample_fields (tun_inbound_tag, ''www.netflix.com'') \<in> set (shared_inbounds {} (d_router (sample_data sample_rules)))"
    by code_simp
  have p: "policy (en_cached sample_env) sample_fields (d_router (sample_data sample_rules)) (built_refs {} (sample_data sample_rules))
      (v6_refs (en_global sample_env) {} (sample_data sample_rules)) (tun_inbound_tag, ''www.netflix.com'') = Out ''out-nordvpn-us''"
    by code_simp
  have k: "rt_killswitch (d_router (sample_data sample_rules))" "fl_version sample_fields c \<noteq> 6" for c by (simp_all add: sample_data_def sample_fields_def)
  have s: "sample_engine sample_fields (sc_rules cfg) ''direct'' (tun_inbound_tag, ''www.netflix.com'') = Out ''out-nordvpn-us''"
    using engine_table[OF sample_obeys b i] p by simp
  have ne: "''out-nordvpn-us'' \<noteq> ''direct''" by simp
  have "\<exists>ref. ref \<in> built_refs {} (sample_data sample_rules) \<and> ''out-nordvpn-us'' = ref_outbound ref"
    using no_leak[where f = sample_fields, OF sample_obeys b i s, OF disjI1, OF k(1)] k(2)[of "(tun_inbound_tag, ''www.netflix.com'')"] ne
    by (simp only: simp_thms if_False)
  with b s show ?thesis by blast
qed

text \<open>A connection to a channel's own proxy port always leaves through that channel, whatever the
  rule table says.\<close>

theorem channel_never_demoted:
  assumes "obeys f sb" "build_config en api held d = Inr (cfg, errs)"
    "ch \<in> set (channels d)" "is_built held ch" "fl_inbound f c = ref_inbound (chan_ref ch)"
  shows "sb (sc_rules cfg) final c = Out (ref_outbound (chan_ref ch))"
proof -
  let ?rs = "map channel_rule (filter (is_built held) (channels d))"
  let ?P = "\<lambda>r. rule_holds f c r \<and> rr_action r \<noteq> ''sniff''"
  have h: "?P (channel_rule x) \<longleftrightarrow> ref_inbound (chan_ref x) = ref_inbound (chan_ref ch)" for x
    using assms(5) by (auto simp: channel_rule_def)
  have "channel_rule ch \<in> set ?rs" using assms(3,4) by auto
  then obtain r where r: "find ?P ?rs = Some r" using h[of ch] by (cases "find ?P ?rs") (auto simp: find_None_iff)
  then obtain x where x: "r = channel_rule x" "?P r" by (auto simp: find_Some_iff)
  then have "ref_inbound (chan_ref x) = ref_inbound (chan_ref ch)" using h[of x] by simp
  then have "outcome r = Out (ref_outbound (chan_ref ch))"
    by (simp add: x(1) outcome_def channel_rule_def ref_inbound_def inbound_tag_def ref_outbound_def outbound_tag_def)
  then have "first_rule f ?rs c = Some (Out (ref_outbound (chan_ref ch)))" using r by (simp add: first_rule_def)
  then show ?thesis using assms(1) by (simp add: obeys_def built_table[OF assms(2)] first_rule_append)
qed

lemma channel_never_demoted_witness:
  "\<exists>cfg errs. build_config sample_env ([], []) {} (sample_data sample_rules) = Inr (cfg, errs)
    \<and> sample_engine sample_fields (sc_rules cfg) ''direct'' (''in-nordvpn-us'', ''example.org'') = Out ''out-nordvpn-us''"
proof -
  obtain cfg errs where b: "build_config sample_env ([], []) {} (sample_data sample_rules) = Inr (cfg, errs)"
    using sample_build by blast
  let ?ch = "channel_view ''nordvpn'' ''us'' sample_chan"
  have c: "?ch \<in> set (channels (sample_data sample_rules))" "is_built {} ?ch"
    "fl_inbound sample_fields (''in-nordvpn-us'', ''example.org'') = ref_inbound (chan_ref ?ch)"
    "ref_outbound (chan_ref ?ch) = ''out-nordvpn-us''" by code_simp+
  from channel_never_demoted[OF sample_obeys b c(1-3)] c(4) b show ?thesis by metis
qed

text \<open>A stored geo rule whose category is not cached rejects every connection that no earlier rule
  takes, not only the connections of its category, although the engine reports it as blocking matching
  traffic.\<close>

theorem uncached_rule_blocks_everything:
  assumes "obeys f sb" "build_config en api held d = Inr (cfg, errs)"
    "fl_inbound f c \<in> set (shared_inbounds held (d_router d))"
    "rt_rules (d_router d) = before @ r # after" "find (rule_applies (en_cached en) f c) before = None"
    "uncached (en_cached en) r" "\<not> lan_builtin f (d_router d) c" "fl_protocol f c \<noteq> ''dns''"
  shows "sb (sc_rules cfg) ''direct'' c = Rejected"
proof -
  have "find (rule_applies (en_cached en) f c) (rt_rules (d_router d)) = Some r"
    using assms(5,6) unfolding assms(4) by (induction before) (auto simp: rule_applies_def split: if_splits)
  then show ?thesis
    unfolding engine_table[OF assms(1-3)] using assms(6-8) by (auto simp: policy_def lan_builtin_def rule_verdict_def)
qed

lemma uncached_rule_blocks_everything_witness:
  "\<exists>cfg errs. build_config sample_env ([], []) {} (sample_data sample_rules) = Inr (cfg, errs)
    \<and> sample_engine sample_fields (sc_rules cfg) ''direct'' (tun_inbound_tag, ''example.org'') = Rejected"
proof -
  obtain cfg errs where b: "build_config sample_env ([], []) {} (sample_data sample_rules) = Inr (cfg, errs)"
    using sample_build by blast
  let ?c = "(tun_inbound_tag, ''example.org'')"
  have i: "fl_inbound sample_fields ?c \<in> set (shared_inbounds {} (d_router (sample_data sample_rules)))"
    "find (rule_applies (en_cached sample_env) sample_fields ?c) [hd sample_rules] = None"
    "uncached (en_cached sample_env) (last sample_rules)" "\<not> lan_builtin sample_fields (d_router (sample_data sample_rules)) ?c"
    "fl_protocol sample_fields ?c \<noteq> ''dns''" by code_simp+
  have r: "rt_rules (d_router (sample_data sample_rules)) = [hd sample_rules] @ last sample_rules # []"
    by (simp add: sample_data_def sample_rules_def)
  from uncached_rule_blocks_everything[OF sample_obeys b i(1) r i(2-5)] b show ?thesis by auto
qed

end
