(* ===== verification/Tracer.thy ===== *)
theory Tracer
  imports Policy
begin

text \<open>
  The rule tracer of \<open>anyhop/tracer.py\<close>: the DNS client, the reading of a destination, and the walk
  through the rule table, which is compared with the table that the engine generates. The exchange
  with the DNS server, the two random bytes of a query, the reading of a rule-set's bytes and the
  bracket check of \<open>urlsplit\<close> (it changed between Python versions) are arguments. The texts that
  explain a verdict are not modelled; the verdict, the exit, the rule and the walk are.
\<close>

section \<open>The DNS client\<close>

datatype dns_error = LabelTooLong | TruncatedName | Mismatched | Rcode nat | NoReply

definition be16 :: "nat \<Rightarrow> bytes" where
  "be16 n = [of_nat (n div 256), of_nat n]"

fun encode_labels :: "string list \<Rightarrow> (dns_error, bytes) result" where
  "encode_labels [] = Inr []"
| "encode_labels (l # ls) = (if 255 < length l then Inl LabelTooLong
     else bindR (encode_labels ls) (\<lambda>rest. Inr (of_nat (length l) # encode_str l @ rest)))"

definition dns_query :: "bytes \<Rightarrow> string \<Rightarrow> nat \<Rightarrow> (dns_error, bytes) result" where
  "dns_query txid name qtype = bindR (encode_labels (split_on CHR ''.'' name)) (\<lambda>qname.
     Inr (txid @ [1, 0, 0, 1, 0, 0, 0, 0, 0, 0] @ qname @ [0] @ be16 qtype @ [0, 1]))"

function skip_name :: "bytes \<Rightarrow> nat \<Rightarrow> (dns_error, nat) result" where
  "skip_name msg i = (if i < length msg then
       (let l = msg ! i in
        if l = 0 then Inr (i + 1)
        else if and l 0xC0 = 0xC0 then Inr (i + 2)
        else skip_name msg (i + 1 + unat l))
     else Inl TruncatedName)"
  by auto
termination by (relation "measure (\<lambda>(msg, i). length msg - i)") auto

declare skip_name.simps [simp del]

definition msg_slice :: "bytes \<Rightarrow> nat \<Rightarrow> nat \<Rightarrow> bytes" where
  "msg_slice msg i n = take n (drop i msg)"

fun skip_questions :: "nat \<Rightarrow> bytes \<Rightarrow> nat \<Rightarrow> (dns_error, nat) result" where
  "skip_questions 0 msg i = Inr i"
| "skip_questions (Suc n) msg i = bindR (skip_name msg i) (\<lambda>j. skip_questions n msg (j + 4))"

definition rdata_addr :: "nat \<Rightarrow> bytes \<Rightarrow> ip_addr" where
  "rdata_addr qtype rdata = \<lparr>ia_fam = (if qtype = 1 then V4 else V6), ia_val = be_int rdata, ia_scope = None\<rparr>"

fun read_answers :: "nat \<Rightarrow> bytes \<Rightarrow> nat \<Rightarrow> nat \<Rightarrow> ip_addr list \<Rightarrow> (dns_error, ip_addr list) result" where
  "read_answers 0 msg qtype i out = Inr out"
| "read_answers (Suc n) msg qtype i out = bindR (skip_name msg i) (\<lambda>j.
     let rtype = be_int (msg_slice msg j 2); rdlen = be_int (msg_slice msg (j + 8) 2); rdata = msg_slice msg (j + 10) rdlen in
     read_answers n msg qtype (j + 10 + rdlen)
       (if rtype = qtype \<and> length rdata = (if qtype = 1 then 4 else 16) then out @ [rdata_addr qtype rdata] else out))"

definition dns_answers :: "bytes \<Rightarrow> bytes \<Rightarrow> nat \<Rightarrow> (dns_error, ip_addr list) result" where
  "dns_answers msg query qtype =
     (if length msg < 12 \<or> take 2 msg \<noteq> take 2 query then Inl Mismatched
      else if and (msg ! 3) 0x0F \<noteq> 0 then Inl (Rcode (unat (and (msg ! 3) 0x0F)))
      else bindR (skip_questions (be_int (msg_slice msg 4 2)) msg 12) (\<lambda>i.
        read_answers (be_int (msg_slice msg 6 2)) msg qtype i []))"

text \<open>Both queries; a failure of one leaves the other's answers. \<open>send\<close> is the exchange over UDP.\<close>

record dns_reply =
  dr_a :: "ip_addr list"
  dr_aaaa :: "ip_addr list"
  dr_errors :: "(string \<times> dns_error) list"

definition ask :: "(bytes \<Rightarrow> bytes option) \<Rightarrow> bytes \<Rightarrow> string \<Rightarrow> nat \<Rightarrow> (dns_error, (dns_error, ip_addr list) result) result" where
  "ask send txid domain qtype = bindR (dns_query txid domain qtype) (\<lambda>query.
     Inr (case send query of None \<Rightarrow> Inl NoReply | Some msg \<Rightarrow> dns_answers msg query qtype))"

definition resolve_dns :: "(bytes \<Rightarrow> bytes option) \<Rightarrow> bytes \<Rightarrow> bytes \<Rightarrow> string \<Rightarrow> (dns_error, dns_reply) result" where
  "resolve_dns send id1 id2 domain =
     bindR (ask send id1 domain 1) (\<lambda>r1.
     bindR (ask send id2 domain 28) (\<lambda>r2.
       let a = (case r1 of Inl _ \<Rightarrow> [] | Inr xs \<Rightarrow> xs); aaaa = (case r2 of Inl _ \<Rightarrow> [] | Inr xs \<Rightarrow> xs);
           errs = (case r1 of Inl e \<Rightarrow> [(''A'', e)] | Inr _ \<Rightarrow> []) @ (case r2 of Inl e \<Rightarrow> [(''AAAA'', e)] | Inr _ \<Rightarrow> []) in
       Inr \<lparr>dr_a = a, dr_aaaa = aaaa, dr_errors = (if a = [] \<and> aaaa = [] then errs else [])\<rparr>))"

section \<open>The destination\<close>

text \<open>\<open>urlsplit(url).hostname\<close>, with \<open>brackets\<close> the check of a bracketed host.\<close>

definition scheme_char :: "char \<Rightarrow> bool" where
  "scheme_char c = (lower_alnum (lower_char c) \<or> c \<in> {CHR ''+'', CHR ''-'', CHR ''.''})"

definition url_clean :: "string \<Rightarrow> string" where
  "url_clean s = filter (\<lambda>c. c \<notin> {CHR 0x09, CHR 0x0A, CHR 0x0D}) (dropWhile (\<lambda>c. (of_char c :: nat) \<le> 32) s)"

definition url_rest :: "string \<Rightarrow> string" where
  "url_rest s = (case str_partition CHR '':'' s of (scheme, found, rest) \<Rightarrow>
     if found \<and> scheme \<noteq> [] \<and> scheme_char (hd scheme) \<and> \<not> is_digit (hd scheme) \<and> hd scheme \<notin> {CHR ''+'', CHR ''-'', CHR ''.''}
        \<and> list_all scheme_char scheme then rest else s)"

definition netloc :: "string \<Rightarrow> string" where
  "netloc s = (if startswith s ''//'' then takeWhile (\<lambda>c. c \<notin> {CHR ''/'', CHR ''?'', CHR ''#''}) (drop 2 s) else [])"

datatype trace_error = NoDestination string | BadRule rule_error | UrlError | DnsBug dns_error | SrsBug srs_error

definition url_hostname :: "(string \<Rightarrow> bool) \<Rightarrow> string \<Rightarrow> (trace_error, string option) result" where
  "url_hostname brackets url =
     (let loc = netloc (url_rest (url_clean url)) in
      if (CHR ''['' \<in> set loc) \<noteq> (CHR '']'' \<in> set loc) then Inl UrlError
      else if CHR ''['' \<in> set loc \<and> \<not> brackets loc then Inl UrlError
      else (let info = snd (snd (rpartition CHR ''@'' loc));
                host = (case str_partition CHR ''['' info of (_, found, bracketed) \<Rightarrow>
                  if found then fst (str_partition CHR '']'' bracketed) else fst (str_partition CHR '':'' info)) in
        if host = [] then Inr None
        else (case str_partition CHR ''%'' host of (h, percent, zone) \<Rightarrow>
          Inr (Some (lower h @ (if percent then CHR ''%'' # zone else []))))))"

datatype dest = Domain string | Literal ip_addr

definition strip_destination :: "(string \<Rightarrow> bool) \<Rightarrow> string \<Rightarrow> (trace_error, string) result" where
  "strip_destination brackets raw =
     (if list_ex (\<lambda>i. startswith (drop i raw) ''://'') [0..<length raw] then
        bindR (url_hostname brackets raw) (\<lambda>h. Inr (case h of None \<Rightarrow> [] | Some x \<Rightarrow> x))
      else if CHR ''/'' \<in> set raw \<or> length (filter (\<lambda>c. c = CHR '':'') raw) = 1
         \<or> (startswith raw ''['' \<and> CHR '']'' \<in> set raw) then
        bindR (url_hostname brackets (''//'' @ raw)) (\<lambda>h. Inr (case h of None \<Rightarrow> raw | Some x \<Rightarrow> x))
      else Inr raw)"

definition parse_destination :: "(string \<Rightarrow> bool) \<Rightarrow> string \<Rightarrow> (trace_error, dest) result" where
  "parse_destination brackets value = bindR (strip_destination brackets (strip value)) (\<lambda>raw.
     if raw = [] then Inl (NoDestination value)
     else (case ip_address raw of
         Some a \<Rightarrow> Inr (Literal a)
       | None \<Rightarrow> (case normalize_domain raw of Inl e \<Rightarrow> Inl (BadRule e) | Inr v \<Rightarrow> Inr (Domain v))))"


section \<open>The parser reads what a server writes\<close>

text \<open>A reply in the wire format (RFC 1035): the question echoed, then records. A record's owner name is any
  number of labels, closed by the root or by a pointer to any 14-bit offset of the message.\<close>

type_synonym owner = "bytes list \<times> nat option"

type_synonym dns_record = "owner \<times> nat \<times> bytes \<times> bytes"

definition encode_owner :: "owner \<Rightarrow> bytes" where
  "encode_owner n = (case n of (ls, stop) \<Rightarrow> concat (map (\<lambda>l. of_nat (length l) # l) ls)
     @ (case stop of None \<Rightarrow> [0] | Some off \<Rightarrow> be16 (0xC000 + off)))"

definition owner_ok :: "owner \<Rightarrow> bool" where
  "owner_ok n = (case n of (ls, stop) \<Rightarrow> (\<forall>l \<in> set ls. l \<noteq> [] \<and> length l \<le> 63)
     \<and> (case stop of None \<Rightarrow> True | Some off \<Rightarrow> off < 2 ^ 14))"

definition encode_record :: "dns_record \<Rightarrow> bytes" where
  "encode_record r = (case r of (n, t, meta, rdata) \<Rightarrow> encode_owner n @ be16 t @ meta @ be16 (length rdata) @ rdata)"

definition record_ok :: "dns_record \<Rightarrow> bool" where
  "record_ok r = (case r of (n, t, meta, rdata) \<Rightarrow> owner_ok n \<and> t < 65536 \<and> length meta = 6 \<and> length rdata < 65536)"

text \<open>\<open>counts\<close> and \<open>rest\<close>: the authority and additional sections, which the client does not read.\<close>

definition encode_reply :: "bytes \<Rightarrow> bytes \<Rightarrow> dns_record list \<Rightarrow> bytes \<Rightarrow> bytes \<Rightarrow> bytes" where
  "encode_reply query flags rs counts rest =
     take 2 query @ flags @ [0, 1] @ be16 (length rs) @ counts @ drop 12 query @ concat (map encode_record rs) @ rest"

definition reply_addrs :: "nat \<Rightarrow> dns_record list \<Rightarrow> ip_addr list" where
  "reply_addrs qtype rs = map (\<lambda>(n, t, meta, rdata). rdata_addr qtype rdata)
     (filter (\<lambda>(n, t, meta, rdata). t = qtype \<and> length rdata = (if qtype = 1 then 4 else 16)) rs)"

lemma be16_length [simp]: "length (be16 n) = 2"
  by (simp add: be16_def)

lemma be_int_be16: "n < 65536 \<Longrightarrow> be_int (be16 n) = n"
  by (simp add: be_int_def be16_def unat_of_nat take_bit_eq_mod mod_mult_right_eq mult.commute[of _ 256])

lemma msg_slice_append: "msg_slice (pre @ xs @ rest) (length pre) (length xs) = xs"
  by (simp add: msg_slice_def)

lemma label_byte:
  assumes "0 < n" "n \<le> 63"
  shows "(of_nat n :: byte) \<noteq> 0 \<and> and (of_nat n :: byte) 0xC0 \<noteq> 0xC0 \<and> unat (of_nat n :: byte) = n"
proof -
  have "list_all (\<lambda>n. (of_nat n :: byte) \<noteq> 0 \<and> and (of_nat n :: byte) 0xC0 \<noteq> 0xC0 \<and> unat (of_nat n :: byte) = n) [1..<64]"
    by code_simp
  with assms show ?thesis unfolding list_all_iff by auto
qed

lemma skip_label:
  assumes "l \<noteq> []" "length l \<le> 63"
  shows "skip_name (pre @ of_nat (length l) # l @ rest) (length pre) = skip_name ((pre @ of_nat (length l) # l) @ rest) (length (pre @ of_nat (length l) # l))"
  using label_byte[of "length l"] assms
  by (simp add: skip_name.simps[of "pre @ of_nat (length l) # l @ rest" "length pre"] nth_append Let_def add.commute)

lemma skip_labels:
  assumes "encode_labels ls = Inr q" "\<forall>l \<in> set ls. l \<noteq> [] \<and> length l \<le> 63"
  shows "skip_name (pre @ q @ 0 # rest) (length pre) = Inr (length pre + length q + 1)"
  using assms
proof (induction ls arbitrary: pre q)
  case Nil
  then show ?case by (simp add: skip_name.simps[of _ "length pre"])
next
  case (Cons l ls)
  from Cons.prems obtain q' where q': "encode_labels ls = Inr q'" "q = of_nat (length l) # encode_str l @ q'"
    by (auto simp: bindR_eq_Inr split: if_splits)
  let ?l = "encode_str l"
  have l: "?l \<noteq> []" "length ?l \<le> 63" "length ?l = length l" using Cons.prems(2) by (auto simp: encode_str_def)
  have "skip_name ((pre @ of_nat (length l) # ?l) @ q' @ 0 # rest) (length (pre @ of_nat (length l) # ?l))
      = Inr (length (pre @ of_nat (length l) # ?l) + length q' + 1)"
    by (rule Cons.IH[OF q'(1)]) (use Cons.prems(2) in auto)
  with skip_label[OF l(1,2), of pre "q' @ 0 # rest"] l(3) show ?case by (simp add: q'(2))
qed

lemma pointer_bytes:
  assumes "off < 2 ^ 14"
  shows "\<exists>x. be16 (0xC000 + off) = [x, of_nat off] \<and> x \<noteq> 0 \<and> and x 0xC0 = 0xC0"
proof -
  have "list_all (\<lambda>n. (of_nat (192 + n) :: byte) \<noteq> 0 \<and> and (of_nat (192 + n) :: byte) 0xC0 = 0xC0) [0..<64]" by code_simp
  moreover have "off div 256 < 64" using assms by simp
  ultimately have "(of_nat (192 + off div 256) :: byte) \<noteq> 0 \<and> and (of_nat (192 + off div 256) :: byte) 0xC0 = 0xC0"
    unfolding list_all_iff by auto
  moreover have "(0xC000 + off) div 256 = 192 + off div 256" by simp
  moreover have "(of_nat (0xC000 + off) :: byte) = of_nat off" by (simp add: word_eq_iff_unsigned unsigned_of_nat take_bit_eq_mod)
  ultimately show ?thesis unfolding be16_def by metis
qed

lemma skip_owner:
  assumes "owner_ok (ls, stop)"
  shows "skip_name (pre @ encode_owner (ls, stop) @ rest) (length pre) = Inr (length pre + length (encode_owner (ls, stop)))"
  using assms
proof (induction ls arbitrary: pre)
  case Nil
  show ?case
  proof (cases stop)
    case None
    then show ?thesis by (simp add: encode_owner_def skip_name.simps[of _ "length pre"])
  next
    case (Some off)
    with Nil pointer_bytes[of off] obtain x where "be16 (0xC000 + off) = [x, of_nat off]" "x \<noteq> 0" "and x 0xC0 = 0xC0"
      by (auto simp: owner_ok_def)
    then show ?thesis by (simp add: encode_owner_def Some skip_name.simps[of _ "length pre"] nth_append)
  qed
next
  case (Cons l ls)
  let ?pre = "pre @ of_nat (length l) # l"
  have l: "l \<noteq> []" "length l \<le> 63" "owner_ok (ls, stop)" using Cons.prems by (auto simp: owner_ok_def)
  have e: "encode_owner (l # ls, stop) = of_nat (length l) # l @ encode_owner (ls, stop)" by (simp add: encode_owner_def)
  from skip_label[OF l(1,2), of pre "encode_owner (ls, stop) @ rest"] Cons.IH[OF l(3), of ?pre] show ?case by (simp add: e)
qed

lemma read_records:
  assumes "\<forall>r \<in> set rs. record_ok r"
  shows "read_answers (length rs) (pre @ concat (map encode_record rs) @ rest) qtype (length pre) out
    = Inr (out @ reply_addrs qtype rs)"
  using assms
proof (induction rs arbitrary: pre out)
  case Nil
  then show ?case by (simp add: reply_addrs_def)
next
  case (Cons r rs)
  obtain ls stop t meta rdata where r: "r = ((ls, stop), t, meta, rdata)" by (metis surj_pair)
  let ?n = "encode_owner (ls, stop)"
  from Cons.prems r have ok: "t < 65536" "length meta = 6" "length rdata < 65536" "owner_ok (ls, stop)" by (simp_all add: record_ok_def)
  let ?msg = "pre @ concat (map encode_record (r # rs)) @ rest"
  let ?tail = "concat (map encode_record rs) @ rest"
  let ?j = "length pre + length ?n"
  have s: "skip_name ?msg (length pre) = Inr ?j"
    using skip_owner[OF ok(4), of pre] by (simp add: r encode_record_def)
  have t: "msg_slice ?msg ?j 2 = be16 t"
    using msg_slice_append[of "pre @ ?n" "be16 t" "meta @ be16 (length rdata) @ rdata @ ?tail"] by (simp add: r encode_record_def)
  have j: "?j + 8 = length (pre @ ?n @ be16 t @ meta)" "?j + 10 = length (pre @ ?n @ be16 t @ meta @ be16 (length rdata))"
    using ok by simp_all
  have n: "msg_slice ?msg (?j + 8) 2 = be16 (length rdata)"
    unfolding j using msg_slice_append[of "pre @ ?n @ be16 t @ meta" "be16 (length rdata)" "rdata @ ?tail"] ok
    by (simp add: r encode_record_def)
  have d: "msg_slice ?msg (?j + 10) (length rdata) = rdata"
    unfolding j using msg_slice_append[of "pre @ ?n @ be16 t @ meta @ be16 (length rdata)" "rdata" ?tail] ok
    by (simp add: r encode_record_def)
  let ?out = "if t = qtype \<and> length rdata = (if qtype = 1 then 4 else 16) then out @ [rdata_addr qtype rdata] else out"
  have "read_answers (length rs) ((pre @ encode_record r) @ concat (map encode_record rs) @ rest) qtype (length (pre @ encode_record r)) ?out
      = Inr (?out @ reply_addrs qtype rs)"
    by (rule Cons.IH) (use Cons.prems in simp)
  moreover have "length (pre @ encode_record r) = ?j + 10 + length rdata" using ok by (simp add: r encode_record_def)
  ultimately have ih: "read_answers (length rs) ?msg qtype (?j + 10 + length rdata) ?out = Inr (?out @ reply_addrs qtype rs)"
    by (simp only: append_assoc concat.simps list.map)
  have "read_answers (length (r # rs)) ?msg qtype (length pre) out = read_answers (length rs) ?msg qtype (?j + 10 + length rdata) ?out"
    unfolding length_Cons read_answers.simps s bindR_simps Let_def t n be_int_be16[OF ok(1)] be_int_be16[OF ok(3)] d ..
  also have "\<dots> = Inr (out @ reply_addrs qtype (r # rs))"
    unfolding ih by (simp add: reply_addrs_def r)
  finally show ?case .
qed


lemma query_shape:
  assumes "dns_query txid domain qtype = Inr query" "length txid = 2"
  shows "\<exists>q. encode_labels (split_on CHR ''.'' domain) = Inr q \<and> take 2 query = txid
    \<and> drop 12 query = q @ 0 # be16 qtype @ [0, 1]"
  using assms by (auto simp: dns_query_def)

text \<open>C33: the DNS client reads from a well-formed reply to its own query exactly the addresses of the
  asked type, in order, whatever owner names the records carry, compressed or not, and whatever follows
  the answers; records of another type, and records of the type whose data has a wrong length, are left
  out.\<close>

theorem dns_round_trip:
  assumes "dns_query txid domain qtype = Inr query" "length txid = 2"
    "\<forall>l \<in> set (split_on CHR ''.'' domain). l \<noteq> [] \<and> length l \<le> 63"
    "length flags = 2" "and (flags ! 1) 0x0F = 0"
    "length rs < 65536" "\<forall>r \<in> set rs. record_ok r" "length counts = 4"
  shows "dns_answers (encode_reply query flags rs counts rest) query qtype = Inr (reply_addrs qtype rs)"
proof -
  obtain q where q: "encode_labels (split_on CHR ''.'' domain) = Inr q" "take 2 query = txid"
    "drop 12 query = q @ 0 # be16 qtype @ [0, 1]" using query_shape[OF assms(1,2)] by blast
  define head where "head = txid @ flags @ [0, 1] @ be16 (length rs) @ counts"
  define body where "body = be16 qtype @ [0, 1] @ concat (map encode_record rs) @ rest"
  have h: "length head = 12" using assms(2,4,8) by (simp add: head_def)
  have m: "encode_reply query flags rs counts rest = head @ q @ 0 # body"
    by (simp add: encode_reply_def q head_def body_def)
  let ?msg = "head @ q @ 0 # body"
  have "msg_slice ?msg 4 2 = [0, 1]"
    using assms(2,4) by (simp add: head_def msg_slice_def)
  moreover have "msg_slice ?msg 6 2 = be16 (length rs)"
    using msg_slice_append[of "txid @ flags @ [0, 1]" "be16 (length rs)"] assms(2,4) by (simp add: head_def)
  ultimately have qd: "be_int (msg_slice ?msg 4 2) = 1" "be_int (msg_slice ?msg 6 2) = length rs"
    using assms(6) by (simp_all add: be_int_be16) (simp add: be_int_def)
  have flag: "?msg ! 3 = flags ! 1" using assms(2,4) by (simp add: head_def nth_append)
  have skip: "skip_questions 1 ?msg 12 = Inr (length (head @ q @ 0 # be16 qtype @ [0, 1]))"
    using skip_labels[OF q(1) assms(3), of head body] h by simp
  have ans: "read_answers (length rs) ?msg qtype (length (head @ q @ 0 # be16 qtype @ [0, 1])) [] = Inr (reply_addrs qtype rs)"
    using read_records[OF assms(7), of "head @ q @ 0 # be16 qtype @ [0, 1]" rest qtype "[]"] by (simp add: body_def)
  have "take 2 ?msg = take 2 query" using assms(2) q(2) by (simp add: head_def)
  then show ?thesis
    using h assms(5) unfolding m dns_answers_def flag qd skip bindR_simps ans by simp
qed

definition sample_records :: "dns_record list" where
  "sample_records = [(([], Some 12), 5, [0, 1, 0, 0, 0, 60], [0xC0, 0x0C]), (([[119, 119, 119]], Some 300), 1, [0, 1, 0, 0, 0, 60], [192, 0, 2, 7])]"

lemma dns_round_trip_witness:
  "\<exists>query. dns_query [7, 9] ''example.org'' 1 = Inr query
    \<and> dns_answers (encode_reply query [0x81, 0x80] sample_records [0, 0, 0, 1] [0, 0, 41]) query 1 = Inr (reply_addrs 1 sample_records)
    \<and> reply_addrs 1 sample_records = [\<lparr>ia_fam = V4, ia_val = 3221225991, ia_scope = None\<rparr>]"
proof -
  have r: "returned (dns_query [7, 9] ''example.org'' 1)" by code_simp
  then obtain query where q: "dns_query [7, 9] ''example.org'' 1 = Inr query"
    by (cases "dns_query [7, 9] ''example.org'' 1") auto
  have h: "\<forall>l \<in> set (split_on CHR ''.'' ''example.org''). l \<noteq> [] \<and> length l \<le> 63"
    "length ([0x81, 0x80] :: bytes) = 2" "and (([0x81, 0x80] :: bytes) ! 1) 0x0F = 0"
    "length sample_records < 65536" "\<forall>r \<in> set sample_records. record_ok r"
    "reply_addrs 1 sample_records = [\<lparr>ia_fam = V4, ia_val = 3221225991, ia_scope = None\<rparr>]"
    by code_simp+
  from dns_round_trip[OF q _ h(1-5), of "[0, 0, 0, 1]" "[0, 0, 41]"] h(6) q show ?thesis by simp
qed

section \<open>The rule-sets of a trace\<close>

datatype geo_problem = NotVerified | Unreadable srs_error

record geo_load =
  gl_geo :: geo_sets
  gl_problems :: "(string, geo_problem) dict"
  gl_attempted :: "(string \<times> string) list"

definition load_step :: "(string \<Rightarrow> string \<Rightarrow> (string \<times> string) option) \<Rightarrow> (string \<Rightarrow> (srs_error, srs_rule list) result) \<Rightarrow> rule
    \<Rightarrow> geo_load \<Rightarrow> geo_load" where
  "load_step found reads r g = (let key = (rtype r, rvalue r) in
     if rtype r \<notin> set geo_types \<or> key \<in> set (gl_attempted g) then g
     else (let g' = g\<lparr>gl_attempted := gl_attempted g @ [key]\<rparr>; label = rtype r @ '':'' @ rvalue r in
       case found (rtype r) (rvalue r) of
         None \<Rightarrow> g'\<lparr>gl_problems := dset label NotVerified (gl_problems g)\<rparr>
       | Some (path, content) \<Rightarrow> (case reads content of
             Inr rs \<Rightarrow> g'\<lparr>gl_geo := dset key rs (gl_geo g)\<rparr>
           | Inl e \<Rightarrow> g'\<lparr>gl_problems := dset label (Unreadable e) (gl_problems g)\<rparr>)))"

definition load_geo :: "(string \<Rightarrow> string \<Rightarrow> (string \<times> string) option) \<Rightarrow> (string \<Rightarrow> (srs_error, srs_rule list) result) \<Rightarrow> rule list
    \<Rightarrow> geo_load" where
  "load_geo found reads rs = fold (load_step found reads) rs \<lparr>gl_geo = [], gl_problems = [], gl_attempted = []\<rparr>"

section \<open>The walk\<close>

text \<open>One entry of the walk: the built-ins, and the stored rules by their ids.\<close>

datatype walk_step =
    Sniff
  | LanPorts
  | DnsHijack
  | LanCidrs bool
  | V6Blanket bool
  | Row string bool
  | V6Guard string
  | V6Unmatched bool
  | KillSwitch

datatype trace_verdict = LanDirect | RejectV6 | GoDirect | GoBlock | GoChannel | Killed

record trace_result =
  tr_domain :: "string option"
  tr_literal :: "string option"
  tr_resolved :: "ip_addr list"
  tr_family :: "int option"
  tr_suppressed :: bool
  tr_problems :: "(string, geo_problem) dict"
  tr_walked :: "walk_step list"
  tr_matched :: "string option"
  tr_verdict :: trace_verdict
  tr_exit :: "string option"

record trace_end =
  te_walked :: "walk_step list"
  te_matched :: "string option"
  te_verdict :: trace_verdict
  te_exit :: "string option"

record scope =
  sp_tun :: bool
  sp_built :: "cref set"
  sp_v6 :: "cref set"
  sp_domain :: "string option"
  sp_ips :: "ip_addr list"
  sp_family :: "int option"
  sp_geo :: geo_sets
  sp_problems :: "(string, geo_problem) dict"

definition row_verdict :: "scope \<Rightarrow> rule \<Rightarrow> (trace_error, walk_step \<times> trace_verdict \<times> string option) result" where
  "row_verdict s r = (case parse_target (rtarget r) of
     Inl e \<Rightarrow> Inl (BadRule e)
   | Inr Direct \<Rightarrow> Inr (Row (rid r) True, GoDirect, Some ''direct'')
   | Inr Block \<Rightarrow> Inr (Row (rid r) True, GoBlock, None)
   | Inr (ToChannel p c) \<Rightarrow>
       if (p, c) \<notin> sp_built s then Inr (Row (rid r) True, GoBlock, None)
       else if sp_tun s \<and> sp_v6 s \<noteq> {} \<and> (p, c) \<notin> sp_v6 s \<and> sp_family s = Some 6 then Inr (V6Guard (rid r), RejectV6, None)
       else Inr (Row (rid r) True, GoChannel, Some (rtarget r)))"

fun walk_rules :: "(string \<Rightarrow> string \<Rightarrow> bool) \<Rightarrow> scope \<Rightarrow> rule list \<Rightarrow> walk_step list
    \<Rightarrow> (trace_error, walk_step list + trace_end) result" where
  "walk_rules se s [] walked = Inr (Inl walked)"
| "walk_rules se s (r # rs) walked =
     (if rtype r \<in> set geo_types \<and> dget (sp_problems s) (rtype r @ '':'' @ rvalue r) \<noteq> None then
        Inr (Inr \<lparr>te_walked = walked @ [Row (rid r) True], te_matched = Some (rid r), te_verdict = GoBlock, te_exit = None\<rparr>)
      else (case match_destination se (sp_geo s) (sp_domain s) (sp_ips s) r of
          Inl e \<Rightarrow> Inl (SrsBug e)
        | Inr False \<Rightarrow> walk_rules se s rs (walked @ [Row (rid r) False])
        | Inr True \<Rightarrow> bindR (row_verdict s r) (\<lambda>(st, v, x).
            Inr (Inr \<lparr>te_walked = walked @ [st], te_matched = Some (rid r), te_verdict = v, te_exit = x\<rparr>))))"

definition cidr_rule :: "string \<Rightarrow> rule" where
  "cidr_rule v = \<lparr>rid = [], rtype = ''ip_cidr'', rvalue = v, rtarget = [], rruleset = [], rname = None, rmanaged = False\<rparr>"

definition lan_hit :: "(string \<Rightarrow> string \<Rightarrow> bool) \<Rightarrow> ip_addr list \<Rightarrow> string option" where
  "lan_hit se ips = find (\<lambda>n. match_destination se [] None ips (cidr_rule n) = Inr True) lan_direct_cidrs"

text \<open>After the stored rules: the trailing IPv6 reject, the kill switch, the direct outbound.\<close>

definition walk_tail :: "scope \<Rightarrow> router \<Rightarrow> walk_step list \<Rightarrow> trace_end" where
  "walk_tail s rt w3 =
     (let six = (sp_family s = Some 6); trailing = (sp_tun s \<and> sp_v6 s \<noteq> {}); w4 = w3 @ (if trailing then [V6Unmatched six] else []) in
      if trailing \<and> six then \<lparr>te_walked = w4, te_matched = Some ''reject-v6'', te_verdict = RejectV6, te_exit = None\<rparr>
      else if rt_killswitch rt then
        \<lparr>te_walked = w4 @ [KillSwitch], te_matched = Some ''killswitch'', te_verdict = Killed, te_exit = None\<rparr>
      else \<lparr>te_walked = w4, te_matched = None, te_verdict = GoDirect, te_exit = Some ''direct''\<rparr>)"

definition walk :: "(string \<Rightarrow> string \<Rightarrow> bool) \<Rightarrow> scope \<Rightarrow> router \<Rightarrow> rule list \<Rightarrow> (trace_error, trace_end) result" where
  "walk se s rt rs =
     (let six = (sp_family s = Some 6);
          w0 = [Sniff] @ (if rt_lan_direct rt then [LanPorts] else []) @ (if sp_tun s then [DnsHijack] else []);
          hit = (rt_lan_direct rt \<and> lan_hit se (sp_ips s) \<noteq> None);
          w1 = w0 @ (if rt_lan_direct rt then [LanCidrs hit] else []);
          blanket = (sp_tun s \<and> sp_v6 s = {});
          w2 = w1 @ (if blanket then [V6Blanket six] else []) in
      if hit then Inr \<lparr>te_walked = w1, te_matched = Some lan_direct_shadow, te_verdict = LanDirect, te_exit = Some ''direct''\<rparr>
      else if blanket \<and> six then Inr \<lparr>te_walked = w2, te_matched = Some ''reject-v6'', te_verdict = RejectV6, te_exit = None\<rparr>
      else bindR (walk_rules se s rs w2) (\<lambda>res. Inr (case res of Inr e \<Rightarrow> e | Inl w3 \<Rightarrow> walk_tail s rt w3)))"

section \<open>The trace\<close>

text \<open>The channels the tracer takes to be in the configuration.\<close>

definition trace_built :: "data \<Rightarrow> channel list" where
  "trace_built d = filter (\<lambda>ch. c_enabled ch \<and> c_wg ch \<noteq> [] \<and> dget (c_wg ch) ''peer'' \<noteq> None) (channels d)"

record trace_env =
  te_brackets :: "string \<Rightarrow> bool"
  te_send :: "bytes \<Rightarrow> bytes option"
  te_ids :: "bytes \<times> bytes"
  te_found :: "string \<Rightarrow> string \<Rightarrow> (string \<times> string) option"
  te_reads :: "string \<Rightarrow> (srs_error, srs_rule list) result"
  te_search :: "string \<Rightarrow> string \<Rightarrow> bool"
  te_global :: "nat \<Rightarrow> bool"

text \<open>The addresses of the traced flow, its family, all answers, and whether AAAA answers are suppressed.\<close>

record flow =
  fw_ips :: "ip_addr list"
  fw_family :: "int option"
  fw_all :: "ip_addr list"
  fw_suppressed :: bool

definition version_of :: "ip_addr \<Rightarrow> int" where
  "version_of a = (case ia_fam a of V4 \<Rightarrow> 4 | V6 \<Rightarrow> 6)"

definition flow_of :: "trace_env \<Rightarrow> bool \<Rightarrow> bool \<Rightarrow> dest \<Rightarrow> (trace_error, flow) result" where
  "flow_of en tun no_v6 t = (case t of
     Literal a \<Rightarrow> Inr \<lparr>fw_ips = [a], fw_family = Some (version_of a), fw_all = [], fw_suppressed = False\<rparr>
   | Domain d \<Rightarrow> (case resolve_dns (te_send en) (fst (te_ids en)) (snd (te_ids en)) d of
       Inl e \<Rightarrow> Inl (DnsBug e)
     | Inr r \<Rightarrow>
       (let sup = (tun \<and> no_v6 \<and> dr_aaaa r \<noteq> []); all = dr_a r @ dr_aaaa r in
        if dr_a r \<noteq> [] then Inr \<lparr>fw_ips = dr_a r, fw_family = Some 4, fw_all = all, fw_suppressed = sup\<rparr>
        else if dr_aaaa r \<noteq> [] \<and> \<not> sup then Inr \<lparr>fw_ips = dr_aaaa r, fw_family = Some 6, fw_all = all, fw_suppressed = sup\<rparr>
        else Inr \<lparr>fw_ips = [], fw_family = (if sup then Some 6 else None), fw_all = all, fw_suppressed = sup\<rparr>)))"

definition dest_domain :: "dest \<Rightarrow> string option" where
  "dest_domain t = (case t of Domain d \<Rightarrow> Some d | Literal a \<Rightarrow> None)"

definition dest_literal :: "dest \<Rightarrow> string option" where
  "dest_literal t = (case t of Domain d \<Rightarrow> None | Literal a \<Rightarrow> Some (ip_str a))"

definition trace_scope :: "trace_env \<Rightarrow> data \<Rightarrow> dest \<Rightarrow> flow \<Rightarrow> scope" where
  "trace_scope en d t fw = (let g = load_geo (te_found en) (te_reads en) (rules_of d) in
     \<lparr>sp_tun = rt_tun (d_router d), sp_built = set (map chan_ref (trace_built d)),
      sp_v6 = set (map chan_ref (filter (channel_ipv6 (te_global en)) (trace_built d))),
      sp_domain = dest_domain t, sp_ips = fw_ips fw, sp_family = fw_family fw, sp_geo = gl_geo g, sp_problems = gl_problems g\<rparr>)"

definition trace :: "trace_env \<Rightarrow> data \<Rightarrow> string \<Rightarrow> (trace_error, trace_result) result" where
  "trace en d value =
     bindR (parse_destination (te_brackets en) value) (\<lambda>t.
     bindR (flow_of en (rt_tun (d_router d)) (filter (channel_ipv6 (te_global en)) (trace_built d) = []) t) (\<lambda>fw.
     let s = trace_scope en d t fw in
     bindR (walk (te_search en) s (d_router d) (rules_of d)) (\<lambda>e.
     Inr \<lparr>tr_domain = dest_domain t, tr_literal = dest_literal t, tr_resolved = fw_all fw, tr_family = fw_family fw,
          tr_suppressed = fw_suppressed fw, tr_problems = sp_problems s, tr_walked = te_walked e, tr_matched = te_matched e,
          tr_verdict = te_verdict e, tr_exit = te_exit e\<rparr>)))"


section \<open>The trace agrees with the engine's table\<close>

subsection \<open>The rule-sets\<close>

lemma geo_label_inj:
  assumes "t \<in> set geo_types" "t' \<in> set geo_types" "t @ '':'' @ n = t' @ '':'' @ n'"
  shows "t = t' \<and> n = n'"
  using assms by (auto simp: geo_types_def)

definition geo_of :: "(string \<Rightarrow> string \<Rightarrow> (string \<times> string) option) \<Rightarrow> (string \<Rightarrow> (srs_error, srs_rule list) result) \<Rightarrow> string \<Rightarrow> string
    \<Rightarrow> (geo_problem, srs_rule list) result" where
  "geo_of found reads t n = (case found t n of None \<Rightarrow> Inl NotVerified
     | Some (path, content) \<Rightarrow> (case reads content of Inl e \<Rightarrow> Inl (Unreadable e) | Inr rs \<Rightarrow> Inr rs))"

definition load_inv :: "(string \<Rightarrow> string \<Rightarrow> (string \<times> string) option) \<Rightarrow> (string \<Rightarrow> (srs_error, srs_rule list) result) \<Rightarrow> geo_load \<Rightarrow> bool" where
  "load_inv found reads g = (\<forall>t \<in> set geo_types. \<forall>n.
     if (t, n) \<in> set (gl_attempted g) then
       (case geo_of found reads t n of
          Inl p \<Rightarrow> dget (gl_problems g) (t @ '':'' @ n) = Some p \<and> dget (gl_geo g) (t, n) = None
        | Inr rs \<Rightarrow> dget (gl_problems g) (t @ '':'' @ n) = None \<and> dget (gl_geo g) (t, n) = Some rs)
     else dget (gl_problems g) (t @ '':'' @ n) = None \<and> dget (gl_geo g) (t, n) = None)"

lemma load_step_inv:
  assumes "load_inv found reads g"
  shows "load_inv found reads (load_step found reads r g)
    \<and> set (gl_attempted (load_step found reads r g)) =
        (if rtype r \<in> set geo_types then insert (rtype r, rvalue r) (set (gl_attempted g)) else set (gl_attempted g))"
proof (cases "rtype r \<notin> set geo_types \<or> (rtype r, rvalue r) \<in> set (gl_attempted g)")
  case True
  with assms show ?thesis by (auto simp: load_step_def Let_def)
next
  case False
  let ?g' = "load_step found reads r g"
  let ?key = "(rtype r, rvalue r)"
  have e: "gl_attempted ?g' = gl_attempted g @ [?key]"
    "gl_problems ?g' = (case geo_of found reads (rtype r) (rvalue r) of
       Inl p \<Rightarrow> dset (rtype r @ '':'' @ rvalue r) p (gl_problems g) | Inr rs \<Rightarrow> gl_problems g)"
    "gl_geo ?g' = (case geo_of found reads (rtype r) (rvalue r) of Inl p \<Rightarrow> gl_geo g | Inr rs \<Rightarrow> dset ?key rs (gl_geo g))"
    using False by (auto simp: load_step_def geo_of_def Let_def split: option.split sum.split)
  have "load_inv found reads ?g'"
    unfolding load_inv_def
  proof (intro ballI allI)
    fix t n assume t: "t \<in> set geo_types"
    have old: "if (t, n) \<in> set (gl_attempted g) then
       (case geo_of found reads t n of
          Inl p \<Rightarrow> dget (gl_problems g) (t @ '':'' @ n) = Some p \<and> dget (gl_geo g) (t, n) = None
        | Inr rs \<Rightarrow> dget (gl_problems g) (t @ '':'' @ n) = None \<and> dget (gl_geo g) (t, n) = Some rs)
     else dget (gl_problems g) (t @ '':'' @ n) = None \<and> dget (gl_geo g) (t, n) = None"
      using assms t unfolding load_inv_def by blast
    show "if (t, n) \<in> set (gl_attempted ?g') then
       (case geo_of found reads t n of
          Inl p \<Rightarrow> dget (gl_problems ?g') (t @ '':'' @ n) = Some p \<and> dget (gl_geo ?g') (t, n) = None
        | Inr rs \<Rightarrow> dget (gl_problems ?g') (t @ '':'' @ n) = None \<and> dget (gl_geo ?g') (t, n) = Some rs)
     else dget (gl_problems ?g') (t @ '':'' @ n) = None \<and> dget (gl_geo ?g') (t, n) = None"
    proof (cases "(t, n) = ?key")
      case True
      with old False show ?thesis unfolding e by (auto split: sum.split)
    next
      case d: False
      then have "t @ '':'' @ n \<noteq> rtype r @ '':'' @ rvalue r" using geo_label_inj[OF t] False by blast
      then have "dget (gl_problems ?g') (t @ '':'' @ n) = dget (gl_problems g) (t @ '':'' @ n)"
        "dget (gl_geo ?g') (t, n) = dget (gl_geo g) (t, n)"
        unfolding e using d by (cases "geo_of found reads (rtype r) (rvalue r)", auto)+
      moreover have "(t, n) \<in> set (gl_attempted ?g') \<longleftrightarrow> (t, n) \<in> set (gl_attempted g)" unfolding e using d by auto
      ultimately show ?thesis using old by presburger
    qed
  qed
  with e False show ?thesis by auto
qed

lemma load_geo_inv:
  "load_inv found reads (load_geo found reads rs)
    \<and> set (gl_attempted (load_geo found reads rs)) = {(rtype r, rvalue r) | r. r \<in> set rs \<and> rtype r \<in> set geo_types}"
proof (induction rs rule: rev_induct)
  case Nil
  show ?case by (simp add: load_geo_def load_inv_def)
next
  case (snoc r rs)
  let ?g = "load_geo found reads rs"
  have s: "load_geo found reads (rs @ [r]) = load_step found reads r ?g" by (simp add: load_geo_def)
  from load_step_inv[of found reads ?g r] snoc show ?case unfolding s by auto
qed

lemma load_invD:
  assumes "load_inv found reads g" "t \<in> set geo_types" "(t, n) \<in> set (gl_attempted g)"
  shows "case geo_of found reads t n of
      Inl p \<Rightarrow> dget (gl_problems g) (t @ '':'' @ n) = Some p \<and> dget (gl_geo g) (t, n) = None
    | Inr rs \<Rightarrow> dget (gl_problems g) (t @ '':'' @ n) = None \<and> dget (gl_geo g) (t, n) = Some rs"
  using spec[OF bspec[OF assms(1)[unfolded load_inv_def] assms(2)], of n] by (simp only: assms(3) if_True)

lemma load_geo_get:
  assumes "r \<in> set rs" "rtype r \<in> set geo_types"
  shows "(case geo_of found reads (rtype r) (rvalue r) of
      Inl p \<Rightarrow> dget (gl_problems (load_geo found reads rs)) (rtype r @ '':'' @ rvalue r) = Some p
        \<and> dget (gl_geo (load_geo found reads rs)) (rtype r, rvalue r) = None
    | Inr s \<Rightarrow> dget (gl_problems (load_geo found reads rs)) (rtype r @ '':'' @ rvalue r) = None
        \<and> dget (gl_geo (load_geo found reads rs)) (rtype r, rvalue r) = Some s)"
  by (rule load_invD) (use assms load_geo_inv in blast)+

subsection \<open>One rule\<close>

text \<open>A connection of the traced flow: what its fields answer, by the destination's domain and addresses
  and the content of the rule-sets.\<close>

definition set_answers :: "trace_env \<Rightarrow> string option \<Rightarrow> ip_addr list \<Rightarrow> string \<Rightarrow> string \<Rightarrow> bool" where
  "set_answers en dm ips t n = (case geo_of (te_found en) (te_reads en) t n of
     Inl _ \<Rightarrow> False
   | Inr rs \<Rightarrow> if t = ''geosite'' then (case dm of None \<Rightarrow> False | Some d \<Rightarrow> d \<noteq> [] \<and> ruleset_match (te_search en) rs dm [] = Inr True)
       else ips \<noteq> [] \<and> ruleset_match (te_search en) rs None ips = Inr True)"

definition cidr_answers :: "ip_addr list \<Rightarrow> string \<Rightarrow> bool" where
  "cidr_answers ips v = (case ip_network True v of None \<Rightarrow> False | Some n \<Rightarrow> list_ex (\<lambda>ip. ip_in_net ip n) ips)"

definition carries :: "'c fields \<Rightarrow> 'c \<Rightarrow> trace_env \<Rightarrow> dest \<Rightarrow> flow \<Rightarrow> bool" where
  "carries f c en t fw = (
     (\<forall>v. fl_suffix f v c = (case dest_domain t of None \<Rightarrow> False | Some d \<Rightarrow> domain_suffix_matches v d))
   \<and> (\<forall>v. fl_cidr f v c = cidr_answers (fw_ips fw) v)
   \<and> (\<forall>k \<in> set geo_types. \<forall>n. fl_set f (set_tag k n) c = set_answers en (dest_domain t) (fw_ips fw) k n)
   \<and> fw_family fw = Some (fl_version f c))"

definition readable :: "trace_env \<Rightarrow> data \<Rightarrow> bool" where
  "readable en d = (\<forall>r \<in> set (rules_of d). rtype r \<in> set geo_types \<longrightarrow>
     (case geo_of (te_found en) (te_reads en) (rtype r) (rvalue r) of Inl (Unreadable e) \<Rightarrow> False | _ \<Rightarrow> True))"

definition cached_of :: "trace_env \<Rightarrow> string \<Rightarrow> string \<Rightarrow> string option" where
  "cached_of en k n = map_option fst (te_found en k n)"

lemma problem_iff_uncached:
  assumes "r \<in> set (rules_of d)" "readable en d"
  shows "(rtype r \<in> set geo_types \<and> dget (sp_problems (trace_scope en d t fw)) (rtype r @ '':'' @ rvalue r) \<noteq> None)
    = uncached (cached_of en) r"
proof (cases "rtype r \<in> set geo_types")
  case True
  have rd: "case geo_of (te_found en) (te_reads en) (rtype r) (rvalue r) of Inl (Unreadable e) \<Rightarrow> False | _ \<Rightarrow> True"
    using assms True unfolding readable_def by blast
  from load_geo_get[OF assms(1) True, of "te_found en" "te_reads en"] rd True show ?thesis
    by (auto simp: trace_scope_def Let_def uncached_def cached_of_def geo_of_def split: option.splits sum.splits)
qed (simp add: uncached_def)

lemma match_is_stored:
  assumes "r \<in> set (rules_of d)" "carries f c en t fw" "\<not> uncached (cached_of en) r" "readable en d"
    "match_destination (te_search en) (sp_geo (trace_scope en d t fw)) (dest_domain t) (fw_ips fw) r = Inr m"
  shows "stored_matches f c r = m"
proof -
  consider "rtype r = ''domain_suffix''" | "rtype r = ''ip_cidr''" | "rtype r \<in> set geo_types" | "rtype r = ''all''"
    | "rtype r \<noteq> ''domain_suffix''" "rtype r \<noteq> ''ip_cidr''" "rtype r \<notin> set geo_types" "rtype r \<noteq> ''all''" by blast
  then show ?thesis
  proof cases
    case 1
    then show ?thesis using assms(2,5) by (simp add: stored_matches_def match_destination_def carries_def)
  next
    case 2
    then show ?thesis using assms(2,5) by (simp add: stored_matches_def match_destination_def carries_def cidr_answers_def)
  next
    case 3
    then have n: "rtype r \<noteq> ''domain_suffix''" "rtype r \<noteq> ''ip_cidr''" "rtype r \<noteq> ''all''" using geo_type_names by metis+
    have rd: "case geo_of (te_found en) (te_reads en) (rtype r) (rvalue r) of Inl (Unreadable e) \<Rightarrow> False | _ \<Rightarrow> True"
      using assms(1,4) 3 unfolding readable_def by blast
    have "te_found en (rtype r) (rvalue r) \<noteq> None" using assms(3) 3 by (simp add: uncached_def cached_of_def)
    then obtain rs where rs: "geo_of (te_found en) (te_reads en) (rtype r) (rvalue r) = Inr rs"
      using rd by (auto simp: geo_of_def split: option.splits sum.splits)
    from load_geo_get[OF assms(1) 3, of "te_found en" "te_reads en"] rs
    have g: "dget (sp_geo (trace_scope en d t fw)) (rtype r, rvalue r) = Some rs" by (simp add: trace_scope_def Let_def)
    have s: "stored_matches f c r = set_answers en (dest_domain t) (fw_ips fw) (rtype r) (rvalue r)"
      using assms(2) 3 n unfolding carries_def stored_matches_def by auto
    show ?thesis using assms(5) unfolding s set_answers_def rs
      by (simp add: match_destination_def n 3 g split: option.splits if_splits)
  next
    case 4
    then show ?thesis using assms(5) geo_type_names by (simp add: stored_matches_def match_destination_def)
  next
    case 5
    then show ?thesis using assms(5) by (simp add: stored_matches_def match_destination_def)
  qed
qed

definition exit_verdict :: "string option \<Rightarrow> verdict" where
  "exit_verdict x = (case x of None \<Rightarrow> Rejected | Some t \<Rightarrow> if t = ''direct'' then Out ''direct'' else Out (ref_outbound (target_ref t)))"

lemma row_is_verdict:
  assumes "row_verdict s r = Inr (st, v, x)" "strip (rtarget r) = rtarget r" "\<not> uncached cached r"
    "sp_family s = Some (fl_version f c)"
  shows "rule_verdict cached f (sp_tun s) (sp_built s) (sp_v6 s) c r = exit_verdict x"
proof (cases "parse_target (rtarget r)")
  case (Inr tg)
  show ?thesis
  proof (cases "rtarget r = ''direct'' \<or> rtarget r = ''block''")
    case True
    with assms Inr show ?thesis
      by (auto simp: row_verdict_def parse_target_def rule_verdict_def exit_verdict_def strip_def Let_def)
  next
    case False
    obtain p b ch where tg: "str_partition CHR ''/'' (rtarget r) = (p, b, ch)" by (metis prod_cases3)
    with False Inr assms(2) have "tg = ToChannel p ch" "target_ref (rtarget r) = (p, ch)"
      by (auto simp: parse_target_def target_ref_def Let_def split: if_splits)
    with False Inr assms show ?thesis
      by (auto simp: row_verdict_def rule_verdict_def exit_verdict_def Let_def split: if_splits)
  qed
qed (use assms(1) in \<open>simp add: row_verdict_def\<close>)


subsection \<open>The table\<close>

lemma scope_select [simp]:
  "sp_domain (trace_scope en d t fw) = dest_domain t" "sp_ips (trace_scope en d t fw) = fw_ips fw"
  "sp_family (trace_scope en d t fw) = fw_family fw" "sp_tun (trace_scope en d t fw) = rt_tun (d_router d)"
  by (simp_all add: trace_scope_def Let_def)

lemma walk_rules_hit:
  assumes "\<not> (rtype r \<in> set geo_types \<and> dget (sp_problems s) (rtype r @ '':'' @ rvalue r) \<noteq> None)"
    "match_destination se (sp_geo s) (sp_domain s) (sp_ips s) r = Inr True" "walk_rules se s (r # rs) w = Inr res"
  obtains st v x where "row_verdict s r = Inr (st, v, x)"
    "res = Inr \<lparr>te_walked = w @ [st], te_matched = Some (rid r), te_verdict = v, te_exit = x\<rparr>"
proof -
  have "bindR (row_verdict s r) (\<lambda>(st, v, x). Inr (Inr \<lparr>te_walked = w @ [st], te_matched = Some (rid r), te_verdict = v, te_exit = x\<rparr>))
      = Inr res"
    using assms(3) unfolding walk_rules.simps if_not_P[OF assms(1)] assms(2) by simp
  then show ?thesis using that by (auto split: prod.splits)
qed

lemma walk_rules_find:
  assumes "walk_rules (te_search en) (trace_scope en d t fw) rs w = Inr res"
    "set rs \<subseteq> set (rules_of d)" "carries f c en t fw" "readable en d" "\<forall>r \<in> set rs. strip (rtarget r) = rtarget r"
  shows "(case res of
      Inl w' \<Rightarrow> find (rule_applies (cached_of en) f c) rs = None
    | Inr e \<Rightarrow> (\<exists>r. find (rule_applies (cached_of en) f c) rs = Some r
        \<and> rule_verdict (cached_of en) f (rt_tun (d_router d)) (sp_built (trace_scope en d t fw)) (sp_v6 (trace_scope en d t fw)) c r
          = exit_verdict (te_exit e)))"
  using assms(1,2,5)
proof (induction rs arbitrary: w)
  case Nil
  then show ?case by auto
next
  case (Cons r rs)
  let ?s = "trace_scope en d t fw"
  have r: "r \<in> set (rules_of d)" "strip (rtarget r) = rtarget r" using Cons.prems by auto
  show ?case
  proof (cases "uncached (cached_of en) r")
    case True
    then have "rtype r \<in> set geo_types \<and> dget (sp_problems ?s) (rtype r @ '':'' @ rvalue r) \<noteq> None"
      using problem_iff_uncached[OF r(1) assms(4), of t fw] by simp
    then have "res = Inr \<lparr>te_walked = w @ [Row (rid r) True], te_matched = Some (rid r), te_verdict = GoBlock, te_exit = None\<rparr>"
      using Cons.prems(1) by simp
    with True show ?thesis by (simp add: rule_applies_def rule_verdict_def exit_verdict_def)
  next
    case False
    then have np: "\<not> (rtype r \<in> set geo_types \<and> dget (sp_problems ?s) (rtype r @ '':'' @ rvalue r) \<noteq> None)"
      using problem_iff_uncached[OF r(1) assms(4), of t fw] by simp
    obtain m where m: "match_destination (te_search en) (sp_geo ?s) (dest_domain t) (fw_ips fw) r = Inr m"
      using Cons.prems(1) np by (cases "match_destination (te_search en) (sp_geo ?s) (dest_domain t) (fw_ips fw) r")
        (simp_all only: walk_rules.simps scope_select if_False sum.case Inl_Inr_False)
    have sm: "stored_matches f c r = m" by (rule match_is_stored[OF r(1) assms(3) False assms(4) m])
    show ?thesis
    proof (cases m)
      case True
      then have "match_destination (te_search en) (sp_geo ?s) (sp_domain ?s) (sp_ips ?s) r = Inr True" using m by simp
      then obtain st v x where x: "row_verdict ?s r = Inr (st, v, x)"
        "res = Inr \<lparr>te_walked = w @ [st], te_matched = Some (rid r), te_verdict = v, te_exit = x\<rparr>"
        using walk_rules_hit[OF np _ Cons.prems(1)] by blast
      have fam: "sp_family ?s = Some (fl_version f c)" using assms(3) by (simp add: carries_def)
      from row_is_verdict[OF x(1) r(2) False fam] sm True x(2) show ?thesis by (simp add: rule_applies_def)
    next
      case m0: False
      then have "walk_rules (te_search en) ?s rs (w @ [Row (rid r) False]) = Inr res"
        using Cons.prems(1) np m by (simp only: walk_rules.simps scope_select if_False sum.case bool.case)
      from Cons.IH[OF this] Cons.prems(2,3)
      have ih: "case res of
          Inl w' \<Rightarrow> find (rule_applies (cached_of en) f c) rs = None
        | Inr e \<Rightarrow> (\<exists>r. find (rule_applies (cached_of en) f c) rs = Some r
          \<and> rule_verdict (cached_of en) f (rt_tun (d_router d)) (sp_built ?s) (sp_v6 ?s) c r = exit_verdict (te_exit e))"
        by auto
      have skip: "find (rule_applies (cached_of en) f c) (r # rs) = find (rule_applies (cached_of en) f c) rs"
        using sm m0 False by (simp add: rule_applies_def)
      show ?thesis unfolding skip by (rule ih)
    qed
  qed
qed

lemma cidr_rule_match: "match_destination se geo dm ips (cidr_rule v) = Inr (cidr_answers ips v)"
  by (simp add: match_destination_def cidr_rule_def cidr_answers_def)

lemma lan_hit_iff: "lan_hit se ips \<noteq> None \<longleftrightarrow> list_ex (cidr_answers ips) lan_direct_cidrs"
  by (auto simp: lan_hit_def cidr_rule_match find_None_iff list_ex_iff)

lemma walk_policy:
  assumes "walk (te_search en) (trace_scope en d t fw) (d_router d) (rules_of d) = Inr e"
    "carries f c en t fw" "readable en d" "\<forall>r \<in> set (rules_of d). strip (rtarget r) = rtarget r"
    "fl_cidr f ''::/0'' c = (fl_version f c = 6)"
    "\<not> (fl_network f c = ''udp'' \<and> fl_port f c \<in> set lan_direct_udp_ports)" "fl_protocol f c \<noteq> ''dns''"
    "rt_tun (d_router d) \<Longrightarrow> from_tun f c"
  shows "policy (cached_of en) f (d_router d) (sp_built (trace_scope en d t fw)) (sp_v6 (trace_scope en d t fw)) c
    = exit_verdict (te_exit e)"
proof -
  let ?s = "trace_scope en d t fw"
  have fam: "fw_family fw = Some (fl_version f c)" using assms(2) by (simp add: carries_def)
  have cidr: "list_ex (\<lambda>n. fl_cidr f n c) lan_direct_cidrs = (lan_hit (te_search en) (fw_ips fw) \<noteq> None)"
    using assms(2) unfolding lan_hit_iff by (simp add: carries_def)
  have six: "to_v6 f c = (fl_version f c = 6)" using assms(5) by (simp add: to_v6_def)
  have rl: "rules_of d = rt_rules (d_router d)" by simp
  show ?thesis
  proof (cases "rt_lan_direct (d_router d) \<and> lan_hit (te_search en) (fw_ips fw) \<noteq> None")
    case True
    with assms(1) have "te_exit e = Some ''direct''" by (auto simp: walk_def Let_def)
    with True assms(6,7) show ?thesis by (simp add: policy_def cidr exit_verdict_def)
  next
    case no_lan: False
    show ?thesis
    proof (cases "rt_tun (d_router d) \<and> sp_v6 ?s = {} \<and> fl_version f c = 6")
      case True
      with assms(1) no_lan fam have "te_exit e = None" by (auto simp: walk_def Let_def)
      with True no_lan assms(6,7,8) show ?thesis by (simp add: policy_def cidr exit_verdict_def six)
    next
      case False
      have stop: "\<not> (rt_lan_direct (d_router d) \<and> lan_hit (te_search en) (sp_ips ?s) \<noteq> None)"
        "\<not> ((sp_tun ?s \<and> sp_v6 ?s = {}) \<and> sp_family ?s = Some 6)" using no_lan False fam by simp_all
      obtain w res where w: "walk_rules (te_search en) ?s (rules_of d) w = Inr res"
        and e: "e = (case res of Inr e' \<Rightarrow> e' | Inl w3 \<Rightarrow> walk_tail ?s (d_router d) w3)"
        using assms(1) unfolding walk_def Let_def if_not_P[OF stop(1)] if_not_P[OF stop(2)] by auto
      have tail: "te_exit (walk_tail ?s (d_router d) w3) = (if rt_tun (d_router d) \<and> sp_v6 ?s \<noteq> {} \<and> fl_version f c = 6 then None
          else if rt_killswitch (d_router d) then None else Some ''direct'')" for w3
        by (simp add: walk_tail_def Let_def fam)
      have p: "policy (cached_of en) f (d_router d) (sp_built ?s) (sp_v6 ?s) c =
        (case find (rule_applies (cached_of en) f c) (rules_of d) of
          Some r \<Rightarrow> rule_verdict (cached_of en) f (rt_tun (d_router d)) (sp_built ?s) (sp_v6 ?s) c r
        | None \<Rightarrow> unmatched f (d_router d) (sp_v6 ?s) c)"
        using False no_lan assms(6,7) by (auto simp: policy_def cidr six)
      from walk_rules_find[OF w _ assms(2,3)] assms(4)
      have fnd: "case res of
          Inl w' \<Rightarrow> find (rule_applies (cached_of en) f c) (rules_of d) = None
        | Inr e \<Rightarrow> (\<exists>r. find (rule_applies (cached_of en) f c) (rules_of d) = Some r
            \<and> rule_verdict (cached_of en) f (rt_tun (d_router d)) (sp_built ?s) (sp_v6 ?s) c r = exit_verdict (te_exit e))" by blast
      show ?thesis
      proof (cases res)
        case (Inr e')
        with fnd show ?thesis unfolding p e by auto
      next
        case (Inl w3)
        with fnd have "policy (cached_of en) f (d_router d) (sp_built ?s) (sp_v6 ?s) c = unmatched f (d_router d) (sp_v6 ?s) c"
          unfolding p by simp
        with Inl show ?thesis using assms(8) unfolding e by (auto simp: tail unmatched_def six exit_verdict_def)
      qed
    qed
  qed
qed


text \<open>What the DNS client returns has the family of the question.\<close>

lemma read_answers_family:
  assumes "read_answers n msg qtype i out = Inr res" "\<forall>a \<in> set out. ia_fam a = fam" "fam = (if qtype = 1 then V4 else V6)"
  shows "\<forall>a \<in> set res. ia_fam a = fam"
  using assms(1,2)
proof (induction n arbitrary: i out)
  case (Suc n)
  from Suc.prems obtain j where "\<exists>out' i'. read_answers n msg qtype i' out' = Inr res \<and> (\<forall>a \<in> set out'. ia_fam a = fam)"
    using assms(3) by (force simp: Let_def rdata_addr_def split: if_splits)
  with Suc.IH show ?case by blast
qed simp

lemma dns_answers_family:
  "dns_answers msg query qtype = Inr res \<Longrightarrow> \<forall>a \<in> set res. ia_fam a = (if qtype = 1 then V4 else V6)"
  by (auto simp: dns_answers_def split: if_splits dest!: read_answers_family)

lemma resolve_families:
  assumes "resolve_dns send i1 i2 dm = Inr r"
  shows "(\<forall>a \<in> set (dr_a r). ia_fam a = V4) \<and> (\<forall>a \<in> set (dr_aaaa r). ia_fam a = V6)"
  using assms by (auto simp: resolve_dns_def ask_def Let_def split: sum.splits option.splits dest!: dns_answers_family)

lemma flow_version:
  assumes "flow_of en tun no_v6 t = Inr fw" "fw_ips fw \<noteq> []"
  shows "\<exists>v. fw_family fw = Some v \<and> (\<forall>a \<in> set (fw_ips fw). version_of a = v)"
  using assms resolve_families by (fastforce simp: flow_of_def Let_def version_of_def split: dest.splits sum.splits if_splits family.splits)

lemma everything_v6: "cidr_answers ips ''::/0'' = list_ex (\<lambda>a. ia_fam a = V6) ips"
proof -
  have "ip_network True ''::/0'' = Some \<lparr>in_fam = V6, in_plen = 0, in_addr = 0, in_scope = None\<rparr>" by code_simp
  then show ?thesis by (simp add: cidr_answers_def ip_in_net_def netmask_def)
qed

lemma trace_channels:
  "trace_built d = filter (is_built {}) (channels d)"
proof -
  have "is_built {} = (\<lambda>ch. c_enabled ch \<and> c_wg ch \<noteq> [] \<and> dget (c_wg ch) ''peer'' \<noteq> None)"
    by (rule ext) (simp add: is_built_def)
  then show ?thesis by (simp add: trace_built_def)
qed

text \<open>C7: the offline trace agrees with the engine. When the tracer answers for a destination with at
  least one address, a connection of that flow entering at the tunnel device (at the router when there
  is none) is treated by the generated table exactly as the trace says: rejected when it names no exit,
  and leaving by the exit it names otherwise. This holds for connections that are not sniffed as DNS and
  not UDP to a LAN service port, when no declared port is held by another process, every verified
  rule-set parses and the targets are stored without surrounding blanks.\<close>

theorem trace_agrees_with_engine:
  assumes "obeys f sb" "build_config een api {} d = Inr (cfg, errs)"
    "trace en d value = Inr res" "parse_destination (te_brackets en) value = Inr t"
    "flow_of en (rt_tun (d_router d)) (filter (channel_ipv6 (te_global en)) (trace_built d) = []) t = Inr fw" "fw_ips fw \<noteq> []"
    "carries f c en t fw" "readable en d" "list_all (\<lambda>r. strip (rtarget r) = rtarget r) (rules_of d)"
    "en_cached een = cached_of en" "en_global een = te_global en"
    "fl_inbound f c = (if rt_tun (d_router d) then tun_inbound_tag else router_inbound)"
    "rt_tun (d_router d) \<or> rt_port (d_router d) \<noteq> 0"
    "\<not> (fl_network f c = ''udp'' \<and> fl_port f c \<in> set lan_direct_udp_ports)" "fl_protocol f c \<noteq> ''dns''"
  shows "sb (sc_rules cfg) ''direct'' c = exit_verdict (tr_exit res)"
proof -
  obtain e where e: "walk (te_search en) (trace_scope en d t fw) (d_router d) (rules_of d) = Inr e" "tr_exit res = te_exit e"
    using assms(3) by (auto simp: trace_def assms(4,5) Let_def)
  have fam: "fw_family fw = Some (fl_version f c)" "fl_cidr f ''::/0'' c = cidr_answers (fw_ips fw) ''::/0''"
    using assms(7) by (simp_all add: carries_def)
  have six: "fl_cidr f ''::/0'' c = (fl_version f c = 6)"
    using flow_version[OF assms(5,6)] fam assms(6) unfolding fam(2) everything_v6
    by (cases "fw_ips fw") (auto simp: list_ex_iff version_of_def split: family.splits)
  have refs: "sp_built (trace_scope en d t fw) = built_refs {} d" "sp_v6 (trace_scope en d t fw) = v6_refs (te_global en) {} d"
    by (simp_all add: trace_scope_def Let_def built_refs_def v6_refs_def trace_channels conj_commute)
  have inb: "fl_inbound f c \<in> set (shared_inbounds {} (d_router d))"
    using assms(12,13) by (auto simp: shared_inbounds_def live_port_def)
  have "policy (cached_of en) f (d_router d) (built_refs {} d) (v6_refs (te_global en) {} d) c = exit_verdict (te_exit e)"
    using walk_policy[OF e(1) assms(7,8) _ six assms(14,15)] assms(9,12) unfolding refs by (simp add: list_all_iff from_tun_def)
  then show ?thesis using engine_table[OF assms(1,2) inb] by (simp add: assms(10,11) e(2))
qed


definition cidr_data :: data where
  "cidr_data = sample_data [sample_rule ''r1'' ''ip_cidr'' ''8.8.8.0/24'' ''nordvpn/us'']"

definition cidr_env :: trace_env where
  "cidr_env = \<lparr>te_brackets = (\<lambda>_. True), te_send = (\<lambda>_. None), te_ids = ([0, 0], [0, 0]), te_found = (\<lambda>_ _. None),
     te_reads = (\<lambda>_. Inl BadMagic), te_search = (\<lambda>_ _. False), te_global = (\<lambda>_. False)\<rparr>"

definition dns_addr :: ip_addr where
  "dns_addr = \<lparr>ia_fam = V4, ia_val = 134744072, ia_scope = None\<rparr>"

definition cidr_fields :: "unit fields" where
  "cidr_fields = \<lparr>fl_inbound = (\<lambda>_. tun_inbound_tag), fl_network = (\<lambda>_. ''tcp''), fl_port = (\<lambda>_. 443), fl_protocol = (\<lambda>_. ''tls''),
     fl_version = (\<lambda>_. 4), fl_suffix = (\<lambda>_ _. False), fl_cidr = (\<lambda>v _. cidr_answers [dns_addr] v), fl_set = (\<lambda>_ _. False)\<rparr>"

lemma trace_agrees_with_engine_witness:
  "\<exists>cfg errs res. build_config sample_env ([], []) {} cidr_data = Inr (cfg, errs) \<and> trace cidr_env cidr_data ''8.8.8.8:53'' = Inr res
    \<and> tr_exit res = Some ''nordvpn/us'' \<and> sample_engine cidr_fields (sc_rules cfg) ''direct'' () = Out ''out-nordvpn-us''"
proof -
  have "returned (build_config sample_env ([], []) {} cidr_data)" by code_simp
  then obtain cfg errs where b: "build_config sample_env ([], []) {} cidr_data = Inr (cfg, errs)" by (metis returnedE prod.exhaust_sel)
  have "(case trace cidr_env cidr_data ''8.8.8.8:53'' of Inl _ \<Rightarrow> False | Inr res \<Rightarrow> tr_exit res = Some ''nordvpn/us'')" by code_simp
  then obtain res where r: "trace cidr_env cidr_data ''8.8.8.8:53'' = Inr res" "tr_exit res = Some ''nordvpn/us''"
    by (auto split: sum.splits)
  let ?fw = "\<lparr>fw_ips = [dns_addr], fw_family = Some 4, fw_all = [], fw_suppressed = False\<rparr>"
  have p: "parse_destination (te_brackets cidr_env) ''8.8.8.8:53'' = Inr (Literal dns_addr)" by code_simp
  have fl: "flow_of cidr_env (rt_tun (d_router cidr_data)) (filter (channel_ipv6 (te_global cidr_env)) (trace_built cidr_data) = []) (Literal dns_addr)
      = Inr ?fw" by (simp add: flow_of_def version_of_def dns_addr_def)
  have c: "carries cidr_fields () cidr_env (Literal dns_addr) ?fw"
    by (simp add: carries_def cidr_fields_def dest_domain_def set_answers_def geo_of_def cidr_env_def)
  have rd: "readable cidr_env cidr_data" by (simp add: readable_def geo_of_def cidr_env_def)
  have st: "list_all (\<lambda>r. strip (rtarget r) = rtarget r) (rules_of cidr_data)" by code_simp
  have en: "en_cached sample_env = cached_of cidr_env" "en_global sample_env = te_global cidr_env"
    by (simp_all add: sample_env_def cached_of_def cidr_env_def fun_eq_iff)
  have tun: "rt_tun (d_router cidr_data)" by (simp add: cidr_data_def sample_data_def)
  have "sample_engine cidr_fields (sc_rules cfg) ''direct'' () = exit_verdict (tr_exit res)"
    by (rule trace_agrees_with_engine[OF sample_obeys b r(1) p fl _ c rd st en]) (simp_all add: tun cidr_fields_def)
  moreover have "exit_verdict (Some ''nordvpn/us'') = Out ''out-nordvpn-us''" by code_simp
  ultimately show ?thesis using b r by auto
qed

text \<open>A destination with an unbalanced bracket makes the parser raise the URL parser's own error
  instead of the documented trace error.\<close>

theorem bracket_escapes_trace_error:
  "parse_destination brackets ''http://[::1'' = Inl UrlError"
proof -
  have n: "netloc (url_rest (url_clean ''http://[::1'')) = ''[::1''" "strip ''http://[::1'' = ''http://[::1''"
    "list_ex (\<lambda>i. startswith (drop i ''http://[::1'') ''://'') [0..<length ''http://[::1'']" by code_simp+
  have "url_hostname brackets ''http://[::1'' = Inl UrlError"
    by (simp add: url_hostname_def n(1) Let_def)
  then show ?thesis unfolding parse_destination_def n(2) strip_destination_def if_P[OF n(3)] by simp
qed

end
