(* ===== verification/Runner.thy ===== *)
theory Runner
  imports Engine
begin

text \<open>
  The engine process runner: the identity checks of \<open>anyhop/proc.py\<close> and the lifecycle and apply paths
  of \<open>anyhop/singbox.py\<close>. The process table is explicit; what the operating system and the engine
  answer (which processes die at a signal, whether a fresh process survives, the verdict of
  \<open>sing-box check\<close>) is an argument. Every operation here runs under the lifecycle lock.
\<close>

section \<open>Processes and their identity\<close>

text \<open>A process: its start marker (none for a zombie), whether it can be signalled by this user,
  whether its command line has the marker, and whether it runs this home's configuration.\<close>

record process =
  ps_start :: "string option"
  ps_zombie :: bool
  ps_ours :: bool
  ps_marked :: bool
  ps_managed :: bool

type_synonym proc_table = "(nat, process) dict"

record pid_record =
  pr_pid :: int
  pr_start :: "string option"

definition start_time_of :: "proc_table \<Rightarrow> nat \<Rightarrow> string option" where
  "start_time_of tab pid = (case dget tab pid of
     None \<Rightarrow> None
   | Some p \<Rightarrow> if ps_zombie p then None else (case ps_start p of None \<Rightarrow> None | Some s \<Rightarrow> if s = [] then None else Some s))"

definition alive :: "proc_table \<Rightarrow> nat \<Rightarrow> bool" where
  "alive tab pid = (case dget tab pid of None \<Rightarrow> False | Some p \<Rightarrow> pid \<noteq> 0 \<and> \<not> ps_zombie p)"

definition pid_record :: "proc_table \<Rightarrow> nat \<Rightarrow> pid_record" where
  "pid_record tab pid = \<lparr>pr_pid = int pid, pr_start = start_time_of tab pid\<rparr>"

definition parse_record :: "json option \<Rightarrow> pid_record option" where
  "parse_record v = (case v of
     Some (JNum n) \<Rightarrow> if n \<in> \<int> then Some \<lparr>pr_pid = \<lfloor>n\<rfloor>, pr_start = None\<rparr> else None
   | Some (JObj d) \<Rightarrow> (case dget d ''pid'' of
        Some (JNum n) \<Rightarrow> if n \<in> \<int> then Some \<lparr>pr_pid = \<lfloor>n\<rfloor>, pr_start = (case dget d ''start'' of Some (JStr s) \<Rightarrow> Some s | _ \<Rightarrow> None)\<rparr> else None
      | _ \<Rightarrow> None)
   | _ \<Rightarrow> None)"

definition verify_record :: "proc_table \<Rightarrow> pid_record \<Rightarrow> bool" where
  "verify_record tab r =
     (if pr_pid r \<le> 0 then False
      else (case dget tab (nat (pr_pid r)) of
          None \<Rightarrow> False
        | Some p \<Rightarrow> if \<not> ps_ours p then False
            else (case pr_start r of
                Some s \<Rightarrow> if s \<noteq> [] then start_time_of tab (nat (pr_pid r)) = Some s else ps_marked p
              | None \<Rightarrow> ps_marked p)))"

section \<open>The lifecycle\<close>

text \<open>The answer of the privileged helper to \<open>status\<close>; an unreachable helper answers without \<open>ok\<close>.\<close>

record helper_status =
  hs_ok :: bool
  hs_running :: bool
  hs_home :: "string option"
  hs_pid :: "int option"
  hs_generation :: "string option"

text \<open>\<open>rw_seen\<close>: the processes that a scan of the command lines shows, none when the scan fails.\<close>

record run_world =
  rw_procs :: proc_table
  rw_pidfile :: "pid_record option"
  rw_seen :: "nat \<Rightarrow> bool"
  rw_helper :: helper_status

record runner =
  rn_home :: string
  rn_local_only :: bool

text \<open>What the operating system does: which processes end within the grace period at SIGTERM, and
  which at SIGKILL. \<open>sg_helper_stop\<close>: what the helper, a process of its own, makes of a stop request.\<close>

record signals =
  sg_term :: "nat \<Rightarrow> bool"
  sg_kill :: "nat \<Rightarrow> bool"
  sg_helper_stop :: "run_world \<Rightarrow> run_world"

definition read_pidfile :: "run_world \<Rightarrow> nat option" where
  "read_pidfile w = (case rw_pidfile w of
     None \<Rightarrow> None
   | Some r \<Rightarrow> if verify_record (rw_procs w) r then Some (nat (pr_pid r)) else None)"

text \<open>Whose process is live: the pidfile's, else, unless the runner is the helper's own, the one that the
  helper proves to run for this home.\<close>

datatype identity = NothingRunning | LocalProc nat string | HelperProc int "string option"

definition helper_identity :: "runner \<Rightarrow> helper_status \<Rightarrow> identity" where
  "helper_identity rn st =
     (if rn_local_only rn \<or> \<not> (hs_ok st \<and> hs_running st \<and> hs_home st = Some (rn_home rn)) then NothingRunning
      else (case hs_pid st of
          None \<Rightarrow> NothingRunning
        | Some pid \<Rightarrow> HelperProc pid (if hs_generation st = Some [] then None else hs_generation st)))"

definition identity_of :: "runner \<Rightarrow> run_world \<Rightarrow> identity" where
  "identity_of rn w = (case read_pidfile w of
     Some pid \<Rightarrow> LocalProc pid (nat_str pid @ ''/'' @ (case rw_pidfile w of
         Some r \<Rightarrow> (case pr_start r of Some t \<Rightarrow> t | None \<Rightarrow> []) | None \<Rightarrow> []))
   | None \<Rightarrow> helper_identity rn (rw_helper w))"

definition running_pid :: "runner \<Rightarrow> run_world \<Rightarrow> int option" where
  "running_pid rn w = (case identity_of rn w of
     NothingRunning \<Rightarrow> None | LocalProc pid g \<Rightarrow> Some (int pid) | HelperProc pid g \<Rightarrow> Some pid)"

definition managed_pids :: "run_world \<Rightarrow> nat list" where
  "managed_pids w = map fst (filter (\<lambda>(pid, p). ps_managed p \<and> \<not> ps_zombie p \<and> rw_seen w pid) (rw_procs w))"

text \<open>The processes of a list that a signal ends leave the table.\<close>

definition end_procs :: "(nat \<Rightarrow> bool) \<Rightarrow> nat list \<Rightarrow> run_world \<Rightarrow> run_world" where
  "end_procs dies pids w = w\<lparr>rw_procs := filter (\<lambda>(pid, p). \<not> (pid \<in> set pids \<and> dies pid)) (rw_procs w)\<rparr>"

definition reap_strays :: "signals \<Rightarrow> int option \<Rightarrow> run_world \<Rightarrow> nat list \<times> run_world" where
  "reap_strays sg keep w =
     (let victims = filter (\<lambda>pid. Some (int pid) \<noteq> keep) (managed_pids w) in
      if victims = [] then ([], w)
      else (let w1 = end_procs (sg_term sg) victims w;
                w2 = end_procs (sg_kill sg) (filter (alive (rw_procs w1)) victims) w1 in
        (filter (alive (rw_procs w2)) victims, w2)))"

definition unlink_pidfile_if :: "nat \<Rightarrow> run_world \<Rightarrow> run_world" where
  "unlink_pidfile_if pid w = (case rw_pidfile w of
     Some r \<Rightarrow> if pr_pid r = int pid then w\<lparr>rw_pidfile := None\<rparr> else w
   | None \<Rightarrow> w)"

definition drop_unverified_pidfile :: "run_world \<Rightarrow> run_world" where
  "drop_unverified_pidfile w = (case rw_pidfile w of
     Some r \<Rightarrow> if verify_record (rw_procs w) r then w else w\<lparr>rw_pidfile := None\<rparr>
   | None \<Rightarrow> w)"

datatype run_error = StillAlive "nat list" | ExitedAtOnce nat | BinaryError string

text \<open>A process that is spawned: its pid, its start marker, and whether it lives past the first check.\<close>

record spawn =
  sp_pid :: nat
  sp_start :: string
  sp_lives :: bool

definition spawned :: "spawn \<Rightarrow> process" where
  "spawned s = \<lparr>ps_start = Some (sp_start s), ps_zombie = False, ps_ours = True, ps_marked = True, ps_managed = True\<rparr>"

definition start_locked :: "runner \<Rightarrow> signals \<Rightarrow> spawn \<Rightarrow> run_world \<Rightarrow> (run_error, unit) result \<times> run_world" where
  "start_locked rn sg s w =
     (let vouched = running_pid rn w; (left, w1) = reap_strays sg vouched w in
      if left \<noteq> [] then (Inl (StillAlive left), w1)
      else if vouched \<noteq> None then (Inr (), w1)
      else (let w2 = w1\<lparr>rw_procs := rw_procs w1 @ [(sp_pid s, spawned s)]\<rparr>;
                w3 = w2\<lparr>rw_pidfile := Some (pid_record (rw_procs w2) (sp_pid s))\<rparr> in
        if sp_lives s then (Inr (), w3)
        else (Inl (ExitedAtOnce (sp_pid s)), unlink_pidfile_if (sp_pid s) (end_procs (\<lambda>_. True) [sp_pid s] w3))))"

text \<open>A process that does not go at SIGTERM within the wait is killed.\<close>

definition stop_local :: "signals \<Rightarrow> run_world \<Rightarrow> run_world" where
  "stop_local sg w = (case read_pidfile w of
     None \<Rightarrow> snd (reap_strays sg None (drop_unverified_pidfile w))
   | Some pid \<Rightarrow>
      (let w1 = end_procs (sg_term sg) [pid] w;
           w2 = (if read_pidfile w1 = None then w1 else end_procs (sg_kill sg) [pid] w1) in
       snd (reap_strays sg None (unlink_pidfile_if pid w2))))"

definition stop_locked :: "runner \<Rightarrow> signals \<Rightarrow> run_world \<Rightarrow> run_world" where
  "stop_locked rn sg w = (case identity_of rn w of
     HelperProc pid g \<Rightarrow> sg_helper_stop sg w
   | _ \<Rightarrow> stop_local sg w)"

definition restart :: "runner \<Rightarrow> signals \<Rightarrow> spawn \<Rightarrow> run_world \<Rightarrow> (run_error, unit) result \<times> run_world" where
  "restart rn sg s w = start_locked rn sg s (stop_locked rn sg w)"

text \<open>\<open>port_holder\<close>: who listens on a port, by the listeners' pids (\<open>None\<close> when they cannot be told).\<close>

datatype holder = Ours | Foreign | Unknown

definition port_holder :: "run_world \<Rightarrow> nat list option \<Rightarrow> holder" where
  "port_holder w listeners = (case listeners of
     None \<Rightarrow> Unknown
   | Some pids \<Rightarrow> if pids = [] then Unknown
       else if set pids \<inter> set (managed_pids w) \<noteq> {} then Ours else Foreign)"

section \<open>At most one process\<close>

lemma managed_end:
  "managed_pids (end_procs dies pids w) = filter (\<lambda>pid. \<not> (pid \<in> set pids \<and> dies pid)) (managed_pids w)"
  by (auto simp: managed_pids_def end_procs_def filter_map comp_def case_prod_unfold intro!: arg_cong[where f = "map fst"] filter_cong)

definition world_ok :: "run_world \<Rightarrow> bool" where
  "world_ok w = (distinct (keys (rw_procs w)) \<and> 0 \<notin> set (keys (rw_procs w)))"

lemma managed_iff:
  assumes "world_ok w"
  shows "pid \<in> set (managed_pids w) \<longleftrightarrow> (\<exists>p. dget (rw_procs w) pid = Some p \<and> ps_managed p \<and> \<not> ps_zombie p) \<and> rw_seen w pid"
  using assms by (force simp: world_ok_def managed_pids_def dget_eq_Some_iff)

lemma managed_alive:
  assumes "world_ok w" "pid \<in> set (managed_pids w)"
  shows "alive (rw_procs w) pid"
proof -
  obtain p where p: "dget (rw_procs w) pid = Some p" "\<not> ps_zombie p" using assms by (auto simp: managed_iff)
  then have "pid \<noteq> 0" using dget_Some_key assms(1) unfolding world_ok_def by metis
  with p show ?thesis by (simp add: alive_def)
qed

lemma world_ok_end [simp]: "world_ok w \<Longrightarrow> world_ok (end_procs dies pids w)"
  by (auto simp: world_ok_def end_procs_def distinct_map_filter)

lemma dget_end:
  "world_ok w \<Longrightarrow> dget (rw_procs (end_procs dies pids w)) pid = (if pid \<in> set pids \<and> dies pid then None else dget (rw_procs w) pid)"
proof -
  have "dget (filter (\<lambda>(k, v). P k) xs) pid = (if P pid then dget xs pid else None)" for P and xs :: proc_table
    by (induction xs) auto
  then show ?thesis by (simp add: end_procs_def)
qed

lemma end_simps [simp]:
  "rw_pidfile (end_procs dies pids w) = rw_pidfile w" "rw_helper (end_procs dies pids w) = rw_helper w"
  "rw_seen (end_procs dies pids w) = rw_seen w"
  by (simp_all add: end_procs_def)

lemma read_pidfile_end:
  assumes "world_ok w" "read_pidfile w = Some pid" "pid \<notin> set pids"
  shows "read_pidfile (end_procs dies pids w) = Some pid"
  using assms by (auto simp: read_pidfile_def verify_record_def dget_end start_time_of_def split: option.splits if_splits)

text \<open>Reaping leaves, of the processes the scan shows, the one that is kept and the survivors it reports.\<close>

lemma reap_facts:
  assumes "world_ok w" "reap_strays sg keep w = (left, w')"
  shows "world_ok w' \<and> rw_pidfile w' = rw_pidfile w \<and> rw_helper w' = rw_helper w
    \<and> (\<forall>pid \<in> set (managed_pids w'). pid \<in> set left \<or> Some (int pid) = keep)
    \<and> (\<forall>pid. pid \<notin> set (managed_pids w) \<or> Some (int pid) = keep \<longrightarrow> dget (rw_procs w') pid = dget (rw_procs w) pid)
    \<and> (\<forall>pid. dget (rw_procs w') pid \<in> {None, dget (rw_procs w) pid})
    \<and> ((\<forall>pid. sg_term sg pid \<or> sg_kill sg pid) \<longrightarrow> left = [])"
proof -
  let ?v = "filter (\<lambda>pid. Some (int pid) \<noteq> keep) (managed_pids w)"
  let ?w1 = "end_procs (sg_term sg) ?v w"
  let ?v2 = "filter (alive (rw_procs ?w1)) ?v"
  let ?w2 = "end_procs (sg_kill sg) ?v2 ?w1"
  show ?thesis
  proof (cases "?v = []")
    case True
    with assms have e: "left = []" "w' = w" by (auto simp: reap_strays_def Let_def)
    have "\<forall>pid \<in> set (managed_pids w). Some (int pid) = keep" using True by (auto simp: filter_empty_conv)
    with assms(1) e show ?thesis by auto
  next
    case False
    have e: "left = filter (alive (rw_procs ?w2)) ?v" "w' = ?w2"
      using assms(2) unfolding reap_strays_def Let_def if_not_P[OF False] by blast+
    have ok: "world_ok ?w1" "world_ok ?w2" using assms(1) by simp_all
    have m: "set (managed_pids ?w2) \<subseteq> set (managed_pids w)" by (auto simp: managed_end)
    have "pid \<in> set left \<or> Some (int pid) = keep" if "pid \<in> set (managed_pids ?w2)" for pid
      using that m managed_alive[OF ok(2) that] by (auto simp: e)
    moreover have "dget (rw_procs ?w2) pid = dget (rw_procs w) pid" if "pid \<notin> set (managed_pids w) \<or> Some (int pid) = keep" for pid
      using that assms(1) ok by (auto simp: dget_end)
    moreover have "dget (rw_procs ?w2) pid \<in> {None, dget (rw_procs w) pid}" for pid
      using assms(1) ok by (simp add: dget_end)
    moreover have "left = []" if t: "\<forall>pid. sg_term sg pid \<or> sg_kill sg pid"
    proof -
      have "\<not> alive (rw_procs ?w2) pid" if "pid \<in> set ?v" for pid
        using that t assms(1) ok by (auto simp: alive_def dget_end)
      then show ?thesis unfolding e filter_empty_conv by blast
    qed
    ultimately show ?thesis using ok e by auto
  qed
qed

lemma read_pidfile_same:
  assumes "rw_pidfile w' = rw_pidfile w" "read_pidfile w = Some pid" "dget (rw_procs w') pid = dget (rw_procs w) pid"
  shows "read_pidfile w' = Some pid"
  using assms by (auto simp: read_pidfile_def verify_record_def start_time_of_def split: option.splits if_splits)

lemma read_pidfile_fewer:
  assumes "rw_pidfile w' = rw_pidfile w" "read_pidfile w = None" "\<forall>pid. dget (rw_procs w') pid \<in> {None, dget (rw_procs w) pid}"
  shows "read_pidfile w' = None"
proof (cases "rw_pidfile w")
  case (Some r)
  from assms(3) have "dget (rw_procs w') (nat (pr_pid r)) = None \<or> dget (rw_procs w') (nat (pr_pid r)) = dget (rw_procs w) (nat (pr_pid r))" by auto
  with Some assms(1,2) show ?thesis
    by (auto simp: read_pidfile_def verify_record_def start_time_of_def split: if_splits option.splits)
qed (use assms(1) in \<open>simp add: read_pidfile_def\<close>)

lemma running_cases:
  "running_pid rn w = (case read_pidfile w of Some pid \<Rightarrow> Some (int pid)
     | None \<Rightarrow> (case helper_identity rn (rw_helper w) of HelperProc pid g \<Rightarrow> Some pid | _ \<Rightarrow> None))"
  by (auto simp: running_pid_def identity_of_def helper_identity_def split: option.split)

lemma managed_append:
  "managed_pids (w\<lparr>rw_procs := rw_procs w @ [(k, p)]\<rparr>)
     = managed_pids w @ (if ps_managed p \<and> \<not> ps_zombie p \<and> rw_seen w k then [k] else [])"
  by (simp add: managed_pids_def)

text \<open>Reaping around the process that runs leaves it running.\<close>

lemma reap_running:
  assumes "world_ok w" "reap_strays sg (running_pid rn w) w = (left, w1)"
  shows "running_pid rn w1 = running_pid rn w"
proof -
  note f = reap_facts[OF assms]
  show ?thesis
  proof (cases "read_pidfile w")
    case (Some pid)
    then have "read_pidfile w1 = Some pid" by (intro read_pidfile_same[of w1 w pid]) (use f in \<open>auto simp: running_cases\<close>)
    with Some show ?thesis by (simp add: running_cases)
  next
    case None
    then have "read_pidfile w1 = None" by (rule read_pidfile_fewer[rotated]) (use f in auto)
    with None f show ?thesis by (simp add: running_cases)
  qed
qed

lemma start_vouched:
  assumes "world_ok w" "start_locked rn sg s w = (Inr (), w')" "running_pid rn w = Some pid"
  shows "running_pid rn w' = Some pid \<and> (\<forall>k \<in> set (managed_pids w'). int k = pid)
    \<and> rw_pidfile w' = rw_pidfile w \<and> (\<forall>k. int k = pid \<longrightarrow> dget (rw_procs w') k = dget (rw_procs w) k)"
proof -
  obtain left w1 where r: "reap_strays sg (running_pid rn w) w = (left, w1)" by (cases "reap_strays sg (running_pid rn w) w")
  with assms(2,3) have "left = []" "w' = w1" by (auto simp: start_locked_def Let_def split: if_splits)
  with reap_facts[OF assms(1) r] reap_running[OF assms(1) r] assms(3) show ?thesis by auto
qed

lemma start_fresh:
  assumes "world_ok w" "sp_pid s \<notin> set (keys (rw_procs w))" "sp_pid s \<noteq> 0" "sp_start s \<noteq> []"
    "start_locked rn sg s w = (Inr (), w')" "running_pid rn w = None"
  shows "read_pidfile w' = Some (sp_pid s) \<and> set (managed_pids w') \<subseteq> {sp_pid s}
    \<and> dget (rw_procs w') (sp_pid s) = Some (spawned s) \<and> sp_lives s"
proof -
  obtain left w1 where r: "reap_strays sg None w = (left, w1)" by (cases "reap_strays sg None w")
  note f = reap_facts[OF assms(1) r]
  let ?w2 = "w1\<lparr>rw_procs := rw_procs w1 @ [(sp_pid s, spawned s)]\<rparr>"
  from assms(5,6) r have w': "left = []" "w' = ?w2\<lparr>rw_pidfile := Some (pid_record (rw_procs ?w2) (sp_pid s))\<rparr>" "sp_lives s"
    by (auto simp: start_locked_def Let_def split: if_splits)
  have "sp_pid s \<notin> set (managed_pids w)" using assms(1,2) by (auto simp: managed_iff dest: dget_Some_key)
  then have "dget (rw_procs w1) (sp_pid s) = dget (rw_procs w) (sp_pid s)" using f by blast
  then have n: "dget (rw_procs w1) (sp_pid s) = None" using assms(2) by (metis dget_Some_key not_Some_eq)
  have g: "dget (rw_procs w') (sp_pid s) = Some (spawned s)" by (simp add: w' map_add_def n)
  have st: "start_time_of (rw_procs ?w2) (sp_pid s) = Some (sp_start s)"
    using assms(4) by (simp add: start_time_of_def map_add_def n spawned_def)
  have p: "read_pidfile w' = Some (sp_pid s)"
    using assms(3,4) g st by (simp add: read_pidfile_def w' pid_record_def verify_record_def start_time_of_def map_add_def n spawned_def)
  have "managed_pids w' = managed_pids ?w2" by (simp add: w' managed_pids_def)
  then have "set (managed_pids w') \<subseteq> set (managed_pids w1) \<union> {sp_pid s}" by (auto simp: managed_append split: if_splits)
  with f w'(1) have "set (managed_pids w') \<subseteq> {sp_pid s}" by auto
  with p g w'(3) show ?thesis by blast
qed

lemma start_refuses:
  assumes "world_ok w" "start_locked rn sg s w = (Inl (StillAlive left), w')"
  shows "left \<noteq> [] \<and> running_pid rn w' = running_pid rn w \<and> (\<forall>k. dget (rw_procs w') k \<in> {None, dget (rw_procs w) k})"
proof -
  obtain l w1 where r: "reap_strays sg (running_pid rn w) w = (l, w1)" by (cases "reap_strays sg (running_pid rn w) w")
  with assms(2) have "l = left" "w' = w1" "left \<noteq> []" by (auto simp: start_locked_def Let_def split: if_splits)
  with reap_facts[OF assms(1) r] reap_running[OF assms(1) r] show ?thesis by auto
qed

lemma reap_all:
  assumes "world_ok w" "\<forall>pid. sg_term sg pid \<or> sg_kill sg pid"
  shows "world_ok (snd (reap_strays sg None w)) \<and> managed_pids (snd (reap_strays sg None w)) = []
    \<and> rw_pidfile (snd (reap_strays sg None w)) = rw_pidfile w \<and> rw_helper (snd (reap_strays sg None w)) = rw_helper w"
proof -
  obtain left w1 where r: "reap_strays sg None w = (left, w1)" by (cases "reap_strays sg None w")
  from reap_facts[OF assms(1) r] assms(2) have "set (managed_pids w1) = {}" "world_ok w1" "rw_pidfile w1 = rw_pidfile w"
    "rw_helper w1 = rw_helper w" by auto
  then show ?thesis by (simp add: r)
qed

lemma stop_clean:
  assumes "world_ok w" "\<forall>pid. sg_term sg pid \<or> sg_kill sg pid"
  shows "world_ok (stop_local sg w) \<and> managed_pids (stop_local sg w) = [] \<and> rw_pidfile (stop_local sg w) = None
    \<and> rw_helper (stop_local sg w) = rw_helper w"
proof (cases "read_pidfile w")
  case None
  let ?w = "drop_unverified_pidfile w"
  have "world_ok ?w" "rw_helper ?w = rw_helper w"
    using assms(1) by (auto simp: drop_unverified_pidfile_def world_ok_def split: option.split)
  moreover have "rw_pidfile ?w = None"
    using None by (auto simp: drop_unverified_pidfile_def read_pidfile_def split: option.splits if_splits)
  ultimately show ?thesis using reap_all[OF _ assms(2)] None by (simp add: stop_local_def)
next
  case (Some pid)
  let ?w1 = "end_procs (sg_term sg) [pid] w"
  let ?w2 = "if read_pidfile ?w1 = None then ?w1 else end_procs (sg_kill sg) [pid] ?w1"
  have ok: "world_ok (unlink_pidfile_if pid ?w2)" "rw_helper (unlink_pidfile_if pid ?w2) = rw_helper w"
    using assms(1) by (auto simp: unlink_pidfile_if_def world_ok_def end_procs_def distinct_map_filter split: option.split)
  have "rw_pidfile ?w2 = rw_pidfile w" by simp
  moreover obtain r where "rw_pidfile w = Some r" "int pid = pr_pid r"
    using Some by (auto simp: read_pidfile_def verify_record_def split: option.splits if_splits)
  ultimately have "rw_pidfile (unlink_pidfile_if pid ?w2) = None" by (simp add: unlink_pidfile_if_def)
  with reap_all[OF ok(1) assms(2)] ok(2) show ?thesis by (simp add: stop_local_def Some Let_def)
qed

text \<open>C17: A start that succeeds leaves one owner. Of the processes that a scan shows to run this home's
  configuration, at most the one that is running afterwards is left. When one was running before, by the
  pidfile or as the helper's root process, it is still the one, untouched, and nothing is spawned; else
  it is the new process, which the pidfile identifies. When a stray outlives its signals the start
  refuses, spawns nothing and changes no owner.\<close>

theorem start_leaves_one:
  assumes "world_ok w" "sp_pid s \<notin> set (keys (rw_procs w))" "sp_pid s \<noteq> 0" "sp_start s \<noteq> []"
    "start_locked rn sg s w = (r, w')"
  shows "case r of
      Inr _ \<Rightarrow> (\<exists>pid. running_pid rn w' = Some pid \<and> (\<forall>k \<in> set (managed_pids w'). int k = pid)
        \<and> (case running_pid rn w of
             Some old \<Rightarrow> pid = old \<and> rw_pidfile w' = rw_pidfile w \<and> (\<forall>k. int k = pid \<longrightarrow> dget (rw_procs w') k = dget (rw_procs w) k)
               \<and> sp_pid s \<notin> set (managed_pids w')
           | None \<Rightarrow> pid = int (sp_pid s) \<and> read_pidfile w' = Some (sp_pid s) \<and> dget (rw_procs w') (sp_pid s) = Some (spawned s)))
    | Inl (StillAlive left) \<Rightarrow> left \<noteq> [] \<and> running_pid rn w' = running_pid rn w \<and> dget (rw_procs w') (sp_pid s) = None
    | Inl _ \<Rightarrow> True"
proof (cases r)
  case (Inl e)
  have "dget (rw_procs w) (sp_pid s) = None" using assms(2) by (metis dget_Some_key not_Some_eq)
  moreover have "dget (rw_procs w') (sp_pid s) \<in> {None, dget (rw_procs w) (sp_pid s)}" if "e = StillAlive left" for left
    using start_refuses[OF assms(1), of rn sg s left w'] assms(5) Inl that by blast
  ultimately show ?thesis using Inl start_refuses[OF assms(1), of rn sg s] assms(5) by (cases e) auto
next
  case (Inr u)
  show ?thesis
  proof (cases "running_pid rn w")
    case None
    from start_fresh[OF assms(1-4) _ None] assms(5) Inr have
      "read_pidfile w' = Some (sp_pid s)" "set (managed_pids w') \<subseteq> {sp_pid s}" "dget (rw_procs w') (sp_pid s) = Some (spawned s)" by auto
    with None Inr show ?thesis by (auto simp: running_cases)
  next
    case (Some pid)
    from start_vouched[OF assms(1) _ Some] assms(5) Inr have v: "running_pid rn w' = Some pid" "\<forall>k \<in> set (managed_pids w'). int k = pid"
      "rw_pidfile w' = rw_pidfile w" "\<forall>k. int k = pid \<longrightarrow> dget (rw_procs w') k = dget (rw_procs w) k" by auto
    have "dget (rw_procs w) (sp_pid s) = None" using assms(2) by (metis dget_Some_key not_Some_eq)
    moreover obtain l where rs: "reap_strays sg (running_pid rn w) w = (l, w')"
      using assms(5) Inr Some by (auto simp: start_locked_def Let_def split: prod.splits if_splits)
    moreover have "dget (rw_procs w') (sp_pid s) \<in> {None, dget (rw_procs w) (sp_pid s)}" "world_ok w'"
      using reap_facts[OF assms(1) rs] by blast+
    ultimately have "dget (rw_procs w') (sp_pid s) = None" "world_ok w'" by auto
    then have "sp_pid s \<notin> set (managed_pids w')" by (simp add: managed_iff)
    with v Some Inr show ?thesis by simp
  qed
qed

definition no_helper :: helper_status where
  "no_helper = \<lparr>hs_ok = False, hs_running = False, hs_home = None, hs_pid = None, hs_generation = None\<rparr>"

definition two_strays :: run_world where
  "two_strays = \<lparr>rw_procs = [(7, \<lparr>ps_start = Some ''t7'', ps_zombie = False, ps_ours = True, ps_marked = True, ps_managed = True\<rparr>),
     (9, \<lparr>ps_start = Some ''t9'', ps_zombie = False, ps_ours = True, ps_marked = True, ps_managed = True\<rparr>)],
     rw_pidfile = Some \<lparr>pr_pid = 9, pr_start = Some ''t8''\<rparr>, rw_seen = (\<lambda>_. True), rw_helper = no_helper\<rparr>"

text \<open>The helper's root process beside a stray.\<close>

definition helper_world :: run_world where
  "helper_world = \<lparr>rw_procs = [(7, \<lparr>ps_start = Some ''t7'', ps_zombie = False, ps_ours = True, ps_marked = True, ps_managed = True\<rparr>),
     (5, \<lparr>ps_start = Some ''t5'', ps_zombie = False, ps_ours = False, ps_marked = True, ps_managed = True\<rparr>)],
     rw_pidfile = None, rw_seen = (\<lambda>_. True),
     rw_helper = \<lparr>hs_ok = True, hs_running = True, hs_home = Some ''/h'', hs_pid = Some 5, hs_generation = Some ''5/t5''\<rparr>\<rparr>"

definition home_runner :: runner where
  "home_runner = \<lparr>rn_home = ''/h'', rn_local_only = False\<rparr>"

definition new_spawn :: spawn where
  "new_spawn = \<lparr>sp_pid = 12, sp_start = ''t12'', sp_lives = True\<rparr>"

definition kill_works :: signals where
  "kill_works = \<lparr>sg_term = (\<lambda>pid. pid = 7), sg_kill = (\<lambda>_. True), sg_helper_stop = (\<lambda>w. w\<lparr>rw_helper := no_helper\<rparr>)\<rparr>"

lemma start_leaves_one_witness:
  "(\<exists>w'. start_locked home_runner kill_works new_spawn two_strays = (Inr (), w')
     \<and> running_pid home_runner w' = Some 12 \<and> (\<forall>k \<in> set (managed_pids w'). k = 12))
   \<and> (\<exists>w'. start_locked home_runner kill_works new_spawn helper_world = (Inr (), w')
     \<and> running_pid home_runner w' = Some 5 \<and> (\<forall>k \<in> set (managed_pids w'). k = 5))"
proof
  have r: "fst (start_locked home_runner kill_works new_spawn two_strays) = Inr ()" by code_simp
  have h: "world_ok two_strays" "sp_pid new_spawn \<notin> set (keys (rw_procs two_strays))" "sp_pid new_spawn \<noteq> 0" "sp_start new_spawn \<noteq> []"
    and o: "running_pid home_runner two_strays = None" by code_simp+
  obtain w' where w: "start_locked home_runner kill_works new_spawn two_strays = (Inr (), w')"
    using r by (metis prod.collapse)
  from start_leaves_one[OF h w] w o show "\<exists>w'. start_locked home_runner kill_works new_spawn two_strays = (Inr (), w')
     \<and> running_pid home_runner w' = Some 12 \<and> (\<forall>k \<in> set (managed_pids w'). k = 12)" by (auto simp: new_spawn_def)
next
  have r: "fst (start_locked home_runner kill_works new_spawn helper_world) = Inr ()" by code_simp
  have h: "world_ok helper_world" "sp_pid new_spawn \<notin> set (keys (rw_procs helper_world))" "sp_pid new_spawn \<noteq> 0" "sp_start new_spawn \<noteq> []"
    and o: "running_pid home_runner helper_world = Some 5" by code_simp+
  obtain w' where w: "start_locked home_runner kill_works new_spawn helper_world = (Inr (), w')"
    using r by (metis prod.collapse)
  from start_leaves_one[OF h w] w o show "\<exists>w'. start_locked home_runner kill_works new_spawn helper_world = (Inr (), w')
     \<and> running_pid home_runner w' = Some 5 \<and> (\<forall>k \<in> set (managed_pids w'). k = 5)" by auto
qed

text \<open>A stop that is obeyed: no process survives SIGKILL, the helper lets go of the process it was asked to stop,
  and holds none when it was not asked.\<close>

definition stop_obeyed :: "runner \<Rightarrow> signals \<Rightarrow> run_world \<Rightarrow> bool" where
  "stop_obeyed rn sg w = (case identity_of rn w of
     HelperProc pid g \<Rightarrow> world_ok (sg_helper_stop sg w) \<and> running_pid rn (sg_helper_stop sg w) = None
   | _ \<Rightarrow> helper_identity rn (rw_helper w) = NothingRunning)"

lemma stop_leaves_none:
  assumes "world_ok w" "\<forall>pid. sg_term sg pid \<or> sg_kill sg pid" "stop_obeyed rn sg w"
  shows "world_ok (stop_locked rn sg w) \<and> running_pid rn (stop_locked rn sg w) = None"
proof (cases "identity_of rn w")
  case (HelperProc pid g)
  with assms(3) show ?thesis by (simp add: stop_locked_def stop_obeyed_def)
qed (use stop_clean[OF assms(1,2)] assms(3) in \<open>simp_all add: stop_locked_def stop_obeyed_def running_cases read_pidfile_def\<close>)

text \<open>A restart whose stop is obeyed and whose process lives ends with exactly the new process, named by the
  pidfile, whatever was running before, whoever ran it and whatever the pidfile said.\<close>

theorem restart_leaves_exactly_new:
  assumes "world_ok w" "\<forall>pid. sg_term sg pid \<or> sg_kill sg pid" "stop_obeyed rn sg w"
    "sp_pid s \<notin> set (keys (rw_procs (stop_locked rn sg w)))" "sp_pid s \<noteq> 0" "sp_start s \<noteq> []" "sp_lives s"
  shows "fst (restart rn sg s w) = Inr () \<and> set (managed_pids (snd (restart rn sg s w))) \<subseteq> {sp_pid s}
    \<and> read_pidfile (snd (restart rn sg s w)) = Some (sp_pid s)
    \<and> dget (rw_procs (snd (restart rn sg s w))) (sp_pid s) = Some (spawned s)"
proof -
  let ?w = "stop_locked rn sg w"
  from stop_leaves_none[OF assms(1-3)] have c: "world_ok ?w" "running_pid rn ?w = None" by auto
  obtain left w1 where r: "reap_strays sg None ?w = (left, w1)" by (cases "reap_strays sg None ?w")
  have "left = []" using reap_facts[OF c(1) r] assms(2) by blast
  then have "\<exists>w'. start_locked rn sg s ?w = (Inr (), w')"
    using r c(2) assms(7) by (simp add: start_locked_def)
  then obtain w' where w': "start_locked rn sg s ?w = (Inr (), w')" by blast
  from start_fresh[OF c(1) assms(4-6) w' c(2)] show ?thesis by (simp add: restart_def w')
qed

lemma restart_leaves_exactly_new_witness:
  "fst (restart home_runner kill_works new_spawn helper_world) = Inr ()
    \<and> set (managed_pids (snd (restart home_runner kill_works new_spawn helper_world))) \<subseteq> {12}
    \<and> read_pidfile (snd (restart home_runner kill_works new_spawn helper_world)) = Some 12"
proof -
  have h: "world_ok helper_world" "stop_obeyed home_runner kill_works helper_world"
    "sp_pid new_spawn \<notin> set (keys (rw_procs (stop_locked home_runner kill_works helper_world)))"
    "sp_pid new_spawn \<noteq> 0" "sp_start new_spawn \<noteq> []" "sp_lives new_spawn" by code_simp+
  have s: "\<forall>pid. sg_term kill_works pid \<or> sg_kill kill_works pid" by (simp add: kill_works_def)
  from restart_leaves_exactly_new[OF h(1) s h(2-6)] show ?thesis by (simp add: new_spawn_def)
qed

section \<open>Applying a configuration\<close>

text \<open>
  \<open>Runner.apply\<close> over a world of any type: the operations it calls are a record of functions. An
  operation that makes the engine read the configuration file is given the file's text.
\<close>

datatype helper_state = NoHelper | HelperOk | HelperStale | HelperForeign string

record 'w run_ops =
  ro_running :: "'w \<Rightarrow> bool"
  ro_healthy :: "'w \<Rightarrow> bool \<times> 'w"
  ro_binary :: "'w \<Rightarrow> (string, unit) result \<times> 'w"
  ro_check :: "string \<Rightarrow> 'w \<Rightarrow> (string, string option) result \<times> 'w"
  ro_restart :: "string \<Rightarrow> 'w \<Rightarrow> (string, unit) result \<times> 'w"
  ro_reload :: "string \<Rightarrow> 'w \<Rightarrow> bool \<times> 'w"
  ro_probe :: "'w \<Rightarrow> helper_state"
  ro_helper_owns :: "'w \<Rightarrow> bool"
  ro_helper_runs :: "'w \<Rightarrow> bool"
  ro_helper_stop :: "'w \<Rightarrow> 'w"
  ro_helper_start :: "string \<Rightarrow> 'w \<Rightarrow> (string, unit) result \<times> 'w"
  ro_helper_reload :: "string \<Rightarrow> 'w \<Rightarrow> bool \<times> 'w"
  ro_generation :: "'w \<Rightarrow> string option"
  ro_healthy_after :: "string option \<Rightarrow> 'w \<Rightarrow> bool \<times> 'w"
  ro_local_live :: "'w \<Rightarrow> bool"
  ro_stop_local :: "'w \<Rightarrow> 'w"

datatype apply_outcome = ApUnchanged | ApApplied | ApRejected | ApFailed

datatype apply_detail = NoDetail | CheckError string | RuntimeText string | NoControl | HelperElsewhere string | HelperOld | HelperOldRuns
  | HelperError string | HelperNoControl

type_synonym apply_result = "apply_outcome \<times> apply_detail"

record 'w run_state =
  rs_config :: "string option"
  rs_world :: 'w

definition helper_cold :: "'w run_ops \<Rightarrow> string \<Rightarrow> 'w \<Rightarrow> apply_result \<times> 'w" where
  "helper_cold ops cfg w = (case ro_helper_start ops cfg w of
       (Inl e, w1) \<Rightarrow> ((ApFailed, HelperError e), w1)
     | (Inr _, w1) \<Rightarrow> (case ro_healthy ops w1 of (h, w2) \<Rightarrow> ((if h then (ApApplied, NoDetail) else (ApFailed, HelperNoControl)), w2)))"

definition apply_via_helper :: "'w run_ops \<Rightarrow> string \<Rightarrow> 'w \<Rightarrow> apply_result \<times> 'w" where
  "apply_via_helper ops cfg w =
     (let w1 = (if ro_local_live ops w then ro_stop_local ops w else w) in
      if ro_helper_owns ops w1 then
        (case ro_helper_reload ops cfg w1 of (ack, w2) \<Rightarrow>
         if ack then (case ro_healthy_after ops (ro_generation ops w1) w2 of (h, w3) \<Rightarrow>
             if h then ((ApApplied, NoDetail), w3) else helper_cold ops cfg (ro_helper_stop ops w3))
         else helper_cold ops cfg (ro_helper_stop ops w2))
      else helper_cold ops cfg w1)"

text \<open>After the helper's part: reload in place when possible, restart otherwise.\<close>

definition local_cold :: "'w run_ops \<Rightarrow> string \<Rightarrow> 'w \<Rightarrow> apply_result \<times> 'w" where
  "local_cold ops cfg w = (case ro_restart ops cfg w of
       (Inl e, w1) \<Rightarrow> ((ApFailed, RuntimeText e), w1)
     | (Inr _, w1) \<Rightarrow> (case ro_healthy ops w1 of (h, w2) \<Rightarrow> ((if h then (ApApplied, NoDetail) else (ApFailed, NoControl)), w2)))"

definition apply_local :: "'w run_ops \<Rightarrow> string \<Rightarrow> bool \<Rightarrow> 'w \<Rightarrow> apply_result \<times> 'w" where
  "apply_local ops cfg force w =
     (if ro_running ops w \<and> \<not> force then
        (case ro_reload ops cfg w of (r, w1) \<Rightarrow>
          if r then (case ro_healthy ops w1 of (h, w2) \<Rightarrow> if h then ((ApApplied, NoDetail), w2) else local_cold ops cfg w2)
          else local_cold ops cfg w1)
      else local_cold ops cfg w)"

definition apply_checked :: "'w run_ops \<Rightarrow> (string \<Rightarrow> bool) \<Rightarrow> bool \<Rightarrow> string option \<Rightarrow> string \<Rightarrow> 'w \<Rightarrow> apply_result \<times> 'w" where
  "apply_checked ops has_tun linux old cfg w =
     (let hp = ro_probe ops w; tun = has_tun cfg in
      if tun \<and> hp = HelperOk then apply_via_helper ops cfg w
      else (case (if tun then hp else NoHelper) of
          HelperForeign home \<Rightarrow> ((ApFailed, HelperElsewhere home), w)
        | HelperStale \<Rightarrow> ((ApFailed, HelperOld), w)
        | _ \<Rightarrow>
          (if ro_helper_owns ops w then apply_local ops cfg (tun \<and> \<not> (case old of None \<Rightarrow> False | Some t \<Rightarrow> has_tun t) \<and> linux) (ro_helper_stop ops w)
           else if hp = HelperStale \<and> ro_helper_runs ops w then ((ApFailed, HelperOldRuns), w)
           else apply_local ops cfg (tun \<and> \<not> (case old of None \<Rightarrow> False | Some t \<Rightarrow> has_tun t) \<and> linux) w)))"

definition apply_config :: "'w run_ops \<Rightarrow> (string \<Rightarrow> bool) \<Rightarrow> bool \<Rightarrow> string \<Rightarrow> 'w run_state \<Rightarrow> (string, apply_result) result \<times> 'w run_state" where
  "apply_config ops has_tun linux cfg s =
     (let old = rs_config s; w = rs_world s;
          (same, w0) = (if old = Some cfg \<and> ro_running ops w then ro_healthy ops w else (False, w)) in
      if same then (Inr (ApUnchanged, NoDetail), s\<lparr>rs_world := w0\<rparr>)
      else (case ro_binary ops w0 of
          (Inl e, w1) \<Rightarrow> (Inl e, s\<lparr>rs_world := w1\<rparr>)
        | (Inr _, w1) \<Rightarrow> (case ro_check ops cfg w1 of
            (Inl e, w2) \<Rightarrow> (Inl e, \<lparr>rs_config = Some cfg, rs_world = w2\<rparr>)
          | (Inr (Some e), w2) \<Rightarrow> (case old of
               None \<Rightarrow> (Inr (ApRejected, CheckError e), \<lparr>rs_config = Some cfg, rs_world = w2\<rparr>)
             | Some o' \<Rightarrow> (Inr (ApRejected, CheckError e),
                 \<lparr>rs_config = Some o', rs_world = (if ro_running ops w2 then w2 else snd (ro_restart ops o' w2))\<rparr>))
          | (Inr None, w2) \<Rightarrow> (case apply_checked ops has_tun linux old cfg w2 of
               (r, w3) \<Rightarrow> (Inr r, \<lparr>rs_config = Some cfg, rs_world = w3\<rparr>)))))"

section \<open>What an apply achieves\<close>

text \<open>A healthy answer of the control API was the last thing seen.\<close>

definition seen_healthy :: "'w run_ops \<Rightarrow> 'w \<Rightarrow> bool" where
  "seen_healthy ops w = ((\<exists>w0. ro_healthy ops w0 = (True, w)) \<or> (\<exists>g w0. ro_healthy_after ops g w0 = (True, w)))"

definition fair_report :: "'w run_ops \<Rightarrow> apply_result \<times> 'w \<Rightarrow> bool" where
  "fair_report ops rw = (fst (fst rw) \<in> {ApApplied, ApFailed} \<and> (fst (fst rw) = ApApplied \<longrightarrow> seen_healthy ops (snd rw)))"

lemma seen_healthyI: "ro_healthy ops w0 = (True, w) \<Longrightarrow> seen_healthy ops w" "ro_healthy_after ops g w0 = (True, w) \<Longrightarrow> seen_healthy ops w"
  by (auto simp: seen_healthy_def)

lemma fair_helper_cold: "fair_report ops (helper_cold ops cfg w)"
  by (auto simp: helper_cold_def fair_report_def intro: seen_healthyI split: prod.split sum.split)

lemma fair_local_cold: "fair_report ops (local_cold ops cfg w)"
  by (auto simp: local_cold_def fair_report_def intro: seen_healthyI split: prod.split sum.split)

lemma fair_simps: "fair_report ops ((ApFailed, x), w)" "fair_report ops ((ApApplied, x), w) = seen_healthy ops w"
  by (simp_all add: fair_report_def)

lemma fair_via_helper: "fair_report ops (apply_via_helper ops cfg w)"
  by (simp add: apply_via_helper_def fair_helper_cold fair_simps Let_def split: prod.split) (blast intro: seen_healthyI)

lemma fair_local: "fair_report ops (apply_local ops cfg force w)"
  by (simp add: apply_local_def fair_local_cold fair_simps split: prod.split) (blast intro: seen_healthyI)

lemma fair_checked: "fair_report ops (apply_checked ops has_tun linux old cfg w)"
  by (simp add: apply_checked_def Let_def fair_via_helper fair_local fair_simps split: helper_state.split)

text \<open>C18: what \<open>apply\<close> reports is what it left. Applied or unchanged: the file holds the new
  configuration and the control API was last seen answering. Rejected: the file holds the previous
  configuration when there was one.\<close>

theorem apply_report_is_true:
  assumes "apply_config ops has_tun linux cfg s = (Inr (r, x), s')"
  shows "(r = ApApplied \<or> r = ApUnchanged \<longrightarrow> rs_config s' = Some cfg \<and> seen_healthy ops (rs_world s'))
    \<and> (r = ApRejected \<and> rs_config s \<noteq> None \<longrightarrow> rs_config s' = rs_config s)"
proof -
  obtain same w0 where a: "(if rs_config s = Some cfg \<and> ro_running ops (rs_world s) then ro_healthy ops (rs_world s) else (False, rs_world s)) = (same, w0)"
    by (metis surj_pair)
  show ?thesis
  proof (cases same)
    case True
    with a have "rs_config s = Some cfg" "ro_healthy ops (rs_world s) = (True, w0)" by (auto split: if_splits)
    with assms a True show ?thesis by (auto simp: apply_config_def Let_def seen_healthy_def)
  next
    case False
    obtain b w1 where b: "ro_binary ops w0 = (b, w1)" by (metis surj_pair)
    obtain c w2 where c: "ro_check ops cfg w1 = (c, w2)" by (metis surj_pair)
    obtain q w3 where q: "apply_checked ops has_tun linux (rs_config s) cfg w2 = (q, w3)" by (metis surj_pair)
    have f: "fair_report ops (q, w3)" using fair_checked[of ops has_tun linux "rs_config s" cfg w2] unfolding q .
    from assms a b c q f False show ?thesis
      by (auto simp: apply_config_def Let_def fair_report_def split: sum.splits option.splits)
  qed
qed


text \<open>A world of one process, which runs the configuration it was last given.\<close>

definition plain_ops :: "(string \<Rightarrow> (string, string option) result) \<Rightarrow> helper_state \<Rightarrow> string option run_ops" where
  "plain_ops verdict hp = \<lparr>ro_running = (\<lambda>w. w \<noteq> None), ro_healthy = (\<lambda>w. (w \<noteq> None, w)), ro_binary = (\<lambda>w. (Inr (), w)),
     ro_check = (\<lambda>c w. (verdict c, w)), ro_restart = (\<lambda>c w. (Inr (), Some c)), ro_reload = (\<lambda>c w. (True, Some c)),
     ro_probe = (\<lambda>w. hp), ro_helper_owns = (\<lambda>w. False), ro_helper_runs = (\<lambda>w. False), ro_helper_stop = (\<lambda>w. w),
     ro_helper_start = (\<lambda>c w. (Inr (), Some c)), ro_helper_reload = (\<lambda>c w. (True, Some c)), ro_generation = (\<lambda>w. None),
     ro_healthy_after = (\<lambda>g w. (w \<noteq> None, w)), ro_local_live = (\<lambda>w. False), ro_stop_local = (\<lambda>w. w)\<rparr>"

definition refuses_bad :: "string \<Rightarrow> (string, string option) result" where
  "refuses_bad c = Inr (if c = ''bad'' then Some ''unknown field'' else None)"

lemma apply_report_is_true_witness:
  "\<exists>s'. apply_config (plain_ops refuses_bad NoHelper) (\<lambda>_. False) True ''bad'' \<lparr>rs_config = Some ''a'', rs_world = Some ''a''\<rparr>
      = (Inr (ApRejected, CheckError ''unknown field''), s') \<and> rs_config s' = Some ''a''"
proof -
  let ?s = "\<lparr>rs_config = Some ''a'', rs_world = Some ''a''\<rparr>"
  have "fst (apply_config (plain_ops refuses_bad NoHelper) (\<lambda>_. False) True ''bad'' ?s) = Inr (ApRejected, CheckError ''unknown field'')"
    by code_simp
  then obtain s' where s': "apply_config (plain_ops refuses_bad NoHelper) (\<lambda>_. False) True ''bad'' ?s
      = (Inr (ApRejected, CheckError ''unknown field''), s')" by (metis prod.collapse)
  from apply_report_is_true[OF s'] s' show ?thesis by simp
qed

section \<open>Only checked configurations run\<close>

text \<open>\<open>P\<close> holds of the world as long as the engine is only made to read configurations of \<open>G\<close>, and what
  \<open>check\<close> accepts is in \<open>G\<close>.\<close>

definition quiet_steps :: "'w run_ops \<Rightarrow> ('w \<Rightarrow> bool) \<Rightarrow> bool" where
  "quiet_steps ops P = (\<forall>w. P w \<longrightarrow> (\<forall>x \<in> {snd (ro_healthy ops w), snd (ro_binary ops w), ro_helper_stop ops w, ro_stop_local ops w}. P x)
     \<and> (\<forall>g. P (snd (ro_healthy_after ops g w))) \<and> (\<forall>c. P (snd (ro_check ops c w))))"

definition checks_into :: "'w run_ops \<Rightarrow> string set \<Rightarrow> bool" where
  "checks_into ops G = (\<forall>c w. fst (ro_check ops c w) = Inr None \<longrightarrow> c \<in> G)"

definition reads_good :: "'w run_ops \<Rightarrow> string set \<Rightarrow> ('w \<Rightarrow> bool) \<Rightarrow> bool" where
  "reads_good ops G P = (\<forall>c \<in> G. \<forall>w. P w \<longrightarrow> (\<forall>x \<in> {snd (ro_restart ops c w), snd (ro_reload ops c w),
     snd (ro_helper_start ops c w), snd (ro_helper_reload ops c w)}. P x))"

definition heeds :: "'w run_ops \<Rightarrow> string set \<Rightarrow> ('w \<Rightarrow> bool) \<Rightarrow> bool" where
  "heeds ops G P = (quiet_steps ops P \<and> checks_into ops G \<and> reads_good ops G P)"

lemma quiet_stepsD:
  assumes "quiet_steps ops P" "P w"
  shows "P (snd (ro_healthy ops w))" "P (snd (ro_binary ops w))" "P (ro_helper_stop ops w)" "P (ro_stop_local ops w)"
    "P (snd (ro_healthy_after ops g w))" "P (snd (ro_check ops c w))"
  using assms unfolding quiet_steps_def by auto

lemma reads_goodD:
  assumes "reads_good ops G P" "P w" "c \<in> G"
  shows "P (snd (ro_restart ops c w))" "P (snd (ro_reload ops c w))" "P (snd (ro_helper_start ops c w))" "P (snd (ro_helper_reload ops c w))"
  using assms unfolding reads_good_def by auto

lemma heeds_steps:
  assumes "heeds ops G P" "P w"
  shows "ro_healthy ops w = (h, w') \<Longrightarrow> P w'" "ro_binary ops w = (b, w') \<Longrightarrow> P w'" "P (ro_helper_stop ops w)"
    "P (ro_stop_local ops w)" "ro_healthy_after ops g w = (h, w') \<Longrightarrow> P w'" "ro_check ops c w = (k, w') \<Longrightarrow> P w'"
  using assms quiet_stepsD[of ops P w] unfolding heeds_def by (metis snd_conv)+

lemma heeds_reads:
  assumes "heeds ops G P" "P w" "c \<in> G"
  shows "ro_restart ops c w = (r, w') \<Longrightarrow> P w'" "ro_reload ops c w = (h, w') \<Longrightarrow> P w'"
    "ro_helper_start ops c w = (r, w') \<Longrightarrow> P w'" "ro_helper_reload ops c w = (h, w') \<Longrightarrow> P w'"
  using assms reads_goodD[of ops G P w c] unfolding heeds_def by (metis snd_conv)+

lemma heeds_cold:
  assumes "heeds ops G P" "P w" "c \<in> G"
  shows "P (snd (helper_cold ops c w))" "P (snd (local_cold ops c w))"
proof -
  obtain r w1 h w2 where r: "ro_helper_start ops c w = (r, w1)" and h: "ro_healthy ops w1 = (h, w2)" by (metis surj_pair)
  have w1: "P w1" by (rule heeds_reads(3)[OF assms r])
  have "P w2" by (rule heeds_steps(1)[OF assms(1) w1 h])
  with w1 show "P (snd (helper_cold ops c w))" by (simp add: helper_cold_def r h split: sum.split)
next
  obtain r w1 h w2 where r: "ro_restart ops c w = (r, w1)" and h: "ro_healthy ops w1 = (h, w2)" by (metis surj_pair)
  have w1: "P w1" by (rule heeds_reads(1)[OF assms r])
  have "P w2" by (rule heeds_steps(1)[OF assms(1) w1 h])
  with w1 show "P (snd (local_cold ops c w))" by (simp add: local_cold_def r h split: sum.split)
qed

lemma heeds_via_helper:
  assumes "heeds ops G P" "P w" "c \<in> G"
  shows "P (snd (apply_via_helper ops c w))"
proof -
  obtain u where u: "u = (if ro_local_live ops w then ro_stop_local ops w else w)" by simp
  have w1: "P u" unfolding u using assms heeds_steps by auto
  obtain ack w2 where r: "ro_helper_reload ops c u = (ack, w2)" by (metis surj_pair)
  have w2: "P w2" by (rule heeds_reads(4)[OF assms(1) w1 assms(3) r])
  obtain h w3 where h: "ro_healthy_after ops (ro_generation ops u) w2 = (h, w3)" by (metis surj_pair)
  have w3: "P w3" by (rule heeds_steps(5)[OF assms(1) w2 h])
  have "apply_via_helper ops c w = (if ro_helper_owns ops u then
      (if ack then (if h then ((ApApplied, NoDetail), w3) else helper_cold ops c (ro_helper_stop ops w3))
       else helper_cold ops c (ro_helper_stop ops w2))
    else helper_cold ops c u)"
    by (simp add: apply_via_helper_def u[symmetric] Let_def r h)
  then show ?thesis
    using w1 w2 w3 heeds_cold(1)[OF assms(1) _ assms(3)] heeds_steps(3)[OF assms(1)] by simp
qed

lemma heeds_local:
  assumes "heeds ops G P" "P w" "c \<in> G"
  shows "P (snd (apply_local ops c force w))"
proof -
  obtain r w1 where r: "ro_reload ops c w = (r, w1)" by (metis surj_pair)
  have w1: "P w1" by (rule heeds_reads(2)[OF assms r])
  obtain h w2 where h: "ro_healthy ops w1 = (h, w2)" by (metis surj_pair)
  have w2: "P w2" by (rule heeds_steps(1)[OF assms(1) w1 h])
  show ?thesis using assms w1 w2 r h heeds_cold(2)[OF assms(1) _ assms(3)] by (simp add: apply_local_def)
qed

lemma heeds_checked:
  assumes "heeds ops G P" "P w" "c \<in> G"
  shows "P (snd (apply_checked ops has_tun linux old c w))"
  using heeds_via_helper[OF assms] heeds_local[OF assms(1) _ assms(3)] heeds_steps(3)[OF assms(1,2)] assms(2)
  by (simp add: apply_checked_def Let_def split: helper_state.split)

text \<open>C16: an apply never makes the engine read a configuration that \<open>sing-box check\<close> has not accepted: a
  world that only ever saw accepted configurations still does afterwards, also when the new
  configuration is rejected and the previous one is restarted.\<close>

theorem apply_runs_only_checked:
  assumes "heeds ops G P" "P (rs_world s)" "set_option (rs_config s) \<subseteq> G"
  shows "P (rs_world (snd (apply_config ops has_tun linux cfg s)))"
proof -
  let ?w = "rs_world s"
  obtain same w0 where a: "(if rs_config s = Some cfg \<and> ro_running ops ?w then ro_healthy ops ?w else (False, ?w)) = (same, w0)"
    by (metis surj_pair)
  have w0: "P w0" using a assms(2) heeds_steps(1)[OF assms(1,2)] by (auto split: if_splits)
  obtain b w1 where b: "ro_binary ops w0 = (b, w1)" by (metis surj_pair)
  have w1: "P w1" by (rule heeds_steps(2)[OF assms(1) w0 b])
  obtain k w2 where k: "ro_check ops cfg w1 = (k, w2)" by (metis surj_pair)
  have w2: "P w2" by (rule heeds_steps(6)[OF assms(1) w1 k])
  have good: "k = Inr None \<Longrightarrow> P (snd (apply_checked ops has_tun linux (rs_config s) cfg w2))"
    using heeds_checked[OF assms(1) w2] assms(1) k unfolding heeds_def checks_into_def by (metis fst_conv)
  have old: "rs_config s = Some c \<Longrightarrow> P (snd (ro_restart ops c w2))" for c
    using heeds_reads(1)[OF assms(1) w2] assms(3) by (metis option.set_intros prod.collapse subsetD)
  show ?thesis
    using a b k w0 w1 w2 good old
    by (cases k) (auto simp: apply_config_def Let_def split: sum.split option.split prod.split)
qed

lemma apply_runs_only_checked_witness:
  "rs_world (snd (apply_config (plain_ops refuses_bad NoHelper) (\<lambda>_. False) True ''bad'' \<lparr>rs_config = Some ''a'', rs_world = None\<rparr>)) \<noteq> Some ''bad''"
proof -
  let ?ops = "plain_ops refuses_bad NoHelper"
  have r: "heeds ?ops (- {''bad''}) (\<lambda>w. w \<noteq> Some ''bad'')"
    by (simp add: heeds_def quiet_steps_def checks_into_def reads_good_def plain_ops_def refuses_bad_def)
  show ?thesis by (rule apply_runs_only_checked[OF r]) simp_all
qed

text \<open>C39: A failed apply can stick. When the check of the new configuration breaks off (it could not run, or
  timed out), or the configuration needs a helper that is there but cannot be used, the failure is
  reported once, but the new text is already in the file: the next apply of the same configuration
  reports it as unchanged although the engine never read it.\<close>

theorem failed_apply_sticks:
  assumes "ro_running ops w" "ro_healthy ops w = (True, w)" "ro_binary ops w = (Inr (), w)" "rs_config s \<noteq> Some cfg" "rs_world s = w"
    "ro_check ops cfg w = (Inl e, w) \<or> (ro_check ops cfg w = (Inr None, w) \<and> has_tun cfg \<and> ro_probe ops w = HelperForeign home)"
  shows "case apply_config ops has_tun linux cfg s of (r1, s1) \<Rightarrow> case apply_config ops has_tun linux cfg s1 of (r2, s2) \<Rightarrow>
    (r1 = Inl e \<or> r1 = Inr (ApFailed, HelperElsewhere home)) \<and> r2 = Inr (ApUnchanged, NoDetail) \<and> rs_world s2 = w"
  using assms by (auto simp: apply_config_def apply_checked_def Let_def)

definition is_tun :: "string \<Rightarrow> bool" where
  "is_tun c = (c = ''tun'')"

lemma failed_apply_sticks_witness:
  "fst (apply_config (plain_ops (\<lambda>_. Inr None) (HelperForeign ''/b'')) is_tun True ''tun'' \<lparr>rs_config = Some ''a'', rs_world = Some ''a''\<rparr>)
    = Inr (ApFailed, HelperElsewhere ''/b'')
   \<and> fst (apply_config (plain_ops (\<lambda>_. Inr None) (HelperForeign ''/b'')) is_tun True ''tun''
        (snd (apply_config (plain_ops (\<lambda>_. Inr None) (HelperForeign ''/b'')) is_tun True ''tun'' \<lparr>rs_config = Some ''a'', rs_world = Some ''a''\<rparr>)))
    = Inr (ApUnchanged, NoDetail)"
proof -
  let ?ops = "plain_ops (\<lambda>_. Inr None) (HelperForeign ''/b'')"
  let ?s = "\<lparr>rs_config = Some ''a'', rs_world = Some ''a''\<rparr>"
  have h: "ro_running ?ops (Some ''a'')" "ro_healthy ?ops (Some ''a'') = (True, Some ''a'')" "ro_binary ?ops (Some ''a'') = (Inr (), Some ''a'')"
    "rs_config ?s \<noteq> Some ''tun''" "rs_world ?s = Some ''a''"
    "ro_check ?ops ''tun'' (Some ''a'') = (Inl [], Some ''a'') \<or> (ro_check ?ops ''tun'' (Some ''a'') = (Inr None, Some ''a'') \<and> is_tun ''tun''
      \<and> ro_probe ?ops (Some ''a'') = HelperForeign ''/b'')"
    by (simp_all add: plain_ops_def is_tun_def)
  have "fst (apply_config ?ops is_tun True ''tun'' ?s) = Inr (ApFailed, HelperElsewhere ''/b'')" by code_simp
  with failed_apply_sticks[where has_tun = is_tun and linux = True, OF h] show ?thesis by (auto split: prod.splits)
qed

end
