(* ===== verification/Reconnect.thy ===== *)
theory Reconnect
  imports Channels Providers
begin

text \<open>
  The reconnect pass of \<open>anyhop/reconnect.py\<close>: what one pass decides for a channel, the pass over the
  store with \<open>prepare_reconnects\<close> and \<open>finish_reconnect_attempt\<close>, and the budget of engine restarts.
  What other processes do to the store while the pass runs is an argument, and so are the resolver, the
  random nonces and the clock. Log lines are not modelled.
\<close>

section \<open>One channel\<close>

datatype pass_error = BadRecord

definition fail_threshold :: rat where
  "fail_threshold = 3"

definition max_attempts :: rat where
  "max_attempts = 5"

definition backoff_table :: "int list" where
  "backoff_table = [30, 60, 120, 300, 600]"

definition trunc :: "rat \<Rightarrow> int" where
  "trunc q = (if 0 \<le> q then \<lfloor>q\<rfloor> else \<lceil>q\<rceil>)"

text \<open>\<open>BACKOFF[min(attempt, 4)]\<close>: a list index has to be an integer, and a negative one counts from
  the end.\<close>

definition backoff :: "rat \<Rightarrow> (pass_error, int) result" where
  "backoff attempt = (let m = min attempt 4; i = \<lfloor>m\<rfloor> in
     if of_int i \<noteq> m then Inl BadRecord
     else if 0 \<le> i then Inr (backoff_table ! nat i)
     else if -5 \<le> i then Inr (backoff_table ! nat (i + 5))
     else Inl BadRecord)"

text \<open>\<open>rc.get(k, dflt)\<close> where a number is needed; a bool is one.\<close>

definition num_at :: "jobj \<Rightarrow> string \<Rightarrow> rat \<Rightarrow> (pass_error, rat) result" where
  "num_at rc k dflt = (case dget rc k of
     None \<Rightarrow> Inr dflt
   | Some (JNum n) \<Rightarrow> Inr n
   | Some (JBool b) \<Rightarrow> Inr (if b then 1 else 0)
   | Some _ \<Rightarrow> Inl BadRecord)"

definition holds :: "jobj \<Rightarrow> string \<Rightarrow> bool" where
  "holds rc k = (case dget rc k of None \<Rightarrow> False | Some v \<Rightarrow> truthy v)"

text \<open>\<open>Try rc nonce attempts\<close>: an attempt is due; \<open>rc\<close> is the record with the attempt counted.\<close>

datatype decision = Leave | Put jobj | Try jobj rat

definition counted :: "rat \<Rightarrow> string \<Rightarrow> rat \<Rightarrow> int \<Rightarrow> jobj \<Rightarrow> jobj" where
  "counted now nonce attempts wait rc =
     dset ''attempt_nonce'' (JStr nonce) (dset ''next_at'' (JNum (of_int (trunc now + wait)))
       (dset ''last_at'' (JNum (of_int (trunc now))) (dset ''attempts'' (JNum (attempts + 1)) rc)))"

definition given_up :: "rat \<Rightarrow> jobj \<Rightarrow> jobj" where
  "given_up attempts rc =
     dset ''error'' (JStr (''gave up after '' @ int_str \<lfloor>attempts\<rfloor> @ '' reconnect attempts''))
       (dset ''failed'' (JBool True) rc)"

definition decide :: "rat \<Rightarrow> string \<Rightarrow> channel \<Rightarrow> (pass_error, decision) result" where
  "decide now nonce ch = (let probe = c_probe ch; rc = c_reconnect ch in
     if \<not> c_enabled ch then Inr Leave
     else if holds probe ''ok'' then Inr (if rc \<noteq> [] then Put [] else Leave)
     else if dget probe ''error'' = Some (JStr ''stopped'') then Inr Leave
     else if holds rc ''failed'' then Inr Leave
     else bindR (num_at rc ''fails'' 0) (\<lambda>f.
       let rc1 = dset ''fails'' (JNum (f + 1)) rc in
       if f + 1 < fail_threshold then Inr (Put rc1)
       else bindR (num_at rc1 ''next_at'' 0) (\<lambda>due.
         if now < due then Inr (Put rc1)
         else bindR (num_at rc1 ''attempts'' 0) (\<lambda>a.
           if a \<ge> max_attempts then Inr (Put (given_up a rc1))
           else bindR (backoff a) (\<lambda>w. Inr (Try (counted now nonce a w rc1) a))))))"

definition channel_fingerprint :: "(json \<Rightarrow> string) \<Rightarrow> channel \<Rightarrow> string" where
  "channel_fingerprint dg ch = dg (canon (JObj [(''enabled'', JBool (c_enabled ch)),
     (''port'', JNum (of_int (c_port ch))), (''wg'', JObj (c_wg ch))]))"

section \<open>The plan of a pass\<close>

record action =
  act_channel :: channel
  act_rc :: jobj
  act_fp :: string
  act_nonce :: string

type_synonym updates = "(cref, string \<times> jobj \<times> jobj) dict"

definition ref_of :: "channel \<Rightarrow> cref" where
  "ref_of ch = (c_provider ch, c_id ch)"

definition plan_step :: "(json \<Rightarrow> string) \<Rightarrow> rat \<Rightarrow> (cref \<Rightarrow> string) \<Rightarrow> channel \<Rightarrow> updates \<times> (cref, action) dict
    \<Rightarrow> (pass_error, updates \<times> (cref, action) dict) result" where
  "plan_step dg now nonces ch st = (case st of (ups, acts) \<Rightarrow>
     let ref = ref_of ch; fp = channel_fingerprint dg ch; nonce = nonces ref in
     bindR (decide now nonce ch) (\<lambda>dec. Inr (case dec of
       Leave \<Rightarrow> (ups, acts)
     | Put rc \<Rightarrow> (dset ref (fp, c_reconnect ch, rc) ups, acts)
     | Try rc a \<Rightarrow> (dset ref (fp, c_reconnect ch, rc) ups,
         dset ref \<lparr>act_channel = ch, act_rc = rc, act_fp = fp, act_nonce = nonce\<rparr> acts))))"

definition plan :: "(json \<Rightarrow> string) \<Rightarrow> rat \<Rightarrow> (cref \<Rightarrow> string) \<Rightarrow> channel list \<Rightarrow> (pass_error, updates \<times> (cref, action) dict) result" where
  "plan dg now nonces chs = foldR (plan_step dg now nonces) chs ([], [])"

section \<open>Attempts\<close>

definition current_server :: "channel \<Rightarrow> string" where
  "current_server ch = get_str (get_obj (c_wg ch) ''peer'') ''hostname''"

definition hint_for :: "channel \<Rightarrow> hint" where
  "hint_for ch = (if c_server ch \<noteq> [] then Pin (c_server ch)
     else if current_server ch \<noteq> [] then Avoid (current_server ch) else AnyServer)"

definition non_retryable :: "provider_error \<Rightarrow> bool" where
  "non_retryable e = (case e of AuthErr m \<Rightarrow> True | Unavailable m \<Rightarrow> True | _ \<Rightarrow> False)"

fun error_text :: "provider_error \<Rightarrow> string" where
  "error_text (ProviderErr m) = m"
| "error_text (AuthErr m) = m"
| "error_text (Unreachable m) = m"
| "error_text (Unavailable m) = m"
| "error_text (ApiErr m st) = m"
| "error_text PyError = []"

text \<open>A pinned server that is gone gets a message of its own.\<close>

definition named_error :: "channel \<Rightarrow> provider_error \<Rightarrow> provider_error" where
  "named_error ch e = (case e of
     Unavailable m \<Rightarrow> if c_server ch \<noteq> [] then Unavailable (''pinned server '' @ c_server ch @ '' is no longer available'') else e
   | _ \<Rightarrow> e)"

definition failed_attempt :: "provider_error \<Rightarrow> jobj \<Rightarrow> jobj" where
  "failed_attempt e rc =
     (if non_retryable e then dset ''error'' (JStr (error_text e)) (dset ''failed'' (JBool True) rc)
      else dset ''error'' (JStr (error_text e)) rc)"

text \<open>
  One committed action. \<open>others\<close> is what happens to the store while the server is resolved. The
  result is the channels to restart the engine for, the store, and whether the pass was left by an
  exception that is not a \<open>ProviderError\<close>.
\<close>

definition attempt :: "(json \<Rightarrow> string) \<Rightarrow> (channel \<Rightarrow> hint \<Rightarrow> (provider_error, jobj) result) \<Rightarrow> (cref \<Rightarrow> data \<Rightarrow> data)
    \<Rightarrow> cref \<times> action \<Rightarrow> cref list \<times> data \<Rightarrow> (cref list \<times> data) \<times> bool" where
  "attempt dg resolve others x st = (case x of (ref, act) \<Rightarrow> case st of (restarts, d) \<Rightarrow>
     let ch = act_channel act in
     if is_functional (fst ref) \<and> kind (fst ref) = ''token'' then
       (case resolve ch (hint_for ch) of
          Inr wg \<Rightarrow> ((restarts, snd (finish_reconnect_attempt dg (fst ref) (snd ref) (act_fp act) (act_nonce act)
             (act_rc act) (Some wg) (others ref d))), False)
        | Inl e \<Rightarrow> if e = PyError then ((restarts, others ref d), True)
            else ((restarts, snd (finish_reconnect_attempt dg (fst ref) (snd ref) (act_fp act) (act_nonce act)
              (failed_attempt (named_error ch e) (act_rc act)) None (others ref d))), False))
     else ((restarts @ [ref], others ref d), False))"

fun attempts :: "(json \<Rightarrow> string) \<Rightarrow> (channel \<Rightarrow> hint \<Rightarrow> (provider_error, jobj) result) \<Rightarrow> (cref \<Rightarrow> data \<Rightarrow> data)
    \<Rightarrow> (cref \<times> action) list \<Rightarrow> cref list \<times> data \<Rightarrow> (cref list \<times> data) \<times> bool" where
  "attempts dg resolve others [] st = (st, False)"
| "attempts dg resolve others (x # xs) st = (case attempt dg resolve others x st of
     (st', raised) \<Rightarrow> if raised then (st', True) else attempts dg resolve others xs st')"

section \<open>The restart budget\<close>

definition restart_limit :: nat where
  "restart_limit = 5"

definition restart_window :: rat where
  "restart_window = 6 * 3600"

fun int_stamp :: "pyval \<Rightarrow> int option" where
  "int_stamp (PInt i) = Some i"
| "int_stamp (PBool b) = Some (if b then 1 else 0)"
| "int_stamp _ = None"

text \<open>The content of \<open>restart-budget.json\<close>: absent, unreadable and malformed are alike.\<close>

definition budget_stamps :: "pyval option \<Rightarrow> rat \<Rightarrow> int list" where
  "budget_stamps raw now = (case raw of
     Some (PList xs) \<Rightarrow> filter (\<lambda>s. of_int s \<ge> now - restart_window) (List.map_filter int_stamp xs)
   | _ \<Rightarrow> [])"

definition process_restart_allowed :: "pyval option \<Rightarrow> rat \<Rightarrow> bool" where
  "process_restart_allowed raw now = (length (budget_stamps raw now) < restart_limit)"

definition note_process_restart :: "pyval option \<Rightarrow> rat \<Rightarrow> pyval option" where
  "note_process_restart raw now = Some (PList (map PInt (budget_stamps raw now @ [trunc now])))"

definition clear_process_restart_budget :: "pyval option \<Rightarrow> pyval option" where
  "clear_process_restart_budget raw = None"

text \<open>The end of a pass: whether the engine is restarted, and the budget file afterwards.\<close>

definition restart_phase :: "rat \<Rightarrow> cref list \<Rightarrow> pyval option \<Rightarrow> bool \<times> pyval option" where
  "restart_phase now restarts raw =
     (if restarts = [] then (False, raw)
      else if \<not> process_restart_allowed raw now then (False, raw)
      else (True, note_process_restart raw now))"

section \<open>The pass\<close>

record pass_result =
  pr_data :: data
  pr_budget :: "pyval option"
  pr_restarted :: bool
  pr_raised :: bool

text \<open>\<open>seen\<close> is the store as the pass loaded it, \<open>d\<close> as \<open>prepare_reconnects\<close> finds it.\<close>

definition run_pass :: "(json \<Rightarrow> string) \<Rightarrow> (channel \<Rightarrow> hint \<Rightarrow> (provider_error, jobj) result) \<Rightarrow> (cref \<Rightarrow> data \<Rightarrow> data)
    \<Rightarrow> (cref \<Rightarrow> string) \<Rightarrow> rat \<Rightarrow> data \<Rightarrow> data \<Rightarrow> pyval option \<Rightarrow> pass_result" where
  "run_pass dg resolve others nonces now seen d budget = (case plan dg now nonces (channels seen) of
     Inl e \<Rightarrow> \<lparr>pr_data = d, pr_budget = budget, pr_restarted = False, pr_raised = True\<rparr>
   | Inr (ups, acts) \<Rightarrow> (case prepare_reconnects dg ups d of (committed, d1) \<Rightarrow>
       (case attempts dg resolve others (filter (\<lambda>(ref, a). ref \<in> set committed) acts) ([], d1) of
          ((restarts, d2), True) \<Rightarrow> \<lparr>pr_data = d2, pr_budget = budget, pr_restarted = False, pr_raised = True\<rparr>
        | ((restarts, d2), False) \<Rightarrow> (case restart_phase now restarts budget of (restarted, budget') \<Rightarrow>
            \<lparr>pr_data = d2, pr_budget = budget', pr_restarted = restarted, pr_raised = False\<rparr>))))"

section \<open>Only what the pass saw\<close>

definition saw :: "(json \<Rightarrow> string) \<Rightarrow> data \<Rightarrow> cref \<Rightarrow> string \<Rightarrow> jobj \<Rightarrow> bool" where
  "saw dg seen ref fp rc = (\<exists>ch \<in> set (channels seen). ref_of ch = ref \<and> c_enabled ch
     \<and> channel_fingerprint dg ch = fp \<and> c_reconnect ch = rc)"

definition ups_seen :: "(json \<Rightarrow> string) \<Rightarrow> data \<Rightarrow> updates \<Rightarrow> bool" where
  "ups_seen dg seen ups = (\<forall>ref fp rc repl. (ref, fp, rc, repl) \<in> set ups \<longrightarrow> saw dg seen ref fp rc)"

lemma decide_enabled: "decide now nonce ch = Inr dec \<Longrightarrow> dec \<noteq> Leave \<Longrightarrow> c_enabled ch"
  by (auto simp: decide_def Let_def split: if_splits)

lemma ups_seen_dset:
  assumes "ups_seen dg seen ups" "saw dg seen ref fp rc"
  shows "ups_seen dg seen (dset ref (fp, rc, repl) ups)"
  using assms dset_mem unfolding ups_seen_def by fastforce

lemma plan_seen:
  assumes "plan dg now nonces (channels seen) = Inr (ups, acts)"
  shows "ups_seen dg seen ups"
proof -
  let ?P = "\<lambda>st :: updates \<times> (cref, action) dict. ups_seen dg seen (fst st)"
  have "?P (ups, acts)"
  proof (rule foldR_keeps[OF assms[unfolded plan_def], where P = ?P])
    show "?P ([], [])" by (simp add: ups_seen_def)
    fix ch and st st' :: "updates \<times> (cref, action) dict"
    assume ch: "ch \<in> set (channels seen)" and ok: "?P st" and st: "plan_step dg now nonces ch st = Inr st'"
    obtain ups acts where e: "st = (ups, acts)" by force
    from st e obtain dec where dec: "decide now (nonces (ref_of ch)) ch = Inr dec"
      and st': "st' = (case dec of Leave \<Rightarrow> (ups, acts)
        | Put rc \<Rightarrow> (dset (ref_of ch) (channel_fingerprint dg ch, c_reconnect ch, rc) ups, acts)
        | Try rc a \<Rightarrow> (dset (ref_of ch) (channel_fingerprint dg ch, c_reconnect ch, rc) ups,
           dset (ref_of ch) \<lparr>act_channel = ch, act_rc = rc, act_fp = channel_fingerprint dg ch, act_nonce = nonces (ref_of ch)\<rparr> acts))"
      by (auto simp: plan_step_def Let_def)
    have s: "dec \<noteq> Leave \<Longrightarrow> saw dg seen (ref_of ch) (channel_fingerprint dg ch) (c_reconnect ch)"
      using ch decide_enabled[OF dec] by (auto simp: saw_def)
    show "?P st'" using ok e st' s by (cases dec) (auto intro: ups_seen_dset)
  qed
  then show ?thesis by simp
qed

lemma prepare_frame:
  assumes "get_chan d p c = Some ch" "(p, c) \<notin> set ap"
    and "\<And>fp rc repl. ((p, c), fp, rc, repl) \<in> set ups \<Longrightarrow> fingerprint_raw dg ch \<noteq> fp \<or> \<not> obj_eq (reconnect_of ch) rc"
    and "fold (prepare_step dg) ups (ap, d) = (committed, d')"
  shows "get_chan d' p c = Some ch \<and> (p, c) \<notin> set committed"
  using assms
proof (induction ups arbitrary: ap d)
  case (Cons u us)
  obtain q e fp rc repl where u: "u = ((q, e), fp, rc, repl)" by (metis prod.exhaust)
  obtain ap1 d1 where s: "prepare_step dg u (ap, d) = (ap1, d1)" by force
  have "get_chan d1 p c = Some ch \<and> (p, c) \<notin> set ap1"
  proof (cases "(q, e) = (p, c)")
    case True
    with Cons.prems(3)[of fp rc repl] u Cons.prems(1,2) s show ?thesis
      by (auto simp: prepare_step_def split: option.splits if_splits)
  next
    case False
    with Cons.prems(1,2) u s show ?thesis
      by (auto simp: prepare_step_def state_simps split: option.splits if_splits)
  qed
  with Cons.IH[of d1 ap1] Cons.prems(3,4) s show ?case by auto
qed simp

lemma finish_frame:
  "(q, e) \<noteq> (p, c) \<Longrightarrow> get_chan (snd (finish_reconnect_attempt dg q e fp nonce rc wg d)) p c = get_chan d p c"
  by (auto simp: finish_reconnect_attempt_def Let_def state_simps split: option.splits)

lemma attempts_frame:
  assumes "\<And>ref d. get_chan (others ref d) p c = get_chan d p c" "\<forall>x \<in> set xs. fst x \<noteq> (p, c)"
    and "attempts dg resolve others xs (rs, d) = ((rs', d'), raised)"
  shows "get_chan d' p c = get_chan d p c"
  using assms(2,3)
proof (induction xs arbitrary: rs d)
  case (Cons x xs)
  obtain q e act where x: "x = ((q, e), act)" by (cases x) auto
  obtain rs1 d1 r1 where s: "attempt dg resolve others x (rs, d) = ((rs1, d1), r1)" by (metis prod.exhaust)
  have ne: "(q, e) \<noteq> (p, c)" using Cons.prems(1) x by auto
  have "get_chan d1 p c = get_chan d p c"
    using s x finish_frame[OF ne] assms(1)
    by (auto simp: attempt_def Let_def split: if_splits sum.splits)
  with Cons.IH[of rs1 d1] Cons.prems s show ?case by (auto split: if_splits)
qed simp

text \<open>A pass acts only on what it saw. A channel that has been edited, disabled, re-added or
  advanced by another pass since this one loaded the store keeps every field, its failure record
  included: neither the bookkeeping nor a server resolved for the old configuration is written.\<close>

theorem pass_touches_only_seen:
  assumes "get_chan d p c = Some ch"
    and "\<And>ref d. get_chan (others ref d) p c = get_chan d p c"
    and "\<nexists>ch0. ch0 \<in> set (channels seen) \<and> ref_of ch0 = (p, c) \<and> c_enabled ch0
      \<and> channel_fingerprint dg ch0 = fingerprint_raw dg ch \<and> obj_eq (reconnect_of ch) (c_reconnect ch0)"
  shows "get_chan (pr_data (run_pass dg resolve others nonces now seen d budget)) p c = Some ch"
proof (cases "plan dg now nonces (channels seen)")
  case (Inl e)
  with assms(1) show ?thesis by (simp add: run_pass_def)
next
  case (Inr pl)
  obtain ups acts where pl: "pl = (ups, acts)" by force
  obtain committed d1 where prep: "prepare_reconnects dg ups d = (committed, d1)" by force
  let ?xs = "filter (\<lambda>(ref, a). ref \<in> set committed) acts"
  obtain rs d2 raised where at: "attempts dg resolve others ?xs ([], d1) = ((rs, d2), raised)" by (metis prod.exhaust)
  have "fingerprint_raw dg ch \<noteq> fp \<or> \<not> obj_eq (reconnect_of ch) rc" if u: "((p, c), fp, rc, repl) \<in> set ups" for fp rc repl
  proof -
    from plan_seen[OF Inr[unfolded pl]] u have "saw dg seen (p, c) fp rc" unfolding ups_seen_def by blast
    with assms(3) show ?thesis unfolding saw_def by blast
  qed
  from prepare_frame[OF assms(1) _ this, where ap = "[]" and committed = committed and d' = d1] prep
  have k: "get_chan d1 p c = Some ch" "(p, c) \<notin> set committed" by (auto simp: prepare_reconnects_def)
  have "get_chan d2 p c = get_chan d1 p c"
    by (rule attempts_frame[OF assms(2) _ at]) (use k(2) in auto)
  with k(1) show ?thesis using Inr pl prep at by (cases raised) (simp_all add: run_pass_def split: prod.split)
qed


definition demo_data :: "bool \<Rightarrow> data" where
  "demo_data en = put_chan ''nordvpn'' ''de'' ((fresh_chan ''Germany'' [] 4000 [] False [] [])\<lparr>ch_enabled := en,
     ch_probe := Some [(''error'', JStr ''timeout'')], ch_reconnect := Some [(''fails'', JNum 2)]\<rparr>) (add_provider ''nordvpn'' blank)"

definition digest_text :: "json \<Rightarrow> string" where
  "digest_text j = (case j of JObj kvs \<Rightarrow> concat (map (\<lambda>(k, v). case v of JBool b \<Rightarrow> (if b then ''1'' else ''0'') | _ \<Rightarrow> []) kvs) | _ \<Rightarrow> [])"

theorem pass_touches_only_seen_witness:
  "map_option ch_enabled (get_chan (pr_data (run_pass digest_text (\<lambda>ch h. Inr []) (\<lambda>r d. d) (\<lambda>r. ''n'') 90
     (demo_data True) (demo_data False) None)) ''nordvpn'' ''de'') = Some False"
proof -
  obtain ch where ch: "get_chan (demo_data False) ''nordvpn'' ''de'' = Some ch"
    by (simp add: demo_data_def state_simps add_provider_def setdefault_def blank_def)
  have f: "list_all (\<lambda>ch0. channel_fingerprint digest_text ch0 = ''1'') (channels (demo_data True))"
    "map_option (fingerprint_raw digest_text) (get_chan (demo_data False) ''nordvpn'' ''de'') = Some ''0''"
    "map_option ch_enabled (get_chan (demo_data False) ''nordvpn'' ''de'') = Some False" by code_simp+
  then have "\<nexists>ch0. ch0 \<in> set (channels (demo_data True)) \<and> ref_of ch0 = (''nordvpn'', ''de'') \<and> c_enabled ch0
      \<and> channel_fingerprint digest_text ch0 = fingerprint_raw digest_text ch \<and> obj_eq (reconnect_of ch) (c_reconnect ch0)"
    using ch by (auto simp: list_all_iff)
  from pass_touches_only_seen[OF ch _ this, of "\<lambda>r d. d"] ch f(3) show ?thesis by simp
qed

section \<open>The restart budget\<close>

text \<open>A run of passes: at each time, whether some channel asks for a restart; the times of those that
  happen.\<close>

fun restart_times :: "pyval option \<Rightarrow> (rat \<times> cref list) list \<Rightarrow> rat list" where
  "restart_times raw [] = []"
| "restart_times raw ((now, restarts) # es) = (case restart_phase now restarts raw of
     (b, raw') \<Rightarrow> (if b then [now] else []) @ restart_times raw' es)"

lemma trunc_ge: "q - 1 \<le> of_int (trunc q)"
  unfolding trunc_def by (auto, linarith+)

text \<open>Every restart of the past whose stamp is inside the window is in the file.\<close>

definition remembers :: "rat list \<Rightarrow> rat \<Rightarrow> pyval option \<Rightarrow> bool" where
  "remembers hs t raw = (\<forall>now \<ge> t. length (filter (\<lambda>h. of_int (trunc h) \<ge> now - restart_window) hs) \<le> length (budget_stamps raw now))"

lemma budget_note: "budget_stamps (note_process_restart raw now) later
    = filter (\<lambda>s. of_int s \<ge> later - restart_window) (budget_stamps raw now @ [trunc now])"
proof -
  have "List.map_filter int_stamp (map PInt xs) = xs" for xs
    by (induction xs) (simp_all add: List.map_filter_simps)
  then have "budget_stamps (Some (PList (map PInt ys))) later = filter (\<lambda>s. of_int s \<ge> later - restart_window) ys" for ys
    by (simp only: budget_stamps_def option.case pyval.case)
  then show ?thesis unfolding note_process_restart_def by blast
qed

lemma budget_shrinks: "now \<le> later \<Longrightarrow> filter (\<lambda>s. of_int s \<ge> later - restart_window) (budget_stamps raw now) = budget_stamps raw later"
  by (cases raw) (auto simp: budget_stamps_def intro!: filter_cong split: pyval.splits)

lemma remembers_note:
  assumes "remembers hs t raw" "t \<le> now"
  shows "remembers (hs @ [now]) now (note_process_restart raw now)"
  using assms by (auto simp: remembers_def budget_note budget_shrinks simp del: filter_append) (simp add: budget_shrinks)

definition spaced :: "rat list \<Rightarrow> bool" where
  "spaced hs = (\<forall>i. i + restart_limit < length hs \<longrightarrow> hs ! (i + restart_limit) - hs ! i > restart_window - 1)"

lemma sorted_drop_ge: "sorted (hs :: rat list) \<Longrightarrow> i < length hs \<Longrightarrow> x \<in> set (drop i hs) \<Longrightarrow> hs ! i \<le> x"
  by (auto simp: in_set_conv_nth sorted_iff_nth_mono)

lemma spaced_note:
  assumes "spaced hs" "sorted hs" "remembers hs t raw" "t \<le> now" "process_restart_allowed raw now"
  shows "spaced (hs @ [now])"
  unfolding spaced_def
proof (intro allI impI)
  fix i assume i: "i + restart_limit < length (hs @ [now])"
  show "(hs @ [now]) ! (i + restart_limit) - (hs @ [now]) ! i > restart_window - 1"
  proof (cases "i + restart_limit < length hs")
    case True
    then show ?thesis using assms(1) by (auto simp: spaced_def nth_append)
  next
    case False
    with i have l: "length hs = i + restart_limit" by simp
    then have il: "i < length hs" by (simp add: restart_limit_def)
    let ?P = "\<lambda>h. of_int (trunc h) \<ge> now - restart_window"
    have "\<not> now - hs ! i \<le> restart_window - 1"
    proof
      assume a: "now - hs ! i \<le> restart_window - 1"
      have "?P x" if "x \<in> set (drop i hs)" for x
        using sorted_drop_ge[OF assms(2) il that] trunc_ge[of x] a by linarith
      then have "filter ?P (drop i hs) = drop i hs" by simp
      then have "length (filter ?P (drop i hs)) = restart_limit" using l by simp
      moreover have "length (filter ?P hs) \<ge> length (filter ?P (drop i hs))"
        by (metis append_take_drop_id filter_append le_add2 length_append)
      moreover have "length (filter ?P hs) < restart_limit"
        using assms(3,4,5) unfolding remembers_def process_restart_allowed_def by (metis le_less_trans)
      ultimately show False by simp
    qed
    then show ?thesis using l il by (simp add: nth_append)
  qed
qed

lemma remembers_later: "remembers hs t raw \<Longrightarrow> t \<le> now \<Longrightarrow> remembers hs now raw"
  by (auto simp: remembers_def)

lemma restart_times_spaced:
  assumes "sorted (map fst es)" "\<forall>e \<in> set es. t \<le> fst e" "spaced hs" "sorted hs" "\<forall>h \<in> set hs. h \<le> t" "remembers hs t raw"
  shows "spaced (hs @ restart_times raw es)"
  using assms
proof (induction es arbitrary: hs t raw)
  case (Cons e es)
  obtain now rs where e: "e = (now, rs)" by (cases e) auto
  have le: "t \<le> now" "\<forall>x \<in> set es. now \<le> fst x" "sorted (map fst es)" using Cons.prems(1,2) e by auto
  show ?case
  proof (cases "rs \<noteq> [] \<and> process_restart_allowed raw now")
    case True
    have "spaced (hs @ [now])" using spaced_note[OF Cons.prems(3,4,6) le(1)] True by simp
    moreover have "sorted (hs @ [now])" "\<forall>h \<in> set (hs @ [now]). h \<le> now" using Cons.prems(4,5) le(1) by (auto simp: sorted_append)
    ultimately have "spaced ((hs @ [now]) @ restart_times (note_process_restart raw now) es)"
      using Cons.IH[OF le(3,2)] remembers_note[OF Cons.prems(6) le(1)] by blast
    then show ?thesis using e True by (simp add: restart_phase_def)
  next
    case False
    have "\<forall>h \<in> set hs. h \<le> now" using Cons.prems(5) le(1) by auto
    from Cons.IH[OF le(3,2) Cons.prems(3,4) this remembers_later[OF Cons.prems(6) le(1)]] False e
    show ?thesis by (auto simp: restart_phase_def)
  qed
qed simp

text \<open>C24: The engine is not restarted in a loop. Whatever channels flap, whatever the budget file held
  at first, and however often a probe succeeds in between, six restarts by passes at non-decreasing
  times span more than six hours less the second that the stamps round off.\<close>

theorem restarts_are_rationed:
  assumes "sorted (map fst es)" "i + 5 < length (restart_times raw es)"
  shows "restart_times raw es ! (i + 5) - restart_times raw es ! i > 6 * 3600 - 1"
proof (cases es)
  case (Cons e fs)
  have "spaced ([] @ restart_times raw es)"
    by (rule restart_times_spaced[where t = "fst e"]) (use assms(1) Cons in \<open>auto simp: spaced_def remembers_def\<close>)
  with assms(2) show ?thesis by (simp add: spaced_def restart_limit_def restart_window_def)
qed (use assms(2) in simp)

definition demo_passes :: "(rat \<times> cref list) list" where
  "demo_passes = map (\<lambda>t. (of_int t, [(''protonvpn'', ''a'')])) [0, 30, 90, 210, 510, 1110, 21599, 21601]"

theorem restarts_are_rationed_witness:
  "length (restart_times None demo_passes) = 6 \<and> restart_times None demo_passes ! 5 - restart_times None demo_passes ! 0 > 21599"
proof -
  have s: "sorted (map fst demo_passes)" by (simp add: demo_passes_def)
  have l: "length (restart_times None demo_passes) = 6" by code_simp
  with restarts_are_rationed[OF s, of 0 None] show ?thesis by simp
qed

section \<open>Attempts of one channel\<close>

record event =
  ev_now :: rat
  ev_nonce :: string
  ev_probe :: jobj
  ev_error :: "provider_error option"

text \<open>The passes that see one channel while its configuration stays as it is, from a failure record:
  the times at which an attempt is made. \<open>ev_error\<close> is the outcome of the attempt, if there is one.\<close>

fun attempt_times :: "channel \<Rightarrow> event list \<Rightarrow> jobj \<Rightarrow> rat list" where
  "attempt_times ch [] rc = []"
| "attempt_times ch (e # es) rc =
     (case decide (ev_now e) (ev_nonce e) (ch\<lparr>c_probe := ev_probe e, c_reconnect := rc\<rparr>) of
        Inl err \<Rightarrow> attempt_times ch es rc
      | Inr Leave \<Rightarrow> attempt_times ch es rc
      | Inr (Put rc') \<Rightarrow> attempt_times ch es rc'
      | Inr (Try rc' a) \<Rightarrow> ev_now e # attempt_times ch es
          (case ev_error e of None \<Rightarrow> rc' | Some er \<Rightarrow> failed_attempt er rc'))"

lemma num_at_dset [simp]:
  "num_at (dset k (JNum n) rc) k dflt = Inr n"
  "j \<noteq> k \<Longrightarrow> num_at (dset j v rc) k dflt = num_at rc k dflt"
  by (simp_all add: num_at_def)

definition due_at :: "rat list \<Rightarrow> rat" where
  "due_at ts = (if ts = [] then 0 else of_int (trunc (last ts) + backoff_table ! (length ts - 1)))"

definition record_ok :: "nat \<Rightarrow> rat list \<Rightarrow> jobj \<Rightarrow> bool" where
  "record_ok n ts rc = (num_at rc ''fails'' 0 = Inr (of_nat n) \<and> num_at rc ''attempts'' 0 = Inr (of_nat (length ts))
     \<and> num_at rc ''next_at'' 0 = Inr (due_at ts) \<and> length ts \<le> 5 \<and> (ts \<noteq> [] \<longrightarrow> 3 \<le> n))"

definition backed_off :: "rat list \<Rightarrow> bool" where
  "backed_off ts = (length ts \<le> 5 \<and> (\<forall>k. Suc k < length ts \<longrightarrow> ts ! Suc k \<ge> of_int (trunc (ts ! k) + backoff_table ! k)))"

lemma backoff_nth: "n < 5 \<Longrightarrow> backoff (of_nat n) = Inr (backoff_table ! n)"
proof -
  assume "n < 5"
  then consider "n = 0" | "n = 1" | "n = 2" | "n = 3" | "n = 4" by linarith
  then show ?thesis by cases (simp_all add: backoff_def Let_def)
qed

lemma decide_record:
  assumes "record_ok n ts rc" "\<not> holds (ev_probe e) ''ok''"
    and "decide (ev_now e) nonce (ch\<lparr>c_probe := ev_probe e, c_reconnect := rc\<rparr>) = Inr dec"
  shows "dec = Leave \<or> (\<exists>rc'. dec = Put rc' \<and> record_ok (Suc n) ts rc')
    \<or> (\<exists>rc' a. dec = Try rc' a \<and> record_ok (Suc n) (ts @ [ev_now e]) rc' \<and> 2 \<le> n \<and> length ts < 5 \<and> due_at ts \<le> ev_now e)"
proof -
  note r = assms(1)[unfolded record_ok_def]
  let ?rc = "dset ''fails'' (JNum (of_nat n + 1)) rc"
  have ok: "record_ok (Suc n) ts ?rc" using r by (auto simp: record_ok_def)
  have gu: "record_ok (Suc n) ts (given_up a ?rc)" for a using ok by (simp add: record_ok_def given_up_def)
  have tr: "record_ok (Suc n) (ts @ [ev_now e]) (counted (ev_now e) nonce (of_nat (length ts)) (backoff_table ! length ts) ?rc)"
    if "2 \<le> n" "length ts < 5" using ok that by (simp add: record_ok_def counted_def due_at_def)
  show ?thesis
    using assms(2,3) r ok gu tr backoff_nth[of "length ts"]
    by (auto simp: decide_def Let_def fail_threshold_def max_attempts_def not_less split: if_splits)
qed


lemma record_failed: "record_ok n ts rc \<Longrightarrow> record_ok n ts (case er of None \<Rightarrow> rc | Some e \<Rightarrow> failed_attempt e rc)"
  by (auto simp: record_ok_def failed_attempt_def split: option.split)

lemma backed_off_snoc:
  assumes "backed_off ts" "length ts < 5" "due_at ts \<le> t"
  shows "backed_off (ts @ [t])"
  unfolding backed_off_def
proof (intro conjI allI impI)
  show "length (ts @ [t]) \<le> 5" using assms(2) by simp
  fix k assume k: "Suc k < length (ts @ [t])"
  show "(ts @ [t]) ! Suc k \<ge> of_int (trunc ((ts @ [t]) ! k) + backoff_table ! k)"
  proof (cases "Suc k < length ts")
    case True
    then show ?thesis using assms(1) by (simp add: backed_off_def nth_append)
  next
    case False
    with k have "length ts = Suc k" by simp
    with assms(3) show ?thesis by (auto simp: due_at_def nth_append last_conv_nth split: if_splits)
  qed
qed

lemma attempt_times_ok:
  assumes "record_ok n ts rc" "backed_off ts" "\<forall>e \<in> set es. \<not> holds (ev_probe e) ''ok''"
  shows "backed_off (ts @ attempt_times ch es rc) \<and> (attempt_times ch es rc \<noteq> [] \<longrightarrow> 3 \<le> n + length es)"
  using assms
proof (induction es arbitrary: n ts rc)
  case (Cons e es)
  have p: "\<not> holds (ev_probe e) ''ok''" "\<forall>e \<in> set es. \<not> holds (ev_probe e) ''ok''" using Cons.prems(3) by auto
  show ?case
  proof (cases "decide (ev_now e) (ev_nonce e) (ch\<lparr>c_probe := ev_probe e, c_reconnect := rc\<rparr>)")
    case (Inl err)
    with Cons.IH[OF Cons.prems(1,2) p(2)] show ?thesis by auto
  next
    case (Inr dec)
    from decide_record[OF Cons.prems(1) p(1) Inr] show ?thesis
    proof (elim disjE exE conjE)
      assume "dec = Leave"
      with Inr Cons.IH[OF Cons.prems(1,2) p(2)] show ?thesis by auto
    next
      fix rc' assume d: "dec = Put rc'" and ok: "record_ok (Suc n) ts rc'"
      from Inr d Cons.IH[OF ok Cons.prems(2) p(2)] show ?thesis by auto
    next
      fix rc' a assume d: "dec = Try rc' a" and ok: "record_ok (Suc n) (ts @ [ev_now e]) rc'"
        and n: "2 \<le> n" "length ts < 5" "due_at ts \<le> ev_now e"
      from Cons.IH[OF record_failed[OF ok] backed_off_snoc[OF Cons.prems(2) n(2,3)] p(2), of "ev_error e"] Inr d n(1)
      show ?thesis by simp
    qed
  qed
qed simp

text \<open>C23: Attempts are bounded and backed off. While a channel's probes keep failing, from a clean record
  on, at most five attempts are made however long it goes on, none in the first two passes, and each
  waits the back-off time of its number after the one before.\<close>

theorem attempts_bounded:
  assumes "\<forall>e \<in> set es. \<not> holds (ev_probe e) ''ok''"
  shows "length (attempt_times ch es []) \<le> 5
    \<and> (length es \<le> 2 \<longrightarrow> attempt_times ch es [] = [])
    \<and> (\<forall>k. Suc k < length (attempt_times ch es []) \<longrightarrow>
        attempt_times ch es [] ! Suc k \<ge> of_int (trunc (attempt_times ch es [] ! k) + [30, 60, 120, 300, 600] ! k))"
proof -
  have ok: "record_ok 0 [] []" by (simp add: record_ok_def num_at_def due_at_def)
  have b: "backed_off []" by (simp add: backed_off_def)
  from attempt_times_ok[OF ok b assms, of ch] show ?thesis unfolding backed_off_def backoff_table_def by auto
qed

definition demo_fail :: "rat \<Rightarrow> event" where
  "demo_fail t = \<lparr>ev_now = t, ev_nonce = ''n'', ev_probe = [(''error'', JStr ''timeout'')], ev_error = Some (Unreachable ''dns'')\<rparr>"

theorem attempts_bounded_witness:
  "length (attempt_times (channel_view ''nordvpn'' ''de'' (fresh_chan ''Germany'' [] 4000 [] False [] []))
     (map demo_fail [0, 30, 60, 90, 120]) []) = 2
   \<and> length (attempt_times (channel_view ''nordvpn'' ''de'' (fresh_chan ''Germany'' [] 4000 [] False [] []))
     (map demo_fail [0, 30, 60, 90, 120]) []) \<le> 5"
proof -
  let ?es = "map demo_fail [0, 30, 60, 90, 120]"
  let ?ch = "channel_view ''nordvpn'' ''de'' (fresh_chan ''Germany'' [] 4000 [] False [] [])"
  have "\<forall>e \<in> set ?es. \<not> holds (ev_probe e) ''ok''" by (simp add: demo_fail_def holds_def)
  from attempts_bounded[OF this, of ?ch] have "length (attempt_times ?ch ?es []) \<le> 5" by simp
  moreover have "length (attempt_times ?ch ?es []) = 2" by code_simp
  ultimately show ?thesis by simp
qed

end
