(* ===== verification/Reconcile.thy ===== *)
theory Reconcile
  imports Runner Policy Reconnect
begin

text \<open>
  The reconcile step and the probe pass of \<open>anyhop/engine.py\<close>. The runner, the lookup of a port's
  holder, the reclaiming of stray processes and the control endpoint's file are operations on a world of
  any type; the store is explicit. Log lines and waits are left out.
\<close>

section \<open>Ports named by a start failure\<close>

text \<open>A dotted host with its three leading groups read so far, then the colon and the port's digits.\<close>

definition digit_group :: "string \<Rightarrow> (string \<times> string) option" where
  "digit_group s = (let d = takeWhile is_digit s in
     if d = [] \<or> 3 < length d then None else Some (d, dropWhile is_digit s))"

fun dotted_groups :: "nat \<Rightarrow> string \<Rightarrow> string option" where
  "dotted_groups 0 s = map_option snd (digit_group s)"
| "dotted_groups (Suc n) s = (case digit_group s of
     Some (_, CHR ''.'' # rest) \<Rightarrow> dotted_groups n rest
   | _ \<Rightarrow> None)"

definition colon_port :: "string \<Rightarrow> (string \<times> string) option" where
  "colon_port s = (case s of
     CHR '':'' # rest \<Rightarrow> (let d = takeWhile is_digit rest in if d = [] then None else Some (d, dropWhile is_digit rest))
   | _ \<Rightarrow> None)"

definition host_port :: "string \<Rightarrow> (string \<times> string) option" where
  "host_port s = (case dotted_groups 3 s of
     Some rest \<Rightarrow> colon_port rest
   | None \<Rightarrow> (case s of CHR '']'' # rest \<Rightarrow> colon_port rest | _ \<Rightarrow> None))"

lemma colon_port_shorter: "colon_port s = Some (d, rest) \<Longrightarrow> length rest < length s"
  by (auto simp: colon_port_def Let_def split: list.splits char.splits if_splits bool.splits intro: le_imp_less_Suc length_dropWhile_le)

lemma dotted_shorter: "dotted_groups n s = Some rest \<Longrightarrow> length rest \<le> length s"
proof (induction n arbitrary: s)
  case 0
  then show ?case by (auto simp: digit_group_def Let_def length_dropWhile_le split: if_splits)
next
  case (Suc n)
  then obtain d t where d: "digit_group s = Some (d, CHR ''.'' # t)" "dotted_groups n t = Some rest"
    by (auto split: option.splits prod.splits list.splits char.splits bool.splits)
  have "length (dropWhile is_digit s) \<le> length s" by (rule length_dropWhile_le)
  with d Suc.IH[OF d(2)] show ?case by (auto simp: digit_group_def Let_def split: if_splits)
qed

lemma host_port_shorter: "host_port s = Some (d, rest) \<Longrightarrow> length rest < length s"
  using dotted_shorter[of 3 s] colon_port_shorter
  by (fastforce simp: host_port_def split: option.splits list.splits char.splits bool.splits)

function find_ports :: "string \<Rightarrow> string list" where
  "find_ports s = (case host_port s of
     Some (d, rest) \<Rightarrow> d # find_ports rest
   | None \<Rightarrow> (case s of [] \<Rightarrow> [] | _ # t \<Rightarrow> find_ports t))"
  by auto
termination by (relation "measure length") (auto dest: host_port_shorter)

declare find_ports.simps [simp del]

definition in_use_text :: string where
  "in_use_text = ''address already in use''"

text \<open>The part of a line before the first occurrence of the message, if it has one.\<close>

fun before_text :: "string \<Rightarrow> string \<Rightarrow> string option" where
  "before_text t [] = (if t = [] then Some [] else None)"
| "before_text t (c # s) = (if startswith (c # s) t then Some [] else map_option (Cons c) (before_text t s))"

text \<open>Python's line boundaries among the Latin-1 characters.\<close>

definition line_end :: "char \<Rightarrow> bool" where
  "line_end c = ((of_char c :: nat) \<in> {10, 11, 12, 13, 28, 29, 30, 133})"

fun split_lines :: "string \<Rightarrow> string list" where
  "split_lines [] = []"
| "split_lines (c # s) = (if line_end c then [] # split_lines s
     else (case split_lines s of [] \<Rightarrow> [[c]] | l # ls \<Rightarrow> (c # l) # ls))"

definition ports_in_use :: "string \<Rightarrow> int list" where
  "ports_in_use err = concat (map (\<lambda>l. case before_text in_use_text l of
      None \<Rightarrow> [] | Some b \<Rightarrow> map (\<lambda>d. int (nat_of_digits d)) (find_ports b)) (split_lines err))"


section \<open>Computations on the engine's state\<close>

type_synonym ('s, 'e, 'a) comp = "'s \<Rightarrow> ('e, 'a) result \<times> 's"

definition thenS :: "('s, 'e, 'a) comp \<Rightarrow> ('a \<Rightarrow> ('s, 'e, 'b) comp) \<Rightarrow> ('s, 'e, 'b) comp" where
  "thenS m f s = (case m s of (Inl e, s') \<Rightarrow> (Inl e, s') | (Inr a, s') \<Rightarrow> f a s')"


text \<open>A property of the state that a computation keeps, whatever it returns.\<close>

definition keepsS :: "('s \<Rightarrow> 's \<Rightarrow> bool) \<Rightarrow> ('s, 'e, 'a) comp \<Rightarrow> bool" where
  "keepsS R m = (\<forall>s. R s (snd (m s)))"

lemma keeps_then:
  assumes "keepsS R m" "\<And>a. keepsS R (f a)" "transp R"
  shows "keepsS R (thenS m f)"
  using assms unfolding keepsS_def thenS_def
  by (auto split: prod.split sum.split) (metis snd_conv transpD)+

section \<open>Reconcile\<close>

datatype reconcile_error =
    ConfigRejected string
  | RuntimeFailure string
  | RunnerError string
  | BuildError build_error
  | StoreFailure store_error
  | BadEndpoint

record 'w eng_ops =
  eo_apply :: "sb_config \<Rightarrow> 'w \<Rightarrow> (string, apply_outcome \<times> string) result \<times> 'w"
  eo_holder :: "int \<Rightarrow> 'w \<Rightarrow> holder"
  eo_reap :: "'w \<Rightarrow> 'w"
  eo_api :: "'w \<Rightarrow> (string \<times> string) \<times> 'w"
  eo_forget_api :: "'w \<Rightarrow> 'w"

record 'w eng =
  eg_data :: data
  eg_held :: "int set"
  eg_os :: os
  eg_world :: 'w

definition run_apply :: "'w eng_ops \<Rightarrow> sb_config \<Rightarrow> ('w eng, reconcile_error, apply_outcome \<times> string) comp" where
  "run_apply ops cfg s = (case eo_apply ops cfg (eg_world s) of
     (Inl e, w) \<Rightarrow> (Inl (RunnerError e), s\<lparr>eg_world := w\<rparr>)
   | (Inr r, w) \<Rightarrow> (Inr r, s\<lparr>eg_world := w\<rparr>))"

definition run_build :: "'w eng_ops \<Rightarrow> engine_env \<Rightarrow> ('w eng, reconcile_error, sb_config \<times> ref_error list) comp" where
  "run_build ops en s = (case eo_api ops (eg_world s) of (api, w) \<Rightarrow>
     (case build_config en api (eg_held s) (eg_data s) of
        Inl e \<Rightarrow> (Inl (BuildError e), s\<lparr>eg_world := w\<rparr>)
      | Inr r \<Rightarrow> (Inr r, s\<lparr>eg_world := w\<rparr>)))"

definition run_home :: "('w eng, reconcile_error, unit) comp" where
  "run_home s = (Inr (), s\<lparr>eg_data := snd (restore_home_ports (os_free (eg_os s)) (eg_data s) (eg_data s))\<rparr>)"

definition port_conflict :: "apply_outcome \<times> string \<Rightarrow> bool" where
  "port_conflict r = (fst r = ApFailed \<and> ports_in_use (snd r) \<noteq> [])"

text \<open>The same configuration again, after each of the waits, while a port is reported in use.\<close>

fun retry_apply :: "nat \<Rightarrow> 'w eng_ops \<Rightarrow> sb_config \<Rightarrow> apply_outcome \<times> string \<Rightarrow> ('w eng, reconcile_error, apply_outcome \<times> string) comp" where
  "retry_apply 0 ops cfg r s = (Inr r, s)"
| "retry_apply (Suc n) ops cfg r s = (if port_conflict r then thenS (run_apply ops cfg) (retry_apply n ops cfg) s else (Inr r, s))"

definition bind_retries :: nat where
  "bind_retries = 2"

definition reclaim_own :: "'w eng_ops \<Rightarrow> sb_config \<Rightarrow> apply_outcome \<times> string \<Rightarrow> ('w eng, reconcile_error, apply_outcome \<times> string) comp" where
  "reclaim_own ops cfg r s =
     (if port_conflict r \<and> list_ex (\<lambda>p. eo_holder ops p (eg_world s) = Ours) (ports_in_use (snd r))
      then run_apply ops cfg (s\<lparr>eg_world := eo_reap ops (eg_world s)\<rparr>) else (Inr r, s))"

definition api_port :: "string \<Rightarrow> int option" where
  "api_port address = (case rpartition CHR '':'' address of (_, True, p) \<Rightarrow> py_int p | _ \<Rightarrow> None)"

definition recover_stolen_ports :: "'w eng_ops \<Rightarrow> string \<Rightarrow> ('w eng, reconcile_error, bool) comp" where
  "recover_stolen_ports ops err s =
     (let stolen = filter (\<lambda>p. eo_holder ops p (eg_world s) = Foreign) (sort (remdups (ports_in_use err))) in
      if stolen = [] then (Inr False, s)
      else (case eo_api ops (eg_world s) of ((address, _), w1) \<Rightarrow>
        (case api_port address of
           None \<Rightarrow> (Inl BadEndpoint, s\<lparr>eg_world := w1\<rparr>)
         | Some q \<Rightarrow>
             (let api = (q \<in> set stolen); w2 = (if api then eo_forget_api ops w1 else w1) in
              case reallocate_channel_ports (set stolen) (eg_os s) (eg_data s) of
                Inl e \<Rightarrow> (Inl (StoreFailure e), s\<lparr>eg_world := w2\<rparr>)
              | Inr ((moved, held), os', d') \<Rightarrow>
                  (Inr (api \<or> moved \<noteq> [] \<or> held \<noteq> []),
                   s\<lparr>eg_world := w2, eg_os := os', eg_data := d', eg_held := eg_held s \<union> set (map (snd \<circ> snd) held)\<rparr>)))))"

definition recover_apply :: "'w eng_ops \<Rightarrow> engine_env \<Rightarrow> sb_config \<times> ref_error list \<Rightarrow> apply_outcome \<times> string
    \<Rightarrow> ('w eng, reconcile_error, (sb_config \<times> ref_error list) \<times> apply_outcome \<times> string) comp" where
  "recover_apply ops en c r s =
     (if fst r \<noteq> ApFailed then (Inr (c, r), s)
      else thenS (recover_stolen_ports ops (snd r)) (\<lambda>again.
        if \<not> again then (\<lambda>s. (Inr (c, r), s))
        else thenS (run_build ops en) (\<lambda>c'. thenS (run_apply ops (fst c')) (\<lambda>r'. \<lambda>s. (Inr (c', r'), s)))) s)"

definition settle :: "(sb_config \<times> ref_error list) \<times> apply_outcome \<times> string \<Rightarrow> ('w eng, reconcile_error, ref_error list) comp" where
  "settle x s = (case x of (c, o', detail) \<Rightarrow> (case o' of
     ApRejected \<Rightarrow> (Inl (ConfigRejected detail), s)
   | ApFailed \<Rightarrow> (Inl (RuntimeFailure detail), s)
   | _ \<Rightarrow> (Inr (snd c), s)))"

definition reconcile :: "'w eng_ops \<Rightarrow> engine_env \<Rightarrow> ('w eng, reconcile_error, ref_error list) comp" where
  "reconcile ops en =
     thenS run_home (\<lambda>_.
     thenS (run_build ops en) (\<lambda>c.
     thenS (run_apply ops (fst c)) (\<lambda>r0.
     thenS (retry_apply bind_retries ops (fst c) r0) (\<lambda>r1.
     thenS (reclaim_own ops (fst c) r1) (\<lambda>r2.
     thenS (recover_apply ops en c r2) settle)))))"

section \<open>What a reconcile does\<close>

text \<open>The number of attempts: an operation other than \<open>apply\<close> does not count.\<close>

definition counts_applies :: "'w eng_ops \<Rightarrow> ('w \<Rightarrow> nat) \<Rightarrow> bool" where
  "counts_applies ops n = ((\<forall>c w. n (snd (eo_apply ops c w)) = Suc (n w)) \<and> (\<forall>w. n (eo_reap ops w) = n w)
     \<and> (\<forall>w. n (snd (eo_api ops w)) = n w) \<and> (\<forall>w. n (eo_forget_api ops w) = n w))"

definition costs :: "('s \<Rightarrow> nat) \<Rightarrow> nat \<Rightarrow> ('s, 'e, 'a) comp \<Rightarrow> bool" where
  "costs n k m = (\<forall>s. n (snd (m s)) \<le> n s + k)"

lemma costs_then: "costs n j m \<Longrightarrow> (\<And>a. costs n k (f a)) \<Longrightarrow> costs n (j + k) (thenS m f)"
  unfolding costs_def thenS_def
  by (auto split: prod.split sum.split) (metis add.assoc add_le_mono1 le_trans snd_conv trans_le_add1)+

lemma costs_return: "costs n 0 (\<lambda>s. (Inr a, s))"
  by (simp add: costs_def)

lemma costs_mono: "costs n j m \<Longrightarrow> j \<le> k \<Longrightarrow> costs n k m"
  unfolding costs_def by (meson add_left_mono le_trans)

lemma costs_pure [simp]: "costs n 0 (\<lambda>s. (r, s))"
  by (simp add: costs_def)

lemma costs_if: "(b \<Longrightarrow> costs n k f) \<Longrightarrow> (\<not> b \<Longrightarrow> costs n k g) \<Longrightarrow> costs n k (if b then f else g)"
  by simp

lemma costs_apply: "counts_applies ops n \<Longrightarrow> costs (n \<circ> eg_world) 1 (run_apply ops c)"
  by (auto simp: costs_def run_apply_def counts_applies_def split: prod.split sum.split) (metis le_refl snd_conv)+

lemma costs_build: "counts_applies ops n \<Longrightarrow> costs (n \<circ> eg_world) 0 (run_build ops en)"
  by (auto simp: costs_def run_build_def counts_applies_def split: prod.split sum.split) (metis le_refl snd_conv)+

lemma costs_home: "costs (n \<circ> eg_world) 0 run_home"
  by (simp add: costs_def run_home_def)

lemma costs_retry: "counts_applies ops n \<Longrightarrow> costs (n \<circ> eg_world) k (retry_apply k ops c r)"
proof (induction k arbitrary: r)
  case (Suc k)
  have "costs (n \<circ> eg_world) (1 + k) (thenS (run_apply ops c) (retry_apply k ops c))"
    by (rule costs_then[OF costs_apply[OF Suc.prems] Suc.IH[OF Suc.prems]])
  then show ?case by (simp add: costs_def)
qed (simp add: costs_def)

lemma costs_reclaim: "counts_applies ops n \<Longrightarrow> costs (n \<circ> eg_world) 1 (reclaim_own ops c r)"
proof -
  assume a: "counts_applies ops n"
  have "n (eg_world (snd (run_apply ops c (s\<lparr>eg_world := eo_reap ops (eg_world s)\<rparr>)))) \<le> n (eg_world s) + 1" for s
    using costs_apply[OF a, of c] a by (auto simp: costs_def counts_applies_def dest: spec[of _ "s\<lparr>eg_world := eo_reap ops (eg_world s)\<rparr>"])
  then show ?thesis by (simp add: costs_def reclaim_own_def)
qed

lemma costs_recover: "counts_applies ops n \<Longrightarrow> costs (n \<circ> eg_world) 0 (recover_stolen_ports ops err)"
proof -
  assume a: "counts_applies ops n"
  have "n (eg_world (snd (recover_stolen_ports ops err s))) \<le> n (eg_world s)" for s
  proof -
    obtain address secret w1 where api: "eo_api ops (eg_world s) = ((address, secret), w1)" by (metis surj_pair)
    have w1: "n w1 = n (eg_world s)" using a api unfolding counts_applies_def by (metis snd_conv)
    with a have w2: "n (eo_forget_api ops w1) = n (eg_world s)" by (simp add: counts_applies_def)
    show ?thesis by (auto simp: recover_stolen_ports_def Let_def api w1 w2 split: option.split sum.split prod.split)
  qed
  then show ?thesis by (simp add: costs_def)
qed

lemma costs_recover_apply: "counts_applies ops n \<Longrightarrow> costs (n \<circ> eg_world) 1 (recover_apply ops en c r)"
proof -
  assume a: "counts_applies ops n"
  have t: "costs (n \<circ> eg_world) (0 + (1 + 0)) (thenS (run_build ops en) (\<lambda>c'. thenS (run_apply ops (fst c')) (\<lambda>r'. \<lambda>s. (Inr (c', r'), s))))"
    by (intro costs_then costs_build costs_apply costs_pure a)
  have "costs (n \<circ> eg_world) (0 + 1) (thenS (recover_stolen_ports ops (snd r)) (\<lambda>again.
        if \<not> again then (\<lambda>s. (Inr (c, r), s))
        else thenS (run_build ops en) (\<lambda>c'. thenS (run_apply ops (fst c')) (\<lambda>r'. \<lambda>s. (Inr (c', r'), s)))))"
    by (intro costs_then costs_recover a costs_if) (use t costs_mono[of "n \<circ> eg_world" 0 "\<lambda>s. (Inr (c, r), s)" 1] in auto)
  then show ?thesis by (simp add: costs_def recover_apply_def)
qed

lemma costs_settle: "costs (n \<circ> eg_world) 0 (settle x)"
  by (auto simp: costs_def settle_def split: prod.split apply_outcome.split)

lemma costs_reconcile: "counts_applies ops n \<Longrightarrow> costs (n \<circ> eg_world) (0 + (0 + (1 + (bind_retries + (1 + (1 + 0)))))) (reconcile ops en)"
  unfolding reconcile_def
  by (intro costs_then costs_home costs_build costs_apply costs_retry costs_reclaim costs_recover_apply costs_settle)

text \<open>One reconcile hands a configuration to the runner at most five times: the first apply, two
  retries while a port is reported in use, one after reclaiming the home's own process, one after
  moving stolen ports.\<close>

theorem reconcile_applies_bounded:
  assumes "counts_applies ops n"
  shows "n (eg_world (snd (reconcile ops en s))) \<le> n (eg_world s) + 5"
  using costs_reconcile[OF assms, of en] by (simp add: costs_def bind_retries_def)

section \<open>What survives a reconcile\<close>

definition same_declared :: "'w eng \<Rightarrow> 'w eng \<Rightarrow> bool" where
  "same_declared s s' = ((\<forall>p c ch. get_chan (eg_data s) p c = Some ch \<and> ch_port_explicit ch \<longrightarrow> get_chan (eg_data s') p c = Some ch)
     \<and> (rt_port_explicit (d_router (eg_data s)) \<longrightarrow> d_router (eg_data s') = d_router (eg_data s)))"

lemma same_trans: "transp same_declared"
  by (auto simp: transp_def same_declared_def)

lemma same_refl: "eg_data s' = eg_data s \<Longrightarrow> same_declared s s'"
  by (simp add: same_declared_def)

lemma restore_step_explicit:
  assumes "get_chan (snd (snd st)) p c = Some ch" "ch_port_explicit ch"
  shows "get_chan (snd (snd (restore_step free r st))) p c = Some ch"
  using assms by (auto simp: restore_step_def get_chan_put split: prod.splits option.splits)

lemma restore_home_explicit:
  assumes "get_chan d p c = Some ch" "ch_port_explicit ch"
  shows "get_chan (snd (restore_home_ports free snap d)) p c = Some ch"
proof -
  have f: "get_chan (snd (snd (fold (restore_step free) xs st))) p c = Some ch"
    if "get_chan (snd (snd st)) p c = Some ch" for xs and st :: "hold list \<times> int list \<times> data"
    using that
  proof (induction xs arbitrary: st)
    case (Cons x xs)
    have "get_chan (snd (snd (restore_step free x st))) p c = Some ch"
      by (rule restore_step_explicit[OF Cons.prems assms(2)])
    then show ?case using Cons.IH by simp
  qed simp
  have r: "get_chan (snd (restore_router free st)) p c = get_chan (snd (snd st)) p c" for st
    by (auto simp: restore_router_def get_chan_router Let_def split: prod.splits option.splits)
  show ?thesis using assms f by (simp add: restore_home_ports_def r)
qed

lemma keeps_same_data: "(\<And>s. eg_data (snd (m s)) = eg_data s) \<Longrightarrow> keepsS same_declared m"
  by (simp add: keepsS_def same_refl)

lemma keeps_home: "keepsS same_declared run_home"
  by (auto simp: keepsS_def same_declared_def run_home_def dest: restore_home_explicit restore_home_router)

lemma keeps_apply: "keepsS same_declared (run_apply ops c)"
  by (rule keeps_same_data) (simp add: run_apply_def split: prod.split sum.split)

lemma keeps_build: "keepsS same_declared (run_build ops en)"
  by (rule keeps_same_data) (simp add: run_build_def split: prod.split sum.split)

lemma keeps_pure: "keepsS same_declared (\<lambda>s. (r, s))"
  by (rule keeps_same_data) simp

lemma keeps_retry: "keepsS same_declared (retry_apply k ops c r)"
proof (induction k arbitrary: r)
  case 0
  show ?case by (rule keeps_same_data) simp
next
  case (Suc k)
  have "keepsS same_declared (thenS (run_apply ops c) (retry_apply k ops c))"
    by (rule keeps_then[OF keeps_apply Suc.IH same_trans])
  then show ?case by (simp add: keepsS_def same_refl)
qed

lemma keeps_reclaim: "keepsS same_declared (reclaim_own ops c r)"
  by (rule keeps_same_data) (simp add: reclaim_own_def run_apply_def split: prod.split sum.split)

lemma keeps_recover: "keepsS same_declared (recover_stolen_ports ops err)"
  by (auto simp: keepsS_def same_declared_def recover_stolen_ports_def Let_def
      split: prod.split option.split sum.split dest: reallocate_explicit reallocate_router)

lemma keeps_if: "keepsS R f \<Longrightarrow> keepsS R g \<Longrightarrow> keepsS R (if b then f else g)"
  by simp

lemma keeps_recover_apply: "keepsS same_declared (recover_apply ops en c r)"
proof -
  have "keepsS same_declared (thenS (recover_stolen_ports ops (snd r)) (\<lambda>again.
        if \<not> again then (\<lambda>s. (Inr (c, r), s))
        else thenS (run_build ops en) (\<lambda>c'. thenS (run_apply ops (fst c')) (\<lambda>r'. \<lambda>s. (Inr (c', r'), s)))))"
    by (intro keeps_then keeps_recover keeps_if keeps_pure keeps_build keeps_apply same_trans)
  then show ?thesis by (simp add: keepsS_def recover_apply_def same_refl)
qed

lemma keeps_settle: "keepsS same_declared (settle x)"
  by (rule keeps_same_data) (auto simp: settle_def split: prod.split apply_outcome.split)

lemma keeps_reconcile: "keepsS same_declared (reconcile ops en)"
  unfolding reconcile_def
  by (intro keeps_then keeps_home keeps_build keeps_apply keeps_retry keeps_reclaim keeps_recover_apply keeps_settle same_trans)

text \<open>C20: A declared port never moves: whatever a reconcile meets (a port in use by any holder, a crash of
  the runner, a rejected configuration), every channel with an explicit port is stored as before, and so
  is the router when its own port is declared.\<close>

theorem reconcile_keeps_declared:
  "(\<forall>p c ch. get_chan (eg_data s) p c = Some ch \<and> ch_port_explicit ch
      \<longrightarrow> get_chan (eg_data (snd (reconcile ops en s))) p c = Some ch)
   \<and> (rt_port_explicit (d_router (eg_data s)) \<longrightarrow> d_router (eg_data (snd (reconcile ops en s))) = d_router (eg_data s))"
  using keeps_reconcile[of ops en] unfolding keepsS_def same_declared_def by blast







section \<open>Witnesses\<close>

text \<open>A runner that always meets a port in use, and counts.\<close>

definition busy_text :: string where
  "busy_text = ''start inbound/mixed[in-nordvpn-us]: listen tcp 127.0.0.1:8888: bind: address already in use''"

definition busy_ops :: "nat eng_ops" where
  "busy_ops = \<lparr>eo_apply = (\<lambda>c w. (Inr (ApFailed, busy_text), Suc w)), eo_holder = (\<lambda>p w. Foreign), eo_reap = (\<lambda>w. w),
     eo_api = (\<lambda>w. ((''127.0.0.1:9090'', ''s''), w)), eo_forget_api = (\<lambda>w. w)\<rparr>"


definition declared_data :: data where
  "declared_data = put_chan ''nordvpn'' ''us'' (sample_chan\<lparr>ch_port_explicit := True\<rparr>) (sample_data sample_rules)"

definition sample_os :: os where
  "sample_os = \<lparr>os_base = None, os_free = (\<lambda>_. True), os_eph = (\<lambda>n. 40000 + int n), os_pos = 0\<rparr>"

definition sample_eng :: "nat eng" where
  "sample_eng = \<lparr>eg_data = declared_data, eg_held = {}, eg_os = sample_os, eg_world = 0\<rparr>"

lemma busy_ports: "ports_in_use busy_text = [8888]"
  by code_simp

lemma reconcile_applies_bounded_witness:
  "eg_world (snd (reconcile busy_ops sample_env sample_eng)) \<le> eg_world sample_eng + 5
   \<and> eg_world (snd (reconcile busy_ops sample_env sample_eng)) = 4"
proof -
  have c: "counts_applies busy_ops (\<lambda>w. w)" by (simp add: counts_applies_def busy_ops_def)
  have "eg_world (snd (reconcile busy_ops sample_env sample_eng)) = 4" by code_simp
  with reconcile_applies_bounded[OF c, of sample_env sample_eng] show ?thesis by simp
qed

text \<open>The router declares the very port that the failing start names.\<close>

definition declared_eng :: "nat eng" where
  "declared_eng = sample_eng\<lparr>eg_data := declared_data\<lparr>d_router := (d_router declared_data)\<lparr>rt_port := 8888, rt_port_explicit := True\<rparr>\<rparr>\<rparr>"

lemma reconcile_keeps_declared_witness:
  "get_chan (eg_data (snd (reconcile busy_ops sample_env declared_eng))) ''nordvpn'' ''us'' = Some (sample_chan\<lparr>ch_port_explicit := True\<rparr>)
   \<and> rt_port (d_router (eg_data (snd (reconcile busy_ops sample_env declared_eng)))) = 8888"
proof -
  have "get_chan (eg_data declared_eng) ''nordvpn'' ''us'' = Some (sample_chan\<lparr>ch_port_explicit := True\<rparr>)"
    "rt_port_explicit (d_router (eg_data declared_eng))" "rt_port (d_router (eg_data declared_eng)) = 8888"
    "ch_port_explicit (sample_chan\<lparr>ch_port_explicit := True\<rparr>)" by code_simp+
  with reconcile_keeps_declared[of declared_eng busy_ops sample_env] show ?thesis by metis
qed


section \<open>Probing every channel\<close>

definition probe_failure :: "int \<Rightarrow> string \<Rightarrow> jobj" where
  "probe_failure now err = [(''ok'', JBool False), (''at'', JNum (of_int now)), (''latency_ms'', JNull), (''ip'', JNull), (''error'', JStr err)]"

text \<open>\<open>probe\<close> is the channel's own probe, none when it had not finished at the pass deadline. A stopped
  engine fails every channel without probing.\<close>

definition probe_result :: "bool \<Rightarrow> int \<Rightarrow> (channel \<Rightarrow> jobj option) \<Rightarrow> channel \<Rightarrow> jobj" where
  "probe_result running now probe ch =
     (if \<not> running then probe_failure now ''stopped''
      else (case probe ch of None \<Rightarrow> probe_failure now ''probe pass deadline (60s) exceeded'' | Some r \<Rightarrow> r))"

definition probe_all :: "(json \<Rightarrow> string) \<Rightarrow> bool \<Rightarrow> int \<Rightarrow> (channel \<Rightarrow> jobj option) \<Rightarrow> channel list option \<Rightarrow> data
    \<Rightarrow> (cref, jobj) dict \<times> data" where
  "probe_all dg running now probe chosen d =
     (let chs = (case chosen of None \<Rightarrow> filter c_enabled (channels d) | Some cs \<Rightarrow> cs);
          out = fold (\<lambda>ch o'. dset (chan_ref ch) (probe_result running now probe ch) o') chs [];
          updates = fold (\<lambda>ch u. dset (chan_ref ch) (channel_fingerprint dg ch, probe_result running now probe ch) u) chs [] in
      (out, snd (set_probes dg updates d)))"

end
