(* ===== verification/Daemon.thy ===== *)
theory Daemon
  imports Reconcile
begin

text \<open>
  The daemon of \<open>anyhop/daemon.py\<close>: one tick of its loop as a function of the loop's variables and of
  what the tick observes, the upgrade lease, the version cache and the decisions of start and stop. A
  tick's reconciles are outcomes it observes; the workers it starts run elsewhere. Times are rationals,
  an infinite one is \<open>None\<close>. Python's \<open>2.0 ** n\<close> raises OverflowError from 1024 on, which is
  \<open>None\<close> here.
\<close>

section \<open>Constants\<close>

definition poll_seconds :: rat where "poll_seconds = 1"
definition probe_interval :: rat where "probe_interval = 30"
definition metrics_interval :: rat where "metrics_interval = 2"
definition reconcile_retry :: rat where "reconcile_retry = 60"
definition version_check :: rat where "version_check = 30"
definition version_cache_ttl :: rat where "version_cache_ttl = version_check"
definition supervise_interval :: rat where "supervise_interval = 2"
definition backup_check :: rat where "backup_check = 300"
definition crash_backoff_max :: rat where "crash_backoff_max = 60"
definition crash_reset :: rat where "crash_reset = 60"
definition upgrade_exit_code :: int where "upgrade_exit_code = 3"

section \<open>The loop\<close>

datatype reconcile_outcome = Reconciled | RejectedConfig string | FailedReconcile string

datatype runtime = Starting | RuntimeOk | ConfigRejectedState string | Degraded string | Crashed nat | CrashLooping nat

record loop =
  lp_version_at :: rat
  lp_stamp :: "(int \<times> int) option"
  lp_sig :: "string option"
  lp_last_sig :: "string option"
  lp_read_error :: "string option"
  lp_ok :: bool
  lp_retry_at :: "rat option"
  lp_expected :: bool
  lp_supervise_at :: "rat option"
  lp_crashes :: nat
  lp_crash_at :: rat
  lp_restart_at :: rat
  lp_metrics_at :: rat
  lp_probe_at :: rat
  lp_backup_at :: "rat option"
  lp_runtime :: runtime

definition loop_start :: loop where
  "loop_start = \<lparr>lp_version_at = 0, lp_stamp = None, lp_sig = None, lp_last_sig = None, lp_read_error = None, lp_ok = True,
     lp_retry_at = Some 0, lp_expected = False, lp_supervise_at = None, lp_crashes = 0, lp_crash_at = 0, lp_restart_at = 0,
     lp_metrics_at = 0, lp_probe_at = 0, lp_backup_at = None, lp_runtime = Starting\<rparr>"

text \<open>What a tick sees: the clock, the state file's stamp and its signature (or why it cannot be read),
  whether the installed version differs, whether an upgrade response is pending, what the reconcile and
  the supervised restart come to, whether the engine runs when supervision looks, and which workers are
  still busy.\<close>

record tick_input =
  ti_now :: rat
  ti_stamp :: "int \<times> int"
  ti_read :: "(string, string) result"
  ti_upgraded :: bool
  ti_deferred :: bool
  ti_reconcile :: reconcile_outcome
  ti_running :: bool
  ti_metrics_busy :: bool
  ti_probe_busy :: bool
  ti_backup_busy :: bool

text \<open>A reconcile is run because the state moved or a retry is due, or by supervision, after the crash of that
  number.\<close>

datatype cause = AfterChange | AfterCrash nat

datatype tick_action = DoReconcile cause | StartMetrics | StartProbe | StartBackup

datatype loop_end = ExitForUpgrade | FloatOverflow

definition watch_version :: "bool \<Rightarrow> tick_input \<Rightarrow> loop \<Rightarrow> (loop_end, loop) result" where
  "watch_version supervised i l =
     (if supervised \<and> version_check \<le> ti_now i - lp_version_at l then
        (if ti_upgraded i then
           (if ti_deferred i then Inr (l\<lparr>lp_version_at := ti_now i - version_check + poll_seconds\<rparr>) else Inl ExitForUpgrade)
         else Inr (l\<lparr>lp_version_at := ti_now i\<rparr>))
      else Inr l)"

definition read_state :: "tick_input \<Rightarrow> loop \<Rightarrow> loop" where
  "read_state i l =
     (if Some (ti_stamp i) = lp_stamp l then l
      else (case ti_read i of
          Inl e \<Rightarrow> l\<lparr>lp_read_error := Some e\<rparr>
        | Inr s \<Rightarrow> l\<lparr>lp_sig := Some s, lp_stamp := Some (ti_stamp i), lp_read_error := None\<rparr>))"

definition wants_reconcile :: "tick_input \<Rightarrow> loop \<Rightarrow> bool" where
  "wants_reconcile i l = (lp_sig l \<noteq> lp_last_sig l
     \<or> (\<not> lp_ok l \<and> (case lp_retry_at l of None \<Rightarrow> False | Some t \<Rightarrow> t \<le> ti_now i)))"

definition loop_reconcile :: "tick_input \<Rightarrow> loop \<Rightarrow> loop \<times> tick_action list" where
  "loop_reconcile i l =
     (if wants_reconcile i l then
        ((case ti_reconcile i of
            Reconciled \<Rightarrow> l\<lparr>lp_ok := True, lp_expected := True, lp_runtime := RuntimeOk\<rparr>
          | RejectedConfig e \<Rightarrow> l\<lparr>lp_ok := False, lp_retry_at := None, lp_runtime := ConfigRejectedState e\<rparr>
          | FailedReconcile e \<Rightarrow> l\<lparr>lp_ok := False, lp_retry_at := Some (ti_now i + reconcile_retry), lp_runtime := Degraded e\<rparr>)
           \<lparr>lp_last_sig := lp_sig l\<rparr>, [DoReconcile AfterChange])
      else (l, []))"

definition due :: "rat option \<Rightarrow> rat \<Rightarrow> rat \<Rightarrow> bool" where
  "due prev every now = (case prev of None \<Rightarrow> True | Some t \<Rightarrow> every \<le> now - t)"

definition float_pow2 :: "nat \<Rightarrow> rat option" where
  "float_pow2 n = (if n < 1024 then Some (2 ^ n) else None)"

definition crash_delay :: "nat \<Rightarrow> rat option" where
  "crash_delay crashes = map_option (\<lambda>d. min d crash_backoff_max) (float_pow2 (crashes - 1))"

text \<open>Supervision restarts by a reconcile, whose outcome is only logged: the retry of the state, the
  expectation and the signature stay as they are.\<close>

definition supervise :: "tick_input \<Rightarrow> loop \<Rightarrow> (loop_end, loop \<times> tick_action list) result" where
  "supervise i l =
     (if \<not> due (lp_supervise_at l) supervise_interval (ti_now i) then Inr (l, [])
      else (let l1 = l\<lparr>lp_supervise_at := Some (ti_now i)\<rparr> in
        if ti_running i then
          Inr (if lp_crashes l \<noteq> 0 \<and> crash_reset \<le> ti_now i - lp_crash_at l then l1\<lparr>lp_crashes := 0, lp_runtime := RuntimeOk\<rparr> else l1, [])
        else if lp_expected l \<and> lp_restart_at l \<le> ti_now i then
          (let n = Suc (lp_crashes l) in
           case crash_delay n of
             None \<Rightarrow> Inl FloatOverflow
           | Some delay \<Rightarrow> Inr (l1\<lparr>lp_crashes := n, lp_crash_at := ti_now i, lp_restart_at := ti_now i + delay,
               lp_runtime := (if 3 \<le> n then CrashLooping n else Crashed n)\<rparr>, [DoReconcile (AfterCrash n)]))
        else Inr (l1, [])))"

definition start_workers :: "tick_input \<Rightarrow> loop \<Rightarrow> loop \<times> tick_action list" where
  "start_workers i l =
     (let m = (metrics_interval \<le> ti_now i - lp_metrics_at l); p = (probe_interval \<le> ti_now i - lp_probe_at l);
          b = due (lp_backup_at l) backup_check (ti_now i) in
      (l\<lparr>lp_metrics_at := (if m then ti_now i else lp_metrics_at l), lp_probe_at := (if p then ti_now i else lp_probe_at l),
         lp_backup_at := (if b then Some (ti_now i) else lp_backup_at l)\<rparr>,
       (if m \<and> \<not> ti_metrics_busy i then [StartMetrics] else []) @ (if p \<and> \<not> ti_probe_busy i then [StartProbe] else [])
       @ (if b \<and> \<not> ti_backup_busy i then [StartBackup] else [])))"

definition tick :: "bool \<Rightarrow> tick_input \<Rightarrow> loop \<Rightarrow> (loop_end, loop \<times> tick_action list) result" where
  "tick supervised i l =
     bindR (watch_version supervised i l) (\<lambda>l0.
     case loop_reconcile i (read_state i l0) of (l1, a1) \<Rightarrow>
     bindR (supervise i l1) (\<lambda>(l2, a2).
     case start_workers i l2 of (l3, a3) \<Rightarrow> Inr (l3, a1 @ a2 @ a3)))"

fun run_loop :: "bool \<Rightarrow> tick_input list \<Rightarrow> loop \<Rightarrow> (loop_end, loop \<times> (rat \<times> tick_action list) list) result" where
  "run_loop sv [] l = Inr (l, [])"
| "run_loop sv (i # is) l = bindR (tick sv i l) (\<lambda>(l1, a). bindR (run_loop sv is l1) (\<lambda>(l2, as). Inr (l2, (ti_now i, a) # as)))"

section \<open>Rejected configurations\<close>

definition waiting :: "string option \<Rightarrow> loop \<Rightarrow> bool" where
  "waiting s l = (\<not> lp_ok l \<and> lp_retry_at l = None \<and> lp_sig l = s \<and> lp_last_sig l = s)"

definition reads_same :: "string option \<Rightarrow> tick_input \<Rightarrow> bool" where
  "reads_same s i = (case ti_read i of Inl e \<Rightarrow> True | Inr s' \<Rightarrow> Some s' = s)"

text \<open>Only supervision reconciles, and only over an engine that it finds dead.\<close>

definition supervised_only :: "tick_input \<Rightarrow> tick_action list \<Rightarrow> bool" where
  "supervised_only i a = (\<forall>c. DoReconcile c \<in> set a \<longrightarrow> (\<exists>n. c = AfterCrash n) \<and> \<not> ti_running i)"

lemma watch_same: "watch_version sv i l = Inr l' \<Longrightarrow> lp_sig l' = lp_sig l \<and> lp_last_sig l' = lp_last_sig l
    \<and> lp_ok l' = lp_ok l \<and> lp_retry_at l' = lp_retry_at l \<and> lp_stamp l' = lp_stamp l"
  by (auto simp: watch_version_def split: if_splits)

lemma watch_waiting: "watch_version sv i l = Inr l' \<Longrightarrow> waiting s l \<Longrightarrow> waiting s l'"
  by (auto simp: waiting_def dest: watch_same)

lemma read_waiting: "waiting s l \<Longrightarrow> reads_same s i \<Longrightarrow> waiting s (read_state i l)"
  by (auto simp: read_state_def waiting_def reads_same_def split: sum.splits)

lemma waiting_still: "waiting s l \<Longrightarrow> loop_reconcile i l = (l, [])"
  by (simp add: waiting_def loop_reconcile_def wants_reconcile_def)

lemma supervise_waiting: "supervise i l = Inr (l', a) \<Longrightarrow> waiting s l \<Longrightarrow> waiting s l' \<and> supervised_only i a"
  by (auto simp: supervise_def waiting_def supervised_only_def Let_def split: if_splits option.splits)

lemma workers_waiting: "start_workers i l = (l', a) \<Longrightarrow> waiting s l \<Longrightarrow> waiting s l' \<and> (\<forall>c. DoReconcile c \<notin> set a)"
  by (auto simp: start_workers_def waiting_def Let_def)

lemma tick_parts:
  assumes "tick sv i l = Inr (l', a)"
  obtains l0 l1 a1 l2 a2 a3 where "watch_version sv i l = Inr l0" "loop_reconcile i (read_state i l0) = (l1, a1)"
    "supervise i l1 = Inr (l2, a2)" "start_workers i l2 = (l', a3)" "a = a1 @ a2 @ a3"
proof -
  from assms obtain l0 where l0: "watch_version sv i l = Inr l0"
    "(case loop_reconcile i (read_state i l0) of (l1, a1) \<Rightarrow> bindR (supervise i l1) (\<lambda>(l2, a2).
       case start_workers i l2 of (l3, a3) \<Rightarrow> Inr (l3, a1 @ a2 @ a3))) = Inr (l', a)"
    by (auto simp: tick_def)
  obtain l1 a1 where l1: "loop_reconcile i (read_state i l0) = (l1, a1)" by (metis surj_pair)
  from l0(2) l1 obtain y where y: "supervise i l1 = Inr y" "(case y of (l2, a2) \<Rightarrow> case start_workers i l2 of (l3, a3) \<Rightarrow>
      Inr (l3, a1 @ a2 @ a3)) = (Inr (l', a) :: (loop_end, loop \<times> tick_action list) result)" by auto
  obtain l2 a2 where l2: "y = (l2, a2)" by (metis surj_pair)
  obtain l3 a3 where l3: "start_workers i l2 = (l3, a3)" by (metis surj_pair)
  from y(2) l2 l3 have "l3 = l'" "a = a1 @ a2 @ a3" by auto
  with that l0(1) l1 y(1) l2 l3 show ?thesis by blast
qed

lemma tick_waiting:
  assumes "tick sv i l = Inr (l', a)" "waiting s l" "reads_same s i"
  shows "waiting s l' \<and> supervised_only i a"
proof -
  from assms(1) obtain l0 l1 a1 l2 a2 a3 where t: "watch_version sv i l = Inr l0" "loop_reconcile i (read_state i l0) = (l1, a1)"
    "supervise i l1 = Inr (l2, a2)" "start_workers i l2 = (l', a3)" "a = a1 @ a2 @ a3" by (rule tick_parts)
  have "waiting s (read_state i l0)" using watch_waiting[OF t(1) assms(2)] read_waiting assms(3) by blast
  with waiting_still t(2) have "waiting s l1" "a1 = []" by auto
  with supervise_waiting[OF t(3), of s] have "waiting s l2" "supervised_only i a2" by auto
  with workers_waiting[OF t(4), of s] t(5) \<open>a1 = []\<close> show ?thesis by (auto simp: supervised_only_def)
qed

lemma rejection_waits:
  assumes "tick sv i l = Inr (l', a)" "DoReconcile AfterChange \<in> set a" "ti_reconcile i = RejectedConfig e"
  shows "waiting (lp_sig l') l'"
proof -
  from assms(1) obtain l0 l1 a1 l2 a2 a3 where t: "watch_version sv i l = Inr l0" "loop_reconcile i (read_state i l0) = (l1, a1)"
    "supervise i l1 = Inr (l2, a2)" "start_workers i l2 = (l', a3)" "a = a1 @ a2 @ a3" by (rule tick_parts)
  have "DoReconcile AfterChange \<notin> set a2"
    using t(3) by (auto simp: supervise_def Let_def split: if_splits option.splits)
  moreover have "DoReconcile AfterChange \<notin> set a3" using t(4) by (auto simp: start_workers_def Let_def)
  ultimately have "a1 \<noteq> []" using assms(2) t(5) by auto
  with t(2) assms(3) have "waiting (lp_sig l1) l1" by (auto simp: loop_reconcile_def waiting_def split: if_splits)
  from supervise_waiting[OF t(3) this] workers_waiting[OF t(4)] show ?thesis by (auto simp: waiting_def)
qed

lemma change_reconciles:
  assumes "tick sv j l = Inr (l', a)" "waiting s l" "ti_read j = Inr s'" "Some s' \<noteq> s" "Some (ti_stamp j) \<noteq> lp_stamp l"
  shows "DoReconcile AfterChange \<in> set a"
proof -
  from assms(1) obtain l0 l1 a1 l2 a2 a3 where t: "watch_version sv j l = Inr l0" "loop_reconcile j (read_state j l0) = (l1, a1)"
    "supervise j l1 = Inr (l2, a2)" "start_workers j l2 = (l', a3)" "a = a1 @ a2 @ a3" by (rule tick_parts)
  have "lp_sig (read_state j l0) = Some s'" "lp_last_sig (read_state j l0) = s"
    using watch_same[OF t(1)] assms(2,3,5) by (auto simp: read_state_def waiting_def)
  with t(2) assms(4) have "a1 = [DoReconcile AfterChange]" by (auto simp: loop_reconcile_def wants_reconcile_def split: if_splits)
  with t(5) show ?thesis by simp
qed

text \<open>C21: A rejected configuration is not retried until the state changes. After a tick whose reconcile was
  rejected, as long as the state file keeps its signature or cannot be read, no later tick reconciles
  on a timer, however long the loop runs: the only reconciles left are the restarts of an engine that
  supervision finds dead. The first tick that reads another signature reconciles again.\<close>

theorem rejected_waits_for_change:
  assumes "tick sv i l = Inr (l1, a1)" "DoReconcile AfterChange \<in> set a1" "ti_reconcile i = RejectedConfig e"
    and "list_all (reads_same (lp_sig l1)) is" "run_loop sv is l1 = Inr (l2, hist)"
  shows "list_all2 (\<lambda>j (t, a). \<forall>c. DoReconcile c \<in> set a \<longrightarrow> (\<exists>n. c = AfterCrash n) \<and> \<not> ti_running j) is hist
    \<and> (\<forall>j l3 a3 s. tick sv j l2 = Inr (l3, a3) \<and> Some (ti_stamp j) \<noteq> lp_stamp l2 \<and> ti_read j = Inr s \<and> Some s \<noteq> lp_sig l1
         \<longrightarrow> DoReconcile AfterChange \<in> set a3)"
proof -
  have "waiting s l1 \<Longrightarrow> list_all (reads_same s) is \<Longrightarrow> run_loop sv is l1 = Inr (l2, hist)
      \<Longrightarrow> list_all2 (\<lambda>j (t, a). supervised_only j a) is hist \<and> waiting s l2" for s "is" l1 hist
  proof (induction "is" arbitrary: l1 hist)
    case (Cons i "is")
    from Cons.prems(3) obtain l' a rest where t: "tick sv i l1 = Inr (l', a)" "run_loop sv is l' = Inr (l2, rest)" "hist = (ti_now i, a) # rest"
      by (auto split: prod.splits)
    from tick_waiting[OF t(1) Cons.prems(1)] Cons.prems(2) have "waiting s l'" "supervised_only i a" by auto
    with Cons.IH[OF _ _ t(2)] Cons.prems(2) t(3) show ?case by auto
  qed simp
  from this[OF rejection_waits[OF assms(1-3)] assms(4,5)] change_reconciles show ?thesis
    unfolding supervised_only_def by blast
qed

section \<open>Restart back-off\<close>

fun restart_numbers :: "tick_action list \<Rightarrow> nat list" where
  "restart_numbers [] = []"
| "restart_numbers (DoReconcile (AfterCrash n) # as) = n # restart_numbers as"
| "restart_numbers (_ # as) = restart_numbers as"

lemma restart_numbers_append [simp]: "restart_numbers (as @ bs) = restart_numbers as @ restart_numbers bs"
  by (induction as rule: restart_numbers.induct) auto

















section \<open>An engine that never stays up\<close>

definition dead_tick :: "nat \<Rightarrow> tick_input" where
  "dead_tick k = \<lparr>ti_now = 62 * of_nat k, ti_stamp = (1, 1), ti_read = Inr ''s'', ti_upgraded = False, ti_deferred = False,
     ti_reconcile = Reconciled, ti_running = False, ti_metrics_busy = False, ti_probe_busy = False, ti_backup_busy = False\<rparr>"

definition dead_after :: "nat \<Rightarrow> loop \<Rightarrow> bool" where
  "dead_after k l = (lp_crashes l = k \<and> lp_restart_at l \<le> 62 * of_nat k + 60 \<and> (k = 0 \<or> lp_supervise_at l = Some (62 * of_nat k))
     \<and> (k = 0 \<longrightarrow> l = loop_start) \<and> (k \<noteq> 0 \<longrightarrow> lp_expected l \<and> lp_ok l \<and> lp_sig l = Some ''s'' \<and> lp_last_sig l = Some ''s'' \<and> lp_stamp l = Some (1, 1)))"

lemma dead_supervise:
  assumes "lp_crashes l = k" "k < 1024" "lp_restart_at l \<le> 62 * of_nat k + 60" "lp_expected l"
    "lp_supervise_at l = None \<or> lp_supervise_at l = Some (62 * of_nat k)"
  shows "\<exists>l'. supervise (dead_tick (Suc k)) l = Inr (l', [DoReconcile (AfterCrash (Suc k))]) \<and> lp_crashes l' = Suc k
    \<and> lp_restart_at l' \<le> 62 * of_nat (Suc k) + 60 \<and> lp_supervise_at l' = Some (62 * of_nat (Suc k)) \<and> lp_expected l'
    \<and> lp_ok l' = lp_ok l \<and> lp_sig l' = lp_sig l \<and> lp_last_sig l' = lp_last_sig l \<and> lp_stamp l' = lp_stamp l"
proof -
  have d: "due (lp_supervise_at l) supervise_interval (ti_now (dead_tick (Suc k)))"
    using assms(5) by (auto simp: due_def supervise_interval_def dead_tick_def)
  have r: "lp_restart_at l \<le> ti_now (dead_tick (Suc k))" using assms(3) by (simp add: dead_tick_def)
  have p: "crash_delay (Suc k) = Some (min (2 ^ k) crash_backoff_max)" using assms(2) by (simp add: crash_delay_def float_pow2_def)
  have run: "\<not> ti_running (dead_tick (Suc k))" by (simp add: dead_tick_def)
  have "min (2 ^ k) crash_backoff_max \<le> (60 :: rat)" by (simp add: crash_backoff_max_def)
  then show ?thesis using d r run assms(1,4) by (simp add: supervise_def Let_def p) (simp add: dead_tick_def)
qed

lemma dead_front:
  assumes "dead_after k l"
  shows "\<exists>l1 a1. loop_reconcile (dead_tick (Suc k)) (read_state (dead_tick (Suc k)) l) = (l1, a1) \<and> lp_crashes l1 = k
    \<and> lp_restart_at l1 \<le> 62 * of_nat k + 60 \<and> lp_expected l1 \<and> (lp_supervise_at l1 = None \<or> lp_supervise_at l1 = Some (62 * of_nat k))
    \<and> lp_ok l1 \<and> lp_sig l1 = Some ''s'' \<and> lp_last_sig l1 = Some ''s'' \<and> lp_stamp l1 = Some (1, 1)"
proof (cases "k = 0")
  case True
  with assms have "l = loop_start" by (simp add: dead_after_def)
  with True show ?thesis
    by (simp add: loop_start_def dead_tick_def read_state_def loop_reconcile_def wants_reconcile_def)
next
  case False
  with assms have l: "lp_crashes l = k" "lp_restart_at l \<le> 62 * of_nat k + 60" "lp_supervise_at l = Some (62 * of_nat k)" "lp_expected l"
    "lp_ok l" "lp_sig l = Some ''s''" "lp_last_sig l = Some ''s''" "lp_stamp l = Some (1, 1)" by (simp_all add: dead_after_def)
  then have "read_state (dead_tick (Suc k)) l = l" by (simp add: read_state_def dead_tick_def)
  with l show ?thesis by (simp add: loop_reconcile_def wants_reconcile_def)
qed

lemma dead_watch: "watch_version False i l = Inr l"
  by (simp add: watch_version_def)

lemma dead_step:
  assumes "dead_after k l" "k < 1024"
  shows "\<exists>l' a. tick False (dead_tick (Suc k)) l = Inr (l', a) \<and> dead_after (Suc k) l'"
proof -
  from dead_front[OF assms(1)] obtain l1 a1 where f: "loop_reconcile (dead_tick (Suc k)) (read_state (dead_tick (Suc k)) l) = (l1, a1)"
    "lp_crashes l1 = k" "lp_restart_at l1 \<le> 62 * of_nat k + 60" "lp_expected l1"
    "lp_supervise_at l1 = None \<or> lp_supervise_at l1 = Some (62 * of_nat k)"
    "lp_ok l1" "lp_sig l1 = Some ''s''" "lp_last_sig l1 = Some ''s''" "lp_stamp l1 = Some (1, 1)" by blast
  from dead_supervise[OF f(2) assms(2) f(3-5)] obtain l2 where s: "supervise (dead_tick (Suc k)) l1 = Inr (l2, [DoReconcile (AfterCrash (Suc k))])"
    "lp_crashes l2 = Suc k" "lp_restart_at l2 \<le> 62 * of_nat (Suc k) + 60" "lp_supervise_at l2 = Some (62 * of_nat (Suc k))" "lp_expected l2"
    "lp_ok l2 = lp_ok l1" "lp_sig l2 = lp_sig l1" "lp_last_sig l2 = lp_last_sig l1" "lp_stamp l2 = lp_stamp l1" by blast
  obtain l3 a3 where w: "start_workers (dead_tick (Suc k)) l2 = (l3, a3)" by (cases "start_workers (dead_tick (Suc k)) l2")
  then have "dead_after (Suc k) l3" using s f by (auto simp: start_workers_def Let_def dead_after_def)
  then show ?thesis unfolding tick_def by (simp add: dead_watch f(1) s(1) w)
qed

lemma dead_end:
  assumes "dead_after 1024 l"
  shows "tick False (dead_tick 1025) l = Inl FloatOverflow"
proof -
  have n: "Suc 1024 = 1025" by simp
  from dead_front[OF assms] obtain l1 a1 where f: "loop_reconcile (dead_tick 1025) (read_state (dead_tick 1025) l) = (l1, a1)"
    "lp_crashes l1 = 1024" "lp_restart_at l1 \<le> 62 * of_nat 1024 + 60" "lp_expected l1"
    "lp_supervise_at l1 = None \<or> lp_supervise_at l1 = Some (62 * of_nat 1024)" unfolding n by blast
  have d: "due (lp_supervise_at l1) supervise_interval (ti_now (dead_tick 1025))" "lp_restart_at l1 \<le> ti_now (dead_tick 1025)"
    using f(3,5) by (auto simp: due_def supervise_interval_def dead_tick_def)
  have "crash_delay (Suc 1024) = None" by (simp add: crash_delay_def float_pow2_def)
  then have "supervise (dead_tick 1025) l1 = Inl FloatOverflow"
    using d f(2,4) by (simp add: supervise_def Let_def dead_tick_def)
  then show ?thesis unfolding tick_def by (simp add: dead_watch f(1))
qed

lemma dead_run:
  "dead_after k l \<Longrightarrow> k \<le> 1024 \<Longrightarrow> run_loop False (map dead_tick [Suc k..<1026]) l = Inl FloatOverflow"
proof (induction "1024 - k" arbitrary: k l)
  case 0
  then have k: "k = 1024" by simp
  have "[Suc 1024..<1026] = [1025]" by (simp add: upt_rec)
  then show ?case using dead_end 0(2) unfolding k by simp
next
  case (Suc m)
  then have k: "k < 1024" by simp
  from dead_step[OF Suc.prems(1) k] obtain l' a where t: "tick False (dead_tick (Suc k)) l = Inr (l', a)" "dead_after (Suc k) l'" by blast
  have "run_loop False (map dead_tick [Suc (Suc k)..<1026]) l' = Inl FloatOverflow"
    by (rule Suc.hyps(1)) (use Suc.hyps(2) k t in auto)
  moreover have "[Suc k..<1026] = Suc k # [Suc (Suc k)..<1026]" using k by (simp add: upt_conv_Cons)
  ultimately show ?case by (simp add: t(1))
qed

text \<open>An engine that never stays up takes the daemon down: from a fresh start, with a tick every 62
  seconds at which the engine is found dead, the 1025th restart computes \<open>2.0 ** 1024\<close>, and the
  OverflowError leaves the loop, after less than eighteen hours.\<close>

theorem dead_engine_kills_daemon:
  "run_loop False (map dead_tick [1..<1026]) loop_start = Inl FloatOverflow"
proof -
  have "dead_after 0 loop_start" by (simp add: dead_after_def) (simp add: loop_start_def)
  from dead_run[OF this] show ?thesis by simp
qed

text \<open>A tick whose reconcile is rejected, then ticks over the same state.\<close>

definition rejecting_tick :: tick_input where
  "rejecting_tick = (dead_tick 1)\<lparr>ti_reconcile := RejectedConfig ''no such field''\<rparr>"

lemma rejected_waits_for_change_witness:
  "\<exists>l1 a1 l2 hist. tick False rejecting_tick loop_start = Inr (l1, a1) \<and> run_loop False (map dead_tick [2, 3, 4]) l1 = Inr (l2, hist)
    \<and> list_all2 (\<lambda>j (t, a). \<forall>c. DoReconcile c \<in> set a \<longrightarrow> (\<exists>n. c = AfterCrash n) \<and> \<not> ti_running j) (map dead_tick [2, 3, 4]) hist"
proof -
  have "(case tick False rejecting_tick loop_start of Inl _ \<Rightarrow> False | Inr (l1, a1) \<Rightarrow> DoReconcile AfterChange \<in> set a1
     \<and> list_all (reads_same (lp_sig l1)) (map dead_tick [2, 3, 4]) \<and> returned (run_loop False (map dead_tick [2, 3, 4]) l1))" by code_simp
  then obtain l1 a1 where t: "tick False rejecting_tick loop_start = Inr (l1, a1)" "DoReconcile AfterChange \<in> set a1"
    "list_all (reads_same (lp_sig l1)) (map dead_tick [2, 3, 4])" "returned (run_loop False (map dead_tick [2, 3, 4]) l1)"
    by (auto split: sum.splits)
  from t(4) obtain l2 hist where r: "run_loop False (map dead_tick [2, 3, 4]) l1 = Inr (l2, hist)" by (metis returnedE prod.exhaust_sel)
  have e: "ti_reconcile rejecting_tick = RejectedConfig ''no such field''" by (simp add: rejecting_tick_def)
  from rejected_waits_for_change[OF t(1,2) e t(3) r] t(1) r show ?thesis by blast
qed


section \<open>The upgrade lease\<close>

text \<open>Per handler thread the nesting depth and the lifecycle action it queued; the count that the package
  watcher reads. A step gives the actions that are spawned.\<close>

record lease =
  ls_count :: nat
  ls_depth :: "nat \<Rightarrow> nat"
  ls_pending :: "nat \<Rightarrow> (string \<times> rat) option"

datatype lease_op = Enter nat | Leave nat | Schedule nat string rat

datatype lifecycle_error = UnsupportedAction string

definition lease_start :: lease where
  "lease_start = \<lparr>ls_count = 0, ls_depth = (\<lambda>_. 0), ls_pending = (\<lambda>_. None)\<rparr>"

definition lease_step :: "lease_op \<Rightarrow> lease \<Rightarrow> (lifecycle_error, lease \<times> (string \<times> rat) list) result" where
  "lease_step oper s = (case oper of
     Enter t \<Rightarrow> Inr (s\<lparr>ls_depth := (ls_depth s)(t := Suc (ls_depth s t)), ls_count := Suc (ls_count s)\<rparr>, [])
   | Leave t \<Rightarrow>
      (let depth = ls_depth s t - 1; s1 = s\<lparr>ls_depth := (ls_depth s)(t := depth), ls_count := ls_count s - 1\<rparr> in
       if depth = 0 then Inr (s1\<lparr>ls_pending := (ls_pending s)(t := None)\<rparr>, (case ls_pending s t of None \<Rightarrow> [] | Some a \<Rightarrow> [a]))
       else Inr (s1, []))
   | Schedule t action delay \<Rightarrow>
       if action \<noteq> ''stop'' \<and> action \<noteq> ''restart'' then Inl (UnsupportedAction action)
       else if 0 < ls_depth s t then Inr (s\<lparr>ls_pending := (ls_pending s)(t := Some (action, delay))\<rparr>, [])
       else Inr (s, [(action, delay)]))"

definition upgrade_restart_deferred :: "lease \<Rightarrow> bool" where
  "upgrade_restart_deferred s = (0 < ls_count s)"

text \<open>While any handler is inside its lease the watcher defers: the count is the sum of the depths.\<close>

fun lease_run :: "lease_op list \<Rightarrow> lease \<Rightarrow> lease" where
  "lease_run [] s = s"
| "lease_run (x # xs) s = lease_run xs (case lease_step x s of Inl _ \<Rightarrow> s | Inr (s', _) \<Rightarrow> s')"

text \<open>A handler leaves only a lease it holds, as a context manager does.\<close>

fun nested :: "lease_op list \<Rightarrow> lease \<Rightarrow> bool" where
  "nested [] s = True"
| "nested (x # xs) s = ((case x of Leave t \<Rightarrow> 0 < ls_depth s t | _ \<Rightarrow> True)
     \<and> nested xs (case lease_step x s of Inl _ \<Rightarrow> s | Inr (s', _) \<Rightarrow> s'))"

definition lease_ok :: "lease \<Rightarrow> bool" where
  "lease_ok s = (finite {t. ls_depth s t \<noteq> 0} \<and> ls_count s = (\<Sum>t | ls_depth s t \<noteq> 0. ls_depth s t))"

lemma lease_ok_alt:
  assumes "finite A" "{t. ls_depth s t \<noteq> 0} \<subseteq> A"
  shows "lease_ok s \<longleftrightarrow> ls_count s = (\<Sum>t\<in>A. ls_depth s t)"
proof -
  have "(\<Sum>t | ls_depth s t \<noteq> 0. ls_depth s t) = (\<Sum>t\<in>A. ls_depth s t)"
    by (rule sum.mono_neutral_left) (use assms in auto)
  with assms show ?thesis by (auto simp: lease_ok_def intro: finite_subset)
qed

lemma lease_step_ok:
  assumes "lease_ok s" "lease_step x s = Inr (s', a)" "case x of Leave t \<Rightarrow> 0 < ls_depth s t | _ \<Rightarrow> True"
  shows "lease_ok s'"
proof -
  define t where "t = (case x of Enter u \<Rightarrow> u | Leave u \<Rightarrow> u | Schedule u _ _ \<Rightarrow> u)"
  have t: "\<forall>u. u \<noteq> t \<longrightarrow> ls_depth s' u = ls_depth s u"
    using assms(2) by (cases x) (auto simp: t_def lease_step_def Let_def split: if_splits)
  let ?A = "insert t {u. ls_depth s u \<noteq> 0}"
  have A: "finite ?A" "{u. ls_depth s u \<noteq> 0} \<subseteq> ?A" "{u. ls_depth s' u \<noteq> 0} \<subseteq> ?A"
    using assms(1) t by (auto simp: lease_ok_def)
  have c: "ls_count s = ls_depth s t + (\<Sum>u\<in>?A - {t}. ls_depth s u)"
    using assms(1) lease_ok_alt[OF A(1,2)] sum.remove[OF A(1) insertI1, of "ls_depth s"] by (simp only:)
  have "(\<Sum>u\<in>?A - {t}. ls_depth s u) = (\<Sum>u\<in>?A - {t}. ls_depth s' u)" by (rule sum.cong) (use t in auto)
  moreover have "ls_count s' + ls_depth s t = ls_count s + ls_depth s' t"
    using assms(2,3) c by (cases x) (auto simp: t_def lease_step_def Let_def split: if_splits)
  ultimately have "ls_count s' = ls_depth s' t + (\<Sum>u\<in>?A - {t}. ls_depth s' u)" using c by simp
  then show ?thesis using lease_ok_alt[OF A(1,3)] sum.remove[OF A(1) insertI1, of "ls_depth s'"] by (simp only:)
qed

theorem lease_defers:
  assumes "nested xs lease_start"
  shows "upgrade_restart_deferred (lease_run xs lease_start) = (\<exists>t. 0 < ls_depth (lease_run xs lease_start) t)"
proof -
  have "lease_ok s \<Longrightarrow> nested xs s \<Longrightarrow> lease_ok (lease_run xs s)" for s
    by (induction xs arbitrary: s) (auto dest: lease_step_ok split: sum.splits prod.splits)
  moreover have "lease_ok lease_start" by (simp add: lease_ok_def lease_start_def)
  ultimately have ok: "lease_ok (lease_run xs lease_start)" using assms by blast
  then show ?thesis by (auto simp: upgrade_restart_deferred_def lease_ok_def sum_eq_0_iff simp flip: neq0_conv)
qed

section \<open>The status version cache\<close>

definition cached_installed_version :: "rat \<Rightarrow> string \<Rightarrow> (rat \<times> string) option \<Rightarrow> string \<times> (rat \<times> string) option" where
  "cached_installed_version now installed cache = (case cache of
     Some (at', v) \<Rightarrow> if now - at' < version_cache_ttl then (v, cache) else (installed, Some (now, installed))
   | None \<Rightarrow> (installed, Some (now, installed)))"

definition forget_installed_version :: "(rat \<times> string) option \<Rightarrow> (rat \<times> string) option" where
  "forget_installed_version cache = None"

section \<open>Starting and stopping\<close>

text \<open>How the daemon is addressed, by its verified pid and the environment's marks.\<close>

definition in_daemon_process :: "bool \<Rightarrow> int option \<Rightarrow> int \<Rightarrow> bool" where
  "in_daemon_process marked running self = (marked \<and> running = Some self)"

definition self_command :: "string option \<Rightarrow> bool \<Rightarrow> string \<Rightarrow> string list \<Rightarrow> string list" where
  "self_command exe frozen python args = (case exe of
     Some e \<Rightarrow> if e \<noteq> [] then e # args else if frozen then python # args else [python, ''-m'', ''anyhop''] @ args
   | None \<Rightarrow> if frozen then python # args else [python, ''-m'', ''anyhop''] @ args)"

datatype start_action = NothingToStart | AskSupervisor | SpawnApplier

definition ensure_running :: "int option \<Rightarrow> bool \<Rightarrow> bool \<Rightarrow> start_action" where
  "ensure_running running marked installed =
     (if running \<noteq> None then NothingToStart else if marked then NothingToStart
      else if installed then AskSupervisor else SpawnApplier)"

text \<open>What \<open>stop\<close> does to the pidfile and the info file, and what it returns; \<open>SignalTerm\<close> escalates to a
  kill when the process outlives the wait.\<close>

datatype stop_action = AskSupervisorToStop | SignalTerm int | SignalKill int

definition daemon_stop :: "bool \<Rightarrow> int option \<Rightarrow> bool \<Rightarrow> stop_action list \<times> bool \<times> bool \<times> bool" where
  "daemon_stop installed running outlives =
     (if installed then ([AskSupervisorToStop], running \<noteq> None, True, True)
      else (case running of
          None \<Rightarrow> ([], False, True, False)
        | Some pid \<Rightarrow> (SignalTerm pid # (if outlives then [SignalKill pid] else []), True, True, True)))"

text \<open>The info file is believed only when it names the live daemon.\<close>

definition daemon_info :: "int option \<Rightarrow> jobj option \<Rightarrow> jobj option" where
  "daemon_info running info = (case running of
     None \<Rightarrow> None
   | Some pid \<Rightarrow> (let unknown = [(''pid'', JNum (of_int pid)), (''version'', JNull)] in
      case info of
        None \<Rightarrow> Some unknown
      | Some d \<Rightarrow> Some (if dget d ''pid'' = Some (JNum (of_int pid)) then d else unknown)))"

definition info_record :: "int \<Rightarrow> string \<Rightarrow> string option \<Rightarrow> jobj option \<Rightarrow> jobj" where
  "info_record pid version owner runtime =
     [(''pid'', JNum (of_int pid)), (''version'', JStr version)]
     @ (case owner of Some o' \<Rightarrow> if o' \<noteq> [] then [(''service_owner'', JStr o')] else [] | None \<Rightarrow> [])
     @ (case runtime of Some r \<Rightarrow> [(''runtime'', JObj r)] | None \<Rightarrow> [])"

text \<open>One traffic sample: used only when the same verified process is there before and after it.\<close>

definition usable_sample :: "string option \<Rightarrow> string option \<Rightarrow> bool" where
  "usable_sample earlier later = (earlier \<noteq> None \<and> earlier = later)"

end
