(* ===== verification/WgConf.thy ===== *)
theory WgConf
  imports Routes Persist "HOL-Library.Code_Target_Nat"
begin

text \<open>
  WireGuard configuration files: \<open>anyhop/wgconf.py\<close>, which reads a wg-quick text strictly, collects
  every problem with its line, and writes a normalised text back. Two raises leave \<open>parse\<close>: the
  aggregated \<open>ConfError\<close>, and the \<open>ValueError\<close> of \<open>int\<close> on a text that \<open>isdigit\<close> lets pass. The limit
  that Python sets on the number of digits \<open>int\<close> reads is left out.
\<close>

section \<open>Hosts, keys and lists\<close>

definition wg_keepalive :: nat where
  "wg_keepalive = 25"

definition default_allowed_ips :: "string list" where
  "default_allowed_ips = [''0.0.0.0/0'', ''::/0'']"

definition list_keys :: "string list" where
  "list_keys = [''address'', ''allowedips'', ''dns'']"

text \<open>A label of RFC 1123, in lower case.\<close>

definition host_label :: "string \<Rightarrow> bool" where
  "host_label w = (w \<noteq> [] \<and> length w \<le> 63 \<and> list_all (\<lambda>c. lower_alnum c \<or> c = CHR ''-'') w
     \<and> hd w \<noteq> CHR ''-'' \<and> last w \<noteq> CHR ''-'')"

definition host_re :: "string \<Rightarrow> bool" where
  "host_re = before_newline (\<lambda>h. h \<noteq> [] \<and> length h \<le> 253 \<and> list_all host_label (split_on CHR ''.'' (lower h)))"

definition valid_host :: "string \<Rightarrow> bool" where
  "valid_host h = (ip_address h \<noteq> None \<or> host_re h)"

definition csv :: "string \<Rightarrow> string list" where
  "csv v = filter (\<lambda>p. p \<noteq> []) (map strip (split_on CHR '','' v))"

text \<open>Standard base64, with pads, as \<open>b64encode\<close> writes it; the strict reader of full quanta.\<close>

definition std_alphabet :: string where
  "std_alphabet = ''ABCDEFGHIJKLMNOPQRSTUVWXYZabcdefghijklmnopqrstuvwxyz0123456789+/''"

definition std_char :: "nat \<Rightarrow> char" where
  "std_char n = std_alphabet ! (n mod 64)"

fun std_encode :: "nat list \<Rightarrow> string" where
  "std_encode [] = []"
| "std_encode [a] = [std_char (a div 4), std_char (a mod 4 * 16), CHR ''='', CHR ''='']"
| "std_encode [a, b] = [std_char (a div 4), std_char (a mod 4 * 16 + b div 16), std_char (b mod 16 * 4), CHR ''='']"
| "std_encode (a # b # c # r) = std_char (a div 4) # std_char (a mod 4 * 16 + b div 16)
     # std_char (b mod 16 * 4 + c div 64) # std_char (c mod 64) # std_encode r"

fun position :: "'a \<Rightarrow> 'a list \<Rightarrow> nat option" where
  "position x [] = None"
| "position x (y # ys) = (if x = y then Some 0 else map_option Suc (position x ys))"

definition std_value :: "char \<Rightarrow> nat option" where
  "std_value c = position c std_alphabet"

fun std_decode :: "string \<Rightarrow> nat list option" where
  "std_decode [] = Some []"
| "std_decode [p, q, r, s] =
     (case (std_value p, std_value q) of
        (Some a, Some b) \<Rightarrow>
          (if r = CHR ''='' then (if s = CHR ''='' then Some [a * 4 + b div 16] else None)
           else (case std_value r of
               None \<Rightarrow> None
             | Some c \<Rightarrow>
                 if s = CHR ''='' then Some [a * 4 + b div 16, b mod 16 * 16 + c div 4]
                 else map_option (\<lambda>d. [a * 4 + b div 16, b mod 16 * 16 + c div 4, c mod 4 * 64 + d]) (std_value s)))
      | _ \<Rightarrow> None)"
| "std_decode (p # q # r # s # rest) =
     (case (std_value p, std_value q, std_value r, std_value s) of
        (Some a, Some b, Some c, Some d) \<Rightarrow>
          map_option (\<lambda>bs. [a * 4 + b div 16, b mod 16 * 16 + c div 4, c mod 4 * 64 + d] @ bs) (std_decode rest)
      | _ \<Rightarrow> None)"
| "std_decode _ = None"

text \<open>Thirty-two bytes in canonical form.\<close>

definition wg_key_ok :: "string \<Rightarrow> bool" where
  "wg_key_ok v = (case std_decode v of None \<Rightarrow> False | Some bs \<Rightarrow> length bs = 32 \<and> std_encode bs = v)"

text \<open>\<open>ip_interface\<close> reads what \<open>ip_network\<close> reads with host bits forgiven.\<close>

definition check_addresses :: "string list \<Rightarrow> string option" where
  "check_addresses es = find (\<lambda>e. ip_network False e = None) es"

definition check_cidrs :: "string list \<Rightarrow> string option" where
  "check_cidrs es = find (\<lambda>e. ip_network False e = None) es"

section \<open>Sections\<close>

datatype conf_problem =
    UnsupportedSection nat string
  | DuplicateSection nat string nat
  | NotKeyValue nat
  | KeyBeforeSection nat string
  | DuplicateKey nat string nat
  | MissingFields "string list"
  | BadKey nat string
  | BadAddress nat string
  | BadEndpoint nat string
  | BadEndpointHost nat string
  | BadAllowed nat string
  | BadDns nat string
  | BadKeepalive nat string

datatype where_now = Nowhere | InInterface | InPeer | InIgnored

type_synonym entries = "(string, string \<times> nat) dict"

record sections_state =
  ss_where :: where_now
  ss_interface :: entries
  ss_peer :: entries
  ss_errors :: "conf_problem list"
  ss_seen :: "(string, nat) dict"

definition note_problem :: "conf_problem \<Rightarrow> sections_state \<Rightarrow> sections_state" where
  "note_problem e s = s\<lparr>ss_errors := ss_errors s @ [e]\<rparr>"

definition open_section :: "nat \<Rightarrow> string \<Rightarrow> sections_state \<Rightarrow> sections_state" where
  "open_section n name s =
     (if name \<noteq> ''interface'' \<and> name \<noteq> ''peer'' then (note_problem (UnsupportedSection n name) s)\<lparr>ss_where := InIgnored\<rparr>
      else (case dget (ss_seen s) name of
          Some first \<Rightarrow> (note_problem (DuplicateSection n name first) s)\<lparr>ss_where := InIgnored\<rparr>
        | None \<Rightarrow> s\<lparr>ss_seen := dset name n (ss_seen s), ss_where := (if name = ''interface'' then InInterface else InPeer)\<rparr>))"

text \<open>A key of a section: the new entries, or the line of the earlier one.\<close>

definition put_entry :: "nat \<Rightarrow> string \<Rightarrow> string \<Rightarrow> entries \<Rightarrow> nat + entries" where
  "put_entry n key value target = (case dget target key of
     None \<Rightarrow> Inr (dset key (value, n) target)
   | Some (v, first) \<Rightarrow> if key \<in> set list_keys then Inr (dset key (v @ '', '' @ value, first) target) else Inl first)"

definition key_line :: "nat \<Rightarrow> string \<Rightarrow> string \<Rightarrow> sections_state \<Rightarrow> sections_state" where
  "key_line n key value s = (case ss_where s of
     InIgnored \<Rightarrow> s
   | Nowhere \<Rightarrow> note_problem (KeyBeforeSection n key) s
   | InInterface \<Rightarrow> (case put_entry n key value (ss_interface s) of
        Inl first \<Rightarrow> note_problem (DuplicateKey n key first) s | Inr t \<Rightarrow> s\<lparr>ss_interface := t\<rparr>)
   | InPeer \<Rightarrow> (case put_entry n key value (ss_peer s) of
        Inl first \<Rightarrow> note_problem (DuplicateKey n key first) s | Inr t \<Rightarrow> s\<lparr>ss_peer := t\<rparr>))"

definition section_line :: "nat \<times> string \<Rightarrow> sections_state \<Rightarrow> sections_state" where
  "section_line x s = (case x of (n, raw) \<Rightarrow>
     let line = strip raw in
     if line = [] \<or> startswith line ''#'' then s
     else if startswith line ''['' \<and> endswith line '']'' then open_section n (lower (strip (butlast (tl line)))) s
     else (case str_partition CHR ''='' line of
         (_, False, _) \<Rightarrow> note_problem (NotKeyValue n) s
       | (key, True, value) \<Rightarrow> key_line n (lower (strip key)) (strip value) s))"

text \<open>\<open>splitlines\<close>: the line boundaries among the code points below 256, a carriage return and a line
  feed together being one.\<close>

definition line_break :: "char \<Rightarrow> bool" where
  "line_break c = ((of_char c :: nat) \<in> {10, 11, 12, 13, 28, 29, 30, 133})"

fun splitlines :: "string \<Rightarrow> string list" where
  "splitlines [] = []"
| "splitlines (c # s) =
     (if line_break c then
        (case s of d # t \<Rightarrow> if c = CHR 0x0D \<and> d = CHR 0x0A then [] # splitlines t else [] # splitlines s | [] \<Rightarrow> [[]])
      else (case splitlines s of [] \<Rightarrow> [[c]] | l # ls \<Rightarrow> (c # l) # ls))"

definition sections :: "string \<Rightarrow> sections_state" where
  "sections text = fold section_line (zip [1..<Suc (length (splitlines text))] (splitlines text))
     \<lparr>ss_where = Nowhere, ss_interface = [], ss_peer = [], ss_errors = [], ss_seen = []\<rparr>"

section \<open>The endpoint\<close>

fun close_bracket :: "string \<Rightarrow> string \<times> string" where
  "close_bracket [] = ([], [])"
| "close_bracket (c # s) = (if c = CHR '']'' \<and> startswith s '':'' then ([], tl s)
     else (case close_bracket s of (h, p) \<Rightarrow> (c # h, p)))"

datatype endpoint_error = NotHostPort | NotAHost string | PortValueError

definition split_endpoint :: "string \<Rightarrow> (endpoint_error, string \<times> nat) result" where
  "split_endpoint e =
     (case (if startswith e ''['' then close_bracket (tl e) else (case rpartition CHR '':'' e of (h, _, p) \<Rightarrow> (h, p))) of
        (host, port) \<Rightarrow>
          if host = [] \<or> \<not> isdigit port then Inl NotHostPort
          else (case int_of_digits port of
              None \<Rightarrow> Inl PortValueError
            | Some n \<Rightarrow> if \<not> (0 < n \<and> n \<le> 65535) then Inl NotHostPort
                else if \<not> valid_host host then Inl (NotAHost host) else Inr (host, n)))"

section \<open>The parser\<close>

record wg_conf =
  wc_private :: string
  wc_address :: "string list"
  wc_public :: string
  wc_host :: string
  wc_port :: nat
  wc_psk :: "string option"
  wc_allowed :: "string list"
  wc_keepalive :: nat

datatype conf_failure = ConfErrors "conf_problem list" | ConfValueError

text \<open>A present, non-empty value; and the check of a present value, which gives its problems.\<close>

definition filled :: "entries \<Rightarrow> string \<Rightarrow> (string \<times> nat) option" where
  "filled d k = (case dget d k of None \<Rightarrow> None | Some (v, n) \<Rightarrow> if v = [] then None else Some (v, n))"

definition key_problems :: "entries \<Rightarrow> string \<Rightarrow> string \<Rightarrow> conf_problem list" where
  "key_problems d k label = (case filled d k of None \<Rightarrow> [] | Some (v, n) \<Rightarrow> if wg_key_ok v then [] else [BadKey n label])"

definition values_of :: "entries \<Rightarrow> string \<Rightarrow> string list" where
  "values_of d k = (case dget d k of None \<Rightarrow> [] | Some (v, n) \<Rightarrow> csv v)"

definition line_of :: "entries \<Rightarrow> string \<Rightarrow> nat" where
  "line_of d k = (case dget d k of None \<Rightarrow> 0 | Some (v, n) \<Rightarrow> n)"

definition missing_fields :: "sections_state \<Rightarrow> string list" where
  "missing_fields s =
     (if filled (ss_interface s) ''privatekey'' = None then [''[Interface] PrivateKey''] else [])
     @ (if filled (ss_interface s) ''address'' = None then [''[Interface] Address''] else [])
     @ (if filled (ss_peer s) ''publickey'' = None then [''[Peer] PublicKey''] else [])
     @ (if filled (ss_peer s) ''endpoint'' = None then [''[Peer] Endpoint''] else [])"

text \<open>The endpoint: its problems and what it came to, empty and 0 when it is absent or wrong.\<close>

definition read_endpoint :: "entries \<Rightarrow> (conf_failure, conf_problem list \<times> string \<times> nat) result" where
  "read_endpoint d = (case filled d ''endpoint'' of
     None \<Rightarrow> Inr ([], [], 0)
   | Some (v, n) \<Rightarrow> (case split_endpoint v of
       Inr (h, p) \<Rightarrow> Inr ([], h, p)
     | Inl NotHostPort \<Rightarrow> Inr ([BadEndpoint n v], [], 0)
     | Inl (NotAHost h) \<Rightarrow> Inr ([BadEndpointHost n h], [], 0)
     | Inl PortValueError \<Rightarrow> Inl ConfValueError))"

definition read_keepalive :: "entries \<Rightarrow> (conf_failure, conf_problem list \<times> nat) result" where
  "read_keepalive d = (case dget d ''persistentkeepalive'' of
     None \<Rightarrow> Inr ([], wg_keepalive)
   | Some (v, n) \<Rightarrow> if \<not> isdigit v then Inr ([BadKeepalive n v], wg_keepalive)
       else (case int_of_digits v of
           None \<Rightarrow> Inl ConfValueError
         | Some k \<Rightarrow> if k \<le> 65535 then Inr ([], k) else Inr ([BadKeepalive n v], wg_keepalive)))"

definition address_problems :: "entries \<Rightarrow> conf_problem list" where
  "address_problems d = (case check_addresses (values_of d ''address'') of
     None \<Rightarrow> [] | Some e \<Rightarrow> [BadAddress (line_of d ''address'') e])"

definition allowed_problems :: "entries \<Rightarrow> conf_problem list" where
  "allowed_problems d = (case check_cidrs (values_of d ''allowedips'') of
     None \<Rightarrow> [] | Some e \<Rightarrow> [BadAllowed (line_of d ''allowedips'') e])"

definition dns_problems :: "entries \<Rightarrow> conf_problem list" where
  "dns_problems d = map (BadDns (line_of d ''dns'')) (filter (\<lambda>e. \<not> valid_host e) (values_of d ''dns''))"

definition text_of :: "entries \<Rightarrow> string \<Rightarrow> string" where
  "text_of d k = (case filled d k of None \<Rightarrow> [] | Some (v, n) \<Rightarrow> v)"

definition parse :: "string \<Rightarrow> (conf_failure, wg_conf) result" where
  "parse text = (let s = sections text; i = ss_interface s; p = ss_peer s; missing = missing_fields s in
     bindR (read_endpoint p) (\<lambda>(ep, host, port).
     bindR (read_keepalive p) (\<lambda>(kp, keepalive).
     let allowed = values_of p ''allowedips'';
         errors = ss_errors s @ (if missing = [] then [] else [MissingFields missing])
           @ key_problems i ''privatekey'' ''[Interface] PrivateKey''
           @ key_problems p ''publickey'' ''[Peer] PublicKey'' @ key_problems p ''presharedkey'' ''[Peer] PresharedKey''
           @ address_problems i @ ep @ allowed_problems p @ dns_problems i @ kp in
     if errors \<noteq> [] then Inl (ConfErrors errors)
     else Inr \<lparr>wc_private = text_of i ''privatekey'', wc_address = values_of i ''address'', wc_public = text_of p ''publickey'',
       wc_host = host, wc_port = port, wc_psk = map_option fst (filled p ''presharedkey''),
       wc_allowed = (if allowed = [] then default_allowed_ips else allowed), wc_keepalive = keepalive\<rparr>)))"

section \<open>Writing\<close>

definition newline :: string where
  "newline = [CHR 0x0A]"

definition canonical_lines :: "bool \<Rightarrow> wg_conf \<Rightarrow> string list" where
  "canonical_lines masked c =
     [''[Interface]'',
      ''PrivateKey = '' @ (if masked then mask (wc_private c) 4 else wc_private c),
      ''Address = '' @ join '', '' (wc_address c), [], ''[Peer]'', ''PublicKey = '' @ wc_public c]
     @ (case wc_psk c of None \<Rightarrow> [] | Some k \<Rightarrow> [''PresharedKey = '' @ (if masked then mask k 4 else k)])
     @ [''Endpoint = '' @ wc_host c @ '':'' @ nat_str (wc_port c),
        ''AllowedIPs = '' @ join '', '' (wc_allowed c),
        ''PersistentKeepalive = '' @ nat_str (wc_keepalive c)]"

definition canonical :: "bool \<Rightarrow> wg_conf \<Rightarrow> string" where
  "canonical masked c = join newline (canonical_lines masked c) @ newline"

section \<open>Reading back what is written\<close>

definition clean :: "string \<Rightarrow> bool" where
  "clean s = (\<forall>c \<in> set s. \<not> line_break c)"

definition edged :: "string \<Rightarrow> bool" where
  "edged s = (s \<noteq> [] \<and> \<not> is_space (hd s) \<and> \<not> is_space (last s))"

definition item_ok :: "string \<Rightarrow> bool" where
  "item_ok e = (edged e \<and> CHR '','' \<notin> set e \<and> clean e \<and> ip_network False e \<noteq> None)"

text \<open>What \<open>parse\<close> returns, for a file that names an address.\<close>

definition conf_ok :: "wg_conf \<Rightarrow> bool" where
  "conf_ok c = (wg_key_ok (wc_private c) \<and> wg_key_ok (wc_public c) \<and> (\<forall>k. wc_psk c = Some k \<longrightarrow> wg_key_ok k)
     \<and> wc_address c \<noteq> [] \<and> list_all item_ok (wc_address c) \<and> wc_allowed c \<noteq> [] \<and> list_all item_ok (wc_allowed c)
     \<and> valid_host (wc_host c) \<and> wc_host c \<noteq> [] \<and> hd (wc_host c) \<noteq> CHR ''['' \<and> \<not> is_space (hd (wc_host c)) \<and> clean (wc_host c)
     \<and> 0 < wc_port c \<and> wc_port c \<le> 65535 \<and> wc_keepalive c \<le> 65535)"

lemma edged_strip: "edged s \<Longrightarrow> strip s = s"
  by (simp add: edged_def strip_id)

lemma clean_append [simp]: "clean (a @ b) \<longleftrightarrow> clean a \<and> clean b"
  by (auto simp: clean_def)

lemma clean_Cons [simp]: "clean (x # s) \<longleftrightarrow> \<not> line_break x \<and> clean s"
  by (auto simp: clean_def)

lemma clean_Nil [simp]: "clean []"
  by (simp add: clean_def)

lemma splitlines_line: "clean l \<Longrightarrow> splitlines (l @ CHR 0x0A # rest) = l # splitlines rest"
  by (induction l) (auto simp: line_break_def split: list.split)

lemma splitlines_join: "\<forall>l \<in> set ls. clean l \<Longrightarrow> ls \<noteq> [] \<Longrightarrow> splitlines (join newline ls @ newline) = ls"
proof (induction ls rule: induct_list012)
  case (2 x)
  then show ?case using splitlines_line[of x "[]"] by (simp add: newline_def)
next
  case (3 x y zs)
  then show ?case using splitlines_line[of x "join newline (y # zs) @ newline"] by (simp add: newline_def)
qed simp

lemma strip_space: "strip (CHR '' '' # s) = strip s"
  by (simp add: strip_def is_space_def)

lemma strip_after: "edged k \<Longrightarrow> strip (k @ '' '') = k"
proof -
  assume k: "edged k"
  then have "dropWhile is_space (k @ '' '') = k @ '' ''" by (cases k) (auto simp: edged_def)
  moreover have "dropWhile is_space (rev k) = rev k"
    using k by (cases "rev k") (auto simp: edged_def hd_rev[symmetric])
  ultimately show ?thesis by (simp add: strip_def is_space_def)
qed

lemma key_text:
  assumes "edged k" "CHR ''='' \<notin> set k" "hd k \<noteq> CHR ''#''" "hd k \<noteq> CHR ''[''" "edged v"
  shows "section_line (n, k @ '' = '' @ v) s = key_line n (lower k) v s"
proof -
  have e: "strip (k @ '' = '' @ v) = k @ '' = '' @ v"
    by (rule strip_id) (use assms in \<open>auto simp: edged_def\<close>)
  have p: "str_partition CHR ''='' (k @ '' = '' @ v) = (k @ '' '', True, '' '' @ v)"
    using str_partition_found[of "CHR ''=''" "k @ '' ''" "'' '' @ v"] assms(2) by simp
  obtain x xs where k: "k = x # xs" using assms(1) by (cases k) (auto simp: edged_def)
  have h: "\<not> startswith (k @ '' = '' @ v) ''#''" "\<not> startswith (k @ '' = '' @ v) ''[''"
    using assms(3,4) by (simp_all add: k startswith_def)
  have v: "strip ('' '' @ v) = v" using edged_strip[OF assms(5)] strip_space[of v] by simp
  show ?thesis
    unfolding section_line_def case_prod_conv Let_def e p strip_after[OF assms(1)] v using h by (simp add: k)
qed

lemma blank_text: "section_line (n, []) s = s"
  by (simp add: section_line_def strip_def)

lemma header_text:
  "section_line (n, ''[Interface]'') s = open_section n ''interface'' s"
  "section_line (n, ''[Peer]'') s = open_section n ''peer'' s"
proof -
  have "strip ''[Interface]'' = ''[Interface]''" "lower (strip (butlast (tl ''[Interface]''))) = ''interface''"
    "startswith ''[Interface]'' ''[''" "endswith ''[Interface]'' '']''" "\<not> startswith ''[Interface]'' ''#''"
    "strip ''[Peer]'' = ''[Peer]''" "lower (strip (butlast (tl ''[Peer]''))) = ''peer''"
    "startswith ''[Peer]'' ''[''" "endswith ''[Peer]'' '']''" "\<not> startswith ''[Peer]'' ''#''" by code_simp+
  then show "section_line (n, ''[Interface]'') s = open_section n ''interface'' s"
    "section_line (n, ''[Peer]'') s = open_section n ''peer'' s" by (simp_all add: section_line_def)
qed

lemma key_texts:
  assumes "edged v"
  shows "section_line (n, ''PrivateKey = '' @ v) s = key_line n ''privatekey'' v s"
    "section_line (n, ''Address = '' @ v) s = key_line n ''address'' v s"
    "section_line (n, ''PublicKey = '' @ v) s = key_line n ''publickey'' v s"
    "section_line (n, ''PresharedKey = '' @ v) s = key_line n ''presharedkey'' v s"
    "section_line (n, ''Endpoint = '' @ v) s = key_line n ''endpoint'' v s"
    "section_line (n, ''AllowedIPs = '' @ v) s = key_line n ''allowedips'' v s"
    "section_line (n, ''PersistentKeepalive = '' @ v) s = key_line n ''persistentkeepalive'' v s"
proof -
  have l: "lower ''PrivateKey'' = ''privatekey''" "lower ''Address'' = ''address''" "lower ''PublicKey'' = ''publickey''"
    "lower ''PresharedKey'' = ''presharedkey''" "lower ''Endpoint'' = ''endpoint''" "lower ''AllowedIPs'' = ''allowedips''"
    "lower ''PersistentKeepalive'' = ''persistentkeepalive''" by code_simp+
  note k = key_text[OF _ _ _ _ assms, of _ n s]
  show "section_line (n, ''PrivateKey = '' @ v) s = key_line n ''privatekey'' v s"
    using k[of "''PrivateKey''"] l by (simp add: edged_def is_space_def)
  show "section_line (n, ''Address = '' @ v) s = key_line n ''address'' v s"
    using k[of "''Address''"] l by (simp add: edged_def is_space_def)
  show "section_line (n, ''PublicKey = '' @ v) s = key_line n ''publickey'' v s"
    using k[of "''PublicKey''"] l by (simp add: edged_def is_space_def)
  show "section_line (n, ''PresharedKey = '' @ v) s = key_line n ''presharedkey'' v s"
    using k[of "''PresharedKey''"] l by (simp add: edged_def is_space_def)
  show "section_line (n, ''Endpoint = '' @ v) s = key_line n ''endpoint'' v s"
    using k[of "''Endpoint''"] l by (simp add: edged_def is_space_def)
  show "section_line (n, ''AllowedIPs = '' @ v) s = key_line n ''allowedips'' v s"
    using k[of "''AllowedIPs''"] l by (simp add: edged_def is_space_def)
  show "section_line (n, ''PersistentKeepalive = '' @ v) s = key_line n ''persistentkeepalive'' v s"
    using k[of "''PersistentKeepalive''"] l by (simp add: edged_def is_space_def)
qed

lemma std_char_in: "std_char n \<in> set std_alphabet"
proof -
  have "length std_alphabet = 64" by code_simp
  then show ?thesis by (simp add: std_char_def)
qed

lemma std_encode_chars: "c \<in> set (std_encode bs) \<Longrightarrow> c = CHR ''='' \<or> c \<in> set std_alphabet"
  by (induction bs rule: std_encode.induct) (use std_char_in in auto)

lemma alphabet_plain: "c = CHR ''='' \<or> c \<in> set std_alphabet \<Longrightarrow> \<not> is_space c \<and> \<not> line_break c"
proof -
  have "list_all (\<lambda>c. \<not> is_space c \<and> \<not> line_break c) (CHR ''='' # std_alphabet)" by code_simp
  then show "c = CHR ''='' \<or> c \<in> set std_alphabet \<Longrightarrow> ?thesis" unfolding list_all_iff by auto
qed

lemma key_edged:
  assumes "wg_key_ok v"
  shows "edged v \<and> clean v"
proof -
  from assms obtain bs where bs: "length bs = 32" "std_encode bs = v" by (auto simp: wg_key_ok_def split: option.splits)
  have "v \<noteq> []" using bs by (cases bs rule: std_encode.cases) auto
  moreover have "\<forall>c \<in> set v. \<not> is_space c \<and> \<not> line_break c" using std_encode_chars alphabet_plain bs(2) by blast
  ultimately show ?thesis by (simp add: edged_def clean_def)
qed

lemma join_edged: "ws \<noteq> [] \<Longrightarrow> \<forall>w \<in> set ws. edged w \<Longrightarrow> edged (join sep ws)"
proof (induction ws rule: induct_list012)
  case (3 x y zs)
  then have "edged (join sep (y # zs))" "edged x" by auto
  then show ?case by (auto simp: edged_def)
qed auto

lemma join_clean: "clean sep \<Longrightarrow> \<forall>w \<in> set ws. clean w \<Longrightarrow> clean (join sep ws)"
  by (induction ws rule: induct_list012) auto

lemma csv_Cons: "CHR '','' \<notin> set w \<Longrightarrow> csv (w @ CHR '','' # r) = (if strip w = [] then csv r else strip w # csv r)"
  by (simp add: csv_def split_on_append split_on_no_sep)

lemma csv_space: "csv (CHR '' '' # s) = csv s"
proof -
  obtain w ws where "split_on CHR '','' s = w # ws" by (cases "split_on CHR '','' s") auto
  then show ?thesis by (simp add: csv_def strip_space)
qed

lemma csv_join: "\<forall>w \<in> set ws. edged w \<and> CHR '','' \<notin> set w \<Longrightarrow> csv (join '', '' ws) = ws"
proof (induction ws rule: induct_list012)
  case 1
  show ?case by (simp add: csv_def strip_def)
next
  case (2 x)
  then have "strip x = x" "x \<noteq> []" using edged_strip by (auto simp: edged_def)
  with 2 show ?case by (simp add: csv_def split_on_no_sep)
next
  case (3 x y zs)
  then have "strip x = x" "x \<noteq> []" using edged_strip by (auto simp: edged_def)
  with 3 show ?case using csv_Cons[of x "CHR '' '' # join '', '' (y # zs)"] by (simp add: csv_space)
qed

lemma items_join:
  assumes "list_all item_ok ws" "ws \<noteq> []"
  shows "edged (join '', '' ws)" "clean (join '', '' ws)" "csv (join '', '' ws) = ws"
    "find (\<lambda>e. ip_network False e = None) ws = None"
  using assms join_edged[of ws "'', ''"] join_clean[of "'', ''" ws] csv_join[of ws]
  by (auto simp: list_all_iff item_ok_def find_None_iff line_break_def)

lemma nat_str_edged: "edged (nat_str n) \<and> clean (nat_str n)"
  using nat_str_digit digit_edges[of n] by (fastforce simp: edged_def clean_def line_break_def is_digit_def)

lemma endpoint_back:
  assumes "host \<noteq> []" "hd host \<noteq> CHR ''[''" "valid_host host" "0 < port" "port \<le> 65535"
  shows "split_endpoint (host @ '':'' @ nat_str port) = Inr (host, port)"
proof -
  have "CHR '':'' \<notin> set (rev (nat_str port))" using not_in_nat_str[of "CHR '':''" port] by simp
  from str_partition_found[OF this, of "rev host"] have r: "rpartition CHR '':'' (host @ '':'' @ nat_str port) = (host, True, nat_str port)"
    by (simp add: rpartition_def)
  have "\<not> startswith (host @ '':'' @ nat_str port) ''[''" using assms(1,2) by (cases host) (auto simp: startswith_def)
  then show ?thesis
    unfolding split_endpoint_def r using assms ascii_digits_isdigit[OF digits_nat_str[of port]] by simp
qed

lemma endpoint_edged:
  assumes "host \<noteq> []" "\<not> is_space (hd host)" "clean host"
  shows "edged (host @ '':'' @ nat_str port)" "clean (host @ '':'' @ nat_str port)"
  using assms nat_str_edged[of port] by (auto simp: edged_def line_break_def)

lemma lines_clean:
  assumes "conf_ok c"
  shows "\<forall>l \<in> set (canonical_lines False c). clean l"
  using assms items_join[of "wc_address c"] items_join[of "wc_allowed c"] key_edged[of "wc_private c"] key_edged[of "wc_public c"]
    endpoint_edged[of "wc_host c" "wc_port c"] nat_str_edged[of "wc_keepalive c"] key_edged
  by (auto simp: canonical_lines_def conf_ok_def line_break_def split: option.splits)

lemma sections_canonical:
  assumes "conf_ok c"
  shows "\<exists>n1 n2 n3 n4 n5 n6 n7. ss_interface (sections (canonical False c)) = [(''privatekey'', wc_private c, n1), (''address'', join '', '' (wc_address c), n2)]
    \<and> ss_peer (sections (canonical False c)) = (''publickey'', wc_public c, n3)
         # (case wc_psk c of None \<Rightarrow> [] | Some k \<Rightarrow> [(''presharedkey'', k, n4)])
         @ [(''endpoint'', wc_host c @ '':'' @ nat_str (wc_port c), n5), (''allowedips'', join '', '' (wc_allowed c), n6),
            (''persistentkeepalive'', nat_str (wc_keepalive c), n7)]
    \<and> ss_errors (sections (canonical False c)) = []"
proof -
  have e: "edged (wc_private c)" "edged (wc_public c)" "edged (join '', '' (wc_address c))" "edged (join '', '' (wc_allowed c))"
    "edged (wc_host c @ '':'' @ nat_str (wc_port c))" "edged (nat_str (wc_keepalive c))" "\<And>k. wc_psk c = Some k \<Longrightarrow> edged k"
    using assms key_edged items_join(1) endpoint_edged(1) nat_str_edged unfolding conf_ok_def by auto
  have ls: "splitlines (canonical False c) = canonical_lines False c"
    unfolding canonical_def by (rule splitlines_join[OF lines_clean[OF assms]]) (simp add: canonical_lines_def)
  note r = key_texts[OF e(1)] key_texts[OF e(2)] key_texts[OF e(3)] key_texts[OF e(4)] key_texts[OF e(5)] key_texts[OF e(6)]
  show ?thesis
  proof (cases "wc_psk c")
    case None
    have "canonical_lines False c = [''[Interface]'', ''PrivateKey = '' @ wc_private c, ''Address = '' @ join '', '' (wc_address c), [],
       ''[Peer]'', ''PublicKey = '' @ wc_public c, ''Endpoint = '' @ wc_host c @ '':'' @ nat_str (wc_port c),
        ''AllowedIPs = '' @ join '', '' (wc_allowed c), ''PersistentKeepalive = '' @ nat_str (wc_keepalive c)]"
      by (simp add: canonical_lines_def None)
    moreover have "[1..<Suc (length (canonical_lines False c))] = [1, 2, 3, 4, 5, 6, 7, 8, 9]"
    proof -
      have "length (canonical_lines False c) = 9" by (simp add: canonical_lines_def None)
      moreover have "[1..<Suc 9] = [1, 2, 3, 4, 5, 6, 7, 8, 9]" by code_simp
      ultimately show ?thesis by simp
    qed
    ultimately show ?thesis
      unfolding sections_def ls None by (simp del: upt_Suc append_Cons add: header_text blank_text r open_section_def key_line_def put_entry_def)
  next
    case (Some k)
    have "canonical_lines False c = [''[Interface]'', ''PrivateKey = '' @ wc_private c, ''Address = '' @ join '', '' (wc_address c), [],
       ''[Peer]'', ''PublicKey = '' @ wc_public c, ''PresharedKey = '' @ k, ''Endpoint = '' @ wc_host c @ '':'' @ nat_str (wc_port c),
        ''AllowedIPs = '' @ join '', '' (wc_allowed c), ''PersistentKeepalive = '' @ nat_str (wc_keepalive c)]"
      by (simp add: canonical_lines_def Some)
    moreover have "[1..<Suc (length (canonical_lines False c))] = [1, 2, 3, 4, 5, 6, 7, 8, 9, 10]"
    proof -
      have "length (canonical_lines False c) = 10" by (simp add: canonical_lines_def Some)
      moreover have "[1..<Suc 10] = [1, 2, 3, 4, 5, 6, 7, 8, 9, 10]" by code_simp
      ultimately show ?thesis by simp
    qed
    ultimately show ?thesis
      unfolding sections_def ls Some
      by (simp del: upt_Suc append_Cons add: header_text blank_text r key_texts[OF e(7)[OF Some]] open_section_def key_line_def put_entry_def)
  qed
qed

lemma values_join:
  assumes "list_all item_ok ws" "ws \<noteq> []" "dget d k = Some (join '', '' ws, n)"
  shows "values_of d k = ws"
  using items_join[OF assms(1,2)] assms(3) by (simp add: values_of_def)

lemma parse_canonical:
  assumes "conf_ok c"
  shows "parse (canonical False c) = Inr c"
proof -
  obtain n1 n2 n3 n4 n5 n6 n7 where
    i: "ss_interface (sections (canonical False c)) = [(''privatekey'', wc_private c, n1), (''address'', join '', '' (wc_address c), n2)]"
    and p: "ss_peer (sections (canonical False c)) = (''publickey'', wc_public c, n3)
         # (case wc_psk c of None \<Rightarrow> [] | Some k \<Rightarrow> [(''presharedkey'', k, n4)])
         @ [(''endpoint'', wc_host c @ '':'' @ nat_str (wc_port c), n5), (''allowedips'', join '', '' (wc_allowed c), n6),
            (''persistentkeepalive'', nat_str (wc_keepalive c), n7)]"
    and e: "ss_errors (sections (canonical False c)) = []"
    using sections_canonical[OF assms] by blast
  let ?i = "ss_interface (sections (canonical False c))"
  let ?p = "ss_peer (sections (canonical False c))"
  have ok: "wg_key_ok (wc_private c)" "wg_key_ok (wc_public c)" "\<And>k. wc_psk c = Some k \<Longrightarrow> wg_key_ok k"
    "list_all item_ok (wc_address c)" "wc_address c \<noteq> []" "list_all item_ok (wc_allowed c)" "wc_allowed c \<noteq> []" "wc_keepalive c \<le> 65535"
    using assms by (auto simp: conf_ok_def)
  have ne: "wc_private c \<noteq> []" "wc_public c \<noteq> []" "\<And>k. wc_psk c = Some k \<Longrightarrow> k \<noteq> []" "join '', '' (wc_address c) \<noteq> []"
    using ok key_edged items_join(1) by (auto simp: edged_def)
  have a: "values_of ?i ''address'' = wc_address c" by (rule values_join[OF ok(4,5)]) (simp add: i)
  have al: "values_of ?p ''allowedips'' = wc_allowed c" by (rule values_join[OF ok(6,7), where n = n6]) (simp add: p split: option.split)
  have d: "values_of ?i ''dns'' = []" by (simp add: i values_of_def)
  have f: "filled ?i ''privatekey'' = Some (wc_private c, n1)" "filled ?p ''publickey'' = Some (wc_public c, n3)"
    "filled ?i ''address'' = Some (join '', '' (wc_address c), n2)" "filled ?p ''presharedkey'' = map_option (\<lambda>k. (k, n4)) (wc_psk c)"
    "filled ?p ''endpoint'' = Some (wc_host c @ '':'' @ nat_str (wc_port c), n5)"
    using ne by (simp_all add: i p filled_def split: option.split)
  have ep: "read_endpoint ?p = Inr ([], wc_host c, wc_port c)"
    unfolding read_endpoint_def f using endpoint_back[of "wc_host c" "wc_port c"] assms by (simp add: conf_ok_def)
  have g: "dget ?p ''persistentkeepalive'' = Some (nat_str (wc_keepalive c), n7)" by (simp add: p split: option.split)
  have kp: "read_keepalive ?p = Inr ([], wc_keepalive c)"
    unfolding read_keepalive_def g using ok(8) ascii_digits_isdigit[OF digits_nat_str] by simp
  have m: "missing_fields (sections (canonical False c)) = []" by (simp add: missing_fields_def f)
  have k: "key_problems ?i ''privatekey'' l = []" "key_problems ?p ''publickey'' l = []" "key_problems ?p ''presharedkey'' l = []" for l
    using ok(1-3) by (auto simp: key_problems_def f split: option.split)
  have q: "address_problems ?i = []" "allowed_problems ?p = []" "dns_problems ?i = []"
    using items_join(4)[OF ok(4,5)] items_join(4)[OF ok(6,7)]
    by (simp_all add: address_problems_def allowed_problems_def dns_problems_def check_addresses_def check_cidrs_def a al d)
  show ?thesis
    unfolding parse_def Let_def m ep kp bindR_simps case_prod_conv k q e a al
    using ok(7) by (simp add: text_of_def f option.map_comp comp_def option.map_ident)
qed

section \<open>What the parser returns\<close>

lemma strip_sub: "set (strip s) \<subseteq> set s"
  unfolding strip_def by (auto dest!: set_dropWhileD)

lemma strip_edged: "strip s = [] \<or> edged (strip s)"
proof -
  let ?t = "dropWhile is_space s"
  have "strip s = rev (dropWhile is_space (rev ?t))" by (simp add: strip_def)
  moreover have "last (rev (dropWhile is_space (rev ?t))) = hd (dropWhile is_space (rev ?t))"
    if "dropWhile is_space (rev ?t) \<noteq> []" using that by (simp add: last_rev)
  moreover have "\<not> is_space (hd (dropWhile is_space (rev ?t)))" if "dropWhile is_space (rev ?t) \<noteq> []"
    using that hd_dropWhile by blast
  moreover have "hd (rev (dropWhile is_space (rev ?t))) = hd ?t" if n: "dropWhile is_space (rev ?t) \<noteq> []"
  proof -
    have "rev ?t = takeWhile is_space (rev ?t) @ dropWhile is_space (rev ?t)" by simp
    then have "?t = rev (dropWhile is_space (rev ?t)) @ rev (takeWhile is_space (rev ?t))" by (metis rev_append rev_rev_ident)
    then show ?thesis using n by (metis hd_append2 rev_is_Nil_conv)
  qed
  moreover have "\<not> is_space (hd ?t)" if "?t \<noteq> []" using that hd_dropWhile by blast
  ultimately show ?thesis unfolding edged_def by (metis dropWhile.simps(1) rev.simps(1))
qed

lemma strip_clean: "clean s \<Longrightarrow> clean (strip s)"
  using strip_sub unfolding clean_def by blast

lemma partition_parts: "str_partition c s = (a, b, r) \<Longrightarrow> set a \<subseteq> set s \<and> set r \<subseteq> set s"
  by (auto simp: str_partition_def split: list.splits dest: set_takeWhileD)
     (metis list.set_intros(2) set_dropWhileD)

lemma split_on_sub: "w \<in> set (split_on c s) \<Longrightarrow> set w \<subseteq> set s"
proof (induction s arbitrary: w)
  case (Cons x s)
  obtain v vs where v: "split_on c s = v # vs" by (cases "split_on c s") auto
  have "set u \<subseteq> set s" if "u = v \<or> u \<in> set vs" for u using Cons.IH[of u] that v by auto
  with Cons.prems v show ?case by (fastforce split: if_splits)
qed simp

lemma splitlines_clean: "\<forall>l \<in> set (splitlines s). clean l"
proof (induction s rule: splitlines.induct)
  case (2 c s)
  show ?case
  proof (cases "line_break c")
    case True
    then show ?thesis
    proof (cases s)
      case (Cons d t)
      have e: "splitlines (c # s) = [] # splitlines (if c = CHR 0x0D \<and> d = CHR 0x0A then t else s)"
        unfolding splitlines.simps(2)[of c s] if_P[OF True] by (simp add: Cons)
      show ?thesis unfolding e using 2(1)[OF True Cons] 2(2)[OF True Cons] by auto
    qed simp
  next
    case False
    then show ?thesis using 2(3)[OF False] by (cases "splitlines s") auto
  qed
qed simp

definition entry_ok :: "entries \<Rightarrow> bool" where
  "entry_ok d = (\<forall>(k, v, n) \<in> set d. clean v \<and> (k \<notin> set list_keys \<longrightarrow> v = [] \<or> edged v))"

definition sections_ok :: "sections_state \<Rightarrow> bool" where
  "sections_ok s = (entry_ok (ss_interface s) \<and> entry_ok (ss_peer s))"

lemma entry_ok_put:
  assumes "entry_ok t" "put_entry n k v t = Inr t'" "clean v" "v = [] \<or> edged v"
  shows "entry_ok t'"
proof (cases "dget t k")
  case None
  with assms have "t' = dset k (v, n) t" by (simp add: put_entry_def)
  with assms show ?thesis by (auto simp: entry_ok_def dest: dset_mem)
next
  case (Some p)
  obtain w m where p: "p = (w, m)" by (cases p)
  with Some assms have t': "t' = dset k (w @ '', '' @ v, m) t" "k \<in> set list_keys" by (auto simp: put_entry_def split: if_splits)
  have "clean w" using Some p assms(1) unfolding entry_ok_def by (auto dest!: map_of_SomeD)
  with assms t' show ?thesis by (auto simp: entry_ok_def line_break_def dest: dset_mem)
qed

lemma sections_ok_line:
  assumes "sections_ok s" "clean raw"
  shows "sections_ok (section_line (n, raw) s)"
proof -
  have noted: "sections_ok (note_problem e s)" for e using assms(1) by (simp add: sections_ok_def note_problem_def)
  have opened: "sections_ok (open_section n name s)" for name
    using assms(1) by (auto simp: sections_ok_def open_section_def note_problem_def split: option.splits)
  have "sections_ok (key_line n k (strip v) s)" if "set v \<subseteq> set (strip raw)" for k v
  proof -
    have v: "clean (strip v)" "strip v = [] \<or> edged (strip v)"
      using that assms(2) strip_sub strip_edged unfolding clean_def by blast+
    show ?thesis
      using assms(1) entry_ok_put[OF _ _ v] noted
      by (auto simp: key_line_def sections_ok_def split: where_now.splits sum.splits)
  qed
  moreover have "set v \<subseteq> set (strip raw)" if "str_partition CHR ''='' (strip raw) = (k, b, v)" for k b v
    using partition_parts[OF that] by blast
  ultimately show ?thesis
    using assms(1) noted opened by (auto simp: section_line_def Let_def split: prod.splits bool.splits)
qed

lemma sections_ok_text: "sections_ok (sections src)"
proof -
  have step: "sections_ok (fold section_line xs s)" if "sections_ok s" "\<forall>x \<in> set xs. clean (snd x)" for xs s
    using that
  proof (induction xs arbitrary: s)
    case (Cons x xs)
    obtain n l where x: "x = (n, l)" by (cases x)
    then have "sections_ok (section_line x s)" using sections_ok_line[OF Cons.prems(1)] Cons.prems(2) by simp
    with Cons show ?case by simp
  qed simp
  have "\<forall>x \<in> set (zip ns (splitlines src)). clean (snd x)" for ns :: "nat list"
    using splitlines_clean[of src] by (metis prod.collapse set_zip_rightD)
  then show ?thesis unfolding sections_def by (intro step) (simp_all add: sections_ok_def entry_ok_def)
qed

lemma csv_items:
  assumes "e \<in> set (csv v)" "clean v"
  shows "edged e \<and> CHR '','' \<notin> set e \<and> clean e"
proof -
  from assms(1) obtain w where w: "w \<in> set (split_on CHR '','' v)" "e = strip w" "e \<noteq> []" by (auto simp: csv_def)
  have "set e \<subseteq> set w" using w(2) strip_sub by blast
  then show ?thesis
    using split_on_parts[OF w(1)] split_on_sub[OF w(1)] strip_edged[of w] w(2,3) assms(2) unfolding clean_def by blast
qed

lemma values_items:
  assumes "entry_ok d" "find (\<lambda>e. ip_network False e = None) (values_of d k) = None"
  shows "list_all item_ok (values_of d k)"
proof (cases "dget d k")
  case (Some p)
  obtain v n where p: "p = (v, n)" by (cases p)
  then have "clean v" using Some assms(1) by (auto simp: entry_ok_def dest!: map_of_SomeD)
  with csv_items assms(2) show ?thesis by (auto simp: values_of_def Some p list_all_iff item_ok_def find_None_iff)
qed (simp add: values_of_def)

lemma hd_split: "hd (split_on c s) \<noteq> [] \<Longrightarrow> s \<noteq> [] \<and> hd (hd (split_on c s)) = hd s"
  by (cases s) (auto split: list.splits if_splits)

lemma hd_split_empty: "hd (split_on c s) = [] \<Longrightarrow> s \<noteq> [] \<Longrightarrow> hd s = c"
  by (cases s) (auto split: list.splits if_splits)

definition plain_start :: "char \<Rightarrow> bool" where
  "plain_start c = (\<not> is_space c \<and> c \<noteq> CHR ''['')"

lemma digit_start: "is_digit c \<Longrightarrow> plain_start c"
  by (auto simp: is_digit_def plain_start_def is_space_def)

lemma hex_start: "hex_val c \<noteq> None \<Longrightarrow> plain_start c"
  by (auto simp: hex_val_def plain_start_def is_space_def Let_def split: if_splits)

lemma hextets_first: "hextets_int n (p # ps) \<noteq> None \<Longrightarrow> p \<noteq> [] \<and> plain_start (hd p)"
  using hex_start by (auto simp: parse_hextet_def split: option.splits if_splits)

lemma v4_start: "v4_int s \<noteq> None \<Longrightarrow> s \<noteq> [] \<and> plain_start (hd s)"
proof -
  assume "v4_int s \<noteq> None"
  then obtain a ps where "map parse_octet (split_on CHR ''.'' s) = Some a # ps" by (auto simp: v4_int_def split: list.splits option.splits)
  then obtain w ws where w: "split_on CHR ''.'' s = w # ws" "parse_octet w = Some a" by auto
  then have "ascii_digits w" by (auto simp: parse_octet_def split: if_splits)
  then have "w \<noteq> []" "is_digit (hd w)" by (auto simp: ascii_digits_def)
  then show ?thesis using hd_split[of "CHR ''.''" s] w(1) digit_start by simp
qed

lemma v6_parts_hd:
  assumes "v6_parts s = Some ps"
  shows "hd ps = hd (split_on CHR '':'' s)"
proof -
  let ?p = "split_on CHR '':'' s"
  from assms have n: "3 \<le> length ?p" by (auto simp: v6_parts_def Let_def split: if_splits)
  then obtain a b r where p: "?p = a # b # r" "r \<noteq> []" by (cases ?p; cases "tl ?p"; cases "tl (tl ?p)") auto
  then have "hd (butlast ?p @ xs) = a" for xs by simp
  with assms show ?thesis unfolding v6_parts_def Let_def p(1) by (auto split: if_splits option.splits)
qed

lemma v6_start:
  assumes "v6_int s \<noteq> None"
  shows "s \<noteq> [] \<and> plain_start (hd s)"
proof -
  from assms obtain ps where ps: "v6_parts s = Some ps" by (auto simp: v6_int_def split: option.splits)
  note h = v6_parts_hd[OF ps]
  have ne: "s \<noteq> []" using ps by (auto simp: v6_parts_def)
  show ?thesis
  proof (cases "hd ps = []")
    case True
    then have "hd s = CHR '':''" using hd_split_empty[of "CHR '':''" s] h ne by simp
    then show ?thesis using ne by (simp add: plain_start_def is_space_def)
  next
    case False
    have "ps \<noteq> []" using ps by (auto simp: v6_parts_def Let_def split: if_splits option.splits)
    then obtain p qs where p: "ps = p # qs" by (cases ps) auto
    have "hextets_int 0 ps \<noteq> None \<or> (\<exists>k \<ge> 1. hextets_int 0 (take k ps) \<noteq> None)"
    proof (cases "filter (\<lambda>i. ps ! i = []) [1..<length ps - 1]")
      case Nil
      then show ?thesis using assms by (auto simp: v6_int_def ps Let_def split: if_splits)
    next
      case (Cons k ks)
      then have "k \<in> set (filter (\<lambda>i. ps ! i = []) [1..<length ps - 1])" by (simp only: list.set_intros)
      then have k: "1 \<le> k" by simp
      have "ks = []" using assms Cons by (auto simp: v6_int_def ps Let_def split: if_splits list.splits)
      with Cons assms False have "\<exists>lo. v6_gap (take k ps) lo \<noteq> None"
        by (auto simp: v6_int_def ps Let_def split: if_splits)
      then have "hextets_int 0 (take k ps) \<noteq> None" by (auto simp: v6_gap_def split: if_splits option.splits)
      with k show ?thesis by blast
    qed
    then have "plain_start (hd p)" using hextets_first[of 0 p] p by (auto simp: take_Cons' split: if_splits)
    then show ?thesis using hd_split[of "CHR '':''" s] False h p ne by simp
  qed
qed

lemma address_start: "ip_address s \<noteq> None \<Longrightarrow> s \<noteq> [] \<and> plain_start (hd s)"
proof -
  assume a: "ip_address s \<noteq> None"
  show ?thesis
  proof (cases "v4_int s")
    case (Some v)
    then show ?thesis using v4_start by blast
  next
    case None
    with a obtain r z where r: "split_scope s = Some (r, z)" "v6_int r \<noteq> None"
      by (auto simp: ip_address_def v4_addr_def v6_addr_def split: if_splits option.splits)
    then have "r \<noteq> []" "plain_start (hd r)" using v6_start by blast+
    moreover have "r = s \<or> r = takeWhile (\<lambda>x. x \<noteq> CHR ''%'') s"
      using r(1) by (auto simp: split_scope_def str_partition_def split: list.splits if_splits)
    ultimately show ?thesis by (cases s) (auto split: if_splits)
  qed
qed

lemma lower_start: "lower_alnum (lower_char c) \<Longrightarrow> plain_start c"
  by (auto simp: lower_alnum_def lower_char_def plain_start_def is_space_def is_digit_def Let_def split: if_splits)

lemma host_re_start: "host_re h \<Longrightarrow> h \<noteq> [] \<and> plain_start (hd h)"
proof -
  have P: "s \<noteq> [] \<and> plain_start (hd s)" if "s \<noteq> []" "list_all host_label (split_on CHR ''.'' (lower s))" for s
  proof -
    let ?l = "hd (split_on CHR ''.'' (lower s))"
    have "host_label ?l" using that(2) by (cases "split_on CHR ''.'' (lower s)") auto
    then have l: "?l \<noteq> []" "lower_alnum (hd ?l)" by (auto simp: host_label_def list_all_iff)
    then have "hd ?l = hd (lower s)" using hd_split by blast
    with l(2) that(1) show ?thesis using lower_start by (cases s) (auto simp: lower_def)
  qed
  assume "host_re h"
  then show ?thesis using P[of h] P[of "butlast h"] by (cases h) (auto simp: host_re_def before_newline_def split: if_splits)
qed

lemma host_start: "valid_host h \<Longrightarrow> h \<noteq> [] \<and> plain_start (hd h)"
  using address_start host_re_start by (auto simp: valid_host_def)

lemma close_bracket_sub: "close_bracket s = (h, p) \<Longrightarrow> set h \<subseteq> set s"
  by (induction s arbitrary: h p) (auto split: if_splits prod.splits)

lemma rpartition_sub: "rpartition c s = (h, b, p) \<Longrightarrow> set h \<subseteq> set s"
  using partition_parts[of c "rev s"] by (auto simp: rpartition_def split: prod.splits bool.splits)

lemma endpoint_facts:
  assumes "split_endpoint e = Inr (h, n)" "clean e"
  shows "h \<noteq> [] \<and> valid_host h \<and> hd h \<noteq> CHR ''['' \<and> \<not> is_space (hd h) \<and> clean h \<and> 0 < n \<and> n \<le> 65535"
proof -
  obtain h' p where r: "(if startswith e ''['' then close_bracket (tl e) else (case rpartition CHR '':'' e of (h, _, p) \<Rightarrow> (h, p))) = (h', p)"
    by (metis surj_pair)
  with assms(1) have "h' = h" "valid_host h" "0 < n" "n \<le> 65535"
    by (auto simp: split_endpoint_def split: if_splits option.splits)
  moreover have "set h' \<subseteq> set e"
    using r close_bracket_sub[of "tl e"] rpartition_sub[of "CHR '':''" e] by (cases e) (fastforce split: if_splits prod.splits)+
  ultimately show ?thesis using host_start[of h] assms(2) by (auto simp: plain_start_def clean_def)
qed

lemma parse_ok:
  assumes "parse src = Inr c" "wc_address c \<noteq> []"
  shows "conf_ok c"
proof -
  let ?i = "ss_interface (sections src)"
  let ?p = "ss_peer (sections src)"
  have so: "entry_ok ?i" "entry_ok ?p" using sections_ok_text[of src] by (auto simp: sections_ok_def)
  from assms(1) obtain ep host port kp keep where ep: "read_endpoint ?p = Inr (ep, host, port)" and kp: "read_keepalive ?p = Inr (kp, keep)"
    and none: "missing_fields (sections src) = []" "key_problems ?i ''privatekey'' ''[Interface] PrivateKey'' = []"
      "key_problems ?p ''publickey'' ''[Peer] PublicKey'' = []" "key_problems ?p ''presharedkey'' ''[Peer] PresharedKey'' = []"
      "address_problems ?i = []" "allowed_problems ?p = []" "ep = []" "kp = []"
    and c: "c = \<lparr>wc_private = text_of ?i ''privatekey'', wc_address = values_of ?i ''address'', wc_public = text_of ?p ''publickey'',
       wc_host = host, wc_port = port, wc_psk = map_option fst (filled ?p ''presharedkey''),
       wc_allowed = (if values_of ?p ''allowedips'' = [] then default_allowed_ips else values_of ?p ''allowedips''), wc_keepalive = keep\<rparr>"
    by (auto simp: parse_def Let_def split: if_splits)
  have f: "filled ?i ''privatekey'' \<noteq> None" "filled ?p ''publickey'' \<noteq> None" "filled ?p ''endpoint'' \<noteq> None"
    using none(1) by (auto simp: missing_fields_def split: if_splits)
  have k: "wg_key_ok (text_of ?i ''privatekey'')" "wg_key_ok (text_of ?p ''publickey'')"
    using none(2,3) f(1,2) by (auto simp: key_problems_def text_of_def split: option.splits if_splits)
  have psk: "wg_key_ok x" if "map_option fst (filled ?p ''presharedkey'') = Some x" for x
    using that none(4) by (auto simp: key_problems_def split: option.splits if_splits)
  obtain e n where e: "filled ?p ''endpoint'' = Some (e, n)" using f(3) by auto
  then have "(''endpoint'', e, n) \<in> set ?p" by (auto simp: filled_def split: option.splits if_splits dest: map_of_SomeD)
  then have "clean e" using so(2) by (auto simp: entry_ok_def)
  moreover have "split_endpoint e = Inr (host, port)"
    using ep none(7) by (auto simp: read_endpoint_def e split: sum.splits endpoint_error.splits)
  ultimately have h: "host \<noteq> []" "valid_host host" "hd host \<noteq> CHR ''[''" "\<not> is_space (hd host)" "clean host" "0 < port" "port \<le> 65535"
    using endpoint_facts by blast+
  have keep: "keep \<le> 65535"
    using kp none(8) by (auto simp: read_keepalive_def wg_keepalive_def split: option.splits if_splits)
  have ad: "list_all item_ok (values_of ?i ''address'')"
    by (rule values_items[OF so(1)]) (use none(5) in \<open>auto simp: address_problems_def check_addresses_def split: option.splits\<close>)
  have al: "list_all item_ok (values_of ?p ''allowedips'')"
    by (rule values_items[OF so(2)]) (use none(6) in \<open>auto simp: allowed_problems_def check_cidrs_def split: option.splits\<close>)
  have df: "list_all item_ok default_allowed_ips"
    proof -
    have "map_option in_plen (ip_network False ''0.0.0.0/0'') = Some 0" "map_option in_plen (ip_network False ''::/0'') = Some 0" by code_simp+
    then show ?thesis by (auto simp: default_allowed_ips_def item_ok_def edged_def clean_def is_space_def line_break_def)
  qed
  show ?thesis
    unfolding conf_ok_def using k psk h keep ad al df assms(2) unfolding c by (auto simp: default_allowed_ips_def)
qed

text \<open>C32: Writing a configuration and reading it back loses nothing. Whatever file \<open>parse\<close> accepts, the
  normalised text that \<open>canonical\<close> makes of the result (secrets shown) is accepted again and gives the
  same configuration, as long as the file's Address line names an address; a line of commas only is
  accepted and then cannot be read back.\<close>

theorem canonical_round_trip:
  assumes "parse src = Inr c" "wc_address c \<noteq> []"
  shows "parse (canonical False c) = Inr c"
  by (rule parse_canonical[OF parse_ok[OF assms]])

definition sample_lines :: "string list" where
  "sample_lines = [''# exported'', '' [interface] '', ''PrivateKey=AAAAAAAAAAAAAAAAAAAAAAAAAAAAAAAAAAAAAAAAAAA='', ''Address = 10.2.0.2/32,fd00::2/128'', ''DNS=10.2.0.1'',
     ''[Peer]'', ''PublicKey=AQEBAQEBAQEBAQEBAQEBAQEBAQEBAQEBAQEBAQEBAQE='', ''Endpoint = [2001:db8::7]:51820'']"

lemma canonical_round_trip_witness:
  "\<exists>c. parse (join newline sample_lines) = Inr c \<and> wc_host c = ''2001:db8::7'' \<and> parse (canonical False c) = Inr c"
proof -
  have r: "map_option wc_host (case parse (join newline sample_lines) of Inl _ \<Rightarrow> None | Inr c \<Rightarrow> Some c) = Some ''2001:db8::7''"
    and a: "map_option wc_address (case parse (join newline sample_lines) of Inl _ \<Rightarrow> None | Inr c \<Rightarrow> Some c) \<noteq> Some []"
    by code_simp+
  obtain c where c: "parse (join newline sample_lines) = Inr c" using r by (cases "parse (join newline sample_lines)") auto
  with a have "wc_address c \<noteq> []" by auto
  from canonical_round_trip[OF c this] r c show ?thesis by auto
qed


text \<open>An address line of commas only passes; what is written for it is refused.\<close>

theorem commas_pass_for_addresses:
  "\<exists>c. parse (join newline (take 3 sample_lines @ [''Address = ,''] @ drop 5 sample_lines)) = Inr c \<and> wc_address c = []
     \<and> parse (canonical False c) = Inl (ConfErrors [MissingFields [''[Interface] Address'']])"
proof -
  define src where "src = join newline (take 3 sample_lines @ [''Address = ,''] @ drop 5 sample_lines)"
  have r: "(case parse src of Inl _ \<Rightarrow> False | Inr c \<Rightarrow> wc_address c = []
      \<and> parse (canonical False c) = Inl (ConfErrors [MissingFields [''[Interface] Address'']]))" unfolding src_def by code_simp
  then show ?thesis unfolding src_def by (auto split: sum.splits)
qed

text \<open>A superscript digit in a port or a keep-alive passes \<open>isdigit\<close>; \<open>int\<close> then raises an error that
  \<open>parse\<close> lets through.\<close>

theorem superscript_escapes:
  "parse (join newline (sample_lines @ [''PersistentKeepalive = '' @ [CHR 0xB2]])) = Inl ConfValueError"
  by code_simp

end
