(* ===== verification/Bundle.thy ===== *)
theory Bundle
  imports WgConf Providers SetupInv
begin

text \<open>
  Setup bundles: \<open>anyhop/bundle.py\<close>, reading and writing. A bundle is the decoded YAML value; the YAML
  reader, the environment, the files that a credential may name and the location catalogue are
  arguments. Validation never stops at a problem: each check is a value together with the problems
  found on the way, in the order of the code. Two exceptions leave it, the \<open>ValueError\<close> of \<open>int\<close> on a
  text that \<open>isdigit\<close> lets pass and the \<open>UnicodeDecodeError\<close> of a credential file.
\<close>

section \<open>Problems\<close>

datatype reason =
    NotABundle
  | BadVersion
  | NewerVersion int
  | MustBeMapping
  | MustBeString
  | MustBeBool
  | MustBeList
  | MustBeExplicit
  | UnknownProvider
  | NoCredentialHere
  | CredentialShape
  | LacksFields "string list"
  | CredentialRequired
  | ExactlyOne string
  | EnvNotSet string
  | FileUnreadable string
  | FileEmpty string
  | BadSlug
  | PinnedTwice string string
  | BadServerName
  | ServersUnsupported
  | ServerRefused provider_error
  | NotWithServer
  | OnlyPinned
  | CountryRequired
  | UnknownCountry string
  | UnknownCity string string
  | NotAPort
  | WgRequired
  | KeyRequired
  | KeyInvalid
  | AddressesRequired
  | AddressInvalid string
  | HostInvalid
  | CidrsRequired
  | CidrInvalid string
  | NotSeconds
  | HostnameInvalid
  | NameRequired
  | NoTargetChannel string
  | TargetDisabled string
  | RuleRefused rule_error
  | MatchersRequired
  | MatcherShape
  | DeclaredTwice int string
  | RepeatedChannel string
  | RepeatedKey string
  | NotYaml
  | RootNotMapping
  | Unresolved provider_error
  | LookupFailed provider_error
  | PinUnresolved string provider_error
  | PortClash int string
  | StillReferenced "string list"

type_synonym problem = "string \<times> reason"

datatype escape = IntValueError | FileDecodeError

type_synonym 'a checked = "(escape, problem list \<times> 'a) result"

definition okC :: "'a \<Rightarrow> 'a checked" where
  "okC x = Inr ([], x)"

definition blame :: "string \<Rightarrow> reason \<Rightarrow> 'a \<Rightarrow> 'a checked" where
  "blame path r x = Inr ([(path, r)], x)"

definition bindC :: "'a checked \<Rightarrow> ('a \<Rightarrow> 'b checked) \<Rightarrow> 'b checked" where
  "bindC m f = (case m of Inl e \<Rightarrow> Inl e
     | Inr (es, x) \<Rightarrow> (case f x of Inl e \<Rightarrow> Inl e | Inr (es', y) \<Rightarrow> Inr (es @ es', y)))"

definition blame_if :: "bool \<Rightarrow> string \<Rightarrow> reason \<Rightarrow> unit checked" where
  "blame_if b path r = (if b then blame path r () else okC ())"

fun foldC :: "('a \<Rightarrow> 's \<Rightarrow> 's checked) \<Rightarrow> 'a list \<Rightarrow> 's \<Rightarrow> 's checked" where
  "foldC f [] s = okC s"
| "foldC f (x # xs) s = bindC (f x s) (foldC f xs)"

text \<open>A part that is dropped when it has a problem of its own.\<close>

definition only_clean :: "'a checked \<Rightarrow> 'a option checked" where
  "only_clean m = (case m of Inl e \<Rightarrow> Inl e | Inr (es, x) \<Rightarrow> Inr (es, if es = [] then Some x else None))"

section \<open>Surroundings and values\<close>

datatype file_text = CannotRead | CannotDecode | FileText string

text \<open>\<open>bv_repr\<close> is \<open>str\<close> of floats, lists and dictionaries; \<open>bv_places\<close> the catalogue of a provider, cities by
  country in lower case, if there is one and it can be reached.\<close>

record surroundings =
  bv_repr :: "pyval \<Rightarrow> string"
  bv_env :: "string \<Rightarrow> string option"
  bv_file :: "string \<Rightarrow> file_text"
  bv_places :: "string \<Rightarrow> (string, string list) dict option"

fun py_text :: "surroundings \<Rightarrow> pyval \<Rightarrow> string" where
  "py_text sv (PStr s) = s"
| "py_text sv PNone = ''None''"
| "py_text sv (PBool b) = (if b then ''True'' else ''False'')"
| "py_text sv (PInt i) = int_str i"
| "py_text sv v = bv_repr sv v"

definition filled_text :: "pyval \<Rightarrow> bool" where
  "filled_text v = (strip (pstr v) \<noteq> [])"

text \<open>A digit string in place of a number.\<close>

definition digits_value :: "pyval \<Rightarrow> pyval checked" where
  "digits_value v = (case v of
     PStr s \<Rightarrow> if isdigit s then (case int_of_digits s of None \<Rightarrow> Inl IntValueError | Some n \<Rightarrow> okC (PInt (int n)))
       else okC v
   | _ \<Rightarrow> okC v)"

definition port_of_value :: "string \<Rightarrow> pyval \<Rightarrow> int checked" where
  "port_of_value path v = bindC (digits_value v) (\<lambda>w. case w of
     PInt i \<Rightarrow> if 0 < i \<and> i \<le> 65535 then okC i else blame path NotAPort 0
   | _ \<Rightarrow> blame path NotAPort 0)"

definition validate_port :: "string \<Rightarrow> pyval \<Rightarrow> int checked" where
  "validate_port path v = (if v = PNone then okC 0 else port_of_value path v)"

definition check_wg_key :: "string \<Rightarrow> pyval \<Rightarrow> string checked" where
  "check_wg_key path v =
     (if \<not> filled_text v then blame path KeyRequired []
      else if wg_key_ok (strip (pstr v)) then okC (strip (pstr v))
      else blame path KeyInvalid (strip (pstr v)))"

definition str_list :: "pyval \<Rightarrow> string list option" where
  "str_list v0 = (case (case v0 of PStr s \<Rightarrow> PList [v0] | _ \<Rightarrow> v0) of
     PList xs \<Rightarrow> if xs \<noteq> [] \<and> list_all filled_text xs then Some (map (\<lambda>x. strip (pstr x)) xs) else None
   | _ \<Rightarrow> None)"

definition checked_list ::
  "(string list \<Rightarrow> string option) \<Rightarrow> reason \<Rightarrow> (string \<Rightarrow> reason) \<Rightarrow> string \<Rightarrow> pyval \<Rightarrow> string list checked" where
  "checked_list check absent bad path v = (case str_list v of
     None \<Rightarrow> blame path absent []
   | Some xs \<Rightarrow> (case check xs of None \<Rightarrow> okC xs | Some e \<Rightarrow> blame path (bad e) xs))"

section \<open>WireGuard parameters\<close>

definition keepalive_value :: "string \<Rightarrow> pyval \<Rightarrow> int checked" where
  "keepalive_value path v = bindC (digits_value v) (\<lambda>w. case w of
     PInt i \<Rightarrow> if i < 0 then blame path NotSeconds 0 else okC i
   | _ \<Rightarrow> blame path NotSeconds 0)"

definition default_value :: "pyval \<Rightarrow> string \<Rightarrow> pyval \<Rightarrow> pyval" where
  "default_value v k dflt = (case v of PDict d \<Rightarrow> pget_or d k dflt | _ \<Rightarrow> dflt)"

definition validate_peer :: "string \<Rightarrow> pyval \<Rightarrow> jobj checked" where
  "validate_peer path peer =
     bindC (check_wg_key (path @ ''.public_key'') (pfield peer ''public_key'')) (\<lambda>public_key.
     bindC (if ptruthy (pfield peer ''preshared_key'')
            then bindC (check_wg_key (path @ ''.preshared_key'') (pfield peer ''preshared_key'')) (\<lambda>k. okC (JStr k))
            else okC JNull) (\<lambda>preshared.
     let h = pfield peer ''endpoint_host'' in
     bindC (if filled_text h \<and> valid_host (strip (pstr h)) then okC (strip (pstr h))
            else blame (path @ ''.endpoint_host'') HostInvalid []) (\<lambda>host.
     bindC (port_of_value (path @ ''.endpoint_port'') (pfield peer ''endpoint_port'')) (\<lambda>port.
     bindC (if pfield peer ''allowed_ips'' = PNone then okC default_allowed_ips
            else checked_list check_cidrs CidrsRequired CidrInvalid (path @ ''.allowed_ips'') (pfield peer ''allowed_ips''))
       (\<lambda>allowed.
     bindC (keepalive_value (path @ ''.keepalive'') (default_value peer ''keepalive'' (PInt (int wg_keepalive)))) (\<lambda>keepalive.
     let n = pfield peer ''hostname'' in
     bindC (blame_if (n \<noteq> PNone \<and> \<not> filled_text n) (path @ ''.hostname'') HostnameInvalid) (\<lambda>_.
     okC ([(''public_key'', JStr public_key), (''endpoint_host'', JStr host), (''endpoint_port'', JNum (of_int port)),
           (''preshared_key'', preshared), (''allowed_ips'', JArr (map JStr allowed)),
           (''keepalive'', JNum (of_int keepalive))]
          @ (if ptruthy n then [(''hostname'', JStr (strip (pstr n)))] else [])))))))))"

definition validate_wg :: "string \<Rightarrow> pyval \<Rightarrow> jobj option checked" where
  "validate_wg path wg =
     (if \<not> is_pdict wg then blame path MustBeMapping None
      else only_clean (
        bindC (check_wg_key (path @ ''.private_key'') (pfield wg ''private_key'')) (\<lambda>private_key.
        bindC (checked_list check_addresses AddressesRequired AddressInvalid (path @ ''.address'') (pfield wg ''address''))
          (\<lambda>address.
        if \<not> is_pdict (pfield wg ''peer'') then blame (path @ ''.peer'') MustBeMapping []
        else bindC (validate_peer (path @ ''.peer'') (pfield wg ''peer'')) (\<lambda>peer.
        okC [(''private_key'', JStr private_key), (''address'', JArr (map JStr address)), (''peer'', JObj peer)])))))"

section \<open>Channels\<close>

record bspec = spec +
  bs_any_city :: bool

definition text_field :: "string \<Rightarrow> pyval \<Rightarrow> string \<Rightarrow> string checked" where
  "text_field path v k = (case pfield v k of PNone \<Rightarrow> okC [] | PStr s \<Rightarrow> okC (strip s)
     | _ \<Rightarrow> blame (path @ ''.'' @ k) MustBeString [])"

definition flag_field :: "string \<Rightarrow> pyval \<Rightarrow> string \<Rightarrow> bool option checked" where
  "flag_field path v k = (case pfield v k of PNone \<Rightarrow> okC None | PBool b \<Rightarrow> okC (Some b)
     | _ \<Rightarrow> blame (path @ ''.'' @ k) MustBeBool None)"

text \<open>\<open>providers.server_name\<close>; the pin of a channel.\<close>

definition server_name :: "string \<Rightarrow> string \<Rightarrow> (provider_error, string) result" where
  "server_name p t = (if supports_servers p then nordvpn_server_name t
     else Inl (ProviderErr ''choosing a server is not supported''))"

definition pin_field :: "string \<Rightarrow> string \<Rightarrow> bool \<Rightarrow> pyval \<Rightarrow> string \<Rightarrow> string \<Rightarrow> string checked" where
  "pin_field path p token v country city = (let s = pfield v ''server'' in
     if s = PNone then okC []
     else if \<not> filled_text s then blame (path @ ''.server'') BadServerName []
     else if \<not> (token \<and> supports_servers p) then blame (path @ ''.server'') ServersUnsupported []
     else bindC (case server_name p (pstr s) of Inl e \<Rightarrow> blame (path @ ''.server'') (ServerRefused e) [] | Inr h \<Rightarrow> okC h) (\<lambda>h.
          bindC (blame_if (country \<noteq> []) (path @ ''.country'') NotWithServer) (\<lambda>_.
          bindC (blame_if (city \<noteq> []) (path @ ''.city'') NotWithServer) (\<lambda>_. okC h))))"

text \<open>The location of a channel that is not pinned. \<open>all\<close>: every channel is checked, not only disabled ones.\<close>

definition check_place :: "surroundings \<Rightarrow> bool \<Rightarrow> string \<Rightarrow> string \<Rightarrow> string \<Rightarrow> string \<Rightarrow> bool option \<Rightarrow> unit checked" where
  "check_place sv all path p country city enabled =
     (if country = [] then blame (path @ ''.country'') CountryRequired ()
      else if \<not> (all \<or> enabled = Some False) then okC ()
      else (case bv_places sv p of
          None \<Rightarrow> okC ()
        | Some places \<Rightarrow> (case dget places (lower country) of
            None \<Rightarrow> blame (path @ ''.country'') (UnknownCountry country) ()
          | Some cities \<Rightarrow> blame_if (city \<noteq> [] \<and> lower city \<notin> set cities) (path @ ''.city'') (UnknownCity city country))))"

definition check_any_city :: "string \<Rightarrow> pyval \<Rightarrow> bool checked" where
  "check_any_city path v = (case pfield v ''any_city'' of
     PNone \<Rightarrow> okC False
   | PBool b \<Rightarrow> bindC (blame_if (b \<and> pfield v ''server'' = PNone) (path @ ''.any_city'') OnlyPinned) (\<lambda>_. okC b)
   | _ \<Rightarrow> blame (path @ ''.any_city'') MustBeBool False)"

definition channel_wg :: "string \<Rightarrow> bool \<Rightarrow> pyval \<Rightarrow> jobj option checked" where
  "channel_wg path token v = (if pfield v ''wg'' \<noteq> PNone then validate_wg (path @ ''.wg'') (pfield v ''wg'')
     else bindC (blame_if (\<not> token) path WgRequired) (\<lambda>_. okC None))"

definition validate_channel :: "surroundings \<Rightarrow> bool \<Rightarrow> string \<Rightarrow> bool \<Rightarrow> string \<Rightarrow> pyval \<Rightarrow> bspec option checked" where
  "validate_channel sv all p token path v0 = (let v = (if v0 = PNone then PDict [] else v0) in
     if \<not> is_pdict v then blame path MustBeMapping None
     else
       bindC (text_field path v ''country'') (\<lambda>country.
       bindC (text_field path v ''city'') (\<lambda>city.
       bindC (text_field path v ''label'') (\<lambda>label.
       bindC (flag_field path v ''enabled'') (\<lambda>enabled.
       bindC (pin_field path p token v country city) (\<lambda>server.
       bindC (check_any_city path v) (\<lambda>any_city.
       bindC (if token \<and> pfield v ''server'' = PNone then check_place sv all path p country city enabled else okC ()) (\<lambda>_.
       bindC (validate_port (path @ ''.port'') (pfield v ''port'')) (\<lambda>port.
       bindC (channel_wg path token v) (\<lambda>wg.
       okC (Some \<lparr>sp_country = country, sp_city = city, sp_label = label, sp_server = server, sp_wg = wg,
         sp_port = port, sp_enabled = enabled, bs_any_city = any_city\<rparr>)))))))))))"

section \<open>Credentials\<close>

datatype credential_source = Inline | FromEnv | FromFile

definition credential_field :: "string \<Rightarrow> string \<times> credential_source" where
  "credential_field k = (if endswith k ''_env'' then (take (length k - 4) k, FromEnv)
     else if endswith k ''_file'' then (take (length k - 5) k, FromFile) else (k, Inline))"

definition credential_step :: "surroundings \<Rightarrow> string \<Rightarrow> string \<times> string \<Rightarrow> (string, string) dict \<Rightarrow> (string, string) dict checked" where
  "credential_step sv path x resolved = (case x of (k, v) \<Rightarrow> case credential_field k of (name, src) \<Rightarrow>
     let here = path @ ''.'' @ k in
     if dget resolved name \<noteq> None then blame here (ExactlyOne name) resolved
     else (case src of
         FromEnv \<Rightarrow> (let got = strip (case bv_env sv v of None \<Rightarrow> [] | Some t \<Rightarrow> t) in
            if got = [] then blame here (EnvNotSet v) resolved else okC (dset name got resolved))
       | FromFile \<Rightarrow> (case bv_file sv v of
            CannotRead \<Rightarrow> blame here (FileUnreadable v) resolved
          | CannotDecode \<Rightarrow> Inl FileDecodeError
          | FileText t \<Rightarrow> if strip t = [] then blame here (FileEmpty v) resolved else okC (dset name (strip t) resolved))
       | Inline \<Rightarrow> okC (dset name v resolved)))"

definition resolve_credential :: "surroundings \<Rightarrow> string \<Rightarrow> (string, string) dict \<Rightarrow> (string, string) dict checked" where
  "resolve_credential sv path creds = foldC (credential_step sv path) creds []"

definition credential_ok :: "pyval \<Rightarrow> bool" where
  "credential_ok v = (case v of PDict d \<Rightarrow> d \<noteq> [] \<and> list_all (\<lambda>(k, x). is_pstr k \<and> filled_text x) d | _ \<Rightarrow> False)"

definition stripped_credential :: "pyval \<Rightarrow> (string, string) dict" where
  "stripped_credential v = (case v of PDict d \<Rightarrow> map (\<lambda>(k, x). (pstr k, strip (pstr x))) d | _ \<Rightarrow> [])"

definition lacking :: "string \<Rightarrow> (string, string) dict \<Rightarrow> string list" where
  "lacking p creds = filter (\<lambda>k. dget creds k = None \<or> dget creds k = Some []) (map fst (auth_fields p))"

definition validate_credential :: "surroundings \<Rightarrow> string \<Rightarrow> string \<Rightarrow> pyval \<Rightarrow> (string, string) dict option checked" where
  "validate_credential sv p path v =
     (if v = PNone then okC None
      else if kind p = ''config'' then blame path NoCredentialHere None
      else if \<not> credential_ok v then blame path CredentialShape None
      else bindC (resolve_credential sv path (stripped_credential v)) (\<lambda>creds.
           bindC (blame_if (lacking p creds \<noteq> []) path (LacksFields (lacking p creds))) (\<lambda>_. okC (Some creds))))"

section \<open>Providers\<close>

record bprov =
  bp_credential :: "(string, string) dict option"
  bp_channels :: "(string, bspec) dict"

text \<open>One channel of a provider; the servers pinned so far, each with the channel that pins it.\<close>

definition channel_step :: "surroundings \<Rightarrow> bool \<Rightarrow> string \<Rightarrow> bool \<Rightarrow> string \<Rightarrow> pyval \<times> pyval
    \<Rightarrow> (string, string) dict \<times> (string, bspec) dict \<Rightarrow> ((string, string) dict \<times> (string, bspec) dict) checked" where
  "channel_step sv all p token path x st = (case x of (k, v) \<Rightarrow> case st of (pins, chans) \<Rightarrow>
     let here = path @ ''.channels.'' @ py_text sv k in
     if \<not> is_pstr k \<or> pstr k \<noteq> slug (pstr k) then blame here BadSlug st
     else bindC (validate_channel sv all p token here v) (\<lambda>c. case c of
         None \<Rightarrow> okC st
       | Some sp \<Rightarrow>
           (case dget pins (sp_server sp) of
              Some other \<Rightarrow> blame (here @ ''.server'') (PinnedTwice (sp_server sp) other) (pins, dset (pstr k) sp chans)
            | None \<Rightarrow> okC (if sp_server sp \<noteq> [] then dset (sp_server sp) (pstr k) pins else pins, dset (pstr k) sp chans))))"

definition is_token_provider :: "string \<Rightarrow> bool" where
  "is_token_provider p = (kind p = ''token'' \<and> is_functional p)"

definition mapping_field :: "string \<Rightarrow> pyval \<Rightarrow> (pyval \<times> pyval) list checked" where
  "mapping_field path v = (case v of PNone \<Rightarrow> okC [] | PDict d \<Rightarrow> okC d | _ \<Rightarrow> blame path MustBeMapping [])"

definition validate_provider :: "surroundings \<Rightarrow> bool \<Rightarrow> string list \<Rightarrow> string \<Rightarrow> pyval \<Rightarrow> bprov option checked" where
  "validate_provider sv all stored p entry =
     (let path = ''providers.'' @ p; v = (if entry = PNone then PDict [] else entry); token = is_token_provider p in
      if p \<notin> set known then blame path UnknownProvider None
      else if \<not> is_pdict v then blame path MustBeMapping None
      else
        bindC (validate_credential sv p (path @ ''.credential'') (pfield v ''credential'')) (\<lambda>creds.
        bindC (blame_if (token \<and> creds = None \<and> p \<notin> set stored) (path @ ''.credential'') CredentialRequired) (\<lambda>_.
        bindC (mapping_field (path @ ''.channels'') (pfield v ''channels'')) (\<lambda>raw.
        bindC (foldC (channel_step sv all p token path) raw ([], [])) (\<lambda>(pins, chans).
        okC (Some \<lparr>bp_credential = creds, bp_channels = chans\<rparr>))))))"

definition provider_step :: "surroundings \<Rightarrow> bool \<Rightarrow> string list \<Rightarrow> pyval \<times> pyval \<Rightarrow> (string, bprov) dict
    \<Rightarrow> (string, bprov) dict checked" where
  "provider_step sv all stored x ps = (case x of (k, v) \<Rightarrow>
     bindC (validate_provider sv all stored (py_text sv k) v) (\<lambda>r. case r of
         None \<Rightarrow> okC ps | Some b \<Rightarrow> okC (dset (py_text sv k) b ps)))"

section \<open>Rulesets\<close>

definition text_or_empty :: "surroundings \<Rightarrow> pyval \<Rightarrow> string" where
  "text_or_empty sv v = (if ptruthy v then py_text sv v else [])"

definition checked_target :: "string list \<Rightarrow> string list \<Rightarrow> string \<Rightarrow> string \<Rightarrow> string checked" where
  "checked_target refs disabled path t = (case parse_target t of
     Inl e \<Rightarrow> blame path (RuleRefused e) t
   | Inr (ToChannel p c) \<Rightarrow> (let r = ref_str (p, c) in
       if r \<notin> set refs then blame path (NoTargetChannel r) r
       else if r \<in> set disabled then blame path (TargetDisabled r) r
       else okC r)
   | Inr _ \<Rightarrow> okC t)"

definition matcher_step :: "surroundings \<Rightarrow> string \<Rightarrow> nat \<times> pyval \<Rightarrow> (string \<times> string) list \<Rightarrow> (string \<times> string) list checked" where
  "matcher_step sv path x ms = (case x of (j, v) \<Rightarrow>
     let here = path @ ''.matchers['' @ nat_str j @ '']'';
         add = (\<lambda>value t. case infer_matcher value t of Inl e \<Rightarrow> blame here (RuleRefused e) ms | Inr m \<Rightarrow> okC (ms @ [m])) in
     case v of
       PDict d \<Rightarrow> add (text_or_empty sv (pfield v ''value'')) (text_or_empty sv (pfield v ''type''))
     | PStr s \<Rightarrow> add s []
     | _ \<Rightarrow> blame here MatcherShape ms)"

definition block_entry :: "surroundings \<Rightarrow> string list \<Rightarrow> string list \<Rightarrow> nat \<times> pyval \<Rightarrow> rspec list
    \<Rightarrow> rspec list checked" where
  "block_entry sv refs disabled x out = (case x of (i, v) \<Rightarrow> let path = ''router.rulesets['' @ nat_str i @ '']'' in
     if \<not> is_pdict v then blame path MustBeMapping out
     else let name = strip (text_or_empty sv (pfield v ''name'')) in
       bindC (blame_if (name = []) (path @ ''.name'') NameRequired) (\<lambda>_.
       bindC (checked_target refs disabled (path @ ''.target'') (strip (text_or_empty sv (pfield v ''target'')))) (\<lambda>target.
       bindC (case pfield v ''matchers'' of
                PList (y # ys) \<Rightarrow> foldC (matcher_step sv path) (enumerate 0 (y # ys)) []
              | _ \<Rightarrow> blame (path @ ''.matchers'') MatchersRequired []) (\<lambda>ms.
       okC (out @ [\<lparr>rs_name = name, rs_target = target, rs_matchers = ms\<rparr>])))))"

definition validate_rulesets :: "surroundings \<Rightarrow> string list \<Rightarrow> string list \<Rightarrow> pyval \<Rightarrow> rspec list checked" where
  "validate_rulesets sv refs disabled raw = (case raw of
     PList xs \<Rightarrow> foldC (block_entry sv refs disabled) (enumerate 0 xs) []
   | _ \<Rightarrow> blame ''router.rulesets'' MustBeList [])"

section \<open>The whole bundle\<close>

record brouter =
  br_killswitch :: "bool option"
  br_lan_direct :: "bool option"
  br_rulesets :: "rspec list option"
  br_port :: int

record setup_bundle =
  bu_providers :: "(string, bprov) dict"
  bu_router :: brouter

definition bundle_kind :: string where
  "bundle_kind = ''anyhop-bundle''"

definition bundle_version :: int where
  "bundle_version = 1"

definition header_errors :: "pyval \<Rightarrow> unit checked" where
  "header_errors data =
     bindC (blame_if (pfield data ''kind'' \<noteq> PStr bundle_kind) ''kind'' NotABundle) (\<lambda>_.
     case pfield data ''bundle_version'' of
       PInt i \<Rightarrow> if i < 1 then blame ''bundle_version'' BadVersion ()
         else blame_if (i > bundle_version) ''bundle_version'' (NewerVersion i)
     | _ \<Rightarrow> blame ''bundle_version'' BadVersion ())"

definition bundle_refs :: "(string, bprov) dict \<Rightarrow> string list" where
  "bundle_refs ps = concat (map (\<lambda>(p, b). map (\<lambda>(c, _). ref_str (p, c)) (bp_channels b)) ps)"

definition disabled_refs :: "(string, bprov) dict \<Rightarrow> string list" where
  "disabled_refs ps = concat (map (\<lambda>(p, b). map (\<lambda>(c, _). ref_str (p, c))
     (filter (\<lambda>(c, sp). sp_enabled sp = Some False) (bp_channels b))) ps)"

definition toggle :: "bool \<Rightarrow> pyval \<Rightarrow> string \<Rightarrow> bool option checked" where
  "toggle strict v k = (case pfield v k of
     PNone \<Rightarrow> if strict then blame (''router.'' @ k) MustBeExplicit None else okC None
   | PBool b \<Rightarrow> okC (Some b)
   | _ \<Rightarrow> blame (''router.'' @ k) MustBeBool None)"

definition unstated_router :: brouter where
  "unstated_router = \<lparr>br_killswitch = None, br_lan_direct = None, br_rulesets = None, br_port = 0\<rparr>"

definition validate_router :: "surroundings \<Rightarrow> bool \<Rightarrow> string list \<Rightarrow> string list \<Rightarrow> pyval \<Rightarrow> brouter checked" where
  "validate_router sv strict refs disabled v =
     (if v = PNone then okC unstated_router
      else if \<not> is_pdict v then blame ''router'' MustBeMapping unstated_router
      else
        bindC (toggle strict v ''killswitch'') (\<lambda>ks.
        bindC (toggle strict v ''lan_direct'') (\<lambda>lan.
        bindC (validate_port ''router.port'' (pfield v ''port'')) (\<lambda>port.
        bindC (if pfield v ''rulesets'' = PNone then okC None
               else bindC (validate_rulesets sv refs disabled (pfield v ''rulesets'')) (\<lambda>rs. okC (Some rs))) (\<lambda>rss.
        okC \<lparr>br_killswitch = ks, br_lan_direct = lan, br_rulesets = rss, br_port = port\<rparr>)))))"

definition declare_port :: "string \<times> int \<Rightarrow> (int, string) dict \<Rightarrow> (int, string) dict checked" where
  "declare_port x seen = (case x of (path, port) \<Rightarrow>
     if port = 0 then okC seen
     else (case dget seen port of Some other \<Rightarrow> blame path (DeclaredTwice port other) seen
       | None \<Rightarrow> okC (dset port path seen)))"

definition declared_ports :: "(string, bprov) dict \<Rightarrow> (string \<times> int) list" where
  "declared_ports ps = concat (map (\<lambda>(p, b).
     map (\<lambda>(c, sp). (''providers.'' @ p @ ''.channels.'' @ c @ ''.port'', sp_port sp)) (bp_channels b)) ps)"

text \<open>\<open>extra\<close>: channels outside the bundle that a rule may target. \<open>stored\<close>: providers whose credential is
  already there, none unless that counts.\<close>

definition validate_body :: "surroundings \<Rightarrow> bool \<Rightarrow> bool \<Rightarrow> string list \<Rightarrow> string list \<Rightarrow> pyval \<Rightarrow> setup_bundle checked" where
  "validate_body sv all strict stored extra data =
     bindC (header_errors data) (\<lambda>_.
     bindC (mapping_field ''providers'' (pfield data ''providers'')) (\<lambda>raw.
     bindC (foldC (provider_step sv all stored) raw []) (\<lambda>ps.
     bindC (validate_router sv strict (bundle_refs ps @ extra) (disabled_refs ps) (pfield data ''router'')) (\<lambda>r.
     bindC (foldC declare_port (declared_ports ps) (if br_port r \<noteq> 0 then [(br_port r, ''router.port'')] else [])) (\<lambda>_.
     okC \<lparr>bu_providers = ps, bu_router = r\<rparr>)))))"

section \<open>Lines\<close>

text \<open>The composed YAML document: nodes with the line they start on, counted from 0. Aliases appear unfolded.\<close>

datatype ynode =
    YScalar string nat
  | YMapping "(ynode \<times> ynode) list" nat
  | YSequence "ynode list" nat

fun node_line :: "ynode \<Rightarrow> nat" where
  "node_line (YScalar s n) = n"
| "node_line (YMapping ps n) = n"
| "node_line (YSequence xs n) = n"

definition child_path :: "string \<Rightarrow> string \<Rightarrow> string" where
  "child_path path k = (if path = [] then k else path @ ''.'' @ k)"

definition item_path :: "string \<Rightarrow> nat \<Rightarrow> string" where
  "item_path path i = path @ ''['' @ nat_str i @ '']''"

fun walk_lines :: "string \<Rightarrow> ynode \<Rightarrow> (string, nat) dict \<Rightarrow> (string, nat) dict"
  and walk_pairs :: "string \<Rightarrow> (ynode \<times> ynode) list \<Rightarrow> (string, nat) dict \<Rightarrow> (string, nat) dict"
  and walk_items :: "string \<Rightarrow> nat \<Rightarrow> ynode list \<Rightarrow> (string, nat) dict \<Rightarrow> (string, nat) dict" where
  "walk_lines path (YScalar s n) ix = (if path = [] then ix else setdefault path (n + 1) ix)"
| "walk_lines path (YMapping ps n) ix = walk_pairs path ps (if path = [] then ix else setdefault path (n + 1) ix)"
| "walk_lines path (YSequence xs n) ix = walk_items path 0 xs (if path = [] then ix else setdefault path (n + 1) ix)"
| "walk_pairs path [] ix = ix"
| "walk_pairs path ((YScalar k n, v) # ps) ix =
     walk_pairs path ps (walk_lines (child_path path k) v (setdefault (child_path path k) (n + 1) ix))"
| "walk_pairs path (x # ps) ix = walk_pairs path ps ix"
| "walk_items path i [] ix = ix"
| "walk_items path i (x # xs) ix =
     walk_items path (i + 1) xs (walk_lines (item_path path i) x (setdefault (item_path path i) (node_line x + 1) ix))"

definition line_index :: "(string \<Rightarrow> ynode option) \<Rightarrow> string \<Rightarrow> (string, nat) dict" where
  "line_index compose t = (case compose t of None \<Rightarrow> [] | Some doc \<Rightarrow> walk_lines [] doc [])"

text \<open>The line of a path or of its nearest ancestor in the index; the path is kept reversed.\<close>

definition is_joint :: "char \<Rightarrow> bool" where
  "is_joint c = (c = CHR ''.'' \<or> c = CHR ''['')"

function (sequential) nearest_rev :: "string \<Rightarrow> (string, nat) dict \<Rightarrow> nat option" where
  "nearest_rev r ix =
     (if r = [] then dget ix []
      else (case dget ix (rev r) of
          Some n \<Rightarrow> Some n
        | None \<Rightarrow> (case dropWhile (\<lambda>c. \<not> is_joint c) r of
              [] \<Rightarrow> None
            | c # rest \<Rightarrow> if rest = [] then None else nearest_rev rest ix)))"
  by pat_completeness auto
termination
proof (relation "measure (\<lambda>(r, ix). length r)")
  fix r :: string and ix :: "(string, nat) dict" and c rest
  assume "dropWhile (\<lambda>c. \<not> is_joint c) r = c # rest"
  then have "length rest < length r" using length_dropWhile_le[of "\<lambda>c. \<not> is_joint c" r] by simp
  then show "((rest, ix), r, ix) \<in> measure (\<lambda>(r, ix). length r)" by simp
qed simp

declare nearest_rev.simps [simp del]

definition nearest_line :: "string \<Rightarrow> (string, nat) dict \<Rightarrow> nat option" where
  "nearest_line path ix = nearest_rev (rev path) ix"

text \<open>A repeated key of a mapping: path, problem, and the line of the later occurrence.\<close>

definition repeated :: "string \<Rightarrow> string \<Rightarrow> reason" where
  "repeated path k = (if startswith path ''providers.'' \<and> endswith path ''.channels'' then RepeatedChannel k else RepeatedKey k)"

fun find_repeats :: "string \<Rightarrow> ynode \<Rightarrow> (string \<times> reason \<times> nat) list"
  and repeats_pairs :: "string \<Rightarrow> string list \<Rightarrow> (ynode \<times> ynode) list \<Rightarrow> (string \<times> reason \<times> nat) list"
  and repeats_items :: "string \<Rightarrow> nat \<Rightarrow> ynode list \<Rightarrow> (string \<times> reason \<times> nat) list" where
  "find_repeats path (YScalar s n) = []"
| "find_repeats path (YMapping ps n) = repeats_pairs path [] ps"
| "find_repeats path (YSequence xs n) = repeats_items path 0 xs"
| "repeats_pairs path seen [] = []"
| "repeats_pairs path seen ((YScalar k n, v) # ps) =
     (if k \<in> set seen then [(child_path path k, repeated path k, n + 1)] else [])
     @ find_repeats (child_path path k) v @ repeats_pairs path (k # seen) ps"
| "repeats_pairs path seen (x # ps) = repeats_pairs path seen ps"
| "repeats_items path i [] = []"
| "repeats_items path i (x # xs) = find_repeats (item_path path i) x @ repeats_items path (i + 1) xs"

definition duplicate_key_errors :: "(string \<Rightarrow> ynode option) \<Rightarrow> string \<Rightarrow> (string \<times> reason \<times> nat) list" where
  "duplicate_key_errors compose t = (case compose t of None \<Rightarrow> [] | Some doc \<Rightarrow> find_repeats [] doc)"

section \<open>Validation\<close>

text \<open>The rejected bundle: its problems in the order found, and as the message lists them, by line.\<close>

datatype bundle_failure = Rejected "problem list" "(string, nat) dict" | Escaped escape

definition error_rows :: "problem list \<Rightarrow> (string, nat) dict \<Rightarrow> (nat option \<times> string \<times> reason) list" where
  "error_rows es ix = sort_key (\<lambda>(n, p, r). (case n of None \<Rightarrow> 2 ^ 30 | Some l \<Rightarrow> l, p))
     (map (\<lambda>(p, r). (nearest_line p ix, p, r)) es)"

definition repeat_problems :: "(string \<times> reason \<times> nat) list \<Rightarrow> problem list" where
  "repeat_problems ds = map (\<lambda>(p, r, n). (p, r)) ds"

definition repeat_lines :: "(string \<times> reason \<times> nat) list \<Rightarrow> (string, nat) dict \<Rightarrow> (string, nat) dict" where
  "repeat_lines ds ix = fold (\<lambda>(p, r, n). dset p n) ds ix"

definition validate :: "surroundings \<Rightarrow> (string \<Rightarrow> ynode option) \<Rightarrow> string \<Rightarrow> bool \<Rightarrow> bool \<Rightarrow> string list \<Rightarrow> string list
    \<Rightarrow> pyval \<Rightarrow> (bundle_failure, setup_bundle) result" where
  "validate sv compose t all strict stored extra data =
     (let ds = (if t = [] then [] else duplicate_key_errors compose t);
          ix = repeat_lines ds (if t = [] then [] else line_index compose t) in
      case validate_body sv all strict stored extra data of
        Inl e \<Rightarrow> Inl (Escaped e)
      | Inr (es, b) \<Rightarrow> if repeat_problems ds @ es \<noteq> [] then Inl (Rejected (repeat_problems ds @ es) ix) else Inr b)"

definition loads :: "(string \<Rightarrow> pyval option) \<Rightarrow> string \<Rightarrow> (bundle_failure, pyval) result" where
  "loads yaml t = (case yaml t of
     None \<Rightarrow> Inl (Rejected [(''bundle'', NotYaml)] [])
   | Some v \<Rightarrow> if is_pdict v then Inr v else Inl (Rejected [(''bundle'', RootNotMapping)] []))"

definition no_catalogue :: "surroundings \<Rightarrow> surroundings" where
  "no_catalogue sv = sv\<lparr>bv_places := (\<lambda>_. None)\<rparr>"

definition validate_file :: "surroundings \<Rightarrow> (string \<Rightarrow> pyval option) \<Rightarrow> (string \<Rightarrow> ynode option) \<Rightarrow> string
    \<Rightarrow> (bundle_failure, setup_bundle) result" where
  "validate_file sv yaml compose t = bindR (loads yaml t) (\<lambda>v. validate sv compose t True True [] [] v)"

section \<open>Export\<close>

text \<open>Numbers of the state file are compared by value; an integral one is written as an integer.\<close>

fun pyval_of_json :: "json \<Rightarrow> pyval" where
  "pyval_of_json JNull = PNone"
| "pyval_of_json (JBool b) = PBool b"
| "pyval_of_json (JNum q) = (if q = of_int \<lfloor>q\<rfloor> then PInt \<lfloor>q\<rfloor> else PFloat q)"
| "pyval_of_json (JStr s) = PStr s"
| "pyval_of_json (JArr xs) = PList (map pyval_of_json xs)"
| "pyval_of_json (JObj kvs) = PDict (map (\<lambda>(k, v). (PStr k, pyval_of_json v)) kvs)"

definition export_channel :: "channel \<Rightarrow> pyval" where
  "export_channel ch = PDict (
     (if c_server ch \<noteq> [] then [(PStr ''server'', PStr (c_server ch)), (PStr ''enabled'', PBool (c_enabled ch))]
         @ (if c_city ch = [] then [(PStr ''any_city'', PBool True)] else [])
      else [(PStr ''country'', PStr (c_country ch)), (PStr ''city'', PStr (c_city ch)), (PStr ''enabled'', PBool (c_enabled ch))])
     @ (if c_label ch \<noteq> [] then [(PStr ''label'', PStr (c_label ch))] else [])
     @ (if c_wg ch \<noteq> [] then [(PStr ''wg'', pyval_of_json (JObj (c_wg ch)))] else []))"

definition export_matcher :: "rule \<Rightarrow> pyval" where
  "export_matcher r = (if rtype r = ''all'' then PDict [(PStr ''type'', PStr ''all'')]
     else PDict [(PStr ''type'', PStr (rtype r)), (PStr ''value'', PStr (rvalue r))])"

definition export_ruleset :: "block \<Rightarrow> pyval" where
  "export_ruleset b = PDict [(PStr ''name'', PStr (b_name b)), (PStr ''target'', PStr (b_target b)),
     (PStr ''matchers'', PList (map export_matcher (b_rules b)))]"

definition export_provider :: "pydict \<Rightarrow> data \<Rightarrow> string \<Rightarrow> pyval \<times> pyval" where
  "export_provider creds d p = (PStr p, PDict (
     (case pget creds p of Some (PDict c) \<Rightarrow> if c \<noteq> [] then [(PStr ''credential'', PDict c)] else [] | _ \<Rightarrow> [])
     @ [(PStr ''channels'', PDict (map (\<lambda>ch. (PStr (c_id ch), export_channel ch)) (provider_channels d p)))]))"

definition export_bundle :: "pydict \<Rightarrow> data \<Rightarrow> (store_error, pyval) result" where
  "export_bundle creds d = bindR (ruleset_blocks (rules_of d)) (\<lambda>bs.
     Inr (PDict [(PStr ''kind'', PStr bundle_kind), (PStr ''bundle_version'', PInt bundle_version),
       (PStr ''providers'', PDict (map (export_provider creds d) (provider_names d))),
       (PStr ''router'', PDict [(PStr ''killswitch'', PBool (rt_killswitch (d_router d))),
          (PStr ''lan_direct'', PBool (rt_lan_direct (d_router d))),
          (PStr ''rulesets'', PList (map export_ruleset bs))])]))"

section \<open>The parts of a bundle that a commit takes\<close>

definition specs_of :: "setup_bundle \<Rightarrow> specs" where
  "specs_of b = map (\<lambda>(p, e). (p, map (\<lambda>(c, sp). (c, spec.truncate sp)) (bp_channels e))) (bu_providers b)"

definition rulesets_of :: "setup_bundle \<Rightarrow> rspec list" where
  "rulesets_of b = (case br_rulesets (bu_router b) of None \<Rightarrow> [] | Some rs \<Rightarrow> rs)"

end
