(* ===== verification/Apply.thy ===== *)
theory Apply
  imports Bundle Metrics
begin

text \<open>
  Setup bundles: \<open>anyhop/bundle.py\<close>, applying. The three modes share their stages: read and validate,
  settle the WireGuard parameters of token channels, commit credentials and state, and adjust the
  traffic record. The commit is one step here; what a stop inside it leaves behind is the subject of
  \<open>Txn\<close>. \<open>geo\<close>'s country names are an argument, and so are the network and the clock.
\<close>

section \<open>Resolving token channels\<close>

record client =
  cl_net :: net
  cl_loads :: "string \<Rightarrow> pyval option"
  cl_b64 :: "string \<Rightarrow> string"
  cl_now :: rat
  cl_later :: rat
  cl_country :: "string \<Rightarrow> string"

text \<open>\<open>Crashed\<close>: an exception of the provider client that is no \<open>ProviderError\<close>.\<close>

datatype apply_failure =
    Refused bundle_failure
  | Crashed
  | StoreRaised store_error

datatype settled = Kept | Fallback | Resolved

type_synonym resolvers = "(string, (provider_error, string) result) dict"

record settling =
  st_resolvers :: resolvers
  st_nord :: nord
  st_resolved :: "string list"
  st_fallback :: "string list"

definition refuse :: "string \<Rightarrow> reason \<Rightarrow> apply_failure" where
  "refuse path r = Refused (Rejected [(path, r)] [])"

definition resolver_for :: "client \<Rightarrow> string \<Rightarrow> (string, string) dict \<Rightarrow> resolvers \<Rightarrow> (provider_error, string) result \<times> resolvers" where
  "resolver_for cl p creds rs = (case dget rs p of
     Some r \<Rightarrow> (r, rs)
   | None \<Rightarrow> (let r = provider_resolver (cl_net cl) (cl_loads cl) (cl_b64 cl) p creds in (r, dset p r rs)))"

text \<open>The resolver asked for parameters; the key was derived or its failure is raised again.\<close>

definition fresh_wg :: "client \<Rightarrow> string \<Rightarrow> (string, string) dict \<Rightarrow> string \<Rightarrow> string \<Rightarrow> hint \<Rightarrow> settling
    \<Rightarrow> (provider_error, jobj) result \<times> settling" where
  "fresh_wg cl p creds country city h s = (case resolver_for cl p creds (st_resolvers s) of (r, rs) \<Rightarrow>
     let s1 = s\<lparr>st_resolvers := rs\<rparr> in
     case r of
       Inl e \<Rightarrow> (Inl e, s1)
     | Inr key \<Rightarrow> (case resolve_with (cl_net cl) (cl_loads cl) (cl_now cl) (cl_later cl) key country city h (st_nord s1) of
         (w, nd) \<Rightarrow> (w, s1\<lparr>st_nord := nd\<rparr>)))"

definition wants_on :: "bool \<Rightarrow> bspec \<Rightarrow> channel option \<Rightarrow> bool" where
  "wants_on merge sp ch = (case sp_enabled sp of Some b \<Rightarrow> b
     | None \<Rightarrow> (case ch of Some x \<Rightarrow> if merge then c_enabled x else True | None \<Rightarrow> True))"

definition is_unavailable :: "provider_error \<Rightarrow> bool" where
  "is_unavailable e = (case e of Unavailable m \<Rightarrow> True | _ \<Rightarrow> False)"

definition channel_path :: "string \<Rightarrow> string \<Rightarrow> string" where
  "channel_path p c = ''providers.'' @ p @ ''.channels.'' @ c"

text \<open>\<open>_resolve_pinned\<close>.\<close>

definition keeps_pin :: "bspec \<Rightarrow> channel \<Rightarrow> bool" where
  "keeps_pin sp ch = (c_wg ch \<noteq> [] \<and> (if c_server ch \<noteq> [] then c_server ch else current_server ch) = sp_server sp)"

definition pinned_wg :: "client \<Rightarrow> string \<Rightarrow> string \<Rightarrow> (string, string) dict \<Rightarrow> bspec \<Rightarrow> settling
    \<Rightarrow> (apply_failure, settled \<times> bspec \<times> settling) result" where
  "pinned_wg cl p c creds sp s = (case fresh_wg cl p creds (sp_country sp) (sp_city sp) (Pin (sp_server sp)) s of
     (Inr w, s') \<Rightarrow> Inr (Resolved, sp\<lparr>sp_wg := Some w\<rparr>, s')
   | (Inl PyError, s') \<Rightarrow> Inl Crashed
   | (Inl e, s') \<Rightarrow>
       if sp_wg sp \<noteq> None \<and> \<not> is_unavailable e then Inr (Fallback, sp, s')
       else Inl (refuse (channel_path p c) (PinUnresolved (sp_server sp) e)))"

definition resolve_pinned :: "client \<Rightarrow> bool \<Rightarrow> string \<Rightarrow> string \<Rightarrow> (string, string) dict \<Rightarrow> channel option \<Rightarrow> bspec \<Rightarrow> settling
    \<Rightarrow> (apply_failure, settled \<times> bspec \<times> settling) result" where
  "resolve_pinned cl merge p c creds existing sp s =
     (let on = wants_on merge sp existing;
          offline = sp\<lparr>sp_country := cl_country cl (sp_server sp), sp_city := []\<rparr>;
          unfound = (if on then Fallback else Kept) in
      case (case existing of Some ch \<Rightarrow> if keeps_pin sp ch then Some ch else None | None \<Rightarrow> None) of
        Some ch \<Rightarrow> Inr (Kept, sp\<lparr>sp_wg := Some (c_wg ch), sp_country := c_country ch,
            sp_city := (if bs_any_city sp then [] else c_city ch)\<rparr>, s)
      | None \<Rightarrow>
          (case nordvpn_lookup_server (cl_net cl) (cl_loads cl) (cl_now cl) (cl_later cl) (sp_server sp) (st_nord s) of
             (r, nd) \<Rightarrow> let s1 = s\<lparr>st_nord := nd\<rparr> in
             case r of
               Inr found \<Rightarrow>
                 (let sp1 = sp\<lparr>sp_country := pub_country found, sp_city := (if bs_any_city sp then [] else pub_city found)\<rparr> in
                  if on then pinned_wg cl p c creds sp1 s1 else Inr (Kept, sp1, s1))
             | Inl PyError \<Rightarrow> Inl Crashed
             | Inl (Unavailable m) \<Rightarrow>
                 if on then Inl (refuse (channel_path p c @ ''.server'') (LookupFailed (Unavailable m)))
                 else Inr (unfound, offline, s1)
             | Inl e \<Rightarrow>
                 if on \<and> sp_wg sp = None then Inl (refuse (channel_path p c @ ''.server'') (LookupFailed e))
                 else Inr (unfound, offline, s1)))"

text \<open>A channel that follows its location.\<close>

definition resolve_located :: "client \<Rightarrow> bool \<Rightarrow> string \<Rightarrow> string \<Rightarrow> (string, string) dict \<Rightarrow> channel option \<Rightarrow> bspec \<Rightarrow> settling
    \<Rightarrow> (apply_failure, settled \<times> bspec \<times> settling) result" where
  "resolve_located cl merge p c creds existing sp s =
     (case (case existing of
              Some ch \<Rightarrow> if c_wg ch \<noteq> [] \<and> c_country ch = sp_country sp \<and> c_city ch = sp_city sp then Some ch else None
            | None \<Rightarrow> None) of
        Some ch \<Rightarrow> Inr (Kept, sp\<lparr>sp_wg := Some (c_wg ch)\<rparr>, s)
      | None \<Rightarrow>
          if \<not> wants_on merge sp existing then Inr (Kept, sp, s)
          else (case fresh_wg cl p creds (sp_country sp) (sp_city sp) AnyServer s of
              (Inr w, s') \<Rightarrow> Inr (Resolved, sp\<lparr>sp_wg := Some w\<rparr>, s')
            | (Inl PyError, s') \<Rightarrow> Inl Crashed
            | (Inl e, s') \<Rightarrow> if sp_wg sp \<noteq> None then Inr (Fallback, sp, s')
                else Inl (refuse (channel_path p c) (Unresolved e))))"

definition note_settled :: "settled \<Rightarrow> string \<Rightarrow> settling \<Rightarrow> settling" where
  "note_settled o' r s = (case o' of Kept \<Rightarrow> s
     | Resolved \<Rightarrow> s\<lparr>st_resolved := st_resolved s @ [r]\<rparr>
     | Fallback \<Rightarrow> s\<lparr>st_fallback := st_fallback s @ [r]\<rparr>)"

definition settle_channel :: "client \<Rightarrow> bool \<Rightarrow> data \<Rightarrow> string \<Rightarrow> (string, string) dict \<Rightarrow> string \<times> bspec
    \<Rightarrow> (string, bspec) dict \<times> settling \<Rightarrow> (apply_failure, (string, bspec) dict \<times> settling) result" where
  "settle_channel cl merge d p creds x st = (case x of (c, sp) \<Rightarrow> case st of (acc, s) \<Rightarrow>
     let existing = get_channel d p c in
     bindR (if sp_server sp \<noteq> [] then resolve_pinned cl merge p c creds existing sp s
            else resolve_located cl merge p c creds existing sp s) (\<lambda>(o', sp', s').
     Inr (acc @ [(c, sp')], note_settled o' (ref_str (p, c)) s')))"

text \<open>The credential of a provider: the bundle's, else the stored one; a stored value is a dictionary.\<close>

definition str_dict :: "pyval \<Rightarrow> (string, string) dict" where
  "str_dict v = (case v of PDict d \<Rightarrow> map (\<lambda>(k, x). (pstr k, pstr x)) d | _ \<Rightarrow> [])"

definition creds_for :: "pydict \<Rightarrow> string \<Rightarrow> bprov \<Rightarrow> (string, string) dict" where
  "creds_for stored p e = (case bp_credential e of Some c \<Rightarrow> c
     | None \<Rightarrow> (case pget stored p of None \<Rightarrow> [] | Some v \<Rightarrow> str_dict v))"

definition settle_provider :: "client \<Rightarrow> bool \<Rightarrow> data \<Rightarrow> pydict \<Rightarrow> string \<times> bprov \<Rightarrow> (string, bprov) dict \<times> settling
    \<Rightarrow> (apply_failure, (string, bprov) dict \<times> settling) result" where
  "settle_provider cl merge d stored x st = (case x of (p, e) \<Rightarrow> case st of (acc, s) \<Rightarrow>
     if \<not> is_token_provider p then Inr (acc @ [(p, e)], s)
     else bindR (foldR (settle_channel cl merge d p (creds_for stored p e)) (bp_channels e) ([], s)) (\<lambda>(cs, s').
       Inr (acc @ [(p, e\<lparr>bp_channels := cs\<rparr>)], s')))"

definition resolve_token_wg :: "client \<Rightarrow> bool \<Rightarrow> data \<Rightarrow> pydict \<Rightarrow> nord \<Rightarrow> setup_bundle
    \<Rightarrow> (apply_failure, setup_bundle \<times> settling) result" where
  "resolve_token_wg cl merge d stored nd b =
     bindR (foldR (settle_provider cl merge d stored) (bu_providers b)
              ([], \<lparr>st_resolvers = [], st_nord = nd, st_resolved = [], st_fallback = []\<rparr>)) (\<lambda>(ps, s).
     Inr (b\<lparr>bu_providers := ps\<rparr>, s))"

section \<open>Committing\<close>

record iworld =
  iw_data :: data
  iw_creds :: pydict
  iw_db :: db
  iw_os :: os
  iw_nord :: nord

record report =
  ap_added :: "string list"
  ap_replaced :: "string list"
  ap_summary :: summary
  ap_resolved :: "string list"
  ap_fallback :: "string list"
  ap_killswitch :: "bool option"
  ap_lan_direct :: "bool option"

definition or_refused :: "(bundle_failure, 'a) result \<Rightarrow> (apply_failure, 'a) result" where
  "or_refused r = (case r of Inl e \<Rightarrow> Inl (Refused e) | Inr x \<Rightarrow> Inr x)"

definition split_ref :: "string \<Rightarrow> cref" where
  "split_ref r = (case str_partition CHR ''/'' r of (p, _, c) \<Rightarrow> (p, c))"

definition commit_failure :: "store_error \<Rightarrow> apply_failure" where
  "commit_failure e = (case e of
     PortInUse q h \<Rightarrow> refuse ''providers'' (PortClash q h)
   | Referenced bl \<Rightarrow> Refused (Rejected (map (\<lambda>(r, rows). (case split_ref r of (p, c) \<Rightarrow>
         (channel_path p c @ ''.enabled'', StillReferenced (map rid rows)))) (sort_key fst bl)) [])
   | _ \<Rightarrow> StoreRaised e)"

text \<open>The credentials that change: a bundle's credential that differs, as a dictionary, from the stored one.\<close>

definition same_credential :: "pyval option \<Rightarrow> (string, string) dict \<Rightarrow> bool" where
  "same_credential old c = (case old of
     Some (PDict d) \<Rightarrow> length d = length c \<and> list_all (\<lambda>(k, v). pget d k = Some (PStr v)) c | _ \<Rightarrow> False)"

definition planned_creds :: "pydict \<Rightarrow> setup_bundle \<Rightarrow> (string \<times> (string, string) dict) list" where
  "planned_creds stored b = concat (map (\<lambda>(p, e). case bp_credential e of None \<Rightarrow> []
     | Some c \<Rightarrow> if same_credential (pget stored p) c then [] else [(p, c)]) (bu_providers b))"

definition raw_credential :: "(string, string) dict \<Rightarrow> pydict" where
  "raw_credential c = map (\<lambda>(k, v). (PStr k, PStr v)) c"

definition update_creds :: "(string \<times> (string, string) dict) list \<Rightarrow> pydict \<Rightarrow> pydict" where
  "update_creds ps stored = fold (\<lambda>(p, c). set_credentials p (raw_credential c)) ps stored"

definition make_report :: "pydict \<Rightarrow> setup_bundle \<Rightarrow> settling \<Rightarrow> summary \<Rightarrow> report" where
  "make_report stored b st s = (let ps = map fst (planned_creds stored b) in
     \<lparr>ap_added = filter (\<lambda>p. pget stored p = None) ps, ap_replaced = filter (\<lambda>p. pget stored p \<noteq> None) ps,
      ap_summary = s, ap_resolved = st_resolved st, ap_fallback = st_fallback st,
      ap_killswitch = br_killswitch (bu_router b), ap_lan_direct = br_lan_direct (bu_router b)\<rparr>)"

text \<open>The stamp that the setup transaction \<open>sid\<close> leaves in the state.\<close>

definition stamp :: "string \<Rightarrow> data \<Rightarrow> data" where
  "stamp sid d = d\<lparr>d_setup_commit := Some sid\<rparr>"

definition existing_refs :: "data \<Rightarrow> string list" where
  "existing_refs d = map (\<lambda>ch. ref_str (c_provider ch, c_id ch)) (channels d)"

definition stored_names :: "pydict \<Rightarrow> string list" where
  "stored_names creds = map pstr (keys creds)"

text \<open>Reading, validating and resolving, in that order; nothing is written before it is acc.\<close>

definition staged :: "surroundings \<Rightarrow> (string \<Rightarrow> pyval option) \<Rightarrow> (string \<Rightarrow> ynode option) \<Rightarrow> client \<Rightarrow> (pyval \<Rightarrow> string list)
    \<Rightarrow> string \<Rightarrow> iworld \<Rightarrow> (apply_failure, setup_bundle \<times> settling) result" where
  "staged sv yaml compose cl extra t w =
     bindR (or_refused (bindR (loads yaml t) (\<lambda>v.
        validate sv compose t False False (stored_names (iw_creds w)) (extra v) v))) (\<lambda>b.
     resolve_token_wg cl True (iw_data w) (iw_creds w) (iw_nord w) b)"

definition apply_import :: "surroundings \<Rightarrow> (string \<Rightarrow> pyval option) \<Rightarrow> (string \<Rightarrow> ynode option) \<Rightarrow> client \<Rightarrow> int \<Rightarrow> string
    \<Rightarrow> string \<Rightarrow> iworld \<Rightarrow> (apply_failure, report \<times> iworld) result" where
  "apply_import sv yaml compose cl now sid t w =
     bindR (staged sv yaml compose cl (\<lambda>_. existing_refs (iw_data w)) t w) (\<lambda>(b, st).
     let r = bu_router b in
     case merge_setup (iw_os w) (specs_of b) (rulesets_of b) (br_killswitch r) (br_lan_direct r) (br_port r) (iw_data w) of
       Inl e \<Rightarrow> Inl (commit_failure e)
     | Inr (s, e', d') \<Rightarrow> Inr (make_report (iw_creds w) b st s,
         \<lparr>iw_data = stamp sid d', iw_creds = update_creds (planned_creds (iw_creds w) b) (iw_creds w),
          iw_db = reconcile_tombstones now [] [] (s_providers_added s) (map split_ref (s_created s)) (iw_db w),
          iw_os = e', iw_nord = st_nord st\<rparr>))"

text \<open>A managed channel that the bundle leaves out is about to go and does not count as a target.\<close>

definition raw_refs :: "surroundings \<Rightarrow> pyval \<Rightarrow> string list" where
  "raw_refs sv v = (case pfield v ''providers'' of
     PDict ps \<Rightarrow> concat (map (\<lambda>(k, e). (case pfield e ''channels'' of
         PDict cs \<Rightarrow> map (\<lambda>(c, _). ref_str (py_text sv k, py_text sv c)) cs | _ \<Rightarrow> [])) ps)
   | _ \<Rightarrow> [])"

definition kept_refs :: "surroundings \<Rightarrow> data \<Rightarrow> pyval \<Rightarrow> string list" where
  "kept_refs sv d v = concat (map (\<lambda>(p, pv). map (\<lambda>(c, _). ref_str (p, c))
     (filter (\<lambda>(c, ch). \<not> (ch_managed ch \<and> ref_str (p, c) \<notin> set (raw_refs sv v))) (pv_channels pv))) (d_providers d))"

definition drop_creds :: "string list \<Rightarrow> pydict \<Rightarrow> pydict" where
  "drop_creds ps creds = fold (\<lambda>p. dpop (PStr p)) ps creds"

definition apply_sync :: "surroundings \<Rightarrow> (string \<Rightarrow> pyval option) \<Rightarrow> (string \<Rightarrow> ynode option) \<Rightarrow> client \<Rightarrow> int \<Rightarrow> string
    \<Rightarrow> string \<Rightarrow> iworld \<Rightarrow> (apply_failure, report \<times> iworld) result" where
  "apply_sync sv yaml compose cl now sid t w =
     bindR (staged sv yaml compose cl (kept_refs sv (iw_data w)) t w) (\<lambda>(b, st).
     let r = bu_router b; planned = planned_creds (iw_creds w) b in
     case sync_setup (iw_os w) (specs_of b) (rulesets_of b) (br_killswitch r) (br_lan_direct r) (br_port r) (iw_data w) of
       Inl e \<Rightarrow> Inl (commit_failure e)
     | Inr (s, e', d') \<Rightarrow> Inr (make_report (iw_creds w) b st s,
         \<lparr>iw_data = (if planned = [] then d' else stamp sid d'),
          iw_creds = drop_creds (s_providers_pruned s) (update_creds planned (iw_creds w)),
          iw_db = reconcile_tombstones now (s_providers_pruned s) (map split_ref (s_pruned s)) (s_providers_added s)
            (map split_ref (s_created s)) (iw_db w),
          iw_os = e', iw_nord = st_nord st\<rparr>))"

definition restore_creds :: "setup_bundle \<Rightarrow> pydict \<Rightarrow> pydict" where
  "restore_creds b stored = replace_all (concat (map (\<lambda>(p, e). case bp_credential e of None \<Rightarrow> []
     | Some c \<Rightarrow> [(p, raw_credential c)]) (bu_providers b))) stored"

definition missing_from :: "string list \<Rightarrow> string list \<Rightarrow> string list" where
  "missing_from xs ys = sort (filter (\<lambda>x. x \<notin> set ys) (remdups xs))"

definition restored_world :: "int \<Rightarrow> string \<Rightarrow> setup_bundle \<Rightarrow> settling \<Rightarrow> os \<Rightarrow> data \<Rightarrow> iworld \<Rightarrow> iworld" where
  "restored_world now sid b st e' d' w =
     \<lparr>iw_data = stamp sid d', iw_creds = restore_creds b (iw_creds w),
      iw_db = reconcile_tombstones now (missing_from (provider_names (iw_data w)) (keys (bu_providers b)))
        (map split_ref (missing_from (existing_refs (iw_data w)) (bundle_refs (bu_providers b))))
        (keys (bu_providers b)) (map split_ref (sort (remdups (bundle_refs (bu_providers b))))) (iw_db w),
      iw_os = e', iw_nord = st_nord st\<rparr>"

definition apply_restore :: "surroundings \<Rightarrow> (string \<Rightarrow> pyval option) \<Rightarrow> (string \<Rightarrow> ynode option) \<Rightarrow> client \<Rightarrow> int \<Rightarrow> string
    \<Rightarrow> string \<Rightarrow> iworld \<Rightarrow> (apply_failure, settling \<times> iworld) result" where
  "apply_restore sv yaml compose cl now sid t w =
     bindR (or_refused (bindR (loads yaml t) (\<lambda>v. validate sv compose t False True [] [] v))) (\<lambda>b0.
     bindR (resolve_token_wg cl False (iw_data w) [] (iw_nord w) b0) (\<lambda>(b, st).
     let r = bu_router b in
     case restore_setup (iw_os w) (specs_of b) (rulesets_of b) (br_killswitch r = Some True) (br_lan_direct r \<noteq> Some False)
            (br_port r) (iw_data w) of
       Inl (PortInUse q h) \<Rightarrow> Inl (refuse ''providers'' (PortClash q h))
     | Inl e \<Rightarrow> Inl (StoreRaised e)
     | Inr (e', d') \<Rightarrow> Inr (st, restored_world now sid b st e' d' w)))"

text \<open>\<open>plan_restore\<close>: providers, channels and rulesets of the bundle and of the setup it would replace.\<close>

definition plan_restore :: "surroundings \<Rightarrow> (string \<Rightarrow> pyval option) \<Rightarrow> (string \<Rightarrow> ynode option) \<Rightarrow> string \<Rightarrow> data
    \<Rightarrow> (apply_failure, (nat \<times> nat \<times> nat) \<times> (nat \<times> nat \<times> nat)) result" where
  "plan_restore sv yaml compose t d =
     bindR (or_refused (bindR (loads yaml t) (\<lambda>v. validate (no_catalogue sv) compose t True True [] [] v))) (\<lambda>b.
     case ruleset_blocks (rules_of d) of
       Inl e \<Rightarrow> Inl (StoreRaised e)
     | Inr bs \<Rightarrow> Inr ((length (bu_providers b), length (bundle_refs (bu_providers b)), length (rulesets_of b)),
         (length (provider_names d), length (channels d), length bs)))"

end
