(* ===== verification/BundleSafe.thy ===== *)
theory BundleSafe
  imports Apply "HOL-Library.Code_Target_Nat"
begin

text \<open>
  What validation and resolution promise to the commits: unique slugs, known providers, targets that
  are declared and not disabled. So every applied bundle keeps the invariant of the store. Resolution
  honours pins and leaves the declaration alone.
\<close>

section \<open>Checks that find nothing\<close>

named_theorems clean_simps

lemma okC_clean [clean_simps]: "okC x = Inr ([], y) \<longleftrightarrow> x = y"
  by (simp add: okC_def)

lemma blame_clean [clean_simps]: "blame p r x \<noteq> Inr ([], y)"
  by (simp add: blame_def)

lemma blame_if_clean [clean_simps]: "blame_if b p r = Inr ([], u) \<longleftrightarrow> \<not> b"
  by (simp add: blame_if_def blame_def okC_def)

lemma bindC_clean [clean_simps]: "bindC m f = Inr ([], y) \<longleftrightarrow> (\<exists>x. m = Inr ([], x) \<and> f x = Inr ([], y))"
  by (auto simp: bindC_def split: sum.splits)

lemma only_clean_clean [clean_simps]: "only_clean m = Inr ([], y) \<longleftrightarrow> (\<exists>x. m = Inr ([], x) \<and> y = Some x)"
  by (auto simp: only_clean_def split: sum.splits)

lemma foldC_clean [clean_simps]:
  "foldC f [] s = Inr ([], t) \<longleftrightarrow> t = s"
  "foldC f (x # xs) s = Inr ([], t) \<longleftrightarrow> (\<exists>u. f x s = Inr ([], u) \<and> foldC f xs u = Inr ([], t))"
  by (auto simp: bindC_clean okC_clean)

lemma foldC_keeps:
  assumes "foldC f xs s = Inr ([], t)" "P s"
    and "\<And>x s s'. x \<in> set xs \<Longrightarrow> P s \<Longrightarrow> f x s = Inr ([], s') \<Longrightarrow> P s'"
  shows "P t"
  using assms by (induction xs arbitrary: s) (auto simp: clean_simps)

section \<open>What validation promises\<close>

lemma known_plain: "p \<in> set known \<Longrightarrow> CHR ''/'' \<notin> set p"
proof -
  have "list_all (\<lambda>p. CHR ''/'' \<notin> set p) (keys registry)" by code_simp
  then show "p \<in> set known \<Longrightarrow> ?thesis" by (auto simp: known_def list_all_iff)
qed

definition slugged :: "(string, bspec) dict \<Rightarrow> bool" where
  "slugged cs = (distinct (keys cs) \<and> (\<forall>c \<in> set (keys cs). slug c = c))"

lemma slugged_dset: "slugged cs \<Longrightarrow> slug c = c \<Longrightarrow> slugged (dset c sp cs)"
  unfolding slugged_def by (simp only: keys_dset distinct_dset) auto

lemma channel_step_clean:
  assumes "channel_step sv al p token path (k, v) (pins, cs) = Inr ([], st)"
  shows "\<exists>c. k = PStr c \<and> slug c = c \<and> (\<exists>r. validate_channel sv al p token (path @ ''.channels.'' @ c) v = Inr ([], r)
    \<and> (case r of None \<Rightarrow> st = (pins, cs)
       | Some sp \<Rightarrow> dget pins (sp_server sp) = None
           \<and> st = (if sp_server sp \<noteq> [] then dset (sp_server sp) c pins else pins, dset c sp cs)))"
proof -
  from assms have k: "is_pstr k" "slug (pstr k) = pstr k"
    by (auto simp: channel_step_def Let_def blame_clean split: if_splits)
  then obtain c where c: "k = PStr c" by (cases k) auto
  from assms k obtain r where "validate_channel sv al p token (path @ ''.channels.'' @ c) v = Inr ([], r)"
    and "(case r of None \<Rightarrow> okC (pins, cs) | Some sp \<Rightarrow> (case dget pins (sp_server sp) of
        Some other \<Rightarrow> blame ((path @ ''.channels.'' @ c) @ ''.server'') (PinnedTwice (sp_server sp) other) (pins, dset c sp cs)
      | None \<Rightarrow> okC (if sp_server sp \<noteq> [] then dset (sp_server sp) c pins else pins, dset c sp cs))) = Inr ([], st)"
    unfolding channel_step_def Let_def c by (auto simp only: prod.case py_text.simps pstr.simps is_pstr.simps bindC_clean simp_thms if_False)
  then show ?thesis using k c by (auto simp: clean_simps split: option.splits)
qed

lemma channel_step_slugged:
  assumes "channel_step sv al p token path x (pins, cs) = Inr ([], (pins', cs'))" "slugged cs"
  shows "slugged cs'"
  using channel_step_clean[of sv al p token path "fst x" "snd x" pins cs "(pins', cs')"] assms
  by (auto intro!: slugged_dset split: option.splits)

definition providers_fit :: "(string, bprov) dict \<Rightarrow> bool" where
  "providers_fit ps = (distinct (keys ps) \<and> (\<forall>(p, e) \<in> set ps. p \<in> set known \<and> slugged (bp_channels e)))"

lemma provider_step_fit:
  assumes "provider_step sv al stored x ps = Inr ([], ps')" "providers_fit ps"
  shows "providers_fit ps'"
proof -
  obtain k v where x: "x = (k, v)" by (cases x)
  from assms(1) obtain r where r: "validate_provider sv al stored (py_text sv k) v = Inr ([], r)"
    and ps': "ps' = (case r of None \<Rightarrow> ps | Some b \<Rightarrow> dset (py_text sv k) b ps)"
    by (auto simp: provider_step_def x clean_simps split: option.splits)
  show ?thesis
  proof (cases r)
    case None
    then show ?thesis using ps' assms(2) by simp
  next
    case (Some b)
    from r have "py_text sv k \<in> set known" by (auto simp: validate_provider_def clean_simps Let_def split: if_splits)
    moreover have "slugged (bp_channels b)"
    proof -
      from r Some obtain raw pins where "foldC (channel_step sv al (py_text sv k) (is_token_provider (py_text sv k))
          (''providers.'' @ py_text sv k)) raw ([], []) = Inr ([], (pins, bp_channels b))"
        by (auto simp: validate_provider_def clean_simps Let_def split: if_splits prod.splits)
      from foldC_keeps[OF this, of "\<lambda>(_, cs). slugged cs"] show ?thesis
        using channel_step_slugged by (fastforce simp: slugged_def)
    qed
    ultimately show ?thesis using ps' Some assms(2) by (auto simp: providers_fit_def dest!: dset_mem)
  qed
qed

definition target_fit :: "string list \<Rightarrow> string list \<Rightarrow> string \<Rightarrow> bool" where
  "target_fit refs disabled t = (target_ref t = None \<or> (t \<in> set refs \<and> t \<notin> set disabled))"

lemma strip_idem: "strip (strip s) = strip s"
proof (cases "strip s = []")
  case True
  then show ?thesis by (simp only: True) (simp add: strip_def lstrip_def)
qed (use strip_edged[of s] edged_strip in blast)

lemma checked_target_fit:
  assumes "checked_target refs disabled path (strip t) = Inr ([], r)"
  shows "target_fit refs disabled r"
proof -
  have n: "target_ref ''direct'' = None" "target_ref ''block'' = None" by code_simp+
  show ?thesis using assms n
    by (auto simp: checked_target_def target_fit_def clean_simps Let_def parse_target_def strip_idem
        split: sum.splits target.splits if_splits prod.splits)
qed

lemma block_entry_fit:
  assumes "block_entry sv refs disabled x out = Inr ([], out')" "\<forall>b \<in> set out. target_fit refs disabled (rs_target b)"
  shows "\<forall>b \<in> set out'. target_fit refs disabled (rs_target b)"
proof -
  obtain i v where x: "x = (i, v)" by (cases x)
  from assms(1) obtain r n ms where "checked_target refs disabled (''router.rulesets['' @ nat_str i @ '']'' @ ''.target'')
      (strip (text_or_empty sv (pfield v ''target''))) = Inr ([], r)"
    and "out' = out @ [\<lparr>rs_name = n, rs_target = r, rs_matchers = ms\<rparr>]"
    by (auto simp: block_entry_def x Let_def clean_simps split: if_splits)
  then show ?thesis using assms(2) checked_target_fit by auto
qed

lemma validate_rulesets_fit:
  assumes "validate_rulesets sv refs disabled raw = Inr ([], out)"
  shows "\<forall>b \<in> set out. target_fit refs disabled (rs_target b)"
proof -
  from assms obtain xs where "foldC (block_entry sv refs disabled) (enumerate 0 xs) [] = Inr ([], out)"
    by (auto simp: validate_rulesets_def clean_simps split: pyval.splits)
  from foldC_keeps[OF this, of "\<lambda>out. \<forall>b \<in> set out. target_fit refs disabled (rs_target b)"] show ?thesis
    using block_entry_fit by fastforce
qed

definition bundle_fit :: "string list \<Rightarrow> setup_bundle \<Rightarrow> bool" where
  "bundle_fit extra b = (providers_fit (bu_providers b)
     \<and> (\<forall>r \<in> set (rulesets_of b). target_fit (bundle_refs (bu_providers b) @ extra) (disabled_refs (bu_providers b)) (rs_target r)))"

lemma validate_router_fit:
  assumes "validate_router sv strict refs disabled v = Inr ([], r)" "br_rulesets r = Some out"
  shows "\<forall>b \<in> set out. target_fit refs disabled (rs_target b)"
  using assms validate_rulesets_fit
  by (fastforce simp: validate_router_def clean_simps unstated_router_def split: if_splits)

lemma validate_fit:
  assumes "validate sv compose t al strict stored extra v = Inr b"
  shows "bundle_fit extra b"
proof -
  from assms have "validate_body sv al strict stored extra v = Inr ([], b)"
    by (auto simp: validate_def Let_def split: sum.splits if_splits)
  then obtain raw ps r where ps: "foldC (provider_step sv al stored) raw [] = Inr ([], ps)"
    and r: "validate_router sv strict (bundle_refs ps @ extra) (disabled_refs ps) (pfield v ''router'') = Inr ([], r)"
    and b: "b = \<lparr>bu_providers = ps, bu_router = r\<rparr>"
    by (auto simp: validate_body_def clean_simps)
  have "providers_fit ps"
    using foldC_keeps[OF ps, of providers_fit] provider_step_fit by (auto simp: providers_fit_def)
  with validate_router_fit[OF r] show ?thesis by (cases "br_rulesets r") (simp_all add: bundle_fit_def rulesets_of_def b)
qed

lemma specs_of_wf: "bundle_fit extra b \<Longrightarrow> specs_wf (specs_of b)"
  by (fastforce simp: bundle_fit_def providers_fit_def slugged_def specs_wf_def specs_of_def case_prod_beta comp_def dest: known_plain)

lemma specs_of_get:
  "dget (specs_of b) p = map_option (\<lambda>e. map (\<lambda>(c, sp). (c, spec.truncate sp)) (bp_channels e)) (dget (bu_providers b) p)"
  "dget (map (\<lambda>(c, sp). (c, spec.truncate sp)) cs) c = map_option spec.truncate (dget cs c)"
  unfolding specs_of_def by (rule map_of_map_key[of "\<lambda>_. spec.truncate"] map_of_map_key)+

lemma truncate_enabled [simp]: "sp_enabled (spec.truncate sp) = sp_enabled sp"
  by (simp add: spec.truncate_def)

lemma bundle_targets_declared:
  assumes "bundle_fit [] b"
  shows "targets_declared (specs_of b) (rulesets_of b)"
  unfolding targets_declared_def
proof
  fix rs assume rs: "rs \<in> set (rulesets_of b)"
  let ?ps = "bu_providers b"
  have pf: "providers_fit ?ps" using assms by (simp add: bundle_fit_def)
  show "case target_ref (rs_target rs) of None \<Rightarrow> True
     | Some (p, c) \<Rightarrow> (case dget (specs_of b) p of None \<Rightarrow> False | Some cs \<Rightarrow>
         (case dget cs c of None \<Rightarrow> False | Some sp \<Rightarrow> sp_enabled sp \<noteq> Some False))"
  proof (cases "target_ref (rs_target rs)")
    case (Some pc)
    obtain p c where pc: "pc = (p, c)" by (cases pc)
    from target_ref_Some[of "rs_target rs" p c] Some pc have t: "rs_target rs = ref_str (p, c)" "CHR ''/'' \<notin> set p" by auto
    from assms rs Some have f: "ref_str (p, c) \<in> set (bundle_refs ?ps)" "ref_str (p, c) \<notin> set (disabled_refs ?ps)"
      by (auto simp: bundle_fit_def target_fit_def t(1))
    from f(1) obtain q e k sp where q: "(q, e) \<in> set ?ps" "(k, sp) \<in> set (bp_channels e)" "ref_str (p, c) = ref_str (q, k)"
      by (auto simp: bundle_refs_def)
    have "CHR ''/'' \<notin> set q" using pf q(1) known_plain by (auto simp: providers_fit_def)
    then have e: "q = p" "k = c" using q(3) ref_str_inj[OF t(2), of q c k] by simp_all
    have "sp_enabled sp \<noteq> Some False" using f(2) q e by (force simp: disabled_refs_def)
    moreover have "dget ?ps p = Some e" "dget (bp_channels e) c = Some sp"
      using pf q(1,2) e by (auto simp: providers_fit_def slugged_def dget_eq_Some_iff)
    ultimately show ?thesis unfolding Some pc by (simp add: specs_of_get)
  qed simp
qed

section \<open>Resolution keeps the declaration\<close>

definition same_decl :: "bspec \<Rightarrow> bspec \<Rightarrow> bool" where
  "same_decl a b = (sp_enabled b = sp_enabled a \<and> sp_port b = sp_port a \<and> sp_label b = sp_label a \<and> sp_server b = sp_server a
     \<and> bs_any_city b = bs_any_city a \<and> (sp_server a = [] \<longrightarrow> sp_country b = sp_country a \<and> sp_city b = sp_city a))"

lemma same_decl_refl [simp]: "same_decl a a"
  by (simp add: same_decl_def)

lemma resolve_located_decl:
  "sp_server sp = [] \<Longrightarrow> resolve_located cl merge p c creds ex sp s = Inr (o', sp', s') \<Longrightarrow> same_decl sp sp'"
  by (auto simp: resolve_located_def same_decl_def split: option.splits if_splits prod.splits sum.splits provider_error.splits)

lemma pinned_wg_decl:
  "pinned_wg cl p c creds sp s = Inr (o', sp', s') \<Longrightarrow> same_decl sp sp'"
  by (auto simp: pinned_wg_def same_decl_def split: if_splits prod.splits sum.splits provider_error.splits)

lemma same_decl_moved: "sp_server sp \<noteq> [] \<Longrightarrow> same_decl (sp\<lparr>sp_country := a, sp_city := b\<rparr>) sp' \<Longrightarrow> same_decl sp sp'"
  by (simp add: same_decl_def)

lemma resolve_pinned_decl:
  assumes "sp_server sp \<noteq> []" "resolve_pinned cl merge p c creds ex sp s = Inr (o', sp', s')"
  shows "same_decl sp sp'"
proof -
  obtain r nd where l: "nordvpn_lookup_server (cl_net cl) (cl_loads cl) (cl_now cl) (cl_later cl) (sp_server sp) (st_nord s) = (r, nd)"
    by (metis surj_pair)
  let ?k = "case ex of Some ch \<Rightarrow> if keeps_pin sp ch then Some ch else None | None \<Rightarrow> None"
  note d = assms(2)[unfolded resolve_pinned_def Let_def l prod.case]
  show ?thesis
  proof (cases ?k)
    case (Some ch)
    with d have "sp' = sp\<lparr>sp_wg := Some (c_wg ch), sp_country := c_country ch, sp_city := if bs_any_city sp then [] else c_city ch\<rparr>"
      by simp
    with assms(1) show ?thesis by (simp add: same_decl_def)
  next
    case None
    show ?thesis
    proof (cases r)
      case (Inr found)
      let ?sp = "sp\<lparr>sp_country := pub_country found, sp_city := if bs_any_city sp then [] else pub_city found\<rparr>"
      show ?thesis
      proof (cases "wants_on merge sp ex")
        case True
        with d None Inr have "pinned_wg cl p c creds ?sp (s\<lparr>st_nord := nd\<rparr>) = Inr (o', sp', s')" by simp
        from same_decl_moved[OF assms(1) pinned_wg_decl[OF this]] show ?thesis .
      next
        case False
        with d None Inr have "sp' = ?sp" by simp
        with assms(1) show ?thesis by (simp add: same_decl_def)
      qed
    next
      case (Inl e)
      with d None have "sp' = sp\<lparr>sp_country := cl_country cl (sp_server sp), sp_city := []\<rparr>"
        by (simp split: provider_error.splits if_splits)
      with assms(1) show ?thesis by (simp add: same_decl_def)
    qed
  qed
qed

lemma foldR_collect:
  assumes "foldR f xs (acc, s) = Inr (out, s')"
    and "\<And>x acc s out s'. x \<in> set xs \<Longrightarrow> f x (acc, s) = Inr (out, s') \<Longrightarrow> \<exists>y. out = acc @ [y] \<and> R x y"
  shows "\<exists>ys. out = acc @ ys \<and> list_all2 R xs ys"
  using assms
proof (induction xs arbitrary: acc s)
  case (Cons x xs)
  from Cons.prems(1) obtain a1 s1 where a: "f x (acc, s) = Inr (a1, s1)" "foldR f xs (a1, s1) = Inr (out, s')" by auto
  from Cons.prems(2)[OF _ a(1)] obtain y where y: "a1 = acc @ [y]" "R x y" by auto
  have "\<exists>ys. out = a1 @ ys \<and> list_all2 R xs ys" by (rule Cons.IH[OF a(2)]) (use Cons.prems(2) in auto)
  then obtain ys where "out = acc @ y # ys" "list_all2 R xs ys" using y(1) by auto
  with y(2) show ?case by (intro exI[of _ "y # ys"]) simp
qed simp

definition chan_decl :: "string \<times> bspec \<Rightarrow> string \<times> bspec \<Rightarrow> bool" where
  "chan_decl a b = (fst b = fst a \<and> same_decl (snd a) (snd b))"

definition prov_decl :: "string \<times> bprov \<Rightarrow> string \<times> bprov \<Rightarrow> bool" where
  "prov_decl a b = (fst b = fst a \<and> bp_credential (snd b) = bp_credential (snd a)
     \<and> list_all2 chan_decl (bp_channels (snd a)) (bp_channels (snd b)))"

lemma settle_channel_decl:
  assumes "settle_channel cl merge d p creds x (acc, s) = Inr (out, s')"
  shows "\<exists>y. out = acc @ [y] \<and> chan_decl x y"
proof -
  obtain c sp where x: "x = (c, sp)" by (cases x)
  from assms obtain o' sp' s1 where r: "(if sp_server sp \<noteq> [] then resolve_pinned cl merge p c creds (get_channel d p c) sp s
      else resolve_located cl merge p c creds (get_channel d p c) sp s) = Inr (o', sp', s1)" and out: "out = acc @ [(c, sp')]"
    by (auto simp: settle_channel_def x Let_def)
  have "same_decl sp sp'" using r resolve_pinned_decl resolve_located_decl by (metis (full_types))
  with out show ?thesis by (simp add: chan_decl_def x)
qed

lemma settle_provider_decl:
  assumes "settle_provider cl merge d stored x (acc, s) = Inr (out, s')"
  shows "\<exists>y. out = acc @ [y] \<and> prov_decl x y"
proof -
  obtain p e where x: "x = (p, e)" by (cases x)
  have refl: "list_all2 chan_decl cs cs" for cs by (rule list.rel_refl) (simp add: chan_decl_def)
  show ?thesis
  proof (cases "is_token_provider p")
    case True
    with assms obtain cs s1 where f: "foldR (settle_channel cl merge d p (creds_for stored p e)) (bp_channels e) ([], s) = Inr (cs, s1)"
      and out: "out = acc @ [(p, e\<lparr>bp_channels := cs\<rparr>)]"
      by (auto simp: settle_provider_def x)
    from foldR_collect[OF f, of chan_decl] settle_channel_decl have "list_all2 chan_decl (bp_channels e) cs" by fastforce
    with out show ?thesis by (simp add: prov_decl_def x)
  next
    case False
    with assms show ?thesis using refl by (auto simp: settle_provider_def x prov_decl_def)
  qed
qed

lemma resolve_decl:
  assumes "resolve_token_wg cl merge d stored nd b = Inr (b', st)"
  shows "list_all2 prov_decl (bu_providers b) (bu_providers b') \<and> bu_router b' = bu_router b"
proof -
  from assms obtain ps where f: "foldR (settle_provider cl merge d stored) (bu_providers b)
      ([], \<lparr>st_resolvers = [], st_nord = nd, st_resolved = [], st_fallback = []\<rparr>) = Inr (ps, st)"
    and b': "b' = b\<lparr>bu_providers := ps\<rparr>"
    by (auto simp: resolve_token_wg_def)
  from foldR_collect[OF f, of prov_decl] settle_provider_decl b' show ?thesis by fastforce
qed

lemma chan_decl_refs:
  assumes "list_all2 chan_decl cs cs'"
  shows "keys cs' = keys cs" "map fst (filter (\<lambda>(c, sp). sp_enabled sp = Some False) cs')
     = map fst (filter (\<lambda>(c, sp). sp_enabled sp = Some False) cs)"
  using assms by (induction rule: list_all2_induct) (auto simp: chan_decl_def same_decl_def)

lemma prov_decl_refs:
  assumes "list_all2 prov_decl ps ps'"
  shows "keys ps' = keys ps \<and> bundle_refs ps' = bundle_refs ps \<and> disabled_refs ps' = disabled_refs ps
     \<and> (\<forall>(p, e') \<in> set ps'. \<exists>e. (p, e) \<in> set ps \<and> keys (bp_channels e') = keys (bp_channels e))"
  using assms
proof (induction rule: list_all2_induct)
  case (Cons x xs y ys)
  obtain p e where x: "x = (p, e)" by (cases x)
  obtain e' where y: "y = (p, e')" and c: "list_all2 chan_decl (bp_channels e) (bp_channels e')"
    using Cons.hyps(1) by (cases y) (auto simp: prov_decl_def x)
  note k = chan_decl_refs[OF c]
  have m: "map (\<lambda>(c, _). ref_str (p, c)) cs = map (\<lambda>c. ref_str (p, c)) (map fst cs)" for cs :: "(string, bspec) dict"
    by (simp add: case_prod_beta comp_def)
  have "bundle_refs (y # ys) = bundle_refs (x # xs)" "disabled_refs (y # ys) = disabled_refs (x # xs)"
    using Cons.IH unfolding bundle_refs_def disabled_refs_def x y by (simp_all only: list.map prod.case concat.simps m k Cons.IH)
  moreover have "keys (y # ys) = keys (x # xs)" using Cons.IH by (simp add: x y)
  moreover have "\<forall>(q, f) \<in> set (y # ys). \<exists>e. (q, e) \<in> set (x # xs) \<and> keys (bp_channels f) = keys (bp_channels e)"
    using Cons.IH k(1) by (force simp: x y)
  ultimately show ?case by blast
qed (simp add: bundle_refs_def disabled_refs_def)

lemma resolve_fit:
  assumes "resolve_token_wg cl merge d stored nd b = Inr (b', st)" "bundle_fit extra b"
  shows "bundle_fit extra b'"
proof -
  note r = resolve_decl[OF assms(1)]
  note k = prov_decl_refs[OF r[THEN conjunct1]]
  have pf: "providers_fit (bu_providers b)" using assms(2) by (simp add: bundle_fit_def)
  have "p \<in> set known \<and> slugged (bp_channels e')" if m: "(p, e') \<in> set (bu_providers b')" for p e'
  proof -
    from k m obtain e where "(p, e) \<in> set (bu_providers b)" "keys (bp_channels e') = keys (bp_channels e)" by blast
    then have "p \<in> set known" "slugged (bp_channels e)" "keys (bp_channels e') = keys (bp_channels e)"
      using pf by (auto simp: providers_fit_def)
    then show ?thesis by (simp only: slugged_def simp_thms) blast
  qed
  with pf k have "providers_fit (bu_providers b')" by (auto simp: providers_fit_def)
  then show ?thesis using assms(2) r k by (simp add: bundle_fit_def rulesets_of_def)
qed

lemma store_ok_stamp [simp]: "store_ok (stamp sid d) = store_ok d"
  by (simp add: store_ok_def stamp_def data_wf_def restrict_only_iff enabled_at_def get_chan_def channels_of_def
      distinct_ports_def port_at_def cong: option.case_cong)

lemma staged_fit:
  assumes "staged sv yaml compose cl extra t w = Inr (b, st)"
  shows "specs_wf (specs_of b)"
proof -
  from assms obtain v b0 where "validate sv compose t False False (stored_names (iw_creds w)) (extra v) v = Inr b0"
    and r: "resolve_token_wg cl True (iw_data w) (iw_creds w) (iw_nord w) b0 = Inr (b, st)"
    by (auto simp: staged_def or_refused_def split: sum.splits)
  then have "bundle_fit (extra v) b0" using validate_fit by blast
  from specs_of_wf[OF resolve_fit[OF r this]] show ?thesis .
qed

lemma import_ok:
  assumes "apply_import sv yaml compose cl now sid t w = Inr (r, w')" "store_ok (iw_data w)"
  shows "store_ok (iw_data w')"
proof -
  from assms(1) obtain b st where b: "staged sv yaml compose cl (\<lambda>_. existing_refs (iw_data w)) t w = Inr (b, st)"
    by (auto simp: apply_import_def)
  let ?m = "merge_setup (iw_os w) (specs_of b) (rulesets_of b) (br_killswitch (bu_router b)) (br_lan_direct (bu_router b))
    (br_port (bu_router b)) (iw_data w)"
  show ?thesis
  proof (cases ?m)
    case (Inl e)
    with assms(1) b show ?thesis by (simp add: apply_import_def Let_def)
  next
    case (Inr x)
    obtain s e' d' where x: "x = (s, e', d')" by (cases x)
    have "store_ok d'" using merge_setup_ok[OF _ assms(2) staged_fit[OF b]] Inr x by blast
    with assms(1) b Inr x show ?thesis by (auto simp: apply_import_def Let_def)
  qed
qed

lemma sync_ok:
  assumes "apply_sync sv yaml compose cl now sid t w = Inr (r, w')" "store_ok (iw_data w)"
  shows "store_ok (iw_data w')"
proof -
  from assms(1) obtain b st where b: "staged sv yaml compose cl (kept_refs sv (iw_data w)) t w = Inr (b, st)"
    by (auto simp: apply_sync_def)
  let ?m = "sync_setup (iw_os w) (specs_of b) (rulesets_of b) (br_killswitch (bu_router b)) (br_lan_direct (bu_router b))
    (br_port (bu_router b)) (iw_data w)"
  show ?thesis
  proof (cases ?m)
    case (Inl e)
    with assms(1) b show ?thesis by (simp add: apply_sync_def Let_def)
  next
    case (Inr x)
    obtain s e' d' where x: "x = (s, e', d')" by (cases x)
    have "store_ok d'" using sync_setup_ok[OF _ assms(2) staged_fit[OF b]] Inr x by blast
    with assms(1) b Inr x show ?thesis by (auto simp: apply_sync_def Let_def)
  qed
qed

lemma restore_ok:
  assumes "apply_restore sv yaml compose cl now sid t w = Inr (r, w')"
  shows "store_ok (iw_data w')"
proof -
  from assms obtain v b0 b st where v: "loads yaml t = Inr v" "validate sv compose t False True [] [] v = Inr b0"
    and r: "resolve_token_wg cl False (iw_data w) [] (iw_nord w) b0 = Inr (b, st)"
    by (auto simp: apply_restore_def or_refused_def split: sum.split_asm)
  from v(2) have "bundle_fit [] b" using validate_fit resolve_fit[OF r] by blast
  note f = specs_of_wf[OF this] bundle_targets_declared[OF this]
  let ?m = "restore_setup (iw_os w) (specs_of b) (rulesets_of b) (br_killswitch (bu_router b) = Some True)
      (br_lan_direct (bu_router b) \<noteq> Some False) (br_port (bu_router b)) (iw_data w)"
  show ?thesis
  proof (cases ?m)
    case (Inl e)
    with assms v r show ?thesis by (simp add: apply_restore_def or_refused_def Let_def split: store_error.splits)
  next
    case (Inr x)
    obtain e' d' where x: "x = (e', d')" by (cases x)
    have "store_ok d'" using restore_setup_ok[OF _ f] Inr x by blast
    with assms v r Inr x show ?thesis by (auto simp: apply_restore_def or_refused_def restored_world_def Let_def)
  qed
qed

text \<open>The three modes, for what they have in common.\<close>

datatype apply_mode = ImportMode | SyncMode | RestoreMode

definition applied :: "apply_mode \<Rightarrow> surroundings \<Rightarrow> (string \<Rightarrow> pyval option) \<Rightarrow> (string \<Rightarrow> ynode option) \<Rightarrow> client \<Rightarrow> int \<Rightarrow> string
    \<Rightarrow> string \<Rightarrow> iworld \<Rightarrow> (apply_failure, iworld) result" where
  "applied m sv yaml compose cl now sid t w = (case m of
     ImportMode \<Rightarrow> bindR (apply_import sv yaml compose cl now sid t w) (\<lambda>(r, w'). Inr w')
   | SyncMode \<Rightarrow> bindR (apply_sync sv yaml compose cl now sid t w) (\<lambda>(r, w'). Inr w')
   | RestoreMode \<Rightarrow> bindR (apply_restore sv yaml compose cl now sid t w) (\<lambda>(r, w'). Inr w'))"

section \<open>A demonstration\<close>

definition shop_key :: "string \<Rightarrow> string" where
  "shop_key s = s @ replicate (43 - length s) (CHR ''A'') @ ''=''"

definition shop_wg :: pyval where
  "shop_wg = PDict [(PStr ''private_key'', PStr (shop_key ''A'')), (PStr ''address'', PStr ''10.2.0.2/32''),
     (PStr ''peer'', PDict [(PStr ''public_key'', PStr (shop_key ''B'')), (PStr ''endpoint_host'', PStr ''203.0.113.7''),
        (PStr ''endpoint_port'', PInt 51820)])]"

definition shop_bundle :: pyval where
  "shop_bundle = PDict [(PStr ''kind'', PStr bundle_kind), (PStr ''bundle_version'', PInt 1),
     (PStr ''providers'', PDict [
        (PStr ''protonvpn'', PDict [(PStr ''channels'', PDict [
           (PStr ''ch'', PDict [(PStr ''country'', PStr '' Switzerland ''), (PStr ''label'', PStr ''Office''), (PStr ''wg'', shop_wg)])])]),
        (PStr ''nordvpn'', PDict [(PStr ''credential'', PDict [(PStr ''token_env'', PStr ''NORD'')]),
           (PStr ''channels'', PDict [(PStr ''us'', PDict [(PStr ''country'', PStr ''United States''), (PStr ''enabled'', PBool False)])])])]),
     (PStr ''router'', PDict [(PStr ''killswitch'', PBool True), (PStr ''lan_direct'', PBool False),
        (PStr ''rulesets'', PList [PDict [(PStr ''name'', PStr ''Work''), (PStr ''target'', PStr ''protonvpn/ch''),
           (PStr ''matchers'', PList [PStr ''mail.example.org''])],
          PDict [(PStr ''name'', PStr ''Home''), (PStr ''target'', PStr ''direct''),
           (PStr ''matchers'', PList [PStr ''example.org'', PStr ''10.0.0.0/8''])]])])]"

definition shop_around :: surroundings where
  "shop_around = \<lparr>bv_repr = (\<lambda>_. ''?''), bv_env = (\<lambda>k. if k = ''NORD'' then Some '' secret '' else None),
     bv_file = (\<lambda>_. CannotRead), bv_places = (\<lambda>_. None)\<rparr>"

definition shop_client :: client where
  "shop_client = \<lparr>cl_net = (\<lambda>_ _. NetError ''offline''), cl_loads = (\<lambda>_. None), cl_b64 = id, cl_now = 0, cl_later = 0,
     cl_country = (\<lambda>_. [])\<rparr>"

definition shop_os :: os where
  "shop_os = \<lparr>os_base = None, os_free = (\<lambda>_. True), os_eph = (\<lambda>n. 40000 + int n), os_pos = 0\<rparr>"

definition bare_world :: iworld where
  "bare_world = \<lparr>iw_data = blank, iw_creds = [], iw_db = fresh_db, iw_os = shop_os, iw_nord = \<lparr>nd_countries = None, nd_servers = []\<rparr>\<rparr>"

definition shop_restore :: "pyval \<Rightarrow> iworld \<Rightarrow> (apply_failure, settling \<times> iworld) result" where
  "shop_restore v w = apply_restore shop_around (\<lambda>_. Some v) (\<lambda>_. None) shop_client 7 ''s1'' ''x'' w"

definition shop_world :: iworld where
  "shop_world = (case shop_restore shop_bundle bare_world of Inr (s, w) \<Rightarrow> w | Inl e \<Rightarrow> bare_world)"

text \<open>The demonstration setup is what a restore made, so it satisfies the invariant.\<close>

lemma shop_restored: "returned (shop_restore shop_bundle bare_world)"
  by code_simp

lemma shop_ok: "store_ok (iw_data shop_world)"
proof -
  obtain st w where "shop_restore shop_bundle bare_world = Inr (st, w)" using shop_restored by (metis returnedE surj_pair)
  then show ?thesis using restore_ok by (simp add: shop_world_def shop_restore_def)
qed

section \<open>Applying\<close>

text \<open>Whatever text is applied to a setup, in whatever mode and whatever the provider answers, the
  invariant of the store survives: a bundle that passes validation and resolution leads to a store
  whose rule targets exist and are enabled, whose ports are distinct and whose rule table is made of
  contiguous rulesets. A restore even builds such a store from any state. So the validation asks for
  all that the commits take for granted.\<close>

theorem applied_bundle_keeps_invariant:
  assumes "applied m sv yaml compose cl now sid t w = Inr w'" "store_ok (iw_data w)"
  shows "store_ok (iw_data w')"
  using assms by (cases m) (auto simp: applied_def intro: import_ok[OF _ assms(2)] sync_ok[OF _ assms(2)] restore_ok)

theorem applied_bundle_keeps_invariant_witness:
  "\<exists>w. applied SyncMode shop_around (\<lambda>_. Some shop_bundle) (\<lambda>_. None) shop_client 7 ''s1'' ''x'' shop_world = Inr w
     \<and> length (rules_of (iw_data w)) = 6 \<and> store_ok (iw_data w)"
proof -
  let ?r = "applied SyncMode shop_around (\<lambda>_. Some shop_bundle) (\<lambda>_. None) shop_client 7 ''s1'' ''x'' shop_world"
  have l: "case ?r of Inl e \<Rightarrow> False | Inr w \<Rightarrow> length (rules_of (iw_data w)) = 6" by code_simp
  then obtain w where w: "?r = Inr w" by (auto split: sum.splits)
  from applied_bundle_keeps_invariant[OF w shop_ok] l w show ?thesis by auto
qed

section \<open>Pins and the network\<close>

lemma pinned_hostname:
  assumes "resolve_with net rd now later key country city (Pin h) nd = (Inr w, nd')" "nordvpn_server_name h = Inr h" "h \<noteq> []"
  shows "get_str (get_obj w ''peer'') ''hostname'' = h"
proof -
  obtain r nd1 where r: "nord_lookup net rd now later h nd = (r, nd1)" by (metis surj_pair)
  with assms(1) obtain e where e: "r = Inr e"
    by (cases r) (auto simp: resolve_with_def nordvpn_resolve_server_def)
  have "se_hostname e = h" using nord_lookup_name[OF r[unfolded e]] assms(2) by simp
  then show ?thesis using assms(1,3) r e
    by (auto simp: resolve_with_def nordvpn_resolve_server_def wg_of_peer_def get_str_def get_obj_def)
qed

lemma pinned_resolved:
  assumes "pinned_wg cl p c creds sp s = Inr (Resolved, sp', s')" "nordvpn_server_name (sp_server sp) = Inr (sp_server sp)" "sp_server sp \<noteq> []"
  shows "\<exists>w. sp_wg sp' = Some w \<and> get_str (get_obj w ''peer'') ''hostname'' = sp_server sp"
proof -
  obtain x s1 where f: "fresh_wg cl p creds (sp_country sp) (sp_city sp) (Pin (sp_server sp)) s = (x, s1)" by (metis surj_pair)
  with assms(1) obtain w where w: "x = Inr w" "sp' = sp\<lparr>sp_wg := Some w\<rparr>"
    by (auto simp: pinned_wg_def split: sum.split_asm provider_error.split_asm if_splits)
  from f w(1) obtain net rd now later key nd nd' where
    "resolve_with net rd now later key (sp_country sp) (sp_city sp) (Pin (sp_server sp)) nd = (Inr w, nd')"
    by (auto simp: fresh_wg_def Let_def split: prod.split_asm sum.split_asm)
  from pinned_hostname[OF this assms(2,3)] w(2) show ?thesis by simp
qed

text \<open>A pinned channel is never moved: when an apply resolved it anew, the parameters it carries are those
  of exactly the server it is pinned to, whatever else the provider recommends.\<close>

theorem pin_is_honored:
  assumes "resolve_pinned cl merge p c creds ex sp s = Inr (Resolved, sp', s')"
    and "server_name p (sp_server sp) = Inr (sp_server sp)" "sp_server sp \<noteq> []"
  shows "\<exists>w. sp_wg sp' = Some w \<and> get_str (get_obj w ''peer'') ''hostname'' = sp_server sp"
proof -
  have n: "nordvpn_server_name (sp_server sp) = Inr (sp_server sp)" using assms(2) by (simp add: server_name_def split: if_splits)
  obtain r nd where l: "nordvpn_lookup_server (cl_net cl) (cl_loads cl) (cl_now cl) (cl_later cl) (sp_server sp) (st_nord s) = (r, nd)"
    by (metis surj_pair)
  let ?k = "case ex of Some ch \<Rightarrow> if keeps_pin sp ch then Some ch else None | None \<Rightarrow> None"
  note d = assms(1)[unfolded resolve_pinned_def Let_def l prod.case]
  have "?k = None" using d by (cases ?k) simp_all
  note d1 = d[unfolded this option.case]
  then obtain found where "r = Inr found"
    by (cases r) (auto split: provider_error.splits if_splits)
  with d1 obtain sp1 s1 where "pinned_wg cl p c creds sp1 s1 = Inr (Resolved, sp', s')" "sp_server sp1 = sp_server sp"
    by (fastforce split: if_splits)
  from pinned_resolved[OF this(1)] this(2) n assms(3) show ?thesis by simp
qed

definition pin_spec :: bspec where
  "pin_spec = \<lparr>sp_country = [], sp_city = [], sp_label = [], sp_server = ''de9.nordvpn.com'', sp_wg = None, sp_port = 0,
     sp_enabled = None, bs_any_city = False\<rparr>"

text \<open>A provider client whose caches are warm: nothing is asked of the network.\<close>

definition warm_settling :: settling where
  "warm_settling = \<lparr>st_resolvers = [(''nordvpn'', Inr ''pk'')], st_nord = \<lparr>nd_countries = Some (0, [demo_country]),
     nd_servers = [((PInt 81, None), 0, [\<lparr>se_hostname = ''de9.nordvpn.com'', se_country = ''Germany'', se_city = ''Berlin'',
       se_load = None, se_host = ''1.2.3.4'', se_key = ''k''\<rparr>])]\<rparr>, st_resolved = [], st_fallback = []\<rparr>"

theorem pin_is_honored_witness:
  "\<exists>sp' s' w. resolve_pinned shop_client True ''nordvpn'' ''de'' [(''token'', ''t'')] None pin_spec warm_settling = Inr (Resolved, sp', s')
     \<and> sp_wg sp' = Some w \<and> get_str (get_obj w ''peer'') ''hostname'' = ''de9.nordvpn.com''"
proof -
  let ?r = "resolve_pinned shop_client True ''nordvpn'' ''de'' [(''token'', ''t'')] None pin_spec warm_settling"
  have "case ?r of Inl e \<Rightarrow> False | Inr (x, y) \<Rightarrow> x = Resolved" by code_simp
  then obtain sp' s' where r: "?r = Inr (Resolved, sp', s')" by (auto split: sum.splits)
  have n: "server_name ''nordvpn'' (sp_server pin_spec) = Inr (sp_server pin_spec)" "sp_server pin_spec \<noteq> []" by code_simp+
  have "sp_server pin_spec = ''de9.nordvpn.com''" by (simp add: pin_spec_def)
  with pin_is_honored[OF r n] r show ?thesis by auto
qed

text \<open>A channel whose parameters are settled without the provider: it is there already, on its server or
  at its place, or it follows its place and is to stay off.\<close>

definition settled_here :: "bool \<Rightarrow> data \<Rightarrow> string \<Rightarrow> string \<times> bspec \<Rightarrow> bool" where
  "settled_here merge d p x = (case x of (c, sp) \<Rightarrow>
     (case get_channel d p c of
        None \<Rightarrow> False
      | Some ch \<Rightarrow> if sp_server sp \<noteq> [] then keeps_pin sp ch
          else c_wg ch \<noteq> [] \<and> c_country ch = sp_country sp \<and> c_city ch = sp_city sp)
     \<or> (sp_server sp = [] \<and> \<not> wants_on merge sp (get_channel d p c)))"

lemma settle_channel_offline:
  assumes "settled_here merge d p x"
  shows "settle_channel cl merge d p creds x st = settle_channel cl' merge d p creds x st"
  using assms
  by (cases x; cases "get_channel d p (fst x)")
     (auto simp: settle_channel_def settled_here_def resolve_located_def resolve_pinned_def Let_def split: prod.split if_splits)

lemma foldR_cong: "(\<And>x s. x \<in> set xs \<Longrightarrow> f x s = g x s) \<Longrightarrow> foldR f xs s = foldR g xs s"
  by (induction xs arbitrary: s) (auto intro: bindR_cong)

text \<open>Applying again what is already there asks nobody: when every channel of the token providers is
  settled in the present setup, or stays off without a pin, the outcome of the resolution does not
  depend on the network, the clock or the provider's account, so nothing was asked of them.\<close>

theorem settled_channels_need_no_network:
  assumes "\<forall>(p, e) \<in> set (bu_providers b). is_token_provider p \<longrightarrow> (\<forall>x \<in> set (bp_channels e). settled_here merge d p x)"
  shows "resolve_token_wg cl merge d stored nd b = resolve_token_wg cl' merge d stored nd b"
proof -
  have "settle_provider cl merge d stored x st = settle_provider cl' merge d stored x st" if x: "x \<in> set (bu_providers b)" for x st
  proof (cases "is_token_provider (fst x)")
    case True
    have "\<forall>y \<in> set (bp_channels (snd x)). settled_here merge d (fst x) y" using assms x True by (cases x) auto
    then have "foldR (settle_channel cl merge d (fst x) creds) (bp_channels (snd x)) s
        = foldR (settle_channel cl' merge d (fst x) creds) (bp_channels (snd x)) s" for creds s
      by (intro foldR_cong settle_channel_offline) auto
    then show ?thesis by (cases x; cases st) (simp add: settle_provider_def)
  qed (cases x; cases st; simp add: settle_provider_def)
  then have "foldR (settle_provider cl merge d stored) (bu_providers b) st = foldR (settle_provider cl' merge d stored) (bu_providers b) st" for st
    by (intro foldR_cong) auto
  then show ?thesis by (simp add: resolve_token_wg_def)
qed

definition quiet_bundle :: setup_bundle where
  "quiet_bundle = \<lparr>bu_providers = [(''nordvpn'', \<lparr>bp_credential = None,
     bp_channels = [(''us'', pin_spec\<lparr>sp_server := [], sp_country := ''United States'', sp_enabled := Some False\<rparr>)]\<rparr>)],
     bu_router = unstated_router\<rparr>"

theorem settled_channels_need_no_network_witness:
  "resolve_token_wg (shop_client\<lparr>cl_now := 99\<rparr>) True (iw_data shop_world) [] (st_nord warm_settling) quiet_bundle
     = resolve_token_wg shop_client True (iw_data shop_world) [] (st_nord warm_settling) quiet_bundle"
  by (rule settled_channels_need_no_network)
     (simp add: quiet_bundle_def settled_here_def wants_on_def)

end
