(* ===== verification/Spec2Isabelle.thy ===== *)
theory Spec2Isabelle
  imports Srs StoreProps Shadow Metrics Txn Auth Tracer Daemon WgConf Backup
begin

text \<open>
  anyhop (\<open>src/src/anyhop/\<close>) is a multi-VPN client. It keeps a store of VPN providers, WireGuard channels
  and routing rules, compiles the store into the configuration of one engine process (sing-box), and
  runs a daemon that keeps the engine, its ports and its servers alive. This library models the code
  that decides, theory by theory, and proves what each part promises.

  \<^bold>\<open>The parts and how they meet.\<close> The command line, the web API and the service layer call operations of
  the store (\<open>state.py\<close>); each is one transaction on \<open>state.json\<close>. The daemon's loop (\<open>daemon.py\<close>) sees the
  store's revision change and calls \<open>Engine.reconcile\<close> (\<open>engine.py\<close>), which compiles the store, hands the
  configuration to the process runner (\<open>singbox.py\<close>, \<open>proc.py\<close>) and moves ports that other processes
  took. A probe pass writes each channel's health back into the store, and a reconnect pass
  (\<open>reconnect.py\<close>) asks the provider client (\<open>providers.py\<close>) for other servers. The tracer (\<open>tracer.py\<close>)
  and the lint (\<open>routes.py\<close>) answer questions about the rule table without the engine; both read binary
  rule sets through \<open>srs.py\<close>, which \<open>geodata.py\<close> fetches and caches.

  \<^bold>\<open>Theories and sources.\<close>
  \<^item> \<open>Prelude\<close>: results (a raise is \<open>Inl\<close>), dictionaries in insertion order, Python's string methods on
    the code points below 256, decimal text. \<open>Json\<close>: JSON values compared as Python compares them.
    \<open>IpAddr\<close>: the standard library's \<open>ipaddress\<close> as far as the sources use it.
  \<^item> \<open>Srs\<close> (\<open>srs.py\<close>): varints, succinct domain trie, IP ranges, the rule tree, \<open>parse\<close> and \<open>match\<close>.
  \<^item> \<open>State\<close>, \<open>Ports\<close>, \<open>Rulesets\<close>, \<open>Channels\<close>, \<open>Setup\<close> (\<open>state.py\<close>): the records \<open>prov\<close>, \<open>chan\<close>, \<open>rule\<close> and
    \<open>data\<close> are the raw dictionaries of the state file; each operation is the body of its transaction as
    a function from \<open>data\<close> to a result, and \<open>os\<close> is the sequence of ports the system hands out.
    \<open>Store\<close>: one step rule per operation. \<open>StoreInv\<close>, \<open>SetupInv\<close>: the invariant (distinct ports, contiguous
    rulesets with unique ids, every target present and enabled) and its preservation, by the locale
    \<open>port_table\<close> for the ports. \<open>Converge\<close>, \<open>StoreProps\<close>: what commits leave behind, field by field, and the
    promises for every reachable store.
  \<^item> \<open>Persist\<close> (\<open>credentials.py\<close>, file reading in \<open>state.py\<close>), \<open>Txn\<close> (\<open>txn.py\<close>): generations of files,
    quarantine, the schema check, the journal and recovery after a stop at any write.
  \<^item> \<open>Routes\<close> (\<open>routes.py\<close>): reading matchers and targets, matching, covering and the cover index.
    \<open>Shadow\<close>: the index finds what the scan of all pairs finds (locale \<open>first_match\<close>), and a shadowed
    rule decides nothing.
  \<^item> \<open>Geodata\<close> (\<open>geodata.py\<close>): sources, content-addressed cache, refresh, pruning.
  \<^item> \<open>Engine\<close> (\<open>engine.py\<close>, compiler): a route rule is a record of its matcher fields. \<open>Policy\<close>: the policy
    a user states (first matching rule, home bypasses, kill switch, no IPv6 over a channel without it)
    and the theorem that the generated table makes the engine follow it. \<open>Tracer\<close> (\<open>tracer.py\<close>): the DNS
    client, destinations, the walk over the table, and its agreement with the engine.
  \<^item> \<open>Runner\<close> (\<open>singbox.py\<close>, \<open>proc.py\<close>): process identity, whether by the pidfile or by the privileged helper's
    answer, reaping, start, stop, restart and apply. \<open>Reconcile\<close>
    (\<open>engine.py\<close>, reconcile and probe pass), \<open>Daemon\<close> (\<open>daemon.py\<close>): the tick of the loop, supervision with
    back-off, the upgrade lease, start and stop decisions. \<open>Reconnect\<close> (\<open>reconnect.py\<close>), \<open>Providers\<close>
    (\<open>providers.py\<close>), \<open>Metrics\<close> (\<open>metrics.py\<close>), \<open>Auth\<close> (\<open>api/auth.py\<close> and the revocation record of
    \<open>api/server.py\<close>), \<open>WgConf\<close> (\<open>wgconf.py\<close>).
  \<^item> \<open>Bundle\<close> (\<open>bundle.py\<close>, reading and writing): a check is a value and the problems found on the way, so
    that one pass reports all of them; the lines and repeated keys of the YAML tree; the export.
    \<open>Apply\<close> (\<open>bundle.py\<close>, applying): token channels are settled against the provider client, then
    \<open>import\<close>, \<open>sync\<close> and \<open>restore\<close> commit through \<open>Setup\<close> and adjust \<open>Metrics\<close>. \<open>BundleSafe\<close>: what validation and
    resolution promise to the commits. \<open>Backup\<close>: an export validates, and a restore of it brings the
    setup back.

  \<^bold>\<open>Groups of lemmas.\<close> Invariants by rule induction over the steps of the store; refinements (table and
  policy, ruleset rows and blocks, transaction and its two outcomes); equivalences (index and scan,
  tracer and engine); round trips (configuration files, bundles, DNS replies, rank and select); bounds and
  rationing of retries; what each raise leaves behind.

  \<^bold>\<open>Loops, fuel and bounds.\<close> \<open>read_rule\<close> in \<open>Srs\<close> has fuel, the length of the input suffices
  (\<open>read_rule_fuel\<close>); the walk of the trie and the bit search of \<open>_select1\<close> return on everything \<open>parse\<close>
  accepts (\<open>parsed_match_returns\<close>). \<open>suffix_from\<close> has as many tries as there are taken ids, plus one
  (\<open>suffix_from_enough\<close>). The search for an ephemeral port is bounded by the code itself. The daemon's
  loop is a fold over the ticks' inputs. Integers of the wire formats keep their width; Python's own
  integers are unbounded, floats are rationals except where overflow is the point.

  \<^bold>\<open>Parameters.\<close> Not under \<open>src/\<close> and therefore arguments: the matching engine (\<open>obeys\<close>: it takes the
  first route rule that matches, else the final outbound, as its documentation says), its
  configuration check, the network, zlib, regular expressions of rule sets, SHA-256 and HMAC, the JSON
  and YAML readers, the environment and the files that a bundle's credential may name, the location
  catalogue and the country names of \<open>geo.py\<close>, clocks, nonces, the process table and signals.

  \<^bold>\<open>Not modelled.\<close> \<open>service.py\<close>, \<open>cli.py\<close>, \<open>api/server.py\<close> routing and \<open>output.py\<close>: orchestration, argument
  parsing, HTTP and rendering over the operations above. \<open>upgrade.py\<close>, \<open>helper.py\<close>, \<open>helperctl.py\<close>,
  \<open>daemonctl.py\<close>, \<open>runtime.py\<close>, \<open>fsio.py\<close> (but for generations), \<open>applog.py\<close>, \<open>paths.py\<close>: operating system calls.
  \<open>locations.py\<close>, \<open>geo.py\<close>: a disk cache and a name table. \<open>backup.py\<close>: files copied and pruned;
  their content is the export of \<open>Bundle\<close>. \<open>probe.py\<close>, \<open>throughput.py\<close>: timed requests, whose results are
  inputs of the models. The commit of an applied bundle is one step in \<open>Apply\<close>; a stop inside it is the
  subject of \<open>Txn\<close>. Locks appear as the order of the steps; messages and log
  lines are left out; the texts of errors are constructors.
\<close>

end
